(* ===== verification/Prelude.thy ===== *)
theory Prelude
  imports Main "HOL-Library.Word" "HOL-Library.Signed_Division" "HOL-Library.Multiset"
begin

text \<open>
  Shared vocabulary of the development: the fact collections, Go's machine
  integers, the scanning loops that several balancers share, and streams as the
  source of what the environment decides (clock readings, random draws).
\<close>

named_theorems frame_simps \<open>what an operation leaves unchanged\<close>
named_theorems inv_intros \<open>preservation of the heap invariant\<close>

section \<open>Machine integers\<close>

text \<open>
  Go's \<open>int\<close> and \<open>int64\<close> are 64 bits wide.  Values that stay far from the limits
  are modelled by \<^typ>\<open>int\<close>; \<open>wrap64\<close> is applied where a product or a difference
  of the source can leave the range.
\<close>

type_synonym int32 = "32 word"
type_synonym uint32 = "32 word"

definition MaxInt64 :: int where
  "MaxInt64 = 2 ^ 63 - 1"

definition MinInt64 :: int where
  "MinInt64 = - (2 ^ 63)"

definition wrap64 :: "int \<Rightarrow> int" where
  "wrap64 i = (i + 2 ^ 63) mod 2 ^ 64 - 2 ^ 63"

lemma wrap64_id: "MinInt64 \<le> i \<Longrightarrow> i \<le> MaxInt64 \<Longrightarrow> wrap64 i = i"
  by (simp add: wrap64_def MinInt64_def MaxInt64_def)

lemma wrap64_range: "MinInt64 \<le> wrap64 i \<and> wrap64 i \<le> MaxInt64"
  using pos_mod_bound[of "2 ^ 64" "i + 2 ^ 63"] pos_mod_sign[of "2 ^ 64" "i + 2 ^ 63"]
  by (simp add: wrap64_def MinInt64_def MaxInt64_def)

lemma sint32_range: "- (2 ^ 31) \<le> sint (x :: int32) \<and> sint x < 2 ^ 31"
  using sint_range_size[of x] by (simp add: word_size)

lemma sint32_of_int: "- (2 ^ 31) \<le> i \<Longrightarrow> i < 2 ^ 31 \<Longrightarrow> sint (word_of_int i :: int32) = i"
  by (simp add: sint_sbintrunc' signed_take_bit_int_eq_self)

section \<open>Scanning loops\<close>

text \<open>
  The loop \<open>if selected == nil || score < bestScore\<close>: the first element with the
  least score, \<open>None\<close> only for the empty list.
\<close>

fun scan_best :: "('b \<Rightarrow> 'c::linorder) \<Rightarrow> ('b \<times> 'c) option \<Rightarrow> 'b list \<Rightarrow> ('b \<times> 'c) option" where
  "scan_best f acc [] = acc"
| "scan_best f acc (x # xs) =
     scan_best f (case acc of None \<Rightarrow> Some (x, f x)
                  | Some (b, m) \<Rightarrow> if f x < m then Some (x, f x) else acc) xs"

lemma scan_best_Some:
  "scan_best f (Some (b, f b)) xs = Some (r, m) \<Longrightarrow>
     m = f r \<and> r \<in> insert b (set xs) \<and> (\<forall>y \<in> insert b (set xs). f r \<le> f y)"
  by (induction xs arbitrary: b) (force split: if_splits)+

lemma scan_best_exists: "\<exists>r. scan_best f (Some a) xs = Some r"
  by (induction xs arbitrary: a) (auto split: prod.splits)

lemma scan_best_None_iff: "scan_best f None xs = None \<longleftrightarrow> xs = []"
proof (cases xs)
  case (Cons y ys)
  then show ?thesis using scan_best_exists[of f "(y, f y)" ys] by auto
qed simp

lemma scan_best_min:
  assumes "scan_best f None xs = Some (r, m)"
  shows "m = f r" and "r \<in> set xs" and "\<And>y. y \<in> set xs \<Longrightarrow> f r \<le> f y"
  using assms by (cases xs; auto dest!: scan_best_Some)+

text \<open>
  Walking a list of intervals of lengths \<open>w\<close> to the one that holds \<open>r\<close>: each element is
  hit by exactly as many \<open>r\<close> as its interval is long.
\<close>

fun interval_find :: "('b \<Rightarrow> int) \<Rightarrow> int \<Rightarrow> 'b list \<Rightarrow> 'b option" where
  "interval_find w r [] = None"
| "interval_find w r (b # bs) = (if r < w b then Some b else interval_find w (r - w b) bs)"

lemma interval_find_mem: "interval_find w r bs = Some b \<Longrightarrow> b \<in> set bs"
  by (induction bs arbitrary: r) (auto split: if_splits)

lemma interval_find_total: "0 \<le> r \<Longrightarrow> r < (\<Sum>b\<leftarrow>bs. w b) \<Longrightarrow> \<exists>b. interval_find w r bs = Some b"
  by (induction bs arbitrary: r) auto

lemma interval_find_card:
  assumes "distinct bs" and "\<And>b. b \<in> set bs \<Longrightarrow> 0 \<le> w b" and "x \<in> set bs"
  shows "card {r. 0 \<le> r \<and> r < (\<Sum>b\<leftarrow>bs. w b) \<and> interval_find w r bs = Some x} = nat (w x)"
  using assms
proof (induction bs)
  case (Cons b bs)
  let ?S = "(\<Sum>b\<leftarrow>bs. w b)"
  have S: "0 \<le> ?S" using Cons.prems(2) by (intro sum_list_nonneg) auto
  have wb: "0 \<le> w b" using Cons.prems(2) by simp
  show ?case
  proof (cases "x = b")
    case True
    then have "b \<notin> set bs" using Cons.prems(1) by simp
    then have "{r. 0 \<le> r \<and> r < (\<Sum>b\<leftarrow>b # bs. w b) \<and> interval_find w r (b # bs) = Some x} = {0..<w b}"
      using S True by (auto dest: interval_find_mem split: if_splits)
    then show ?thesis using True by simp
  next
    case False
    then have x: "x \<in> set bs" using Cons.prems(3) by simp
    have "{r. 0 \<le> r \<and> r < (\<Sum>b\<leftarrow>b # bs. w b) \<and> interval_find w r (b # bs) = Some x} =
          (\<lambda>r. r + w b) ` {r. 0 \<le> r \<and> r < ?S \<and> interval_find w r bs = Some x}" (is "?L = ?R")
    proof (intro set_eqI iffI)
      fix r assume "r \<in> ?L"
      then have "r - w b \<in> {r. 0 \<le> r \<and> r < ?S \<and> interval_find w r bs = Some x}"
        using False by (auto split: if_splits)
      then show "r \<in> ?R" by (rule image_eqI[rotated]) simp
    qed (use wb False in auto)
    then show ?thesis using Cons x by (simp add: card_image inj_on_def)
  qed
qed simp

section \<open>Streams\<close>

text \<open>
  A stream is a function from positions; reading takes its head and keeps the rest.
\<close>

type_synonym 'x strm = "nat \<Rightarrow> 'x"

definition shd' :: "'x strm \<Rightarrow> 'x" where
  "shd' f = f 0"

definition stl' :: "'x strm \<Rightarrow> 'x strm" where
  "stl' f = (\<lambda>n. f (Suc n))"

section \<open>Lists\<close>

lemma filter_cong_on: "(\<And>x. x \<in> set xs \<Longrightarrow> P x = Q x) \<Longrightarrow> filter P xs = filter Q xs"
  by (induction xs) auto

lemma sum_list_pos_ex:
  fixes f :: "'b \<Rightarrow> int"
  shows "0 < (\<Sum>x\<leftarrow>xs. f x) \<Longrightarrow> \<exists>x \<in> set xs. 0 < f x"
  by (induction xs) force+

lemma map_mod_rotate: "map (\<lambda>i. (c + i) mod n) [0..<n] = rotate c [0..<n]"
  by (rule nth_equalityI) (auto simp: nth_rotate)

lemma mset_map_mod: "mset (map (\<lambda>i. (c + i) mod n) [0..<n]) = mset [0..<n]"
  unfolding map_mod_rotate by (rule set_eq_iff_mset_eq_distinct[THEN iffD1]) auto

lemma subset_same_length_set_eq:
  assumes "distinct ys" and "set ys \<subseteq> set xs" and "length xs = length ys"
  shows "set ys = set xs"
proof -
  have "card (set xs) \<le> length xs" by (rule card_length)
  moreover have "card (set ys) = length ys" using assms(1) by (rule distinct_card)
  moreover have "card (set ys) \<le> card (set xs)" using assms(2) by (intro card_mono) auto
  ultimately have "card (set ys) = card (set xs)" using assms(3) by simp
  then show ?thesis using assms(2) by (intro card_subset_eq) auto
qed

end
