(* ===== verification/GoTime.thy ===== *)
theory GoTime
  imports Prelude
begin

text \<open>
  Go's \<open>time\<close> package as the sources use it.  A \<open>time.Time\<close> is the number of
  nanoseconds since the zero time (January 1, year 1, UTC), so the zero value is
  \<open>0\<close>; a \<open>time.Duration\<close> is a number of nanoseconds that fits an \<open>int64\<close>.
\<close>

type_synonym time = int
type_synonym duration = int

definition Nanosecond :: duration where "Nanosecond = 1"
definition Microsecond :: duration where "Microsecond = 1000"
definition Millisecond :: duration where "Millisecond = 1000000"
definition Second :: duration where "Second = 1000000000"
definition Minute :: duration where "Minute = 60 * Second"

text \<open>\<open>t.Sub(u)\<close> saturates at the limits of a duration.\<close>

definition time_Sub :: "time \<Rightarrow> time \<Rightarrow> duration" where
  "time_Sub t u = max MinInt64 (min MaxInt64 (t - u))"

definition time_Add :: "time \<Rightarrow> duration \<Rightarrow> time" where
  "time_Add t d = t + d"

definition time_Before :: "time \<Rightarrow> time \<Rightarrow> bool" where
  "time_Before t u \<longleftrightarrow> t < u"

definition time_IsZero :: "time \<Rightarrow> bool" where
  "time_IsZero t \<longleftrightarrow> t = 0"

text \<open>The zero time lies 62135596800 seconds before the Unix epoch.\<close>

definition unix_epoch :: time where
  "unix_epoch = 62135596800 * Second"

definition time_Unix :: "time \<Rightarrow> int" where
  "time_Unix t = (t - unix_epoch) div Second"

definition time_UnixMicro :: "time \<Rightarrow> int" where
  "time_UnixMicro t = (t - unix_epoch) div Microsecond"

definition time_UnixNano :: "time \<Rightarrow> int" where
  "time_UnixNano t = wrap64 (t - unix_epoch)"

lemma time_Sub_mono: "t \<le> t' \<Longrightarrow> time_Sub t u \<le> time_Sub t' u"
  by (auto simp: time_Sub_def)

lemma time_Sub_nonneg: "u \<le> t \<Longrightarrow> 0 \<le> time_Sub t u"
  by (auto simp: time_Sub_def MaxInt64_def MinInt64_def)

lemma time_Sub_ge_iff:
  "MinInt64 < d \<Longrightarrow> d \<le> MaxInt64 \<Longrightarrow> d \<le> time_Sub t u \<longleftrightarrow> d \<le> t - u"
  by (auto simp: time_Sub_def MinInt64_def MaxInt64_def)

lemma time_Sub_less_iff:
  "MinInt64 < d \<Longrightarrow> d \<le> MaxInt64 \<Longrightarrow> time_Sub t u < d \<longleftrightarrow> t - u < d"
  by (auto simp: time_Sub_def MinInt64_def MaxInt64_def)

lemma time_Sub_gt_iff:
  "MinInt64 \<le> d \<Longrightarrow> d < MaxInt64 \<Longrightarrow> d < time_Sub t u \<longleftrightarrow> d < t - u"
  by (auto simp: time_Sub_def MinInt64_def MaxInt64_def)

end
