(* ===== verification/Backend.thy ===== *)
theory Backend
  imports GoTime
begin

text \<open>
  \<open>internal/balancer/balancer.go\<close>: the \<open>Backend\<close> objects, the \<open>BaseBalancer\<close> every
  algorithm embeds, and the \<open>Balancer\<close> interface.

  A \<open>*Backend\<close> is an address into the heap, and so is a pointer to a balancer object;
  pointer equality of the source is equality of addresses.  An interface value of the
  source is the record of the methods it dispatches to; an optional capability that
  the source discovers by a type assertion is an option field.
\<close>

type_synonym bid = nat
type_synonym addr = nat

section \<open>Backends\<close>

record backend_config =
  cfg_URL :: string
  cfg_Weight :: int
  cfg_MaxConns :: int
  cfg_Zone :: string
  cfg_Tier :: int

record backend =
  be_URL :: string
  be_weight :: int32
  be_MaxConns :: int
  be_healthy :: bool
  be_ActiveConns :: int32
  be_Failures :: int32
  be_Successes :: int32
  be_Zone :: string
  be_Tier :: int

definition NewBackend :: "backend_config \<Rightarrow> backend" where
  "NewBackend cfg =
     \<lparr>be_URL = cfg_URL cfg, be_weight = word_of_int (cfg_Weight cfg),
      be_MaxConns = cfg_MaxConns cfg, be_healthy = True, be_ActiveConns = 0,
      be_Failures = 0, be_Successes = 0, be_Zone = cfg_Zone cfg, be_Tier = cfg_Tier cfg\<rparr>"

record base_balancer =
  bb_backends :: "bid list"
  bb_gen :: nat
  bb_cachedHealthy :: "bid list"
  bb_cacheEpoch :: nat
  bb_cacheGen :: nat
  bb_cacheValid :: bool

text \<open>
  The heap: the backends, the process-wide \<open>healthEpoch\<close>, and the \<open>BaseBalancer\<close>
  part of every balancer object.  Components that keep more state extend the record,
  so the operations here work on every extension.  The two 64-bit counters are
  unbounded: they would wrap after \<open>2 ^ 64\<close> flips of a flag.
\<close>

record heap =
  h_be :: "bid \<Rightarrow> backend"
  h_epoch :: nat
  h_base :: "addr \<Rightarrow> base_balancer"

definition upd_be :: "bid \<Rightarrow> (backend \<Rightarrow> backend) \<Rightarrow> 'a heap_scheme \<Rightarrow> 'a heap_scheme" where
  "upd_be b f s = s\<lparr>h_be := (h_be s)(b := f (h_be s b))\<rparr>"

definition GetWeight :: "'a heap_scheme \<Rightarrow> bid \<Rightarrow> int" where
  "GetWeight s b = sint (be_weight (h_be s b))"

definition SetWeight :: "bid \<Rightarrow> int \<Rightarrow> 'a heap_scheme \<Rightarrow> 'a heap_scheme" where
  "SetWeight b w s = upd_be b (\<lambda>x. x\<lparr>be_weight := word_of_int w\<rparr>) s"

definition IsHealthy :: "'a heap_scheme \<Rightarrow> bid \<Rightarrow> bool" where
  "IsHealthy s b = be_healthy (h_be s b)"

definition SetHealthy :: "bid \<Rightarrow> bool \<Rightarrow> 'a heap_scheme \<Rightarrow> 'a heap_scheme" where
  "SetHealthy b v s =
     (let old = be_healthy (h_be s b); s' = upd_be b (\<lambda>x. x\<lparr>be_healthy := v\<rparr>) s
      in if old \<noteq> v then s'\<lparr>h_epoch := h_epoch s' + 1\<rparr> else s')"

definition IncrConn :: "bid \<Rightarrow> 'a heap_scheme \<Rightarrow> 'a heap_scheme" where
  "IncrConn b s = upd_be b (\<lambda>x. x\<lparr>be_ActiveConns := be_ActiveConns x + 1\<rparr>) s"

definition DecrConn :: "bid \<Rightarrow> 'a heap_scheme \<Rightarrow> 'a heap_scheme" where
  "DecrConn b s = upd_be b (\<lambda>x. x\<lparr>be_ActiveConns := be_ActiveConns x - 1\<rparr>) s"

definition GetActiveConns :: "'a heap_scheme \<Rightarrow> bid \<Rightarrow> int" where
  "GetActiveConns s b = sint (be_ActiveConns (h_be s b))"

definition RecordSuccess :: "bid \<Rightarrow> 'a heap_scheme \<Rightarrow> 'a heap_scheme" where
  "RecordSuccess b s =
     upd_be b (\<lambda>x. x\<lparr>be_Failures := 0, be_Successes := be_Successes x + 1\<rparr>) s"

definition RecordFailure :: "bid \<Rightarrow> 'a heap_scheme \<Rightarrow> 'a heap_scheme" where
  "RecordFailure b s =
     upd_be b (\<lambda>x. x\<lparr>be_Failures := be_Failures x + 1, be_Successes := 0\<rparr>) s"

definition GetFailures :: "'a heap_scheme \<Rightarrow> bid \<Rightarrow> int" where
  "GetFailures s b = sint (be_Failures (h_be s b))"

definition GetSuccesses :: "'a heap_scheme \<Rightarrow> bid \<Rightarrow> int" where
  "GetSuccesses s b = sint (be_Successes (h_be s b))"

section \<open>BaseBalancer\<close>

definition BB_Add :: "addr \<Rightarrow> bid \<Rightarrow> 'a heap_scheme \<Rightarrow> 'a heap_scheme" where
  "BB_Add a b s = s\<lparr>h_base := (h_base s)(a := (h_base s a)
     \<lparr>bb_backends := bb_backends (h_base s a) @ [b], bb_gen := bb_gen (h_base s a) + 1\<rparr>)\<rparr>"

definition BB_Remove :: "addr \<Rightarrow> bid \<Rightarrow> 'a heap_scheme \<Rightarrow> 'a heap_scheme" where
  "BB_Remove a b s =
     (if b \<in> set (bb_backends (h_base s a))
      then s\<lparr>h_base := (h_base s)(a := (h_base s a)
             \<lparr>bb_backends := remove1 b (bb_backends (h_base s a)),
              bb_gen := bb_gen (h_base s a) + 1\<rparr>)\<rparr>
      else s)"

definition BB_All :: "addr \<Rightarrow> 'a heap_scheme \<Rightarrow> bid list" where
  "BB_All a s = bb_backends (h_base s a)"

definition BB_GetHealthy :: "addr \<Rightarrow> 'a heap_scheme \<Rightarrow> bid list \<times> 'a heap_scheme" where
  "BB_GetHealthy a s =
     (let ep = h_epoch s; bb = h_base s a; gen = bb_gen bb in
      if bb_cacheValid bb \<and> bb_cacheEpoch bb = ep \<and> bb_cacheGen bb = gen
      then (bb_cachedHealthy bb, s)
      else let healthy = filter (IsHealthy s) (bb_backends bb)
           in (healthy, s\<lparr>h_base := (h_base s)(a := bb
                \<lparr>bb_cachedHealthy := healthy, bb_cacheEpoch := ep,
                 bb_cacheGen := gen, bb_cacheValid := True\<rparr>)\<rparr>))"

definition BB_UpdateWeight :: "addr \<Rightarrow> bid \<Rightarrow> int \<Rightarrow> 'a heap_scheme \<Rightarrow> 'a heap_scheme" where
  "BB_UpdateWeight a b w s =
     (if b \<in> set (bb_backends (h_base s a)) then SetWeight b w s else s)"

section \<open>The Balancer interface\<close>

text \<open>
  \<open>ErrNilBackend\<close> stands for the return \<open>(nil, nil)\<close>; the panics are the run-time
  failures the source can run into.
\<close>

datatype lb_error =
    ErrNoHealthy
  | ErrIPHashNeedsIP
  | ErrNilBackend
  | PanicDivide
  | PanicIntn

type_synonym 's pick = "'s \<Rightarrow> (lb_error + bid) \<times> 's"

record 's balancer =
  m_Next :: "'s pick"
  m_Add :: "bid \<Rightarrow> 's \<Rightarrow> 's"
  m_Remove :: "bid \<Rightarrow> 's \<Rightarrow> 's"
  m_All :: "'s \<Rightarrow> bid list"
  m_GetHealthy :: "'s \<Rightarrow> bid list \<times> 's"
  m_UpdateWeight :: "bid \<Rightarrow> int \<Rightarrow> 's \<Rightarrow> 's"
  m_NextForKey :: "(string \<Rightarrow> 's pick) option"
  m_pickFrom :: "(bid list \<Rightarrow> 's pick) option"
  m_pickFromKey :: "(bid list \<Rightarrow> string \<Rightarrow> 's pick) option"
  m_ObserveLatency :: "(bid \<Rightarrow> duration \<Rightarrow> 's \<Rightarrow> 's) option"
  m_ObserveOutcome :: "(bid \<Rightarrow> bool \<Rightarrow> 's \<Rightarrow> 's) option"

text \<open>The methods every algorithm takes from its embedded \<open>BaseBalancer\<close>.\<close>

definition base_methods :: "addr \<Rightarrow> 'a heap_scheme pick \<Rightarrow> 'a heap_scheme balancer" where
  "base_methods a nxt =
     \<lparr>m_Next = nxt, m_Add = BB_Add a, m_Remove = BB_Remove a, m_All = BB_All a,
      m_GetHealthy = BB_GetHealthy a, m_UpdateWeight = BB_UpdateWeight a,
      m_NextForKey = None, m_pickFrom = None, m_pickFromKey = None,
      m_ObserveLatency = None, m_ObserveOutcome = None\<rparr>"

section \<open>The heap invariant\<close>

text \<open>
  A cache that passes the test of \<open>GetHealthy\<close> holds the healthy members: its stamps
  never run ahead of the counters, so every flip of a flag and every change of the
  membership makes it fail the test.
\<close>

definition base_wf :: "'a heap_scheme \<Rightarrow> base_balancer \<Rightarrow> bool" where
  "base_wf s bb \<longleftrightarrow> distinct (bb_backends bb) \<and>
     bb_cacheEpoch bb \<le> h_epoch s \<and> bb_cacheGen bb \<le> bb_gen bb \<and>
     (bb_cacheValid bb \<and> bb_cacheEpoch bb = h_epoch s \<and> bb_cacheGen bb = bb_gen bb \<longrightarrow>
        bb_cachedHealthy bb = filter (IsHealthy s) (bb_backends bb))"

definition heap_wf :: "'a heap_scheme \<Rightarrow> bool" where
  "heap_wf s \<longleftrightarrow> (\<forall>a. base_wf s (h_base s a))"

text \<open>The in-flight counters, as the reservation contract sees them.\<close>

definition conns :: "'a heap_scheme \<Rightarrow> bid \<Rightarrow> int32" where
  "conns s b = be_ActiveConns (h_be s b)"

lemma IsHealthy_upd [simp]:
  "IsHealthy (s\<lparr>h_base := x\<rparr>) = IsHealthy s" "IsHealthy (s\<lparr>h_epoch := n\<rparr>) = IsHealthy s"
  by (simp_all add: IsHealthy_def fun_eq_iff)

lemma upd_be_sel [frame_simps]:
  "h_base (upd_be b f s) = h_base s" "h_epoch (upd_be b f s) = h_epoch s"
  "h_be (upd_be b f s) = (h_be s)(b := f (h_be s b))"
  by (simp_all add: upd_be_def)

text \<open>A write to fields other than the health flag keeps the invariant.\<close>

lemma heap_wf_same_health:
  assumes "heap_wf s" and "h_base s' = h_base s" and "h_epoch s' = h_epoch s"
    and "\<And>b. IsHealthy s' b = IsHealthy s b"
  shows "heap_wf s'"
proof -
  have "IsHealthy s' = IsHealthy s" using assms(4) by (rule ext)
  then show ?thesis using assms(1-3) by (simp add: heap_wf_def base_wf_def)
qed

lemma IncrConn_frame [frame_simps]:
  "h_base (IncrConn b s) = h_base s" "h_epoch (IncrConn b s) = h_epoch s"
  "IsHealthy (IncrConn b s) c = IsHealthy s c"
  "conns (IncrConn b s) = (conns s)(b := conns s b + 1)"
  "GetWeight (IncrConn b s) c = GetWeight s c"
  by (auto simp: IncrConn_def upd_be_def IsHealthy_def conns_def GetWeight_def fun_eq_iff)

lemma DecrConn_frame [frame_simps]:
  "h_base (DecrConn b s) = h_base s" "h_epoch (DecrConn b s) = h_epoch s"
  "IsHealthy (DecrConn b s) c = IsHealthy s c"
  "conns (DecrConn b s) = (conns s)(b := conns s b - 1)"
  by (auto simp: DecrConn_def upd_be_def IsHealthy_def conns_def fun_eq_iff)

lemma IncrConn_wf [inv_intros]: "heap_wf s \<Longrightarrow> heap_wf (IncrConn b s)"
  and DecrConn_wf [inv_intros]: "heap_wf s \<Longrightarrow> heap_wf (DecrConn b s)"
  by (auto elim!: heap_wf_same_health simp: frame_simps)

lemma SetWeight_wf [inv_intros]: "heap_wf s \<Longrightarrow> heap_wf (SetWeight b w s)"
  by (erule heap_wf_same_health)
     (auto simp: SetWeight_def upd_be_def IsHealthy_def)

lemma RecordSuccess_wf [inv_intros]: "heap_wf s \<Longrightarrow> heap_wf (RecordSuccess b s)"
  by (erule heap_wf_same_health)
     (auto simp: RecordSuccess_def upd_be_def IsHealthy_def)

lemma RecordFailure_wf [inv_intros]: "heap_wf s \<Longrightarrow> heap_wf (RecordFailure b s)"
  by (erule heap_wf_same_health)
     (auto simp: RecordFailure_def upd_be_def IsHealthy_def)

lemma SetHealthy_frame [frame_simps]:
  "h_base (SetHealthy b v s) = h_base s"
  "IsHealthy (SetHealthy b v s) c = (if c = b then v else IsHealthy s c)"
  "conns (SetHealthy b v s) = conns s"
  "h_epoch (SetHealthy b v s) = (if IsHealthy s b = v then h_epoch s else h_epoch s + 1)"
  by (auto simp: SetHealthy_def Let_def upd_be_def IsHealthy_def conns_def fun_eq_iff)

lemma SetHealthy_same:
  assumes "IsHealthy s b = v" shows "SetHealthy b v s = s"
proof -
  have "v = be_healthy (h_be s b)" using assms by (simp add: IsHealthy_def)
  then show ?thesis unfolding SetHealthy_def upd_be_def Let_def by simp
qed

lemma SetHealthy_wf [inv_intros]: "heap_wf s \<Longrightarrow> heap_wf (SetHealthy b v s)"
proof (cases "IsHealthy s b = v")
  case False
  assume wf: "heap_wf s"
  have ep: "h_epoch (SetHealthy b v s) = Suc (h_epoch s)" using False by (simp add: frame_simps)
  have "bb_cacheEpoch (h_base s a) < Suc (h_epoch s)" for a
    using wf by (simp add: heap_wf_def base_wf_def less_Suc_eq_le)
  then have "base_wf (SetHealthy b v s) (h_base s a)" for a
    using wf unfolding heap_wf_def base_wf_def ep by (metis less_irrefl less_imp_le)
  then show ?thesis by (simp add: heap_wf_def frame_simps)
qed (simp add: SetHealthy_same)

lemma BB_Add_wf [inv_intros]:
  assumes "heap_wf s" and "b \<notin> set (BB_All a s)"
  shows "heap_wf (BB_Add a b s)"
  using assms by (auto simp: heap_wf_def base_wf_def BB_Add_def BB_All_def le_Suc_eq)

lemma BB_Remove_wf [inv_intros]: "heap_wf s \<Longrightarrow> heap_wf (BB_Remove a b s)"
  by (auto simp: heap_wf_def base_wf_def BB_Remove_def le_Suc_eq)

lemma BB_UpdateWeight_wf [inv_intros]: "heap_wf s \<Longrightarrow> heap_wf (BB_UpdateWeight a b w s)"
  by (simp add: BB_UpdateWeight_def inv_intros)

lemma BB_GetHealthy_frame [frame_simps]:
  "h_be (snd (BB_GetHealthy a s)) = h_be s"
  "h_epoch (snd (BB_GetHealthy a s)) = h_epoch s"
  "IsHealthy (snd (BB_GetHealthy a s)) b = IsHealthy s b"
  "conns (snd (BB_GetHealthy a s)) = conns s"
  "BB_All c (snd (BB_GetHealthy a s)) = BB_All c s"
  by (auto simp: BB_GetHealthy_def Let_def IsHealthy_def conns_def BB_All_def fun_eq_iff)

lemma BB_GetHealthy_wf [inv_intros]: "heap_wf s \<Longrightarrow> heap_wf (snd (BB_GetHealthy a s))"
  by (auto simp: heap_wf_def base_wf_def BB_GetHealthy_def Let_def)

lemma BB_GetHealthy_fst:
  "heap_wf s \<Longrightarrow> fst (BB_GetHealthy a s) = filter (IsHealthy s) (BB_All a s)"
  by (auto simp: heap_wf_def base_wf_def BB_GetHealthy_def Let_def BB_All_def)

lemma BB_All_distinct: "heap_wf s \<Longrightarrow> distinct (BB_All a s)"
  by (simp add: heap_wf_def base_wf_def BB_All_def)

end
