(* ===== verification/HealthCache.thy ===== *)
theory HealthCache
  imports Backend
begin

text \<open>
  The lock protocol of \<open>GetHealthy\<close> against concurrent \<open>SetHealthy\<close>, \<open>Add\<close> and
  \<open>Remove\<close> (\<open>internal/balancer/balancer.go\<close>).  Each atomic access of the source is one
  step: \<open>SetHealthy\<close> swaps the flag and then, separately, bumps the process-wide
  epoch; \<open>GetHealthy\<close> loads the epoch, takes the read lock, tests the cache, scans the
  flags one by one, releases the lock and only then stores what it collected.
\<close>

section \<open>States and steps\<close>

datatype reader =
    Idle
  | Loaded nat                                       \<comment> \<open>epoch loaded, no lock yet\<close>
  | Scanning nat nat "bid list" "bid list"           \<comment> \<open>epoch, gen, scanned, still to scan\<close>
  | Unlocked nat nat "bid list"                      \<comment> \<open>about to store the result\<close>
  | Returned "bid list"

record hc =
  hc_flag :: "bid \<Rightarrow> bool"
  hc_epoch :: nat
  hc_pending :: "bid \<Rightarrow> nat"                         \<comment> \<open>flips of a backend whose epoch bump is still due\<close>
  hc_base :: base_balancer
  hc_reader :: "nat \<Rightarrow> reader"

fun scanning :: "reader \<Rightarrow> bool" where
  "scanning (Scanning _ _ _ _) = True"
| "scanning _ = False"

definition cache_hit :: "nat \<Rightarrow> base_balancer \<Rightarrow> bool" where
  "cache_hit ep bb \<longleftrightarrow> bb_cacheValid bb \<and> bb_cacheEpoch bb = ep \<and> bb_cacheGen bb = bb_gen bb"

inductive hc_step :: "hc \<Rightarrow> hc \<Rightarrow> bool" where
  swap_changed: "hc_flag s b \<noteq> v \<Longrightarrow>
     hc_step s (s\<lparr>hc_flag := (hc_flag s)(b := v), hc_pending := (hc_pending s)(b := Suc (hc_pending s b))\<rparr>)"
| swap_same: "hc_flag s b = v \<Longrightarrow> hc_step s s"
| bump: "hc_pending s b = Suc n \<Longrightarrow>
     hc_step s (s\<lparr>hc_epoch := Suc (hc_epoch s), hc_pending := (hc_pending s)(b := n)\<rparr>)"
| add: "\<forall>i. \<not> scanning (hc_reader s i) \<Longrightarrow>
     hc_step s (s\<lparr>hc_base := (hc_base s)\<lparr>bb_backends := bb_backends (hc_base s) @ [b],
                                        bb_gen := Suc (bb_gen (hc_base s))\<rparr>\<rparr>)"
| remove: "\<forall>i. \<not> scanning (hc_reader s i) \<Longrightarrow> b \<in> set (bb_backends (hc_base s)) \<Longrightarrow>
     hc_step s (s\<lparr>hc_base := (hc_base s)\<lparr>bb_backends := remove1 b (bb_backends (hc_base s)),
                                        bb_gen := Suc (bb_gen (hc_base s))\<rparr>\<rparr>)"
| load_epoch: "hc_reader s i = Idle \<Longrightarrow>
     hc_step s (s\<lparr>hc_reader := (hc_reader s)(i := Loaded (hc_epoch s))\<rparr>)"
| hit: "hc_reader s i = Loaded ep \<Longrightarrow> cache_hit ep (hc_base s) \<Longrightarrow>
     hc_step s (s\<lparr>hc_reader := (hc_reader s)(i := Returned (bb_cachedHealthy (hc_base s)))\<rparr>)"
| miss: "hc_reader s i = Loaded ep \<Longrightarrow> \<not> cache_hit ep (hc_base s) \<Longrightarrow>
     hc_step s (s\<lparr>hc_reader := (hc_reader s)
        (i := Scanning ep (bb_gen (hc_base s)) [] (bb_backends (hc_base s)))\<rparr>)"
| scan: "hc_reader s i = Scanning ep g acc (b # todo) \<Longrightarrow>
     hc_step s (s\<lparr>hc_reader := (hc_reader s)
        (i := Scanning ep g (if hc_flag s b then acc @ [b] else acc) todo)\<rparr>)"
| unlock: "hc_reader s i = Scanning ep g acc [] \<Longrightarrow>
     hc_step s (s\<lparr>hc_reader := (hc_reader s)(i := Unlocked ep g acc)\<rparr>)"
| store: "hc_reader s i = Unlocked ep g healthy \<Longrightarrow>
     hc_step s (s\<lparr>hc_reader := (hc_reader s)(i := Returned healthy),
        hc_base := (hc_base s)\<lparr>bb_cachedHealthy := healthy, bb_cacheEpoch := ep,
                               bb_cacheGen := g, bb_cacheValid := True\<rparr>\<rparr>)"
| next_call: "hc_reader s i = Returned r \<Longrightarrow>
     hc_step s (s\<lparr>hc_reader := (hc_reader s)(i := Idle)\<rparr>)"

inductive hc_reach :: "(bid \<Rightarrow> bool) \<Rightarrow> nat \<Rightarrow> bid list \<Rightarrow> hc \<Rightarrow> bool"
  for flags :: "bid \<Rightarrow> bool" and ep0 :: nat and bs :: "bid list" where
  start: "hc_reach flags ep0 bs
     \<lparr>hc_flag = flags, hc_epoch = ep0, hc_pending = (\<lambda>_. 0),
      hc_base = \<lparr>bb_backends = bs, bb_gen = 0, bb_cachedHealthy = [], bb_cacheEpoch = 0,
                 bb_cacheGen = 0, bb_cacheValid = False\<rparr>,
      hc_reader = (\<lambda>_. Idle)\<rparr>"
| step: "hc_reach flags ep0 bs s \<Longrightarrow> hc_step s t \<Longrightarrow> hc_reach flags ep0 bs t"

section \<open>The invariant\<close>

text \<open>
  What a reader has collected agrees with the flags of the backends without a flip half-done, as long as
  its epoch is still the current one; a flip in between leaves a bump due for its backend, and the bump
  moves the epoch on.
\<close>

definition settled :: "hc \<Rightarrow> bid \<Rightarrow> bool" where
  "settled s b \<longleftrightarrow> hc_pending s b = 0"

definition settled_healthy :: "hc \<Rightarrow> bid list \<Rightarrow> bid list" where
  "settled_healthy s bs = filter (\<lambda>b. hc_flag s b \<and> settled s b) bs"

lemma settled_healthy_simps [simp]:
  "settled_healthy s [] = []"
  "settled_healthy s (b # bs) = (if hc_flag s b \<and> settled s b then b # settled_healthy s bs else settled_healthy s bs)"
  by (simp_all add: settled_healthy_def)

fun reader_ok :: "hc \<Rightarrow> reader \<Rightarrow> bool" where
  "reader_ok s (Loaded ep) \<longleftrightarrow> ep \<le> hc_epoch s"
| "reader_ok s (Scanning ep g acc todo) \<longleftrightarrow> ep \<le> hc_epoch s \<and> g = bb_gen (hc_base s) \<and>
     (ep = hc_epoch s \<longrightarrow>
        filter (settled s) acc @ settled_healthy s todo = settled_healthy s (bb_backends (hc_base s)))"
| "reader_ok s (Unlocked ep g acc) \<longleftrightarrow> ep \<le> hc_epoch s \<and> g \<le> bb_gen (hc_base s) \<and>
     (ep = hc_epoch s \<and> g = bb_gen (hc_base s) \<longrightarrow>
        filter (settled s) acc = settled_healthy s (bb_backends (hc_base s)))"
| "reader_ok s _ \<longleftrightarrow> True"

definition cache_ok :: "hc \<Rightarrow> bool" where
  "cache_ok s \<longleftrightarrow>
     (bb_cacheValid (hc_base s) \<longrightarrow> bb_cacheEpoch (hc_base s) \<le> hc_epoch s \<and>
        bb_cacheGen (hc_base s) \<le> bb_gen (hc_base s)) \<and>
     (cache_hit (hc_epoch s) (hc_base s) \<longrightarrow>
        filter (settled s) (bb_cachedHealthy (hc_base s)) = settled_healthy s (bb_backends (hc_base s)))"

definition hc_inv :: "hc \<Rightarrow> bool" where
  "hc_inv s \<longleftrightarrow> cache_ok s \<and> (\<forall>i. reader_ok s (hc_reader s i))"

text \<open>Readers that do not move keep their part when the flags, counters and members stay.\<close>

lemma reader_ok_cong:
  assumes "hc_flag t = hc_flag s" "hc_epoch t = hc_epoch s" "hc_pending t = hc_pending s"
    "bb_backends (hc_base t) = bb_backends (hc_base s)" "bb_gen (hc_base t) = bb_gen (hc_base s)"
  shows "reader_ok t r = reader_ok s r"
proof -
  have "settled t = settled s" "settled_healthy t = settled_healthy s"
    using assms(1,3) by (simp_all add: settled_def settled_healthy_def fun_eq_iff)
  then show ?thesis using assms by (cases r) auto
qed

text \<open>A flip of one backend: the lists agree on the backends that stay settled.\<close>

lemma settled_swap:
  assumes "t = s\<lparr>hc_flag := (hc_flag s)(b := v), hc_pending := (hc_pending s)(b := Suc (hc_pending s b))\<rparr>"
  shows "filter (settled t) xs = filter (\<lambda>x. x \<noteq> b) (filter (settled s) xs)"
    and "settled_healthy t xs = filter (\<lambda>x. x \<noteq> b) (settled_healthy s xs)"
  unfolding assms by (induction xs) (auto simp: settled_def settled_healthy_def)

lemma reader_ok_swap:
  assumes "reader_ok s r"
    and t: "t = s\<lparr>hc_flag := (hc_flag s)(b := v), hc_pending := (hc_pending s)(b := Suc (hc_pending s b))\<rparr>"
  shows "reader_ok t r"
proof -
  have e: "hc_epoch t = hc_epoch s" "hc_base t = hc_base s" using t by simp_all
  note sw = settled_swap[OF t]
  show ?thesis using assms(1)
    by (cases r) (auto simp: sw e simp del: filter_filter filter_append simp flip: filter_append)
qed

lemma reader_ok_change:
  assumes "reader_ok s r" "hc_base t = hc_base s" "hc_epoch s < hc_epoch t"
  shows "reader_ok t r"
  using assms by (cases r) auto

lemma reader_ok_gen:
  assumes "reader_ok s r" "\<not> scanning r" "hc_epoch t = hc_epoch s"
    "bb_gen (hc_base t) = Suc (bb_gen (hc_base s))"
  shows "reader_ok t r"
  using assms by (cases r) auto

lemma hc_inv_reader: "hc_inv s \<Longrightarrow> reader_ok s (hc_reader s i)"
  by (simp add: hc_inv_def)

lemma hc_inv_move:
  assumes "hc_inv s" "t = s\<lparr>hc_reader := (hc_reader s)(i := r)\<rparr>" "reader_ok s r"
  shows "hc_inv t"
proof -
  have "reader_ok t x = reader_ok s x" for x
    using assms(2) by (intro reader_ok_cong) auto
  moreover have "settled t = settled s" "settled_healthy t = settled_healthy s"
    using assms(2) by (simp_all add: settled_def settled_healthy_def fun_eq_iff)
  ultimately show ?thesis using assms by (auto simp: hc_inv_def cache_ok_def)
qed

lemma hc_inv_swap:
  assumes "hc_inv s"
    and t: "t = s\<lparr>hc_flag := (hc_flag s)(b := v), hc_pending := (hc_pending s)(b := Suc (hc_pending s b))\<rparr>"
  shows "hc_inv t"
proof -
  have e: "hc_epoch t = hc_epoch s" "hc_base t = hc_base s" "hc_reader t = hc_reader s" using t by simp_all
  have "cache_ok t" using assms(1) unfolding hc_inv_def cache_ok_def settled_swap[OF t] e by simp
  then show ?thesis using assms(1) reader_ok_swap[OF _ t] e(3) by (simp add: hc_inv_def)
qed

lemma hc_inv_bump:
  assumes "hc_inv s" "hc_base t = hc_base s" "hc_reader t = hc_reader s" "hc_epoch s < hc_epoch t"
  shows "hc_inv t"
proof -
  have "reader_ok t (hc_reader s i)" for i
    by (rule reader_ok_change[of s]) (use assms in \<open>auto simp: hc_inv_def\<close>)
  moreover have "cache_ok t"
    using assms by (auto simp: hc_inv_def cache_ok_def cache_hit_def)
  ultimately show ?thesis using assms(3) by (simp add: hc_inv_def)
qed

lemma hc_inv_members:
  assumes "hc_inv s" "\<forall>i. \<not> scanning (hc_reader s i)"
    "t = s\<lparr>hc_base := (hc_base s)\<lparr>bb_backends := bs, bb_gen := Suc (bb_gen (hc_base s))\<rparr>\<rparr>"
  shows "hc_inv t"
proof -
  have "reader_ok t (hc_reader s i)" for i
    by (rule reader_ok_gen[of s]) (use assms in \<open>auto simp: hc_inv_def\<close>)
  moreover have "cache_ok t"
    using assms by (auto simp: hc_inv_def cache_ok_def cache_hit_def)
  ultimately show ?thesis using assms(3) by (simp add: hc_inv_def)
qed

lemma hc_step_inv: "hc_step s t \<Longrightarrow> hc_inv s \<Longrightarrow> hc_inv t"
proof (induction rule: hc_step.induct)
  case (swap_changed s b v)
  show ?case by (rule hc_inv_swap[OF swap_changed.prems refl])
next
  case (swap_same s b v)
  then show ?case by simp
next
  case (bump s b n)
  show ?case by (rule hc_inv_bump[OF bump.prems]) simp_all
next
  case (add s b)
  show ?case by (rule hc_inv_members[OF add.prems add.hyps refl])
next
  case (remove s b)
  show ?case by (rule hc_inv_members[OF remove.prems remove.hyps(1) refl])
next
  case (scan s i ep g acc b todo)
  show ?case using hc_inv_reader[OF scan.prems, of i] scan by (intro hc_inv_move[OF scan.prems refl]) auto
next
  case (unlock s i ep g acc)
  show ?case using hc_inv_reader[OF unlock.prems, of i] unlock by (intro hc_inv_move[OF unlock.prems refl]) auto
next
  case (store s i ep g healthy)
  let ?t = "s\<lparr>hc_reader := (hc_reader s)(i := Returned healthy),
     hc_base := (hc_base s)\<lparr>bb_cachedHealthy := healthy, bb_cacheEpoch := ep,
                            bb_cacheGen := g, bb_cacheValid := True\<rparr>\<rparr>"
  have r: "reader_ok s (hc_reader s j)" for j by (rule hc_inv_reader[OF store.prems])
  have "reader_ok s (Unlocked ep g healthy)" using r[of i] store.hyps by simp
  moreover have "settled ?t = settled s" "settled_healthy ?t = settled_healthy s"
    by (simp_all add: settled_def settled_healthy_def fun_eq_iff)
  ultimately have "cache_ok ?t" by (auto simp: cache_ok_def cache_hit_def)
  moreover have "reader_ok ?t (hc_reader ?t j)" for j
    using r[of j] reader_ok_cong[of ?t s "hc_reader s j"] by simp
  ultimately show ?case unfolding hc_inv_def by blast
next
  case (load_epoch s i)
  show ?case by (rule hc_inv_move[OF load_epoch.prems refl]) simp
next
  case (hit s i ep)
  show ?case by (rule hc_inv_move[OF hit.prems refl]) simp
next
  case (miss s i ep)
  show ?case using hc_inv_reader[OF miss.prems, of i] miss by (intro hc_inv_move[OF miss.prems refl]) auto
next
  case (next_call s i r)
  show ?case by (rule hc_inv_move[OF next_call.prems refl]) simp
qed

lemma hc_reach_inv: "hc_reach flags ep0 bs s \<Longrightarrow> hc_inv s"
proof (induction rule: hc_reach.induct)
  case start
  show ?case by (simp add: hc_inv_def cache_ok_def cache_hit_def)
next
  case (step s t)
  then show ?case by (blast intro: hc_step_inv)
qed

text \<open>
  C2. Under every interleaving of \<open>SetHealthy\<close>, \<open>Add\<close>, \<open>Remove\<close> and any number of
  concurrent \<open>GetHealthy\<close> calls, a cache entry that passes the test of \<open>GetHealthy\<close> in a state
  lists, in membership order, exactly the healthy ones among the members whose flips are all complete; only a
  backend with a flip half-done (flag swapped, epoch not yet bumped) may be listed with its old flag, and
  when no member is in that state the entry is the list of the healthy members.
\<close>

theorem health_cache_coherent:
  assumes "hc_reach flags ep0 bs s" and "cache_hit (hc_epoch s) (hc_base s)"
  shows "filter (\<lambda>b. hc_pending s b = 0) (bb_cachedHealthy (hc_base s)) =
      filter (\<lambda>b. hc_flag s b \<and> hc_pending s b = 0) (bb_backends (hc_base s)) \<and>
    ((\<forall>b. hc_pending s b = 0) \<longrightarrow> bb_cachedHealthy (hc_base s) = filter (hc_flag s) (bb_backends (hc_base s)))"
proof -
  have "filter (settled s) (bb_cachedHealthy (hc_base s)) = settled_healthy s (bb_backends (hc_base s))"
    using hc_reach_inv[OF assms(1)] assms(2) by (simp add: hc_inv_def cache_ok_def)
  then have f: "filter (\<lambda>b. hc_pending s b = 0) (bb_cachedHealthy (hc_base s)) =
      filter (\<lambda>b. hc_flag s b \<and> hc_pending s b = 0) (bb_backends (hc_base s))"
    by (simp add: settled_def[abs_def] settled_healthy_def)
  moreover have "bb_cachedHealthy (hc_base s) = filter (hc_flag s) (bb_backends (hc_base s))"
    if "\<forall>b. hc_pending s b = 0" using f that by simp
  ultimately show ?thesis by blast
qed

text \<open>A run in which a call fills the cache and the flag of backend 1 is then swapped and its bump is still due.\<close>

theorem health_cache_coherent_witness:
  "\<exists>s. hc_reach (\<lambda>b. b = 0) 7 [0, 1] s \<and> cache_hit (hc_epoch s) (hc_base s) \<and> hc_pending s 1 = 1 \<and>
       bb_cachedHealthy (hc_base s) = [0] \<and> hc_flag s 1 \<and>
       filter (\<lambda>b. hc_pending s b = 0) (bb_cachedHealthy (hc_base s)) =
         filter (\<lambda>b. hc_flag s b \<and> hc_pending s b = 0) (bb_backends (hc_base s))"
proof -
  let ?bb = "\<lparr>bb_backends = [0, 1], bb_gen = 0, bb_cachedHealthy = [], bb_cacheEpoch = 0,
              bb_cacheGen = 0, bb_cacheValid = False\<rparr>"
  let ?s = "\<lambda>r. \<lparr>hc_flag = (\<lambda>b. b = 0), hc_epoch = 7, hc_pending = (\<lambda>_. 0), hc_base = ?bb,
              hc_reader = (\<lambda>_. Idle)(0 := r)\<rparr>"
  let ?t = "(?s (Returned [0]))\<lparr>hc_base := ?bb\<lparr>bb_cachedHealthy := [0], bb_cacheEpoch := 7,
              bb_cacheGen := 0, bb_cacheValid := True\<rparr>\<rparr>"
  let ?R = "hc_reach (\<lambda>b. b = 0) 7 [0, 1]"
  have r0: "?R (?s Idle)" using hc_reach.start[of "\<lambda>b. b = 0" 7 "[0, 1]"] by (simp add: fun_upd_idem)
  have s1: "hc_step (?s Idle) (?s (Loaded 7))"
    using hc_step.load_epoch[of "?s Idle" 0] by simp
  have s2: "hc_step (?s (Loaded 7)) (?s (Scanning 7 0 [] [0, 1]))"
    using hc_step.miss[of "?s (Loaded 7)" 0 7] by (simp add: cache_hit_def)
  have s3: "hc_step (?s (Scanning 7 0 [] [0, 1])) (?s (Scanning 7 0 [0] [1]))"
    using hc_step.scan[of "?s (Scanning 7 0 [] [0, 1])" 0 7 0 "[]" 0 "[1]"] by simp
  have s4: "hc_step (?s (Scanning 7 0 [0] [1])) (?s (Scanning 7 0 [0] []))"
    using hc_step.scan[of "?s (Scanning 7 0 [0] [1])" 0 7 0 "[0]" 1 "[]"] by simp
  have s5: "hc_step (?s (Scanning 7 0 [0] [])) (?s (Unlocked 7 0 [0]))"
    using hc_step.unlock[of "?s (Scanning 7 0 [0] [])" 0 7 0 "[0]"] by simp
  have s6: "hc_step (?s (Unlocked 7 0 [0])) ?t"
    using hc_step.store[of "?s (Unlocked 7 0 [0])" 0 7 0 "[0]"] by simp
  let ?u = "?t\<lparr>hc_flag := (hc_flag ?t)(1 := True), hc_pending := (hc_pending ?t)(1 := Suc (hc_pending ?t 1))\<rparr>"
  have s7: "hc_step ?t ?u" by (rule hc_step.swap_changed) simp
  note r3 = hc_reach.step[OF hc_reach.step[OF hc_reach.step[OF r0 s1] s2] s3]
  note r = hc_reach.step[OF hc_reach.step[OF hc_reach.step[OF hc_reach.step[OF r3 s4] s5] s6] s7]
  have h: "cache_hit (hc_epoch ?u) (hc_base ?u)" by (simp add: cache_hit_def)
  show ?thesis by (rule exI[of _ ?u], intro conjI, rule r, rule h) (use health_cache_coherent[OF r h] in simp_all)
qed

end
