(* ===== verification/Float64.thy ===== *)
theory Float64
  imports Prelude "HOL-Library.Log_Nat"
begin

text \<open>
  IEEE 754 binary64 arithmetic on finite values.  A \<open>float64\<close> is the rational number
  it stands for; each operation of the source rounds its exact result to the nearest
  representable number, ties to even, with the gradual underflow of the format.
  Infinities and NaN do not occur: no modelled expression divides by zero or comes
  near the format's largest value.

  What the components use of rounding is that it is monotone and exact on the
  integers up to \<open>2 ^ 53\<close>.
\<close>

section \<open>The exponent of a positive rational\<close>

definition ilog2 :: "rat \<Rightarrow> int" where
  "ilog2 x = (let (p, q) = quotient_of x; k = bitlen p - bitlen q
              in if 2 powi k \<le> x then k else k - 1)"

lemma bitlen_powi_bounds:
  assumes "0 < (p::int)"
  shows "2 powi (bitlen p - 1) \<le> (of_int p :: rat) \<and> (of_int p :: rat) < 2 powi (bitlen p)"
proof -
  have b: "2 ^ nat (bitlen p - 1) \<le> p \<and> p < 2 ^ nat (bitlen p)"
    using assms by (rule bitlen_bounds)
  have pos: "1 \<le> bitlen p"
    using assms bitlen_nonneg[of p] bitlen_eq_zero_iff[of p] by linarith
  have l: "(2::rat) powi (bitlen p - 1) = of_int (2 ^ nat (bitlen p - 1))"
    using pos by (simp add: power_int_def)
  have u: "(2::rat) powi (bitlen p) = of_int (2 ^ nat (bitlen p))"
    using pos by (simp add: power_int_def)
  show ?thesis
    unfolding l u using b by (simp only: of_int_le_iff of_int_less_iff)
qed

lemma ilog2_bounds:
  assumes "0 < x"
  shows "2 powi ilog2 x \<le> x" and "x < 2 powi (ilog2 x + 1)"
proof -
  obtain p q where pq: "quotient_of x = (p, q)" by (cases "quotient_of x")
  have q: "0 < q" using quotient_of_denom_pos[OF pq] .
  have x: "x = of_int p / of_int q" using quotient_of_div[OF pq] .
  have p: "0 < p" using assms q unfolding x by (simp add: zero_less_divide_iff)
  note bp = bitlen_powi_bounds[OF p] and bq = bitlen_powi_bounds[OF q]
  let ?k = "bitlen p - bitlen q"
  have lo: "2 powi (?k - 1) \<le> x"
  proof -
    have "(2::rat) powi (?k - 1) * of_int q \<le> 2 powi (?k - 1) * 2 powi (bitlen q)"
      using bq by (intro mult_left_mono) auto
    also have "\<dots> = 2 powi (bitlen p - 1)"
      by (simp flip: power_int_add)
    also have "\<dots> \<le> of_int p" using bp by simp
    finally show ?thesis unfolding x using q by (simp add: field_simps)
  qed
  have hi: "x < 2 powi (?k + 1)"
  proof -
    have "of_int p < (2::rat) powi (bitlen p)" using bp by simp
    also have "\<dots> = 2 powi (?k + 1) * 2 powi (bitlen q - 1)"
      by (simp flip: power_int_add)
    also have "\<dots> \<le> 2 powi (?k + 1) * of_int q"
      using bq by (intro mult_left_mono) auto
    finally show ?thesis unfolding x using q by (simp add: field_simps)
  qed
  show "2 powi ilog2 x \<le> x" and "x < 2 powi (ilog2 x + 1)"
    using lo hi by (auto simp: ilog2_def pq Let_def)
qed

section \<open>Rounding to an integer, ties to even\<close>

definition rne :: "rat \<Rightarrow> int" where
  "rne x = (let f = \<lfloor>x\<rfloor>; d = x - of_int f
            in if d < 1/2 then f else if 1/2 < d then f + 1
               else if even f then f else f + 1)"

lemma rne_of_int [simp]: "rne (of_int i) = i"
  by (simp add: rne_def)

lemma rne_floor: "rne x = \<lfloor>x\<rfloor> \<or> rne x = \<lfloor>x\<rfloor> + 1"
  by (auto simp: rne_def Let_def)

lemma rne_mono: "x \<le> y \<Longrightarrow> rne x \<le> rne y"
proof (cases "\<lfloor>x\<rfloor> < \<lfloor>y\<rfloor>")
  case True
  then show ?thesis using rne_floor[of x] rne_floor[of y] by auto
next
  case False
  assume le: "x \<le> y"
  then have "\<lfloor>x\<rfloor> \<le> \<lfloor>y\<rfloor>" by (rule floor_mono)
  with False have eq: "\<lfloor>x\<rfloor> = \<lfloor>y\<rfloor>" by simp
  show ?thesis using le unfolding rne_def Let_def eq by auto
qed

section \<open>Rounding to 53 significant bits\<close>

definition round_pos :: "rat \<Rightarrow> rat" where
  "round_pos x = (if x = 0 then 0 else
     let u = 2 powi (max (ilog2 x - 52) (-1074)) in of_int (rne (x / u)) * u)"

definition round64 :: "rat \<Rightarrow> rat" where
  "round64 x = (if x < 0 then - round_pos (- x) else round_pos x)"

lemma ilog2_mono:
  assumes "0 < x" and "x \<le> y" shows "ilog2 x \<le> ilog2 y"
proof (rule ccontr)
  assume "\<not> ilog2 x \<le> ilog2 y"
  then have "(2::rat) powi (ilog2 y + 1) \<le> 2 powi (ilog2 x)"
    by (intro power_int_increasing) auto
  then show False using ilog2_bounds[of x] ilog2_bounds[of y] assms by linarith
qed

lemma powi_int: "0 \<le> k \<Longrightarrow> (2::rat) powi k = of_int (2 ^ nat k)"
  by (simp add: power_int_def)

lemma rne_scale:
  assumes "0 \<le> k" and "u = 2 powi e"
  shows "of_int (rne (2 powi (e + k) / u)) * u = (2 powi (e + k) :: rat)"
proof -
  have q: "2 powi (e + k) / u = (of_int (2 ^ nat k) :: rat)"
    using assms powi_int[OF assms(1)] by (simp add: power_int_add)
  show ?thesis
    unfolding q rne_of_int using powi_int[OF assms(1)] assms(2) by (simp add: power_int_add)
qed

lemma round_pos_nonneg: "0 \<le> x \<Longrightarrow> 0 \<le> round_pos x"
proof -
  assume x: "0 \<le> x"
  have "0 \<le> rne (x / u)" if "0 < u" for u
    using rne_mono[of "of_int 0" "x / u", unfolded rne_of_int] x that by simp
  then show ?thesis by (simp add: round_pos_def Let_def)
qed

lemma round_pos_mono:
  assumes "0 \<le> x" and "x \<le> y"
  shows "round_pos x \<le> round_pos y"
proof (cases "x = 0")
  case True
  then show ?thesis using assms round_pos_nonneg by (simp add: round_pos_def)
next
  case False
  then have x: "0 < x" and y: "0 < y" using assms by auto
  let ?e = "\<lambda>x. max (ilog2 x - 52) (-1074) :: int"
  let ?u = "\<lambda>x. (2::rat) powi (?e x)"
  have le: "?e x \<le> ?e y" using ilog2_mono[OF x assms(2)] by auto
  have rx: "round_pos x = of_int (rne (x / ?u x)) * ?u x"
    and ry: "round_pos y = of_int (rne (y / ?u y)) * ?u y"
    using x y by (auto simp: round_pos_def Let_def)
  show ?thesis
  proof (cases "?e x = ?e y")
    case True
    have "x / ?u y \<le> y / ?u y" using assms by (intro divide_right_mono) auto
    from rne_mono[OF this] show ?thesis unfolding rx ry True
      by (intro mult_right_mono) auto
  next
    case False
    with le have lt: "?e x < ?e y" by (simp only: less_le) simp
    then have ey: "?e y = ilog2 y - 52" by linarith
    let ?m = "(2::rat) powi (ilog2 y)"
    have my: "?m \<le> y" using ilog2_bounds[OF y] by simp
    have xm: "x \<le> ?m"
    proof -
      have "ilog2 x < ilog2 y" using lt ey by auto
      then have "(2::rat) powi (ilog2 x + 1) \<le> ?m"
        by (intro power_int_increasing) auto
      then show ?thesis using ilog2_bounds(2)[OF x] by linarith
    qed
    have "rne (x / ?u x) \<le> rne (?m / ?u x)"
      using xm by (intro rne_mono divide_right_mono) auto
    then have "round_pos x \<le> of_int (rne (?m / ?u x)) * ?u x"
      unfolding rx by (intro mult_right_mono) auto
    also have "\<dots> = ?m"
      using rne_scale[of "ilog2 y - ?e x" "?u x" "?e x"] lt ey by simp
    also have "\<dots> = of_int (rne (?m / ?u y)) * ?u y"
      using rne_scale[of "52" "?u y" "?e y"] ey by simp
    also have "\<dots> \<le> round_pos y"
    proof -
      have "rne (?m / ?u y) \<le> rne (y / ?u y)"
        using my by (intro rne_mono divide_right_mono) auto
      then show ?thesis unfolding ry by (intro mult_right_mono) auto
    qed
    finally show ?thesis .
  qed
qed

lemma round64_mono: "x \<le> y \<Longrightarrow> round64 x \<le> round64 y"
proof -
  assume le: "x \<le> y"
  consider "0 \<le> x" | "x < 0" "0 \<le> y" | "x < 0" "y < 0" by linarith
  then show ?thesis
  proof cases
    case 1 then show ?thesis using le round_pos_mono[of x y] by (simp add: round64_def)
  next
    case 2 then show ?thesis
      using round_pos_nonneg[of "- x"] round_pos_nonneg[of y] by (simp add: round64_def)
  next
    case 3 then show ?thesis using le round_pos_mono[of "- y" "- x"] by (simp add: round64_def)
  qed
qed

lemma round_pos_int:
  assumes "0 \<le> i" and "i \<le> 2 ^ 53"
  shows "round_pos (of_int i) = of_int i"
proof (cases "i = 0 \<or> i = 2 ^ 53")
  case False
  then have i: "0 < i" "i < 2 ^ 53" using assms by auto
  have "ilog2 (of_int i) < 53"
  proof (rule ccontr)
    assume "\<not> ilog2 (of_int i) < 53"
    then have "(2::rat) powi 53 \<le> 2 powi ilog2 (of_int i)"
      by (intro power_int_increasing) auto
    also have "\<dots> \<le> of_int i" using ilog2_bounds(1)[of "of_int i"] i by simp
    finally have "(of_int (2 ^ 53) :: rat) \<le> of_int i" by simp
    then show False using i by (simp only: of_int_le_iff)
  qed
  then have e: "max (ilog2 (of_int i) - 52) (-1074) \<le> 0" by simp
  define e where "e = max (ilog2 (of_int i) - 52) (-1074 :: int)"
  have e0: "e \<le> 0" using e by (simp add: e_def)
  have div: "of_int i / 2 powi e = (of_int (i * 2 ^ nat (- e)) :: rat)"
    using e0 by (simp add: power_int_def field_simps)
  have "round_pos (of_int i) = of_int (rne (of_int i / 2 powi e)) * 2 powi e"
    using i by (simp add: round_pos_def Let_def e_def)
  also have "\<dots> = of_int i"
    unfolding div rne_of_int using e0 by (simp add: power_int_def field_simps)
  finally show ?thesis .
next
  case True
  have l: "ilog2 (2 ^ 53) = 53" by code_simp
  show ?thesis
  proof (cases "i = 0")
    case False
    with True have i: "i = 2 ^ 53" by simp
    have "(2::rat) ^ 53 / 2 powi 1 = of_int (2 ^ 52)" by simp
    then show ?thesis using l unfolding i round_pos_def Let_def
      by (simp only: of_int_power of_int_numeral l) (simp del: rne_of_int, simp add: rne_def)
  qed (simp add: round_pos_def)
qed

lemma round64_of_int: "\<bar>i\<bar> \<le> 2 ^ 53 \<Longrightarrow> round64 (of_int i) = of_int i"
  using round_pos_int[of i] round_pos_int[of "- i"] by (auto simp: round64_def)

lemma round64_0 [simp]: "round64 0 = 0"
  and round64_1 [simp]: "round64 1 = 1"
  using round64_of_int[of 0] round64_of_int[of 1] by simp_all

lemma round64_nonneg: "0 \<le> x \<Longrightarrow> 0 \<le> round64 x"
  using round64_mono[of 0 x] by simp

lemma round64_less_imp: "round64 x < round64 y \<Longrightarrow> x < y"
  using round64_mono[of y x] by linarith

section \<open>The operations of the source\<close>

type_synonym f64 = rat

definition is_f64 :: "rat \<Rightarrow> bool" where
  "is_f64 x \<longleftrightarrow> round64 x = x"

definition f64_of_int :: "int \<Rightarrow> f64" where
  "f64_of_int i = round64 (of_int i)"

definition f64_div :: "f64 \<Rightarrow> f64 \<Rightarrow> f64" where
  "f64_div x y = round64 (x / y)"

definition f64_mul :: "f64 \<Rightarrow> f64 \<Rightarrow> f64" where
  "f64_mul x y = round64 (x * y)"

definition f64_add :: "f64 \<Rightarrow> f64 \<Rightarrow> f64" where
  "f64_add x y = round64 (x + y)"

definition f64_sub :: "f64 \<Rightarrow> f64 \<Rightarrow> f64" where
  "f64_sub x y = round64 (x - y)"

text \<open>
  Conversion to \<open>int64\<close> drops the fraction.  Outside the range of the type the Go
  specification leaves the result to the implementation; amd64 yields the least
  \<open>int64\<close>.
\<close>

definition f64_trunc :: "f64 \<Rightarrow> int" where
  "f64_trunc x = (let i = (if 0 \<le> x then \<lfloor>x\<rfloor> else \<lceil>x\<rceil>)
                  in if MinInt64 \<le> i \<and> i \<le> MaxInt64 then i else MinInt64)"

lemma f64_of_int_exact: "\<bar>i\<bar> \<le> 2 ^ 53 \<Longrightarrow> f64_of_int i = of_int i"
  by (simp add: f64_of_int_def round64_of_int)

lemma f64_of_int_mono: "i \<le> j \<Longrightarrow> f64_of_int i \<le> f64_of_int j"
  by (simp add: f64_of_int_def round64_mono)

lemma is_f64_of_int: "\<bar>i\<bar> \<le> 2 ^ 53 \<Longrightarrow> is_f64 (of_int i)"
  by (simp add: is_f64_def round64_of_int)

text \<open>
  A rounded ratio above a representable threshold is a ratio above it.
\<close>

lemma f64_ratio_gt:
  assumes "is_f64 thr" and "thr < f64_div (f64_of_int a) (f64_of_int b)"
    and "\<bar>a\<bar> \<le> 2 ^ 53" and "\<bar>b\<bar> \<le> 2 ^ 53"
  shows "thr < of_int a / of_int b"
  using assms round64_less_imp[of thr "of_int a / of_int b"]
  by (simp add: is_f64_def f64_div_def f64_of_int_exact)

lemma f64_ratio_le:
  assumes "is_f64 thr" and "of_int a / of_int b \<le> thr"
    and "\<bar>a\<bar> \<le> 2 ^ 53" and "\<bar>b\<bar> \<le> 2 ^ 53"
  shows "f64_div (f64_of_int a) (f64_of_int b) \<le> thr"
  using assms round64_mono[of "of_int a / of_int b" thr]
  by (simp add: is_f64_def f64_div_def f64_of_int_exact)

lemma f64_trunc_ge:
  assumes "of_int i \<le> x" and "0 \<le> i" and "x < of_int MaxInt64"
  shows "i \<le> f64_trunc x"
proof -
  have x: "0 \<le> x" using assms(1,2) by (meson of_int_0_le_iff order_trans)
  have f: "i \<le> \<lfloor>x\<rfloor>" using assms(1) by (simp add: le_floor_iff)
  have "\<lfloor>x\<rfloor> \<le> MaxInt64" using assms(3) by (simp add: floor_le_iff)
  moreover have "MinInt64 \<le> 0" by (simp add: MinInt64_def)
  then have "MinInt64 \<le> \<lfloor>x\<rfloor>" using f assms(2) by (meson order_trans)
  ultimately show ?thesis using x f by (simp add: f64_trunc_def)
qed

section \<open>The rounding error\<close>

lemma rne_error: "\<bar>of_int (rne x) - x\<bar> \<le> 1 / 2"
proof -
  have "of_int \<lfloor>x\<rfloor> \<le> x" and "x < of_int \<lfloor>x\<rfloor> + 1" by linarith+
  then show ?thesis by (auto simp: rne_def Let_def)
qed

lemma round64_error:
  assumes "2 powi (-26) \<le> x"
  shows "\<bar>round64 x - x\<bar> \<le> x / 2 ^ 53"
proof -
  have x: "0 < x" using assms by (rule less_le_trans[rotated]) simp
  have "ilog2 x \<ge> -26"
  proof (rule ccontr)
    assume "\<not> ilog2 x \<ge> -26"
    then have "(2::rat) powi (ilog2 x + 1) \<le> 2 powi (-26)" by (intro power_int_increasing) auto
    then show False using ilog2_bounds(2)[OF x] assms by linarith
  qed
  then have e: "max (ilog2 x - 52) (-1074) = ilog2 x - 52" by simp
  let ?u = "2 powi (ilog2 x - 52) :: rat"
  have u: "0 < ?u" by simp
  have "round64 x - x = (of_int (rne (x / ?u)) - x / ?u) * ?u"
    using x by (simp add: round64_def round_pos_def Let_def e algebra_simps)
  then have "\<bar>round64 x - x\<bar> = \<bar>of_int (rne (x / ?u)) - x / ?u\<bar> * ?u"
    using u by (simp add: abs_mult)
  also have "\<dots> \<le> 1 / 2 * ?u" using rne_error[of "x / ?u"] u by (intro mult_right_mono) auto
  also have "\<dots> = 2 powi ilog2 x / 2 ^ 53" by (simp add: power_int_diff)
  also have "\<dots> \<le> x / 2 ^ 53" using ilog2_bounds(1)[OF x] by (simp add: divide_right_mono)
  finally show ?thesis .
qed

text \<open>
  Two different ratios of numbers below \<open>2 ^ 26\<close> are at least \<open>2 ^ -52\<close> apart relative
  to their size, so rounding keeps their order strict.
\<close>

lemma ratio_ge_powi:
  assumes "0 < p" "0 < q" "q < 2 ^ 26" shows "2 powi (-26) \<le> (of_int p / of_int q :: rat)"
proof -
  have "q * 1 \<le> 2 ^ 26 * p" using assms by (intro mult_mono) auto
  then have "(of_int (q * 1) :: rat) \<le> of_int (2 ^ 26 * p)" by (simp only: of_int_le_iff)
  then show ?thesis using assms by (simp add: field_simps power_int_minus)
qed

lemma ratio_gap:
  assumes "0 < b" "0 < d" "a * d < c * b"
  shows "1 / (of_int b * of_int d) \<le> (of_int c / of_int d - of_int a / of_int b :: rat)"
proof -
  have "a * d + 1 \<le> c * b" using assms(3) by simp
  then have "(of_int (a * d + 1) :: rat) \<le> of_int (c * b)" by (simp only: of_int_le_iff)
  then show ?thesis using assms(1,2) by (simp add: field_simps)
qed

lemma f64_div_less:
  assumes "0 \<le> a" "0 < b" "0 < d" "c < 2 ^ 26" "b < 2 ^ 26" "d < 2 ^ 26" and less: "a * d < c * b"
  shows "f64_div (of_int a) (of_int b) < f64_div (of_int c) (of_int d)"
proof -
  define x y :: rat where "x = of_int a / of_int b" and "y = of_int c / of_int d"
  have "0 \<le> a * d" using assms by simp
  then have c: "0 < c" using less assms(2) by (metis le_less_trans zero_less_mult_pos2)
  have ey: "\<bar>round64 y - y\<bar> \<le> y / 2 ^ 53"
    using round64_error[OF ratio_ge_powi] c assms by (simp add: y_def)
  have ex: "\<bar>round64 x - x\<bar> \<le> x / 2 ^ 53"
    using round64_error[OF ratio_ge_powi] assms by (cases "a = 0") (simp_all add: x_def)
  have bd: "0 < (of_int b * of_int d :: rat)" using assms by simp
  have gap: "1 / (of_int b * of_int d) \<le> y - x"
    using ratio_gap[OF assms(2,3) less] by (simp add: x_def y_def)
  have "c * b < 2 ^ 26 * 2 ^ 26" using assms c by (intro mult_strict_mono) auto
  then have "(of_int (c * b) :: rat) < of_int (2 ^ 26 * 2 ^ 26)" by (simp only: of_int_less_iff)
  then have "y / 2 ^ 52 < 1 / (of_int b * of_int d)"
    using assms(2,3) by (simp add: y_def field_simps)
  then have g: "y / 2 ^ 52 < y - x" using gap by simp
  have "0 < 1 / (of_int b * of_int d :: rat)" using bd by simp
  then have "x / 2 ^ 53 < y / 2 ^ 53" using gap by (intro divide_strict_right_mono) (linarith, simp)
  moreover have "y / 2 ^ 52 = y / 2 ^ 53 + y / 2 ^ 53" by simp
  ultimately have "round64 x < round64 y" using ex ey g unfolding abs_le_iff by linarith
  then show ?thesis by (simp add: f64_div_def x_def y_def)
qed

end
