(* ===== verification/LbHeap.thy ===== *)
theory LbHeap
  imports Backend Float64
begin

text \<open>
  The heap of the balancer package: what each kind of balancer object keeps beside its
  \<open>BaseBalancer\<close>, indexed by the address of the object, and the two things the
  environment decides, the readings of the clock and the draws of the random source.
\<close>

record ewmaState =
  ew_value :: f64
  ew_lastSample :: time

record chash =
  ch_replicas :: int
  ch_loadFactor :: f64
  ch_ring :: "uint32 list"
  ch_ringMap :: "uint32 \<rightharpoonup> bid"
  ch_ringKey :: string

record slow_start =
  ss_window :: duration
  ss_wasHealthy :: "bid \<rightharpoonup> bool"
  ss_healthySince :: "bid \<rightharpoonup> time"

record outlierStat =
  os_success :: int
  os_failure :: int
  os_ejected :: bool
  os_ejectedAt :: time

record outlier =
  od_enabled :: bool
  od_errorRateThreshold :: f64
  od_minRequests :: int
  od_baseEjection :: duration
  od_maxEjectionPercent :: int
  od_stats :: "(bid \<times> outlierStat) list"

record lb_heap = heap +
  h_current :: "addr \<Rightarrow> uint32"
  h_swrr :: "addr \<Rightarrow> bid \<Rightarrow> int"
  h_ewma :: "addr \<Rightarrow> bid \<rightharpoonup> ewmaState"
  h_ch :: "addr \<Rightarrow> chash"
  h_ss :: "addr \<Rightarrow> slow_start"
  h_od :: "addr \<Rightarrow> outlier"
  h_rng :: "nat strm"
  h_clock :: "time strm"

section \<open>The clock and the random source\<close>

definition Now :: "lb_heap \<Rightarrow> time \<times> lb_heap" where
  "Now s = (shd' (h_clock s), s\<lparr>h_clock := stl' (h_clock s)\<rparr>)"

text \<open>
  A draw is an arbitrary natural number, cut down to the range of the call; every
  value of the range is the outcome of some draw.
\<close>

definition draw :: "lb_heap \<Rightarrow> nat \<times> lb_heap" where
  "draw s = (shd' (h_rng s), s\<lparr>h_rng := stl' (h_rng s)\<rparr>)"

definition Intn :: "int \<Rightarrow> lb_heap \<Rightarrow> (lb_error + int) \<times> lb_heap" where
  "Intn n s = (if n \<le> 0 then (Inl PanicIntn, s)
               else let (d, s') = draw s in (Inr (int d mod n), s'))"

definition RandUint32 :: "lb_heap \<Rightarrow> uint32 \<times> lb_heap" where
  "RandUint32 s = (let (d, s') = draw s in (word_of_nat d, s'))"

definition RandFloat64 :: "lb_heap \<Rightarrow> f64 \<times> lb_heap" where
  "RandFloat64 s = (let (d, s') = draw s in (of_nat (d mod 2 ^ 53) / 2 ^ 53, s'))"

section \<open>What the contracts observe of the heap\<close>

text \<open>
  The observable part: backends, epoch and \<open>BaseBalancer\<close> objects.  The private state
  of a balancer object, the clock and the random source are not part of it.
\<close>

definition obs :: "lb_heap \<Rightarrow> heap" where
  "obs s = heap.truncate s"

lemma obs_upd [simp]:
  "obs (s\<lparr>h_current := c\<rparr>) = obs s" "obs (s\<lparr>h_swrr := w\<rparr>) = obs s"
  "obs (s\<lparr>h_ewma := e\<rparr>) = obs s" "obs (s\<lparr>h_ch := h\<rparr>) = obs s"
  "obs (s\<lparr>h_ss := x\<rparr>) = obs s" "obs (s\<lparr>h_od := y\<rparr>) = obs s"
  "obs (s\<lparr>h_rng := r\<rparr>) = obs s" "obs (s\<lparr>h_clock := k\<rparr>) = obs s"
  by (simp_all add: obs_def heap.truncate_def)

lemma obs_eq_iff: "obs s = obs t \<longleftrightarrow>
   h_be s = h_be t \<and> h_epoch s = h_epoch t \<and> h_base s = h_base t"
  by (simp add: obs_def heap.truncate_def)

lemma obs_IsHealthy: "obs s = obs t \<Longrightarrow> IsHealthy s = IsHealthy t"
  by (simp add: obs_eq_iff IsHealthy_def fun_eq_iff)

lemma obs_conns: "obs s = obs t \<Longrightarrow> conns s = conns t"
  by (simp add: obs_eq_iff conns_def fun_eq_iff)

lemma obs_GetActiveConns: "obs s = obs t \<Longrightarrow> GetActiveConns s = GetActiveConns t"
  by (simp add: obs_eq_iff GetActiveConns_def fun_eq_iff)

lemma obs_GetWeight: "obs s = obs t \<Longrightarrow> GetWeight s = GetWeight t"
  by (simp add: obs_eq_iff GetWeight_def fun_eq_iff)

lemma obs_heap_wf: "obs s = obs t \<Longrightarrow> heap_wf s = heap_wf t"
  using obs_IsHealthy[of s t] by (simp add: obs_eq_iff heap_wf_def base_wf_def)

lemma obs_BB_All: "obs s = obs t \<Longrightarrow> BB_All a s = BB_All a t"
  by (simp add: obs_eq_iff BB_All_def)

lemma obs_draw [simp]: "obs (snd (draw s)) = obs s"
  and obs_Now [simp]: "obs (snd (Now s)) = obs s"
  by (simp_all add: draw_def Now_def)

definition members :: "lb_heap \<Rightarrow> addr \<Rightarrow> bid list" where
  "members s a = BB_All a s"

lemma obs_members: "obs s = obs t \<Longrightarrow> members s = members t"
  using obs_BB_All[of s t] by (simp add: members_def fun_eq_iff)

text \<open>
  \<open>picks_ok I s C (r, s')\<close>: the reserve-on-select convention.  A returned backend is one
  of \<open>C\<close>, is healthy, and has exactly one more connection than before, every other
  counter being unchanged; an error leaves all counters alone.  The invariant \<open>I\<close> holds
  again afterwards.
\<close>

definition picks_ok ::
    "(lb_heap \<Rightarrow> bool) \<Rightarrow> lb_heap \<Rightarrow> bid set \<Rightarrow> (lb_error + bid) \<times> lb_heap \<Rightarrow> bool" where
  "picks_ok I s C rs \<longleftrightarrow>
     (case rs of (r, s') \<Rightarrow> I s' \<and> members s' = members s \<and>
        (case r of Inl e \<Rightarrow> conns s' = conns s
         | Inr b \<Rightarrow> b \<in> C \<and> IsHealthy s' b \<and> conns s' = (conns s)(b := conns s b + 1)))"

definition same_health :: "lb_heap \<Rightarrow> lb_heap \<Rightarrow> bool" where
  "same_health s s' \<longleftrightarrow> (\<forall>b. IsHealthy s' b = IsHealthy s b)"

lemma picks_ok_mono: "picks_ok I s C rs \<Longrightarrow> C \<subseteq> D \<Longrightarrow> picks_ok I s D rs"
  by (auto simp: picks_ok_def split: prod.splits sum.splits)

lemma picks_ok_from:
  assumes "picks_ok I t C rs" and "conns t = conns s" and "members t = members s"
  shows "picks_ok I s C rs"
  using assms by (auto simp: picks_ok_def split: prod.splits sum.splits)

lemma picks_ok_Inl:
  "I s' \<Longrightarrow> members s' = members s \<Longrightarrow> conns s' = conns s \<Longrightarrow> picks_ok I s C (Inl e, s')"
  by (simp add: picks_ok_def)

definition reserve :: "bid \<Rightarrow> lb_heap pick" where
  "reserve b s = (Inr b, IncrConn b s)"

lemma members_IncrConn [frame_simps]: "members (IncrConn b s) = members s"
  and members_DecrConn [frame_simps]: "members (DecrConn b s) = members s"
  and members_SetHealthy [frame_simps]: "members (SetHealthy b v s) = members s"
  by (simp_all add: members_def BB_All_def frame_simps fun_eq_iff)

lemma reserve_ok:
  "I (IncrConn b s) \<Longrightarrow> b \<in> C \<Longrightarrow> IsHealthy s b \<Longrightarrow> picks_ok I s C (reserve b s)"
  by (simp add: picks_ok_def reserve_def frame_simps)

lemma reserve_health: "same_health s (snd (reserve b s))"
  by (simp add: same_health_def reserve_def frame_simps)

lemma same_health_trans: "same_health s t \<Longrightarrow> same_health t u \<Longrightarrow> same_health s u"
  by (simp add: same_health_def)

text \<open>
  What an invariant of a balancer object may depend on beside \<open>heap_wf\<close>: the membership
  lists, the URLs and weights of the backends and the hash rings.
\<close>

definition config_frame :: "lb_heap \<Rightarrow> lb_heap \<Rightarrow> bool" where
  "config_frame s s' \<longleftrightarrow> members s' = members s \<and> h_ch s' = h_ch s \<and>
     (\<forall>b. be_URL (h_be s' b) = be_URL (h_be s b) \<and> be_weight (h_be s' b) = be_weight (h_be s b))"

lemma config_frame_refl: "config_frame s s"
  and config_frame_trans: "config_frame s t \<Longrightarrow> config_frame t u \<Longrightarrow> config_frame s u"
  by (simp_all add: config_frame_def)

lemma config_frame_IncrConn: "config_frame s (IncrConn b s)"
  and config_frame_DecrConn: "config_frame s (DecrConn b s)"
  and config_frame_SetHealthy: "config_frame s (SetHealthy b v s)"
  by (simp_all add: config_frame_def frame_simps)
     (simp_all add: IncrConn_def DecrConn_def SetHealthy_def upd_be_def Let_def)

lemma config_frame_obs: "obs s' = obs s \<Longrightarrow> h_ch s' = h_ch s \<Longrightarrow> config_frame s s'"
  using obs_members[of s' s] by (simp add: config_frame_def obs_eq_iff)

lemma obs_same_health: "obs s = obs t \<Longrightarrow> same_health s t"
  using obs_IsHealthy[of s t] by (simp add: same_health_def)

section \<open>A process start\<close>

text \<open>
  The heap before any balancer is used: the zero values the constructors leave, and the
  backends as \<open>NewBackend\<close> makes them from their configuration.
\<close>

definition start_heap :: "(bid \<Rightarrow> backend_config) \<Rightarrow> nat strm \<Rightarrow> time strm \<Rightarrow> lb_heap" where
  "start_heap cfg rng clock =
     \<lparr>h_be = (\<lambda>b. NewBackend (cfg b)), h_epoch = 0,
      h_base = (\<lambda>_. \<lparr>bb_backends = [], bb_gen = 0, bb_cachedHealthy = [], bb_cacheEpoch = 0,
                      bb_cacheGen = 0, bb_cacheValid = False\<rparr>),
      h_current = (\<lambda>_. 0), h_swrr = (\<lambda>_ _. 0), h_ewma = (\<lambda>_ _. None),
      h_ch = (\<lambda>_. \<lparr>ch_replicas = 0, ch_loadFactor = 0, ch_ring = [], ch_ringMap = (\<lambda>_. None),
                    ch_ringKey = []\<rparr>),
      h_ss = (\<lambda>_. \<lparr>ss_window = 0, ss_wasHealthy = (\<lambda>_. None), ss_healthySince = (\<lambda>_. None)\<rparr>),
      h_od = (\<lambda>_. \<lparr>od_enabled = False, od_errorRateThreshold = 0, od_minRequests = 0,
                    od_baseEjection = 0, od_maxEjectionPercent = 0, od_stats = []\<rparr>),
      h_rng = rng, h_clock = clock\<rparr>"

lemma start_heap_wf: "heap_wf (start_heap cfg rng clock)"
  by (simp add: heap_wf_def base_wf_def start_heap_def)

text \<open>Two backends of weights 2 and 1 behind the balancer at address 0.\<close>

definition duo_cfg :: "bid \<Rightarrow> backend_config" where
  "duo_cfg b = \<lparr>cfg_URL = (if b = 0 then ''http://a:80'' else ''http://b:80''),
     cfg_Weight = (if b = 0 then 2 else 1), cfg_MaxConns = 0,
     cfg_Zone = (if b = 0 then ''west'' else ''east''), cfg_Tier = (if b = 0 then 1 else 0)\<rparr>"

definition duo :: lb_heap where
  "duo = BB_Add 0 1 (BB_Add 0 0 (start_heap duo_cfg (\<lambda>_. 0) (\<lambda>_. 0)))"

lemma duo_wf: "heap_wf duo"
  unfolding duo_def
  by (intro BB_Add_wf start_heap_wf) (simp_all add: BB_All_def BB_Add_def start_heap_def)

lemma duo_simps [simp]:
  "BB_All 0 duo = [0, 1]" "h_current duo = (\<lambda>_. 0)" "h_swrr duo = (\<lambda>_ _. 0)" "IsHealthy duo b"
  "GetWeight duo b = (if b = 0 then 2 else 1)" "GetActiveConns duo b = 0" "conns duo b = 0"
  by (simp_all add: duo_def BB_All_def BB_Add_def start_heap_def IsHealthy_def NewBackend_def
      GetWeight_def GetActiveConns_def conns_def duo_cfg_def)

end
