(* ===== verification/Contract.thy ===== *)
theory Contract
  imports LbHeap
begin

text \<open>
  The contracts behind the \<open>Balancer\<close> interface.  \<open>balancer_contract\<close> is what the proxy
  relies on: every selection returns a healthy member and reserves exactly that one.
  \<open>passive_balancer\<close> adds that selecting never changes a health flag, which is what a
  wrapper relies on when it narrows the candidates; \<open>live_balancer\<close> and \<open>live_keyed\<close> add
  that a selection without or with a routing key succeeds whenever some member is
  healthy (and the number of members fits the \<open>uint32\<close> the source converts it to).
  The invariant \<open>hinv\<close> of the balancer is \<open>heap_wf\<close> for most algorithms; it survives every
  change that leaves membership, URLs, weights and hash rings alone.
\<close>

definition eligible :: "lb_heap balancer \<Rightarrow> lb_heap \<Rightarrow> bid list \<Rightarrow> bool" where
  "eligible B s cs \<longleftrightarrow> distinct cs \<and> set cs \<subseteq> set (m_All B s) \<and> (\<forall>b \<in> set cs. IsHealthy s b)"

locale balancer_contract =
  fixes B :: "lb_heap balancer" and hinv :: "lb_heap \<Rightarrow> bool"
  assumes inv_wf: "hinv s \<Longrightarrow> heap_wf s"
    and inv_frame: "hinv s \<Longrightarrow> heap_wf s' \<Longrightarrow> config_frame s s' \<Longrightarrow> hinv s'"
    and All_members: "members s' = members s \<Longrightarrow> m_All B s' = m_All B s"
    and All_distinct: "hinv s \<Longrightarrow> distinct (m_All B s)"
    and GetHealthy_fst: "hinv s \<Longrightarrow> fst (m_GetHealthy B s) = filter (IsHealthy s) (m_All B s)"
    and GetHealthy_be: "h_be (snd (m_GetHealthy B s)) = h_be s"
    and GetHealthy_wf: "hinv s \<Longrightarrow> hinv (snd (m_GetHealthy B s))"
    and GetHealthy_members: "members (snd (m_GetHealthy B s)) = members s"
    and Next_ok: "hinv s \<Longrightarrow> picks_ok hinv s (set (m_All B s)) (m_Next B s)"
    and NextForKey_ok: "m_NextForKey B = Some f \<Longrightarrow> hinv s \<Longrightarrow>
          picks_ok hinv s (set (m_All B s)) (f key s)"
    and pickFrom_ok: "m_pickFrom B = Some p \<Longrightarrow> hinv s \<Longrightarrow> eligible B s cs \<Longrightarrow>
          picks_ok hinv s (set cs) (p cs s)"
    and pickFromKey_ok: "m_pickFromKey B = Some q \<Longrightarrow> hinv s \<Longrightarrow> eligible B s cs \<Longrightarrow>
          picks_ok hinv s (set cs) (q cs key s)"
begin

lemma GetHealthy_health: "IsHealthy (snd (m_GetHealthy B s)) = IsHealthy s"
  using GetHealthy_be[of s] by (simp add: IsHealthy_def fun_eq_iff)

lemma GetHealthy_conns: "conns (snd (m_GetHealthy B s)) = conns s"
  using GetHealthy_be[of s] by (simp add: conns_def fun_eq_iff)

lemma GetHealthy_All: "m_All B (snd (m_GetHealthy B s)) = m_All B s"
  by (rule All_members) (rule GetHealthy_members)

lemma eligible_GetHealthy: "eligible B (snd (m_GetHealthy B s)) cs = eligible B s cs"
  by (simp add: eligible_def GetHealthy_health GetHealthy_All)

lemma eligible_healthy:
  "hinv s \<Longrightarrow> eligible B s (filter (IsHealthy s) (m_All B s))"
  by (auto simp: eligible_def All_distinct)

text \<open>The proxy's side of the convention: a reservation and its release cancel out.\<close>

lemma Next_then_DecrConn:
  assumes "hinv s" and "m_Next B s = (Inr b, s')"
  shows "conns (DecrConn b s') = conns s" and "hinv (DecrConn b s')"
  using Next_ok[OF assms(1)] assms(2)
  by (auto simp: picks_ok_def frame_simps intro: inv_frame[OF _ DecrConn_wf config_frame_DecrConn] inv_wf)

end

locale passive_balancer = balancer_contract +
  assumes Next_health: "hinv s \<Longrightarrow> same_health s (snd (m_Next B s))"
    and NextForKey_health: "m_NextForKey B = Some f \<Longrightarrow> hinv s \<Longrightarrow>
          same_health s (snd (f key s))"
    and pickFrom_health: "m_pickFrom B = Some p \<Longrightarrow> hinv s \<Longrightarrow> eligible B s cs \<Longrightarrow>
          same_health s (snd (p cs s))"
    and pickFromKey_health: "m_pickFromKey B = Some q \<Longrightarrow> hinv s \<Longrightarrow> eligible B s cs \<Longrightarrow>
          same_health s (snd (q cs key s))"
begin

text \<open>A passive selection picks among the backends that were healthy before it.\<close>

lemma picks_ok_healthy:
  assumes "picks_ok hinv s (set (m_All B s)) rs" and "same_health s (snd rs)"
  shows "picks_ok hinv s (set (filter (IsHealthy s) (m_All B s))) rs"
  using assms by (auto simp: picks_ok_def same_health_def split: prod.splits sum.splits)

lemma Next_ok_healthy:
  "hinv s \<Longrightarrow> picks_ok hinv s (set (filter (IsHealthy s) (m_All B s))) (m_Next B s)"
  by (intro picks_ok_healthy Next_ok Next_health)

lemma NextForKey_ok_healthy:
  "m_NextForKey B = Some f \<Longrightarrow> hinv s \<Longrightarrow>
     picks_ok hinv s (set (filter (IsHealthy s) (m_All B s))) (f key s)"
  by (intro picks_ok_healthy NextForKey_ok NextForKey_health)

end

definition succeeds :: "(lb_error + bid) \<times> lb_heap \<Rightarrow> bool" where
  "succeeds rs \<longleftrightarrow> (\<exists>b s'. rs = (Inr b, s'))"

definition some_healthy :: "lb_heap balancer \<Rightarrow> lb_heap \<Rightarrow> bool" where
  "some_healthy B s \<longleftrightarrow> length (m_All B s) < 2 ^ 32 \<and> (\<exists>b \<in> set (m_All B s). IsHealthy s b)"

locale live_balancer = passive_balancer +
  assumes Next_live: "hinv s \<Longrightarrow> some_healthy B s \<Longrightarrow> succeeds (m_Next B s)"
    and pickFrom_live: "m_pickFrom B = Some p \<Longrightarrow> hinv s \<Longrightarrow> some_healthy B s \<Longrightarrow>
          eligible B s cs \<Longrightarrow> cs \<noteq> [] \<Longrightarrow> succeeds (p cs s)"

text \<open>
  Selection with a routing key, the way the callers do it: through \<open>NextForKey\<close> where the
  balancer has it, and through \<open>Next\<close> otherwise.
\<close>

definition keyed_next :: "lb_heap balancer \<Rightarrow> string \<Rightarrow> lb_heap pick" where
  "keyed_next B key = (case m_NextForKey B of Some f \<Rightarrow> f key | None \<Rightarrow> m_Next B)"

locale live_keyed = passive_balancer +
  assumes keyed_live: "hinv s \<Longrightarrow> some_healthy B s \<Longrightarrow> succeeds (keyed_next B key s)"
    and pickFromKey_live: "m_pickFromKey B = Some q \<Longrightarrow> hinv s \<Longrightarrow> some_healthy B s \<Longrightarrow>
          eligible B s cs \<Longrightarrow> cs \<noteq> [] \<Longrightarrow> succeeds (q cs key s)"

lemma live_keyedI:
  assumes "live_balancer B hinv" and "m_NextForKey B = None" and "m_pickFromKey B = None"
  shows "live_keyed B hinv"
proof -
  have "passive_balancer B hinv" using assms(1) by (simp add: live_balancer_def)
  then show ?thesis using live_balancer.Next_live[OF assms(1)] assms(2,3)
    by (intro live_keyed.intro live_keyed_axioms.intro) (auto simp: keyed_next_def)
qed

text \<open>What an algorithm must show to satisfy the contract with its embedded base.\<close>

lemma base_contract:
  assumes "\<And>s. heap_wf s \<Longrightarrow> picks_ok heap_wf s (set (BB_All a s)) (nxt s)"
    and "\<And>f k s. kf = Some f \<Longrightarrow> heap_wf s \<Longrightarrow> picks_ok heap_wf s (set (BB_All a s)) (f k s)"
  shows "balancer_contract ((base_methods a nxt)\<lparr>m_NextForKey := kf, m_ObserveLatency := ol\<rparr>) heap_wf"
proof
  fix s s' :: lb_heap
  assume m: "members s' = members s"
  show "m_All ((base_methods a nxt)\<lparr>m_NextForKey := kf, m_ObserveLatency := ol\<rparr>) s' =
        m_All ((base_methods a nxt)\<lparr>m_NextForKey := kf, m_ObserveLatency := ol\<rparr>) s"
    using fun_cong[OF m, of a] by (simp add: base_methods_def members_def)
qed (auto simp: base_methods_def assms BB_All_distinct BB_GetHealthy_fst frame_simps
       inv_intros members_def fun_eq_iff)

lemma base_passive:
  assumes "balancer_contract ((base_methods a nxt)\<lparr>m_NextForKey := kf, m_ObserveLatency := ol\<rparr>) heap_wf"
    and "\<And>s. heap_wf s \<Longrightarrow> same_health s (snd (nxt s))"
    and "\<And>f k s. kf = Some f \<Longrightarrow> heap_wf s \<Longrightarrow> same_health s (snd (f k s))"
  shows "passive_balancer ((base_methods a nxt)\<lparr>m_NextForKey := kf, m_ObserveLatency := ol\<rparr>) heap_wf"
  by (intro passive_balancer.intro passive_balancer_axioms.intro assms(1))
     (auto simp: base_methods_def assms)

end
