(* ===== verification/Algorithms.thy ===== *)
theory Algorithms
  imports Contract
begin

text \<open>
  The selection algorithms of \<open>internal/balancer\<close> (all but consistent hashing, which
  has its own theory).  Every \<open>Next\<close> starts with the healthy members, returns the
  error \<open>no healthy backends\<close> for none, and otherwise chooses one and reserves it.
\<close>

section \<open>Definitions\<close>

definition with_healthy :: "addr \<Rightarrow> (bid list \<Rightarrow> lb_heap pick) \<Rightarrow> lb_heap pick" where
  "with_healthy a sel s =
     (let (healthy, s') = BB_GetHealthy a s
      in if healthy = [] then (Inl ErrNoHealthy, s') else sel healthy s')"

text \<open>\<open>healthy[h % uint32(len(healthy))]\<close>\<close>

definition index_mod :: "uint32 \<Rightarrow> bid list \<Rightarrow> lb_error + bid" where
  "index_mod h xs =
     (let n = (word_of_nat (length xs) :: uint32)
      in if n = 0 then Inl PanicDivide else Inr (xs ! unat (h mod n)))"

definition reserve_res :: "lb_error + bid \<Rightarrow> lb_heap pick" where
  "reserve_res r s = (case r of Inl e \<Rightarrow> (Inl e, s) | Inr b \<Rightarrow> reserve b s)"

subsection \<open>Round robin\<close>

definition rr_choose :: "addr \<Rightarrow> bid list \<Rightarrow> lb_heap pick" where
  "rr_choose a healthy s =
     (let new = h_current s a + 1; index = new - 1;
          s' = s\<lparr>h_current := (h_current s)(a := new)\<rparr>
      in reserve_res (index_mod index healthy) s')"

definition RoundRobin :: "addr \<Rightarrow> lb_heap balancer" where
  "RoundRobin a = base_methods a (with_healthy a (rr_choose a))"

subsection \<open>Client-IP hash\<close>

text \<open>FNV-1a on 32 bits (\<open>hash/fnv\<close>).\<close>

unbundle bit_operations_syntax

definition fnv1a :: "string \<Rightarrow> uint32" where
  "fnv1a key = fold (\<lambda>c h. (h XOR word_of_nat (of_char c)) * 16777619) key 2166136261"

definition iphash_choose :: "string \<Rightarrow> bid list \<Rightarrow> lb_heap pick" where
  "iphash_choose ip healthy s = reserve_res (index_mod (fnv1a ip) healthy) s"

definition IPHash_NextForIP :: "addr \<Rightarrow> string \<Rightarrow> lb_heap pick" where
  "IPHash_NextForIP a ip = with_healthy a (iphash_choose ip)"

definition IPHash :: "addr \<Rightarrow> lb_heap balancer" where
  "IPHash a = (base_methods a (\<lambda>s. (Inl ErrIPHashNeedsIP, s)))
     \<lparr>m_NextForKey := Some (IPHash_NextForIP a)\<rparr>"

subsection \<open>Least connections\<close>

fun lc_scan :: "(bid \<Rightarrow> int) \<Rightarrow> bid option \<times> int \<Rightarrow> bid list \<Rightarrow> bid option \<times> int" where
  "lc_scan f acc [] = acc"
| "lc_scan f (sel, minConns) (b # bs) =
     lc_scan f (if f b < minConns then (Some b, f b) else (sel, minConns)) bs"

definition reserve_opt :: "bid option \<Rightarrow> lb_heap pick" where
  "reserve_opt sel s = (case sel of None \<Rightarrow> (Inl ErrNilBackend, s) | Some b \<Rightarrow> reserve b s)"

definition lc_choose :: "bid list \<Rightarrow> lb_heap pick" where
  "lc_choose healthy s =
     reserve_opt (fst (lc_scan (GetActiveConns s) (None, MaxInt64) healthy)) s"

definition LeastConnections :: "addr \<Rightarrow> lb_heap balancer" where
  "LeastConnections a = base_methods a (with_healthy a lc_choose)"

subsection \<open>Weighted least connections\<close>

definition pos_weight :: "lb_heap \<Rightarrow> bid \<Rightarrow> int" where
  "pos_weight s b = (if GetWeight s b \<le> 0 then 1 else GetWeight s b)"

definition wlc_score :: "lb_heap \<Rightarrow> bid \<Rightarrow> f64" where
  "wlc_score s b = f64_div (f64_of_int (GetActiveConns s b)) (f64_of_int (pos_weight s b))"

definition wlc_choose :: "bid list \<Rightarrow> lb_heap pick" where
  "wlc_choose healthy s = reserve_opt (map_option fst (scan_best (wlc_score s) None healthy)) s"

definition WeightedLeastConn :: "addr \<Rightarrow> lb_heap balancer" where
  "WeightedLeastConn a = base_methods a (with_healthy a wlc_choose)"

subsection \<open>Classic weighted round robin\<close>

definition wrr_total :: "lb_heap \<Rightarrow> bid list \<Rightarrow> int" where
  "wrr_total s healthy =
     foldl (\<lambda>t b. if 0 < GetWeight s b then t + GetWeight s b else t) 0 healthy"

fun wrr_find :: "lb_heap \<Rightarrow> uint32 \<Rightarrow> uint32 \<Rightarrow> bid list \<Rightarrow> bid option" where
  "wrr_find s sequence current [] = None"
| "wrr_find s sequence current (b # bs) =
     (if GetWeight s b \<le> 0 then wrr_find s sequence current bs
      else let current' = current + word_of_int (GetWeight s b)
           in if sequence < current' then Some b else wrr_find s sequence current' bs)"

definition wrr_choose :: "addr \<Rightarrow> bid list \<Rightarrow> lb_heap pick" where
  "wrr_choose a healthy s =
     (if wrr_total s healthy = 0 then reserve (hd healthy) s
      else let new = h_current s a + 1; index = new - 1;
               s' = s\<lparr>h_current := (h_current s)(a := new)\<rparr>;
               tw = (word_of_int (wrr_total s healthy) :: uint32)
           in if tw = 0 then (Inl PanicDivide, s')
              else reserve (case wrr_find s (index mod tw) 0 healthy of
                              Some b \<Rightarrow> b | None \<Rightarrow> hd healthy) s')"

definition WeightedRoundRobin :: "addr \<Rightarrow> lb_heap balancer" where
  "WeightedRoundRobin a = base_methods a (with_healthy a (wrr_choose a))"

subsection \<open>Smooth weighted round robin\<close>

fun swrr_scan :: "(bid \<Rightarrow> int) \<Rightarrow> bid list \<Rightarrow> (bid \<Rightarrow> int) \<Rightarrow> int \<Rightarrow> bid option
    \<Rightarrow> (bid \<Rightarrow> int) \<times> int \<times> bid option" where
  "swrr_scan w [] current tot best = (current, tot, best)"
| "swrr_scan w (b # bs) current tot best =
     (let current' = current(b := current b + w b)
      in swrr_scan w bs current' (tot + w b)
           (case best of None \<Rightarrow> Some b
            | Some x \<Rightarrow> if current' b > current' x then Some b else best))"

definition swrr_pick :: "(bid \<Rightarrow> int) \<Rightarrow> bid list \<Rightarrow> (bid \<Rightarrow> int) \<Rightarrow> bid \<times> (bid \<Rightarrow> int)" where
  "swrr_pick w healthy current =
     (let (current', tot, best) = swrr_scan w healthy current 0 None;
          x = (case best of None \<Rightarrow> hd healthy | Some x \<Rightarrow> x)
      in (x, current'(x := current' x - tot)))"

definition swrr_choose :: "addr \<Rightarrow> bid list \<Rightarrow> lb_heap pick" where
  "swrr_choose a healthy s =
     (let (best, current) = swrr_pick (pos_weight s) healthy (h_swrr s a)
      in reserve best (s\<lparr>h_swrr := (h_swrr s)(a := current)\<rparr>))"

definition SWRR :: "addr \<Rightarrow> lb_heap balancer" where
  "SWRR a = base_methods a (with_healthy a (swrr_choose a))"

subsection \<open>Weighted random\<close>

definition wr_total :: "lb_heap \<Rightarrow> bid list \<Rightarrow> int" where
  "wr_total s healthy = foldl (\<lambda>t b. t + pos_weight s b) 0 healthy"

fun wr_find :: "lb_heap \<Rightarrow> int \<Rightarrow> bid list \<Rightarrow> bid option" where
  "wr_find s r [] = None"
| "wr_find s r (b # bs) =
     (let r' = r - pos_weight s b in if r' < 0 then Some b else wr_find s r' bs)"

definition wr_choose :: "bid list \<Rightarrow> lb_heap pick" where
  "wr_choose healthy s =
     (case Intn (wr_total s healthy) s of
        (Inl e, s') \<Rightarrow> (Inl e, s')
      | (Inr r, s') \<Rightarrow>
          reserve (case wr_find s' r healthy of Some b \<Rightarrow> b | None \<Rightarrow> last healthy) s')"

definition WeightedRandom :: "addr \<Rightarrow> lb_heap balancer" where
  "WeightedRandom a = base_methods a (with_healthy a wr_choose)"

subsection \<open>Power of two choices\<close>

definition p2c_pair :: "int \<Rightarrow> int \<Rightarrow> int \<times> int" where
  "p2c_pair i j = (i, if i \<le> j then j + 1 else j)"

definition p2c_choose :: "bid list \<Rightarrow> lb_heap pick" where
  "p2c_choose healthy s =
     (if length healthy = 1 then reserve (hd healthy) s
      else case Intn (int (length healthy)) s of
        (Inl e, s1) \<Rightarrow> (Inl e, s1)
      | (Inr i, s1) \<Rightarrow>
          (case Intn (int (length healthy) - 1) s1 of
             (Inl e, s2) \<Rightarrow> (Inl e, s2)
           | (Inr j, s2) \<Rightarrow>
               let (i, j) = p2c_pair i j; x = healthy ! nat i; y = healthy ! nat j
               in reserve (if GetActiveConns s2 y < GetActiveConns s2 x then y else x) s2))"

definition P2C :: "addr \<Rightarrow> lb_heap balancer" where
  "P2C a = base_methods a (with_healthy a p2c_choose)"

subsection \<open>Peak EWMA\<close>

definition ewmaDecayTau :: duration where
  "ewmaDecayTau = 10 * Second"

text \<open>
  \<open>mexp\<close> stands for \<open>math.Exp\<close>, whose last bits depend on the platform.
\<close>

definition EWMA_ObserveLatency ::
    "(f64 \<Rightarrow> f64) \<Rightarrow> addr \<Rightarrow> bid \<Rightarrow> duration \<Rightarrow> lb_heap \<Rightarrow> lb_heap" where
  "EWMA_ObserveLatency mexp a b d s =
     (let (now, s1) = Now s in
      case h_ewma s1 a b of
        None \<Rightarrow> s1\<lparr>h_ewma := (h_ewma s1)(a := (h_ewma s1 a)
                  (b \<mapsto> \<lparr>ew_value = f64_of_int d, ew_lastSample = now\<rparr>))\<rparr>
      | Some st \<Rightarrow>
          let elapsed = max 0 (time_Sub now (ew_lastSample st));
              w = mexp (f64_div (- f64_of_int elapsed) (f64_of_int ewmaDecayTau));
              v = f64_add (f64_mul (ew_value st) w) (f64_mul (f64_of_int d) (f64_sub 1 w))
          in s1\<lparr>h_ewma := (h_ewma s1)(a := (h_ewma s1 a)
                (b \<mapsto> \<lparr>ew_value = v, ew_lastSample = now\<rparr>))\<rparr>)"

definition ewma_score :: "lb_heap \<Rightarrow> addr \<Rightarrow> bid \<Rightarrow> f64" where
  "ewma_score s a b =
     (let inflight = f64_add (f64_of_int (GetActiveConns s b)) 1 in
      case h_ewma s a b of None \<Rightarrow> 0 | Some st \<Rightarrow> f64_mul (ew_value st) inflight)"

definition ewma_choose :: "addr \<Rightarrow> bid list \<Rightarrow> lb_heap pick" where
  "ewma_choose a healthy s =
     reserve_opt (map_option fst (scan_best (ewma_score s a) None healthy)) s"

definition EWMA :: "(f64 \<Rightarrow> f64) \<Rightarrow> addr \<Rightarrow> lb_heap balancer" where
  "EWMA mexp a = (base_methods a (with_healthy a (ewma_choose a)))
     \<lparr>m_ObserveLatency := Some (EWMA_ObserveLatency mexp a)\<rparr>"

section \<open>Choosing among the healthy members\<close>

definition healthy_of :: "addr \<Rightarrow> lb_heap \<Rightarrow> bid list" where
  "healthy_of a s = filter (IsHealthy s) (BB_All a s)"

lemma with_healthy_none:
  assumes "heap_wf s" and "healthy_of a s = []"
  shows "with_healthy a sel s = (Inl ErrNoHealthy, snd (BB_GetHealthy a s))"
  using assms BB_GetHealthy_fst[OF assms(1), of a]
  by (simp add: with_healthy_def case_prod_beta healthy_of_def)

lemma with_healthy_eq:
  assumes "heap_wf s" and "healthy_of a s \<noteq> []"
  shows "with_healthy a sel s = sel (healthy_of a s) (snd (BB_GetHealthy a s))"
  using assms BB_GetHealthy_fst[OF assms(1), of a]
  by (simp add: with_healthy_def case_prod_beta healthy_of_def)

locale chooser =
  fixes sel :: "bid list \<Rightarrow> lb_heap pick"
  assumes sel_ok: "heap_wf s \<Longrightarrow> hs \<noteq> [] \<Longrightarrow> (\<And>b. b \<in> set hs \<Longrightarrow> IsHealthy s b) \<Longrightarrow>
        picks_ok heap_wf s (set hs) (sel hs s)"
    and sel_health: "hs \<noteq> [] \<Longrightarrow> same_health s (snd (sel hs s))"
begin

lemma with_healthy_ok:
  assumes "heap_wf s"
  shows "picks_ok heap_wf s (set (BB_All a s)) (with_healthy a sel s)"
proof -
  let ?hs = "filter (IsHealthy s) (BB_All a s)" and ?s = "snd (BB_GetHealthy a s)"
  have eq: "with_healthy a sel s = (if ?hs = [] then (Inl ErrNoHealthy, ?s) else sel ?hs ?s)"
    using BB_GetHealthy_fst[OF assms, of a] by (simp add: with_healthy_def case_prod_beta)
  have m: "members ?s = members s" by (simp add: members_def frame_simps fun_eq_iff)
  have wf: "heap_wf ?s" using assms by (rule BB_GetHealthy_wf)
  show ?thesis
  proof (cases "?hs = []")
    case True
    then show ?thesis using wf m unfolding eq by (simp add: picks_ok_Inl frame_simps)
  next
    case False
    have "picks_ok heap_wf ?s (set ?hs) (sel ?hs ?s)"
      by (rule sel_ok[OF wf False]) (simp add: frame_simps)
    then have "picks_ok heap_wf s (set ?hs) (sel ?hs ?s)"
      by (rule picks_ok_from) (simp_all add: frame_simps m)
    then show ?thesis using False unfolding eq by (auto elim: picks_ok_mono)
  qed
qed

lemma with_healthy_health: "same_health s (snd (with_healthy a sel s))"
proof -
  have "same_health s (snd (BB_GetHealthy a s))" by (simp add: same_health_def frame_simps)
  then show ?thesis
    by (auto simp: with_healthy_def case_prod_beta intro: same_health_trans sel_health)
qed

end

locale live_chooser = chooser +
  assumes sel_live: "hs \<noteq> [] \<Longrightarrow> length hs < 2 ^ 32 \<Longrightarrow> succeeds (sel hs s)"
begin

lemma with_healthy_live:
  assumes "heap_wf s" and "length (BB_All a s) < 2 ^ 32" and "\<exists>b \<in> set (BB_All a s). IsHealthy s b"
  shows "succeeds (with_healthy a sel s)"
proof -
  let ?hs = "filter (IsHealthy s) (BB_All a s)"
  have "?hs \<noteq> []" using assms(3) by (auto simp: filter_empty_conv)
  moreover have "length ?hs < 2 ^ 32" using assms(2) length_filter_le le_less_trans by blast
  ultimately show ?thesis
    using BB_GetHealthy_fst[OF assms(1), of a] sel_live by (simp add: with_healthy_def case_prod_beta)
qed

lemma base_live:
  "live_balancer ((base_methods a (with_healthy a sel))\<lparr>m_NextForKey := None, m_ObserveLatency := ol\<rparr>) heap_wf"
  by (intro live_balancer.intro base_passive base_contract live_balancer_axioms.intro
        with_healthy_ok with_healthy_health)
     (auto simp: base_methods_def some_healthy_def with_healthy_live)

end

text \<open>A choice that only touches private state before it reserves.\<close>

lemma reserve_private:
  assumes "obs s' = obs s" and "b \<in> C"
  shows "heap_wf s \<Longrightarrow> IsHealthy s b \<Longrightarrow> picks_ok heap_wf s C (reserve b s')"
    and "same_health s (snd (reserve b s'))"
proof -
  note o = obs_heap_wf[OF assms(1)] obs_IsHealthy[OF assms(1)] obs_conns[OF assms(1)]
    obs_members[OF assms(1)]
  show "same_health s (snd (reserve b s'))"
    using o by (simp add: same_health_def reserve_def frame_simps)
  assume "heap_wf s" and "IsHealthy s b"
  then have "picks_ok heap_wf s' C (reserve b s')" using o assms(2) by (intro reserve_ok IncrConn_wf) auto
  then show "picks_ok heap_wf s C (reserve b s')" using o by (auto elim: picks_ok_from)
qed

definition private_choice :: "lb_heap \<Rightarrow> bid list \<Rightarrow> (lb_error + bid) \<times> lb_heap \<Rightarrow> bool" where
  "private_choice s hs rs \<longleftrightarrow>
     (\<exists>s'. obs s' = obs s \<and> ((\<exists>e. rs = (Inl e, s')) \<or> (\<exists>b \<in> set hs. rs = reserve b s')))"

lemma private_error: "obs s' = obs s \<Longrightarrow> private_choice s hs (Inl e, s')"
  by (auto simp: private_choice_def)

lemma private_reserve: "obs s' = obs s \<Longrightarrow> b \<in> set hs \<Longrightarrow> private_choice s hs (reserve b s')"
  by (auto simp: private_choice_def)

lemma chooserI:
  assumes "\<And>s hs. hs \<noteq> [] \<Longrightarrow> private_choice s hs (sel hs s)"
  shows "chooser sel"
proof
  fix s :: lb_heap and hs :: "bid list" assume hs: "hs \<noteq> []"
  from assms[OF hs, of s] obtain s' where o: "obs s' = obs s"
    and r: "(\<exists>e. sel hs s = (Inl e, s')) \<or> (\<exists>b \<in> set hs. sel hs s = reserve b s')"
    unfolding private_choice_def by blast
  note o' = obs_heap_wf[OF o] obs_IsHealthy[OF o] obs_conns[OF o] obs_members[OF o]
  show "same_health s (snd (sel hs s))"
    using r reserve_private(2)[OF o] o' by (auto simp: same_health_def)
  assume "heap_wf s" and "\<And>b. b \<in> set hs \<Longrightarrow> IsHealthy s b"
  then show "picks_ok heap_wf s (set hs) (sel hs s)"
    using r reserve_private(1)[OF o] o' by (auto simp: picks_ok_Inl)
qed

lemma live_chooserI:
  assumes "\<And>s hs. hs \<noteq> [] \<Longrightarrow> private_choice s hs (sel hs s)"
    and "\<And>s hs. hs \<noteq> [] \<Longrightarrow> length hs < 2 ^ 32 \<Longrightarrow> succeeds (sel hs s)"
  shows "live_chooser sel"
  using chooserI[OF assms(1)] assms(2) by (intro live_chooser.intro live_chooser_axioms.intro)

lemma index_mod_mem: "index_mod h xs = Inr b \<Longrightarrow> b \<in> set xs"
proof -
  assume r: "index_mod h xs = Inr b"
  let ?n = "word_of_nat (length xs) :: uint32"
  from r have n: "?n \<noteq> 0" and b: "b = xs ! unat (h mod ?n)"
    by (auto simp: index_mod_def Let_def split: if_splits)
  have "unat (h mod ?n) < unat ?n"
    using n by (simp add: unat_mod word_neq_0_conv unat_gt_0)
  also have "\<dots> \<le> length xs" by (simp add: unat_of_nat)
  finally show ?thesis using b by simp
qed

lemma index_mod_live: "xs \<noteq> [] \<Longrightarrow> length xs < 2 ^ 32 \<Longrightarrow>
   index_mod h xs = Inr (xs ! (unat h mod length xs))"
proof -
  assume xs: "xs \<noteq> []" "length xs < 2 ^ 32"
  let ?n = "word_of_nat (length xs) :: uint32"
  have n: "unat ?n = length xs" using xs(2) by (simp add: unat_of_nat)
  then have "?n \<noteq> 0" using xs(1) by (metis length_0_conv unat_0)
  then show ?thesis using n by (simp add: index_mod_def unat_mod)
qed

lemma private_reserve_res:
  "obs s' = obs s \<Longrightarrow> private_choice s hs (reserve_res (index_mod h hs) s')"
  by (auto simp: reserve_res_def private_error private_reserve index_mod_mem split: sum.split)

lemma succeeds_reserve [simp]: "succeeds (reserve b s)"
  by (simp add: succeeds_def reserve_def)

interpretation rr: live_chooser "rr_choose a" for a
  by (rule live_chooserI)
     (auto simp: rr_choose_def Let_def private_reserve_res, simp add: reserve_res_def index_mod_live)

interpretation iphash: live_chooser "iphash_choose ip" for ip
  by (rule live_chooserI)
     (auto simp: iphash_choose_def private_reserve_res, simp add: reserve_res_def index_mod_live)

lemma lc_scan_Some:
  "fst (lc_scan f (Some b, f b) bs) = Some r \<Longrightarrow> r \<in> insert b (set bs) \<and>
     (\<forall>y \<in> insert b (set bs). f r \<le> f y)"
  by (induction bs arbitrary: b) (force split: if_splits)+

lemma lc_scan_exists: "\<exists>r. fst (lc_scan f (Some b, m) bs) = Some r"
  by (induction bs arbitrary: b m) auto

text \<open>
  The scan of \<open>LeastConnections.Next\<close> starts from the largest \<open>int\<close>; an \<open>int32\<close>
  counter is always below it, so the scan never returns \<open>nil\<close>.
\<close>

lemma lc_scan_min:
  assumes "hs \<noteq> []" and "\<And>b. f b < MaxInt64"
  obtains r where "fst (lc_scan f (None, MaxInt64) hs) = Some r" and "r \<in> set hs"
    and "\<And>y. y \<in> set hs \<Longrightarrow> f r \<le> f y"
proof -
  obtain b bs where hs: "hs = b # bs" using assms(1) by (cases hs) auto
  have "lc_scan f (None, MaxInt64) hs = lc_scan f (Some b, f b) bs"
    using assms(2)[of b] by (simp add: hs)
  then show ?thesis
    using that lc_scan_exists[of f b "f b" bs] lc_scan_Some[of f b bs] by (auto simp: hs)
qed

lemma GetActiveConns_range:
  "- (2 ^ 31) \<le> GetActiveConns s b" "GetActiveConns s b < 2 ^ 31" "GetActiveConns s b < MaxInt64"
  using sint32_range[of "be_ActiveConns (h_be s b)"] by (auto simp: GetActiveConns_def MaxInt64_def)

interpretation lc: live_chooser lc_choose
proof (rule live_chooserI)
  fix s :: lb_heap and hs :: "bid list" assume hs: "hs \<noteq> []"
  obtain r where "fst (lc_scan (GetActiveConns s) (None, MaxInt64) hs) = Some r" "r \<in> set hs"
    using lc_scan_min[OF hs, of "GetActiveConns s"] GetActiveConns_range(3)[of s] by metis
  then show "private_choice s hs (lc_choose hs s)" and "succeeds (lc_choose hs s)"
    by (simp_all add: lc_choose_def reserve_opt_def private_reserve)
qed

lemma scan_choice:
  assumes "hs \<noteq> []"
  shows "private_choice s hs (reserve_opt (map_option fst (scan_best f None hs)) s)"
    and "succeeds (reserve_opt (map_option fst (scan_best f None hs)) s)"
proof -
  obtain r m where "scan_best f None hs = Some (r, m)"
    using scan_best_None_iff[of f hs] assms by (metis option.exhaust prod.exhaust)
  then show "private_choice s hs (reserve_opt (map_option fst (scan_best f None hs)) s)"
    and "succeeds (reserve_opt (map_option fst (scan_best f None hs)) s)"
    using scan_best_min(2)[of f hs r m] by (simp_all add: reserve_opt_def private_reserve)
qed

interpretation wlc: live_chooser wlc_choose
  by (rule live_chooserI) (simp_all add: wlc_choose_def scan_choice)

interpretation ewma: live_chooser "ewma_choose a" for a
  by (rule live_chooserI) (simp_all add: ewma_choose_def scan_choice)

lemma wrr_find_mem: "wrr_find s q c hs = Some b \<Longrightarrow> b \<in> set hs"
  by (induction hs arbitrary: c) (auto simp: Let_def split: if_splits)

interpretation wrr: chooser "wrr_choose a" for a
  by (rule chooserI)
     (auto simp: wrr_choose_def Let_def intro!: private_error private_reserve
        dest: wrr_find_mem split: option.split)

lemma swrr_scan_best:
  "swrr_scan w bs c t best = (c', t', best') \<Longrightarrow>
     best' = None \<and> bs = [] \<and> best = None \<or> (\<exists>x. best' = Some x \<and> (best = Some x \<or> x \<in> set bs))"
proof (induction bs arbitrary: c t best)
  case Nil
  then show ?case by (cases best) auto
next
  case (Cons b bs)
  from Cons.IH[OF Cons.prems[unfolded swrr_scan.simps Let_def]] show ?case
    by (auto split: option.splits if_splits)
qed

lemma swrr_pick_mem: "hs \<noteq> [] \<Longrightarrow> fst (swrr_pick w hs c) \<in> set hs"
  by (cases "swrr_scan w hs c 0 None") (auto simp: swrr_pick_def dest: swrr_scan_best)

interpretation swrr: live_chooser "swrr_choose a" for a
  by (rule live_chooserI)
     (auto simp: swrr_choose_def case_prod_beta swrr_pick_mem intro!: private_reserve)

lemma pos_weight_pos: "0 < pos_weight s b"
  by (simp add: pos_weight_def)

lemma wr_total_eq: "wr_total s hs = (\<Sum>b\<leftarrow>hs. pos_weight s b)"
proof -
  have "foldl (\<lambda>t b. t + pos_weight s b) t hs = t + (\<Sum>b\<leftarrow>hs. pos_weight s b)" for t
    by (induction hs arbitrary: t) auto
  from this[of 0] show ?thesis by (simp add: wr_total_def)
qed

lemma wr_total_pos: "hs \<noteq> [] \<Longrightarrow> 0 < wr_total s hs"
proof -
  have "0 \<le> (\<Sum>b\<leftarrow>hs. pos_weight s b)" for hs
    by (induction hs) (use pos_weight_pos in \<open>auto simp: add_nonneg_nonneg less_imp_le\<close>)
  then show "hs \<noteq> [] \<Longrightarrow> 0 < wr_total s hs"
    by (cases hs) (use pos_weight_pos in \<open>auto simp: wr_total_eq add_pos_nonneg\<close>)
qed

lemma wr_find_mem: "wr_find s r hs = Some b \<Longrightarrow> b \<in> set hs"
  by (induction hs arbitrary: r) (auto simp: Let_def split: if_splits)

lemma Intn_obs: "Intn n s = (r, s') \<Longrightarrow> obs s' = obs s"
  by (auto simp: Intn_def case_prod_beta split: if_splits)

lemma Intn_pos: "0 < n \<Longrightarrow> \<exists>i s'. Intn n s = (Inr i, s') \<and> 0 \<le> i \<and> i < n \<and> obs s' = obs s"
  by (auto simp: Intn_def case_prod_beta)

interpretation wr: live_chooser wr_choose
proof (rule live_chooserI)
  fix s :: lb_heap and hs :: "bid list" assume hs: "hs \<noteq> []"
  obtain i s' where i: "Intn (wr_total s hs) s = (Inr i, s')" "obs s' = obs s"
    using Intn_pos[OF wr_total_pos[OF hs]] by blast
  then show "private_choice s hs (wr_choose hs s)" and "succeeds (wr_choose hs s)"
    using hs by (auto simp: wr_choose_def intro!: private_reserve dest: wr_find_mem split: option.split)
qed

lemma p2c_pair_range:
  assumes "p2c_pair i j = (i', j')" "0 \<le> i" "i < n" "0 \<le> j" "j < n - 1"
  shows "i' = i" "0 \<le> j'" "j' < n" "j' \<noteq> i'"
  using assms by (auto simp: p2c_pair_def split: if_splits)

interpretation p2c: live_chooser p2c_choose
proof (rule live_chooserI)
  fix s :: lb_heap and hs :: "bid list" assume hs: "hs \<noteq> []"
  have "private_choice s hs (p2c_choose hs s) \<and> succeeds (p2c_choose hs s)"
  proof (cases "length hs = 1")
    case True
    then show ?thesis using hs by (simp add: p2c_choose_def private_reserve)
  next
    case False
    with hs have n: "0 < int (length hs)" "0 < int (length hs) - 1" by (cases hs; auto)+
    obtain i s1 where i: "Intn (int (length hs)) s = (Inr i, s1)" "0 \<le> i" "i < int (length hs)"
      "obs s1 = obs s" using Intn_pos[OF n(1)] by blast
    obtain j s2 where j: "Intn (int (length hs) - 1) s1 = (Inr j, s2)" "0 \<le> j"
      "j < int (length hs) - 1" "obs s2 = obs s1" using Intn_pos[OF n(2)] by blast
    obtain i' j' where p: "p2c_pair i j = (i', j')" by (cases "p2c_pair i j")
    note r = p2c_pair_range[OF p i(2,3) j(2,3)]
    have "hs ! nat i' \<in> set hs" "hs ! nat j' \<in> set hs" using r i by (auto simp: nth_mem)
    then show ?thesis using False i j p
      by (auto simp: p2c_choose_def Let_def intro!: private_reserve)
  qed
  then show "private_choice s hs (p2c_choose hs s)" and "succeeds (p2c_choose hs s)" by auto
qed

end
