(* ===== verification/Fairness.thy ===== *)
theory Fairness
  imports Algorithms
begin

text \<open>
  What each algorithm does over a run of selections with no change of membership,
  health or weights: round robin and classic weighted round robin give every backend
  exactly its share of each cycle, smooth weighted round robin does so and never lets
  a backend run ahead, weighted random maps exactly weight many draws to each backend,
  and the connection-counting algorithms return a least-loaded backend.
\<close>

section \<open>Runs\<close>

text \<open>\<open>n\<close> calls of a selection, one after the other.\<close>

fun run_picks :: "nat \<Rightarrow> lb_heap pick \<Rightarrow> lb_heap \<Rightarrow> (lb_error + bid) list \<times> lb_heap" where
  "run_picks 0 f s = ([], s)"
| "run_picks (Suc n) f s =
     (let (r, s1) = f s; (rs, s2) = run_picks n f s1 in (r # rs, s2))"

lemma healthy_of_distinct: "heap_wf s \<Longrightarrow> distinct (healthy_of a s)"
  by (simp add: healthy_of_def BB_All_distinct)

text \<open>
  The state between two selections of a run: everything a selection looks at beside its
  own counters is as at the start.
\<close>

definition steady :: "addr \<Rightarrow> lb_heap \<Rightarrow> lb_heap \<Rightarrow> bool" where
  "steady a s s' \<longleftrightarrow> heap_wf s' \<and> healthy_of a s' = healthy_of a s \<and> GetWeight s' = GetWeight s"

lemma steady_refl: "heap_wf s \<Longrightarrow> steady a s s"
  by (simp add: steady_def)

lemma steady_trans: "steady a s t \<Longrightarrow> steady a t u \<Longrightarrow> steady a s u"
  by (simp add: steady_def)

lemma steady_pos_weight: "steady a s t \<Longrightarrow> pos_weight t = pos_weight s"
  by (simp add: steady_def pos_weight_def fun_eq_iff)

lemma GetWeight_GetHealthy: "GetWeight (snd (BB_GetHealthy a s)) = GetWeight s"
  by (simp add: GetWeight_def frame_simps fun_eq_iff)

lemma BB_GetHealthy_private:
  "h_current (snd (BB_GetHealthy a s)) = h_current s" "h_swrr (snd (BB_GetHealthy a s)) = h_swrr s"
  by (simp_all add: BB_GetHealthy_def Let_def)

lemma steady_GetHealthy: "heap_wf s \<Longrightarrow> steady a s (snd (BB_GetHealthy a s))"
  by (simp add: steady_def healthy_of_def inv_intros frame_simps GetWeight_GetHealthy cong: filter_cong)

lemma steady_obs: "heap_wf s \<Longrightarrow> obs t = obs s \<Longrightarrow> steady a s t"
  using obs_heap_wf[of t s] obs_IsHealthy[of t s] obs_BB_All[of t s a] obs_GetWeight[of t s]
  by (simp add: steady_def healthy_of_def)

lemma steady_IncrConn: "heap_wf s \<Longrightarrow> steady a s (IncrConn b s)"
  by (simp add: steady_def healthy_of_def inv_intros frame_simps BB_All_def fun_eq_iff
      cong: filter_cong)

lemma steady_reserve:
  assumes "heap_wf s" and "obs t = obs s" shows "steady a s (IncrConn b t)"
  using assms steady_obs[OF assms] steady_IncrConn[of t a b] obs_heap_wf[of t s]
  by (auto intro: steady_trans)

section \<open>Round robin\<close>

lemma rr_step:
  assumes wf: "heap_wf s" and hs: "healthy_of a s \<noteq> []" "length (healthy_of a s) < 2 ^ 32"
  obtains s' where
    "m_Next (RoundRobin a) s =
       (Inr (healthy_of a s ! (unat (h_current s a) mod length (healthy_of a s))), s')"
    "steady a s s'" "h_current s' a = h_current s a + 1"
proof -
  let ?t = "snd (BB_GetHealthy a s)"
  let ?u = "?t\<lparr>h_current := (h_current s)(a := h_current s a + 1)\<rparr>"
  let ?b = "healthy_of a s ! (unat (h_current s a) mod length (healthy_of a s))"
  have "m_Next (RoundRobin a) s = (Inr ?b, IncrConn ?b ?u)"
    using hs by (simp add: RoundRobin_def base_methods_def with_healthy_eq[OF wf] rr_choose_def
        Let_def index_mod_live reserve_res_def reserve_def BB_GetHealthy_private)
  moreover have "steady a s (IncrConn ?b ?u)"
    using steady_GetHealthy[OF wf] steady_reserve[of ?t ?u a ?b] BB_GetHealthy_wf[OF wf]
    by (auto intro: steady_trans)
  moreover have "h_current (IncrConn ?b ?u) a = h_current s a + 1"
    by (simp add: IncrConn_def upd_be_def)
  ultimately show ?thesis by (rule that)
qed

lemma unat_Suc_word: "Suc (unat (w :: uint32)) < 2 ^ 32 \<Longrightarrow> unat (w + 1) = Suc (unat w)"
  by (simp add: unat_word_ariths)

lemma rr_run:
  assumes "heap_wf s" and "healthy_of a s = hs" and "hs \<noteq> []" and "length hs < 2 ^ 32"
    and "unat (h_current s a) + n \<le> 2 ^ 32"
  shows "fst (run_picks n (m_Next (RoundRobin a)) s) =
         map (\<lambda>i. Inr (hs ! ((unat (h_current s a) + i) mod length hs))) [0..<n]"
  using assms
proof (induction n arbitrary: s)
  case (Suc n)
  let ?c = "unat (h_current s a)"
  obtain s' where s': "m_Next (RoundRobin a) s = (Inr (hs ! (?c mod length hs)), s')"
    "steady a s s'" "h_current s' a = h_current s a + 1"
    using rr_step[OF Suc.prems(1), of a] Suc.prems(2-4) by metis
  have "fst (run_picks n (m_Next (RoundRobin a)) s') =
        map (\<lambda>i. Inr (hs ! ((?c + Suc i) mod length hs))) [0..<n]"
  proof (cases n)
    case (Suc m)
    then have "unat (h_current s' a) = Suc ?c" using Suc.prems(5) s'(3) by (simp add: unat_Suc_word)
    then show ?thesis using Suc.IH[of s'] Suc.prems s' by (simp add: steady_def)
  qed simp
  then show ?case using s' by (simp add: case_prod_beta upt_conv_Cons map_Suc_upt[symmetric] del: upt_Suc)
qed simp

lemma mset_nth_mod:
  "mset (map (\<lambda>i. f (xs ! ((c + i) mod length xs))) [0..<length xs]) = image_mset f (mset xs)"
proof -
  have "mset (map (\<lambda>i. f (xs ! ((c + i) mod length xs))) [0..<length xs]) =
        image_mset (\<lambda>j. f (xs ! j)) (mset (map (\<lambda>i. (c + i) mod length xs) [0..<length xs]))"
    by (simp add: image_mset.compositionality comp_def)
  also have "\<dots> = image_mset f (image_mset (nth xs) (mset [0..<length xs]))"
    by (simp only: mset_map_mod image_mset.compositionality comp_def)
  also have "image_mset (nth xs) (mset [0..<length xs]) = mset xs"
    by (metis map_nth mset_map)
  finally show ?thesis .
qed

text \<open>
  As long as the 32-bit counter does not wrap, every cycle of as many calls of
  \<open>RoundRobin.Next\<close> as there are healthy backends returns each of them exactly once.
\<close>

lemma round_robin_cycle:
  assumes "heap_wf s" and "healthy_of a s = hs" and "hs \<noteq> []"
    and "unat (h_current s a) + length hs \<le> 2 ^ 32" and "length hs < 2 ^ 32"
  shows "mset (fst (run_picks (length hs) (m_Next (RoundRobin a)) s)) = image_mset Inr (mset hs)"
  using rr_run[OF assms(1-3) assms(5,4)] mset_nth_mod[of Inr hs] by simp

lemma round_robin_cycle_witness:
  "mset (fst (run_picks (Suc (Suc 0)) (m_Next (RoundRobin 0)) duo)) = {#Inr 0, Inr 1#}"
  using round_robin_cycle[of duo 0 "[0, 1]"]
  by (simp add: duo_wf healthy_of_def del: run_picks.simps)

section \<open>Smooth weighted round robin\<close>

lemma swrr_scan_all:
  assumes "swrr_scan w bs c t best = (c', t', best')" and "distinct bs"
    and "\<forall>x. best = Some x \<longrightarrow> x \<notin> set bs"
  shows "c' = (\<lambda>b. if b \<in> set bs then c b + w b else c b) \<and> t' = t + (\<Sum>b\<leftarrow>bs. w b) \<and>
         (\<forall>y. y \<in> set bs \<or> best = Some y \<longrightarrow> (\<exists>x. best' = Some x \<and> c' y \<le> c' x))"
  using assms
proof (induction bs arbitrary: c t best)
  case (Cons b bs)
  let ?c = "c(b := c b + w b)"
  let ?best = "case best of None \<Rightarrow> Some b | Some x \<Rightarrow> if ?c b > ?c x then Some b else best"
  have pre: "\<forall>x. ?best = Some x \<longrightarrow> x \<notin> set bs"
    using Cons.prems(2,3) by (auto split: option.splits if_splits)
  have rec: "swrr_scan w bs ?c (t + w b) ?best = (c', t', best')"
    using Cons.prems(1) by (simp add: Let_def)
  note IH = Cons.IH[OF rec distinct.simps(2)[THEN iffD1, OF Cons.prems(2), THEN conjunct2] pre]
  then have c': "c' = (\<lambda>b. if b \<in> set bs then ?c b + w b else ?c b)" by blast
  have "\<exists>z. ?best = Some z \<and> ?c b \<le> ?c z \<and> (\<forall>x. best = Some x \<longrightarrow> ?c x \<le> ?c z)"
    by (cases best) auto
  then obtain z where z: "?best = Some z"
    and zle: "?c b \<le> ?c z" "\<And>x. best = Some x \<Longrightarrow> ?c x \<le> ?c z" by blast
  obtain x where x: "best' = Some x" "c' z \<le> c' x" using IH z by blast
  have zz: "c' z = ?c z" using pre z by (simp add: c')
  have "\<exists>x. best' = Some x \<and> c' y \<le> c' x" if y: "y \<in> set (b # bs) \<or> best = Some y" for y
  proof (cases "y \<in> set bs")
    case True
    then show ?thesis using IH by blast
  next
    case False
    then have "c' y = ?c y" by (simp add: c')
    moreover have "?c y \<le> ?c z" using False y zle by auto
    ultimately show ?thesis using x zz by auto
  qed
  moreover have "c' = (\<lambda>y. if y \<in> set (b # bs) then c y + w y else c y)"
    using Cons.prems(2) by (auto simp: c' fun_eq_iff)
  ultimately show ?case using IH by auto
qed simp

lemma swrr_scan_spec:
  assumes "swrr_scan w bs c t None = (c', t', best)" and "distinct bs"
  shows "c' = (\<lambda>b. if b \<in> set bs then c b + w b else c b)" and "t' = t + (\<Sum>b\<leftarrow>bs. w b)"
    and "\<And>y. y \<in> set bs \<Longrightarrow> \<exists>x. best = Some x \<and> c' y \<le> c' x"
  using swrr_scan_all[OF assms] by blast+

lemma swrr_pick_spec:
  assumes "distinct hs" and "hs \<noteq> []" and "swrr_pick w hs c = (x, c')"
  shows "x \<in> set hs"
    and "c' = (\<lambda>b. (if b \<in> set hs then c b + w b else c b) - (if b = x then \<Sum>b\<leftarrow>hs. w b else 0))"
    and "\<And>y. y \<in> set hs \<Longrightarrow> c y + w y \<le> c x + w x"
proof -
  obtain d t best where sc: "swrr_scan w hs c 0 None = (d, t, best)"
    by (cases "swrr_scan w hs c 0 None")
  note sp = swrr_scan_spec[OF sc assms(1)]
  show x: "x \<in> set hs" using swrr_pick_mem[OF assms(2), of w c] assms(3) by simp
  obtain z where z: "best = Some z" using sp(3)[of "hd hs"] assms(2) by auto
  have xz: "x = z" and c': "c' = d(x := d x - t)"
    using assms(3) sc z by (auto simp: swrr_pick_def)
  show "c' = (\<lambda>b. (if b \<in> set hs then c b + w b else c b) - (if b = x then \<Sum>b\<leftarrow>hs. w b else 0))"
    using sp(1,2) x by (auto simp: c' fun_eq_iff)
  show "c y + w y \<le> c x + w x" if "y \<in> set hs" for y
    using sp(3)[of y] that sp(1) x z xz by auto
qed

text \<open>
  The balance of a smooth cycle: the current weights sum to zero, and none is a whole
  cycle in debt.  The pick takes the largest, which is positive, so the debt it runs up
  stays short of a cycle.
\<close>

definition swrr_balanced :: "(bid \<Rightarrow> int) \<Rightarrow> bid list \<Rightarrow> (bid \<Rightarrow> int) \<Rightarrow> bool" where
  "swrr_balanced w hs c \<longleftrightarrow>
     (\<Sum>b\<leftarrow>hs. c b) = 0 \<and> (\<forall>b \<in> set hs. - (\<Sum>b\<leftarrow>hs. w b) < c b)"

lemma sum_list_minus_at:
  "distinct hs \<Longrightarrow> x \<in> set hs \<Longrightarrow>
     (\<Sum>b\<leftarrow>hs. f b - (if b = x then W else 0)) = (\<Sum>b\<leftarrow>hs. f b) - (W :: int)"
  by (simp add: sum_list_subtractf sum_list_distinct_conv_sum_set)

lemma swrr_pick_balanced:
  assumes d: "distinct hs" and hs: "hs \<noteq> []" and w: "\<And>b. b \<in> set hs \<Longrightarrow> 0 < w b"
    and bal: "swrr_balanced w hs c" and pick: "swrr_pick w hs c = (x, c')"
  shows "swrr_balanced w hs c'"
proof -
  let ?W = "\<Sum>b\<leftarrow>hs. w b"
  note sp = swrr_pick_spec[OF d hs pick]
  have c': "c' b = c b + w b - (if b = x then ?W else 0)" if "b \<in> set hs" for b
    using that by (simp add: sp(2))
  have sum: "(\<Sum>b\<leftarrow>hs. c b + w b) = ?W" using bal by (simp add: swrr_balanced_def sum_list_addf)
  have W: "0 < ?W" using d hs w by (simp add: sum_list_distinct_conv_sum_set sum_pos)
  have "0 < c x + w x"
  proof (rule ccontr)
    assume "\<not> 0 < c x + w x"
    then have "(\<Sum>b\<leftarrow>hs. c b + w b) \<le> (\<Sum>b\<leftarrow>hs. 0)" using sp(3) by (intro sum_list_mono) force
    then show False using sum W by simp
  qed
  then have "- ?W < c' b" if "b \<in> set hs" for b
    using that bal w[OF that] by (auto simp: c' swrr_balanced_def split: if_splits)
  moreover have "(\<Sum>b\<leftarrow>hs. c' b) = (\<Sum>b\<leftarrow>hs. c b + w b - (if b = x then ?W else 0))"
    by (rule arg_cong[of _ _ sum_list]) (simp add: c')
  ultimately show ?thesis
    using sum_list_minus_at[OF d sp(1), of "\<lambda>b. c b + w b" ?W] sum by (simp add: swrr_balanced_def)
qed

lemma swrr_step:
  assumes wf: "heap_wf s" and hs: "healthy_of a s \<noteq> []"
    and pick: "swrr_pick (pos_weight s) (healthy_of a s) (h_swrr s a) = (x, c)"
  obtains s' where "m_Next (SWRR a) s = (Inr x, s')" "steady a s s'" "h_swrr s' a = c"
proof -
  let ?t = "snd (BB_GetHealthy a s)"
  let ?u = "?t\<lparr>h_swrr := (h_swrr s)(a := c)\<rparr>"
  have "pos_weight ?t = pos_weight s"
    using steady_pos_weight[OF steady_GetHealthy[OF wf]] .
  then have "m_Next (SWRR a) s = (Inr x, IncrConn x ?u)"
    using hs pick by (simp add: SWRR_def base_methods_def with_healthy_eq[OF wf] swrr_choose_def
        reserve_def BB_GetHealthy_private)
  moreover have "steady a s (IncrConn x ?u)"
    using steady_GetHealthy[OF wf] steady_reserve[of ?t ?u a x] BB_GetHealthy_wf[OF wf]
    by (auto intro: steady_trans)
  moreover have "h_swrr (IncrConn x ?u) a = c" by (simp add: IncrConn_def upd_be_def)
  ultimately show ?thesis by (rule that)
qed

lemma swrr_run:
  assumes "heap_wf s" and "healthy_of a s = hs" and "hs \<noteq> []" and "pos_weight s = w"
    and "swrr_balanced w hs (h_swrr s a)" and "run_picks n (m_Next (SWRR a)) s = (rs, s')"
  shows "swrr_balanced w hs (h_swrr s' a) \<and> length rs = n \<and> set rs \<subseteq> Inr ` set hs \<and> steady a s s' \<and>
     (\<forall>b. h_swrr s' a b = (if b \<in> set hs
        then h_swrr s a b + int n * w b - (\<Sum>b\<leftarrow>hs. w b) * int (count_list rs (Inr b))
        else h_swrr s a b))"
  using assms
proof (induction n arbitrary: s rs)
  case 0
  then show ?case by (auto simp: steady_refl)
next
  case (Suc n)
  note d = healthy_of_distinct[OF Suc.prems(1), of a, unfolded Suc.prems(2)]
  obtain x c where pick: "swrr_pick w hs (h_swrr s a) = (x, c)" by fastforce
  note sp = swrr_pick_spec[OF d Suc.prems(3) pick]
  obtain s1 where s1: "m_Next (SWRR a) s = (Inr x, s1)" "steady a s s1" "h_swrr s1 a = c"
    using swrr_step[OF Suc.prems(1), of a x c] Suc.prems(2-4) pick by auto
  obtain rs' where rs': "run_picks n (m_Next (SWRR a)) s1 = (rs', s')" "rs = Inr x # rs'"
    using Suc.prems(6) s1(1) by (auto split: prod.splits)
  have bal: "swrr_balanced w hs c"
    using swrr_pick_balanced[OF d Suc.prems(3) _ Suc.prems(5) pick] Suc.prems(4) pos_weight_pos[of s]
    by auto
  have IH: "swrr_balanced w hs (h_swrr s' a) \<and> length rs' = n \<and> set rs' \<subseteq> Inr ` set hs \<and>
      steady a s1 s' \<and> (\<forall>b. h_swrr s' a b = (if b \<in> set hs
        then c b + int n * w b - (\<Sum>b\<leftarrow>hs. w b) * int (count_list rs' (Inr b)) else c b))"
    using Suc.IH[OF _ _ Suc.prems(3) _ _ rs'(1)] s1(2,3) bal Suc.prems(2,4) steady_pos_weight[OF s1(2)]
    by (simp add: steady_def)
  have "length rs = Suc n" and "set rs \<subseteq> Inr ` set hs" using IH rs'(2) sp(1) by auto
  moreover have "h_swrr s' a b = (if b \<in> set hs
      then h_swrr s a b + int (Suc n) * w b - (\<Sum>b\<leftarrow>hs. w b) * int (count_list rs (Inr b))
      else h_swrr s a b)" for b
    using IH sp(1) by (simp add: sp(2) rs'(2) algebra_simps)
  moreover have "steady a s s'" using IH steady_trans[OF s1(2)] by blast
  ultimately show ?case using IH by blast
qed

lemma count_list_sum:
  "set rs \<subseteq> Inr ` set hs \<Longrightarrow> distinct hs \<Longrightarrow>
     (\<Sum>b\<leftarrow>hs. int (count_list rs (Inr b))) = int (length rs)"
proof (induction rs)
  case (Cons r rs)
  then obtain x where x: "r = Inr x" "x \<in> set hs" by auto
  have "(\<Sum>b\<leftarrow>hs. int (count_list (r # rs) (Inr b))) =
        (\<Sum>b\<leftarrow>hs. int (count_list rs (Inr b)) + (if b = x then 1 else 0))"
    by (rule arg_cong[of _ _ sum_list]) (auto simp: x)
  then show ?case using Cons x
    by (simp add: sum_list_addf sum_list_distinct_conv_sum_set)
qed (simp add: sum_list_0)

lemma swrr_from_zero:
  assumes "heap_wf s" and "healthy_of a s = hs" and "hs \<noteq> []" and "h_swrr s a = (\<lambda>_. 0)"
    and "run_picks n (m_Next (SWRR a)) s = (rs, s')"
  shows "length rs = n" "set rs \<subseteq> Inr ` set hs" "steady a s s'"
    and "swrr_balanced (pos_weight s) hs (h_swrr s' a)"
    and "\<And>b. b \<in> set hs \<Longrightarrow> h_swrr s' a b =
           int n * pos_weight s b - (\<Sum>b\<leftarrow>hs. pos_weight s b) * int (count_list rs (Inr b))"
    and "\<And>b. b \<notin> set hs \<Longrightarrow> h_swrr s' a b = 0"
proof -
  have "swrr_balanced (pos_weight s) hs (h_swrr s a)"
    using wr_total_pos[OF assms(3), of s] by (simp add: assms(4) swrr_balanced_def sum_list_0 wr_total_eq)
  from swrr_run[OF assms(1-3) refl this assms(5)]
  show "length rs = n" "set rs \<subseteq> Inr ` set hs" "steady a s s'"
    "swrr_balanced (pos_weight s) hs (h_swrr s' a)"
    "\<And>b. b \<in> set hs \<Longrightarrow> h_swrr s' a b =
       int n * pos_weight s b - (\<Sum>b\<leftarrow>hs. pos_weight s b) * int (count_list rs (Inr b))"
    "\<And>b. b \<notin> set hs \<Longrightarrow> h_swrr s' a b = 0"
    by (simp_all add: assms(4))
qed

text \<open>
  Over a whole cycle each backend is bounded by its weight; the bounds add up to the
  length of the cycle, so each is attained.
\<close>

lemma sum_list_le_eq:
  "(\<Sum>b\<leftarrow>hs. f b) = (\<Sum>b\<leftarrow>hs. g b :: int) \<Longrightarrow> (\<And>b. b \<in> set hs \<Longrightarrow> f b \<le> g b) \<Longrightarrow>
     b \<in> set hs \<Longrightarrow> f b = g b"
proof (induction hs)
  case (Cons x xs)
  have "f x \<le> g x" and "(\<Sum>b\<leftarrow>xs. f b) \<le> (\<Sum>b\<leftarrow>xs. g b)"
    using Cons.prems(2) by (auto intro: sum_list_mono)
  then have "f x = g x" "(\<Sum>b\<leftarrow>xs. f b) = (\<Sum>b\<leftarrow>xs. g b)" using Cons.prems(1) by auto
  then show ?case using Cons by auto
qed simp

lemma swrr_cycle:
  assumes "heap_wf s" and "healthy_of a s = hs" and "hs \<noteq> []" and "h_swrr s a = (\<lambda>_. 0)"
    and "run_picks (nat (wr_total s hs)) (m_Next (SWRR a)) s = (rs, s')"
  shows "b \<in> set hs \<Longrightarrow> int (count_list rs (Inr b)) = pos_weight s b" and "h_swrr s' a = (\<lambda>_. 0)"
proof -
  note r = swrr_from_zero[OF assms]
  let ?W = "wr_total s hs" and ?n = "\<lambda>b. int (count_list rs (Inr b))"
  have W: "0 < ?W" by (rule wr_total_pos[OF assms(3)])
  have le: "?n b \<le> pos_weight s b" if "b \<in> set hs" for b
  proof -
    have "- ?W < ?W * pos_weight s b - ?W * ?n b"
      using r(4) r(5)[OF that] that W by (auto simp: swrr_balanced_def wr_total_eq)
    then have "?W * ?n b < ?W * (pos_weight s b + 1)" by (simp add: algebra_simps)
    then show ?thesis using W by simp
  qed
  have "(\<Sum>b\<leftarrow>hs. ?n b) = int (length rs)"
    using count_list_sum[OF r(2)] healthy_of_distinct[OF assms(1), of a] assms(2) by simp
  then have "(\<Sum>b\<leftarrow>hs. ?n b) = (\<Sum>b\<leftarrow>hs. pos_weight s b)" using W r(1) by (simp add: wr_total_eq)
  then show eq: "?n b = pos_weight s b" if "b \<in> set hs" for b
    using sum_list_le_eq[of ?n hs "pos_weight s"] le that by blast
  show "h_swrr s' a = (\<lambda>_. 0)"
  proof (rule ext)
    fix b show "h_swrr s' a b = 0"
      using r(5)[of b] r(6)[of b] eq[of b] W by (cases "b \<in> set hs") (auto simp: wr_total_eq)
  qed
qed

text \<open>
  C17. Smooth weighted round robin is exactly fair: from the state of a new balancer, a
  cycle of as many calls as the weights sum to returns every healthy backend exactly
  weight many times (a weight of zero or less counting as one) and ends in the state it
  started from, so the next cycle is fair as well.
\<close>

theorem swrr_exact_cycle:
  assumes "heap_wf s" and "healthy_of a s = hs" and "hs \<noteq> []" and "h_swrr s a = (\<lambda>_. 0)"
    and "run_picks (nat (wr_total s hs)) (m_Next (SWRR a)) s = (rs, s')"
  shows "(\<forall>b \<in> set hs. int (count_list rs (Inr b)) = pos_weight s b) \<and>
         h_swrr s' a = (\<lambda>_. 0) \<and> heap_wf s' \<and> healthy_of a s' = hs"
  using swrr_cycle[OF assms] swrr_from_zero(3)[OF assms] assms(2) by (simp add: steady_def)

theorem swrr_exact_cycle_witness:
  "\<exists>rs s'. run_picks 3 (m_Next (SWRR 0)) duo = (rs, s') \<and>
     count_list rs (Inr 0) = 2 \<and> count_list rs (Inr 1) = 1 \<and> h_swrr s' 0 = (\<lambda>_. 0)"
proof -
  obtain rs s' where r: "run_picks 3 (m_Next (SWRR 0)) duo = (rs, s')" by fastforce
  then show ?thesis
    using swrr_exact_cycle[of duo 0 "[0, 1]" rs s']
    by (simp add: duo_wf healthy_of_def wr_total_def pos_weight_def)
qed

text \<open>
  It is also smooth: after any number \<open>n\<close> of calls no backend is a whole pick ahead of
  its exact share \<open>n * weight / total\<close>.
\<close>

lemma swrr_smooth:
  assumes "heap_wf s" and "healthy_of a s = hs" and "hs \<noteq> []" and "h_swrr s a = (\<lambda>_. 0)"
    and "run_picks n (m_Next (SWRR a)) s = (rs, s')" and "b \<in> set hs"
  shows "wr_total s hs * (int (count_list rs (Inr b)) - 1) < int n * pos_weight s b"
  using swrr_from_zero(4)[OF assms(1-5)] swrr_from_zero(5)[OF assms(1-5) assms(6)] assms(6)
  by (auto simp: swrr_balanced_def wr_total_eq algebra_simps)

lemma swrr_smooth_witness:
  "\<exists>rs s'. run_picks 2 (m_Next (SWRR 0)) duo = (rs, s') \<and>
     3 * (int (count_list rs (Inr 0)) - 1) < 2 * 2"
proof -
  obtain rs s' where r: "run_picks 2 (m_Next (SWRR 0)) duo = (rs, s')" by fastforce
  then show ?thesis
    using swrr_smooth[of duo 0 "[0, 1]" 2 rs s' 0]
    by (simp add: duo_wf healthy_of_def wr_total_def pos_weight_def)
qed

section \<open>Classic weighted round robin\<close>

definition wrr_weight :: "lb_heap \<Rightarrow> bid \<Rightarrow> int" where
  "wrr_weight s b = max 0 (GetWeight s b)"

lemma wrr_total_eq: "wrr_total s hs = (\<Sum>b\<leftarrow>hs. wrr_weight s b)"
proof -
  have "foldl (\<lambda>t b. if 0 < GetWeight s b then t + GetWeight s b else t) t hs =
        t + (\<Sum>b\<leftarrow>hs. wrr_weight s b)" for t
    by (induction hs arbitrary: t) (auto simp: wrr_weight_def)
  from this[of 0] show ?thesis by (simp add: wrr_total_def)
qed

lemma wrr_total_nonneg: "0 \<le> wrr_total s hs"
  unfolding wrr_total_eq by (rule sum_list_nonneg) (auto simp: wrr_weight_def)

lemma uint_add_small: "uint (c :: uint32) + g < 2 ^ 32 \<Longrightarrow> 0 \<le> g \<Longrightarrow>
    uint (c + word_of_int g) = uint c + g"
  using mod_pos_pos_trivial[of "uint c + g" "2 ^ 32"]
  by (simp add: uint_word_ariths uint_word_of_int take_bit_eq_mod mod_add_right_eq)

text \<open>The search through the running sums, in exact arithmetic while the sum fits.\<close>

lemma wrr_find_interval:
  assumes "uint c + (\<Sum>b\<leftarrow>hs. wrr_weight s b) < 2 ^ 32" and "c \<le> q"
  shows "wrr_find s q c hs = interval_find (wrr_weight s) (uint q - uint c) hs"
  using assms
proof (induction hs arbitrary: c)
  case (Cons b hs)
  have nn: "0 \<le> (\<Sum>b\<leftarrow>hs. wrr_weight s b)"
    by (rule sum_list_nonneg) (auto simp: wrr_weight_def)
  show ?case
  proof (cases "GetWeight s b \<le> 0")
    case True
    then have w: "wrr_weight s b = 0" by (simp add: wrr_weight_def)
    have "\<not> uint q - uint c < 0" using Cons.prems(2) by (simp add: word_le_def)
    then show ?thesis using Cons.IH[of c] Cons.prems True w by simp
  next
    case False
    let ?c = "c + word_of_int (GetWeight s b)"
    have w: "wrr_weight s b = GetWeight s b" using False by (simp add: wrr_weight_def)
    have c: "uint ?c = uint c + GetWeight s b"
      using False Cons.prems(1) nn by (intro uint_add_small) (simp_all add: w)
    have less: "q < ?c \<longleftrightarrow> uint q - uint c < GetWeight s b" by (simp only: word_less_def c) auto
    have "wrr_find s q ?c hs = interval_find (wrr_weight s) (uint q - uint c - GetWeight s b) hs"
      if "\<not> q < ?c"
      using Cons.IH[of ?c] Cons.prems(1) that unfolding c by (simp add: w diff_diff_eq not_less)
    then show ?thesis using False by (simp add: Let_def less w)
  qed
qed simp

lemma wrr_step:
  assumes wf: "heap_wf s" and hs: "healthy_of a s = hs" "hs \<noteq> []"
    and W: "0 < wrr_total s hs" "wrr_total s hs < 2 ^ 32"
  obtains s' b where "m_Next (WeightedRoundRobin a) s = (Inr b, s')" "steady a s s'"
    "h_current s' a = h_current s a + 1"
    "interval_find (wrr_weight s) (uint (h_current s a) mod wrr_total s hs) hs = Some b"
proof -
  let ?t = "snd (BB_GetHealthy a s)" and ?W = "wrr_total s hs"
  let ?u = "?t\<lparr>h_current := (h_current s)(a := h_current s a + 1)\<rparr>"
  let ?tw = "word_of_int ?W :: uint32"
  have gw: "GetWeight ?t = GetWeight s" by (rule GetWeight_GetHealthy)
  have wt: "wrr_weight ?t = wrr_weight s" by (simp add: wrr_weight_def gw fun_eq_iff)
  then have tot: "wrr_total ?t hs = ?W" by (simp add: wrr_total_eq)
  have u: "uint ?tw = ?W" using W by (simp add: uint_word_of_int take_bit_eq_mod)
  then have tw: "?tw \<noteq> 0" using W by (metis less_irrefl uint_0_eq)
  let ?q = "uint (h_current s a) mod ?W"
  have f: "wrr_find ?t (h_current s a mod ?tw) 0 hs = interval_find (wrr_weight s) ?q hs"
    using wrr_find_interval[where c = 0 and hs = hs and s = ?t and q = "h_current s a mod ?tw"] W u
    by (simp add: wt wrr_total_eq uint_mod)
  have "\<exists>b. interval_find (wrr_weight s) ?q hs = Some b"
    using W by (intro interval_find_total) (simp_all add: wrr_total_eq)
  then obtain b where b: "interval_find (wrr_weight s) ?q hs = Some b" ..
  have "m_Next (WeightedRoundRobin a) s = (Inr b, IncrConn b ?u)"
    using hs W b f tw tot by (simp add: WeightedRoundRobin_def base_methods_def
        with_healthy_eq[OF wf] wrr_choose_def Let_def reserve_def BB_GetHealthy_private)
  moreover have "steady a s (IncrConn b ?u)"
    using steady_GetHealthy[OF wf] steady_reserve[of ?t ?u a b] BB_GetHealthy_wf[OF wf]
    by (auto intro: steady_trans)
  moreover have "h_current (IncrConn b ?u) a = h_current s a + 1"
    by (simp add: IncrConn_def upd_be_def)
  ultimately show ?thesis using b by (rule that)
qed

lemma wrr_run:
  assumes "heap_wf s" and "healthy_of a s = hs" and "hs \<noteq> []" and "wrr_weight s = w"
    and "wrr_total s hs = int W" and "0 < W" and "W < 2 ^ 32"
    and "unat (h_current s a) + n \<le> 2 ^ 32"
  shows "fst (run_picks n (m_Next (WeightedRoundRobin a)) s) =
         map (\<lambda>i. Inr (the (interval_find w (int ((unat (h_current s a) + i) mod W)) hs))) [0..<n]"
  using assms
proof (induction n arbitrary: s)
  case (Suc n)
  let ?c = "unat (h_current s a)"
  obtain s' b where s': "m_Next (WeightedRoundRobin a) s = (Inr b, s')" "steady a s s'"
    "h_current s' a = h_current s a + 1"
    "interval_find (wrr_weight s) (uint (h_current s a) mod wrr_total s hs) hs = Some b"
    using Suc.prems(5-7) by (auto intro: wrr_step[OF Suc.prems(1-3)])
  have b: "interval_find w (int (?c mod W)) hs = Some b"
    using s'(4) Suc.prems(4,5) by (simp add: zmod_int)
  have w: "wrr_weight s' = w"
    using s'(2) Suc.prems(4) by (auto simp: steady_def wrr_weight_def)
  then have tot: "wrr_total s' hs = int W" using Suc.prems(4,5) by (simp add: wrr_total_eq)
  have "fst (run_picks n (m_Next (WeightedRoundRobin a)) s') =
        map (\<lambda>i. Inr (the (interval_find w (int ((?c + Suc i) mod W)) hs))) [0..<n]"
  proof (cases n)
    case (Suc m)
    then have "unat (h_current s' a) = Suc ?c" using Suc.prems(8) s'(3) by (simp add: unat_Suc_word)
    then show ?thesis using Suc.IH[of s'] Suc.prems s'(2) w tot by (simp add: steady_def)
  qed simp
  then show ?case using s'(1) b
    by (simp add: case_prod_beta upt_conv_Cons map_Suc_upt[symmetric] del: upt_Suc)
qed simp

lemma count_list_map_upt: "count_list (map g [0..<n]) y = card {i. i < n \<and> g i = y}"
proof (induction n)
  case (Suc n)
  have "{i. i < Suc n \<and> g i = y} = {i. i < n \<and> g i = y} \<union> (if g n = y then {n} else {})"
    by (auto simp: less_Suc_eq)
  then show ?case using Suc by auto
qed simp

lemma count_mod_cycle:
  "count_list (map (\<lambda>i. g ((c + i) mod n)) [0..<n]) y = card {i. i < n \<and> g i = y}"
proof -
  have "mset (map (\<lambda>i. g ((c + i) mod n)) [0..<n]) =
        image_mset g (mset (map (\<lambda>i. (c + i) mod n) [0..<n]))"
    by (simp add: image_mset.compositionality comp_def)
  also have "\<dots> = mset (map g [0..<n])" unfolding mset_map_mod by simp
  finally show ?thesis using count_list_map_upt[of g n y] by (metis count_mset)
qed

lemma card_int_nat: "card {i. i < n \<and> P (int i)} = card {r. 0 \<le> r \<and> r < int n \<and> P r}"
proof -
  have "{r. 0 \<le> r \<and> r < int n \<and> P r} = int ` {i. i < n \<and> P (int i)}"
    by (auto simp: image_iff) (metis nonneg_int_cases of_nat_less_iff)
  then show ?thesis by (simp add: card_image)
qed

text \<open>
  Classic weighted round robin, while the sum of the positive weights fits 32 bits and
  the counter does not wrap: a cycle of as many calls as the positive weights sum to
  returns every healthy backend exactly weight many times, and one of weight zero or
  less never.
\<close>

lemma wrr_exact_cycle:
  assumes "heap_wf s" and "healthy_of a s = hs" and "hs \<noteq> []"
    and "0 < wrr_total s hs" and "wrr_total s hs < 2 ^ 32"
    and "uint (h_current s a) + wrr_total s hs \<le> 2 ^ 32" and "b \<in> set hs"
  shows "int (count_list (fst (run_picks (nat (wrr_total s hs)) (m_Next (WeightedRoundRobin a)) s))
           (Inr b)) = max 0 (GetWeight s b)"
proof -
  let ?W = "nat (wrr_total s hs)" and ?w = "wrr_weight s"
  let ?f = "\<lambda>r. interval_find ?w r hs"
  have "int (unat (h_current s a) + ?W) \<le> int (2 ^ 32)" using assms(4,6) by simp
  then have "unat (h_current s a) + ?W \<le> 2 ^ 32" by (simp only: of_nat_le_iff)
  then have run: "fst (run_picks ?W (m_Next (WeightedRoundRobin a)) s) =
      map (\<lambda>i. Inr (the (?f (int ((unat (h_current s a) + i) mod ?W))))) [0..<?W]"
    using assms(4,5) by (intro wrr_run[OF assms(1-3) refl]) (simp_all add: nat_less_iff)
  have "count_list (fst (run_picks ?W (m_Next (WeightedRoundRobin a)) s)) (Inr b :: lb_error + bid) =
        card {i. i < ?W \<and> (Inr (the (?f (int i))) :: lb_error + bid) = Inr b}"
    unfolding run by (rule count_mod_cycle)
  also have "\<dots> = card {r. 0 \<le> r \<and> r < wrr_total s hs \<and> the (?f r) = b}"
    using card_int_nat[of ?W "\<lambda>r. the (?f r) = b"] assms(4) by simp
  also have "{r. 0 \<le> r \<and> r < wrr_total s hs \<and> the (?f r) = b} =
             {r. 0 \<le> r \<and> r < wrr_total s hs \<and> ?f r = Some b}"
    using interval_find_total[of _ ?w hs] by (force simp: wrr_total_eq)
  also have "card \<dots> = nat (?w b)"
    using interval_find_card[of hs ?w b] assms(2,7) healthy_of_distinct[OF assms(1), of a]
    by (simp add: wrr_total_eq wrr_weight_def)
  finally show ?thesis by (simp add: wrr_weight_def)
qed

lemma wrr_exact_cycle_witness:
  "int (count_list (fst (run_picks 3 (m_Next (WeightedRoundRobin 0)) duo)) (Inr 0)) = 2"
  using wrr_exact_cycle[of duo 0 "[0, 1]" 0]
  by (simp add: duo_wf healthy_of_def wrr_total_def)

section \<open>Weighted random\<close>

lemma wr_find_interval: "wr_find s r hs = interval_find (pos_weight s) r hs"
  by (induction hs arbitrary: r) (auto simp: Let_def)

text \<open>
  Weighted random is exactly proportional: of the draws \<open>0, ..., W - 1\<close>, with \<open>W\<close> the sum
  of the weights of the healthy backends, exactly weight many make \<open>Next\<close> return a given
  one of them.
\<close>

lemma weighted_random_share:
  assumes "heap_wf s" and "healthy_of a s = hs" and "b \<in> set hs"
  shows "card {d. d < nat (wr_total s hs) \<and>
           fst (m_Next (WeightedRandom a) (s\<lparr>h_rng := (\<lambda>_. d)\<rparr>)) = Inr b} = nat (pos_weight s b)"
proof -
  let ?W = "wr_total s hs" and ?f = "\<lambda>r. interval_find (pos_weight s) r hs"
  have hs: "hs \<noteq> []" using assms(3) by auto
  have W: "0 < ?W" by (rule wr_total_pos[OF hs])
  have pick: "fst (m_Next (WeightedRandom a) (s\<lparr>h_rng := (\<lambda>_. d)\<rparr>)) = Inr (the (?f (int d)))"
    if d: "d < nat ?W" for d
  proof -
    let ?s = "s\<lparr>h_rng := (\<lambda>_. d)\<rparr>"
    let ?t = "snd (BB_GetHealthy a ?s)"
    have st: "steady a s ?s" using assms(1) by (rule steady_obs) simp
    then have wf: "heap_wf ?s" and hs': "healthy_of a ?s = hs" using assms(2) by (simp_all add: steady_def)
    have st': "steady a s ?t" by (rule steady_trans[OF st steady_GetHealthy[OF wf]])
    let ?u = "?t\<lparr>h_rng := stl' (h_rng ?t)\<rparr>"
    have "pos_weight ?u = pos_weight ?t" by (simp add: pos_weight_def GetWeight_def fun_eq_iff)
    then have w: "pos_weight ?t = pos_weight s" "pos_weight ?u = pos_weight s"
      using steady_pos_weight[OF st'] by simp_all
    then have W': "wr_total ?t hs = ?W" by (simp add: wr_total_eq)
    have "shd' (h_rng ?t) = d" by (simp add: BB_GetHealthy_def Let_def shd'_def)
    then have I: "Intn ?W ?t = (Inr (int d), ?u)" using d W by (simp add: Intn_def draw_def)
    obtain x where "?f (int d) = Some x"
      using interval_find_total[of "int d" "pos_weight s" hs] d by (auto simp: wr_total_eq zless_nat_eq_int_zless)
    then show ?thesis using hs hs' w I W'
      by (simp add: WeightedRandom_def base_methods_def with_healthy_eq[OF wf] wr_choose_def
          wr_find_interval reserve_def)
  qed
  have "card {d. d < nat ?W \<and> fst (m_Next (WeightedRandom a) (s\<lparr>h_rng := (\<lambda>_. d)\<rparr>)) = Inr b} =
        card {d. d < nat ?W \<and> the (?f (int d)) = b}"
    by (rule arg_cong[of _ _ card]) (auto simp: pick)
  also have "\<dots> = card {r. 0 \<le> r \<and> r < ?W \<and> the (?f r) = b}"
    using card_int_nat[of "nat ?W" "\<lambda>r. the (?f r) = b"] W by simp
  also have "{r. 0 \<le> r \<and> r < ?W \<and> the (?f r) = b} = {r. 0 \<le> r \<and> r < ?W \<and> ?f r = Some b}"
    using interval_find_total[of _ "pos_weight s" hs] by (force simp: wr_total_eq)
  also have "card \<dots> = nat (pos_weight s b)"
    using interval_find_card[of hs "pos_weight s" b] assms(2,3) healthy_of_distinct[OF assms(1), of a]
      pos_weight_pos[of s] by (simp add: wr_total_eq less_imp_le)
  finally show ?thesis .
qed

theorem weighted_random_share_witness:
  "card {d. d < 3 \<and> fst (m_Next (WeightedRandom 0) (duo\<lparr>h_rng := (\<lambda>_. d)\<rparr>)) = Inr 0} = 2"
  using weighted_random_share[of duo 0 "[0, 1]" 0]
  by (simp add: duo_wf healthy_of_def wr_total_def pos_weight_def)

section \<open>Choosing by load\<close>

lemma GetActiveConns_GetHealthy: "GetActiveConns (snd (BB_GetHealthy a s)) = GetActiveConns s"
  by (simp add: GetActiveConns_def frame_simps fun_eq_iff)

text \<open>
  \<open>LeastConnections.Next\<close> returns a healthy backend with the fewest connections in
  flight of all healthy backends.
\<close>

lemma least_connections_minimal:
  assumes "heap_wf s" and "healthy_of a s \<noteq> []"
  shows "\<exists>b s'. m_Next (LeastConnections a) s = (Inr b, s') \<and> b \<in> set (healthy_of a s) \<and>
           (\<forall>y \<in> set (healthy_of a s). GetActiveConns s b \<le> GetActiveConns s y)"
proof -
  obtain r where "fst (lc_scan (GetActiveConns s) (None, MaxInt64) (healthy_of a s)) = Some r"
    "r \<in> set (healthy_of a s)" "\<And>y. y \<in> set (healthy_of a s) \<Longrightarrow> GetActiveConns s r \<le> GetActiveConns s y"
    using lc_scan_min[OF assms(2), of "GetActiveConns s"] GetActiveConns_range(3)[of s] by metis
  then show ?thesis using assms
    by (simp add: LeastConnections_def base_methods_def with_healthy_eq lc_choose_def
        GetActiveConns_GetHealthy reserve_opt_def reserve_def)
qed

lemma least_connections_minimal_witness:
  "\<exists>b s'. m_Next (LeastConnections 0) duo = (Inr b, s') \<and> b \<in> {0, 1}"
  using least_connections_minimal[of duo 0] by (auto simp: duo_wf healthy_of_def)

lemma less_loaded:
  assumes "x \<noteq> y" "x \<in> S" "y \<in> S"
  shows "\<exists>z \<in> S - {if f y < f x then y else x}. (f (if f y < f x then y else x) :: int) \<le> f z"
proof (cases "f y < f x")
  case True
  then show ?thesis using assms by (intro bexI[of _ x]) auto
next
  case False
  then show ?thesis using assms by (intro bexI[of _ y]) auto
qed

text \<open>
  \<open>P2C.Next\<close> compares two different healthy backends: with at least two of them it
  never returns one that has more connections than all the others.
\<close>

lemma p2c_not_worst:
  assumes "heap_wf s" and "2 \<le> length (healthy_of a s)"
  shows "\<exists>b s'. m_Next (P2C a) s = (Inr b, s') \<and> b \<in> set (healthy_of a s) \<and>
           (\<exists>y \<in> set (healthy_of a s) - {b}. GetActiveConns s b \<le> GetActiveConns s y)"
proof -
  let ?hs = "healthy_of a s" and ?t = "snd (BB_GetHealthy a s)"
  have hs: "?hs \<noteq> []" and l: "length ?hs \<noteq> 1" using assms(2) by auto
  have n: "0 < int (length ?hs)" "0 < int (length ?hs) - 1" using assms(2) by auto
  obtain i s1 where i: "Intn (int (length ?hs)) ?t = (Inr i, s1)" "0 \<le> i" "i < int (length ?hs)"
    "obs s1 = obs ?t" using Intn_pos[OF n(1)] by blast
  obtain j s2 where j: "Intn (int (length ?hs) - 1) s1 = (Inr j, s2)" "0 \<le> j"
    "j < int (length ?hs) - 1" "obs s2 = obs s1" using Intn_pos[OF n(2)] by blast
  obtain i' j' where p: "p2c_pair i j = (i', j')" by (cases "p2c_pair i j")
  note r = p2c_pair_range[OF p i(2,3) j(2,3)]
  have g: "GetActiveConns s2 = GetActiveConns s"
    using obs_GetActiveConns[OF j(4)] obs_GetActiveConns[OF i(4)]
    by (simp add: GetActiveConns_GetHealthy)
  let ?x = "?hs ! nat i'" and ?y = "?hs ! nat j'"
  have ne: "?x \<noteq> ?y"
    using r i healthy_of_distinct[OF assms(1), of a] by (simp add: nth_eq_iff_index_eq)
  have mem: "?x \<in> set ?hs" "?y \<in> set ?hs" using r i by (auto simp: nth_mem)
  let ?b = "if GetActiveConns s ?y < GetActiveConns s ?x then ?y else ?x"
  have "m_Next (P2C a) s = (Inr ?b, IncrConn ?b s2)"
    using hs l i(1) j(1) p
    by (simp add: P2C_def base_methods_def with_healthy_eq[OF assms(1)] p2c_choose_def reserve_def g Let_def)
  moreover have "\<exists>y \<in> set ?hs - {?b}. GetActiveConns s ?b \<le> GetActiveConns s y"
    by (rule less_loaded[OF ne mem])
  ultimately show ?thesis using mem by auto
qed

theorem p2c_not_worst_witness:
  "\<exists>b s'. m_Next (P2C 0) duo = (Inr b, s') \<and> b \<in> {0, 1}"
  using p2c_not_worst[of duo 0] by (auto simp: duo_wf healthy_of_def)

text \<open>
  \<open>WeightedLeastConn.Next\<close> returns a healthy backend with the least load per weight.
  The source divides in \<open>float64\<close>; for counters and weights below \<open>2 ^ 26\<close> that is the same
  as comparing the exact ratios.
\<close>

lemma weighted_least_conn_minimal:
  assumes "heap_wf s" and "healthy_of a s \<noteq> []"
    and "\<forall>y \<in> set (healthy_of a s). 0 \<le> GetActiveConns s y \<and> GetActiveConns s y < 2 ^ 26 \<and>
           pos_weight s y < 2 ^ 26"
  shows "\<exists>b s'. m_Next (WeightedLeastConn a) s = (Inr b, s') \<and> b \<in> set (healthy_of a s) \<and>
           (\<forall>y \<in> set (healthy_of a s).
              GetActiveConns s b * pos_weight s y \<le> GetActiveConns s y * pos_weight s b)"
proof -
  let ?hs = "healthy_of a s" and ?t = "snd (BB_GetHealthy a s)"
  obtain b m where b: "scan_best (wlc_score s) None ?hs = Some (b, m)"
    using scan_best_None_iff[of "wlc_score s" ?hs] assms(2) by (metis option.exhaust prod.exhaust)
  note mn = scan_best_min[OF b]
  have sc: "wlc_score ?t = wlc_score s"
    by (simp add: wlc_score_def pos_weight_def GetWeight_GetHealthy GetActiveConns_GetHealthy fun_eq_iff)
  have "GetActiveConns s b * pos_weight s y \<le> GetActiveConns s y * pos_weight s b"
    if y: "y \<in> set ?hs" for y
  proof (rule ccontr)
    assume "\<not> ?thesis"
    then have less: "GetActiveConns s y * pos_weight s b < GetActiveConns s b * pos_weight s y" by simp
    have sm: "f64_of_int i = of_int i" if "0 \<le> i" "i < 2 ^ 26" for i
      using that by (intro f64_of_int_exact) simp
    have "wlc_score s y < wlc_score s b"
      using f64_div_less[OF _ pos_weight_pos pos_weight_pos _ _ _ less] assms(3) y mn(2)
        pos_weight_pos[of s]
      by (simp add: wlc_score_def sm less_imp_le)
    then show False using mn y by force
  qed
  then show ?thesis using assms(2) b mn(2)
    by (simp add: WeightedLeastConn_def base_methods_def with_healthy_eq[OF assms(1)] wlc_choose_def sc
        reserve_opt_def reserve_def)
qed

lemma weighted_least_conn_minimal_witness:
  "\<exists>b s'. m_Next (WeightedLeastConn 0) duo = (Inr b, s') \<and> b \<in> {0, 1}"
  using weighted_least_conn_minimal[of duo 0] by (auto simp: duo_wf healthy_of_def pos_weight_def)

end
