(* ===== verification/GoStrings.thy ===== *)
theory GoStrings
  imports Prelude
begin

text \<open>
  What the sources use of Go's \<open>strings\<close> and \<open>strconv\<close> packages.  A Go string is a list of
  bytes; the sources only case-fold and trim ASCII text (host names, header values,
  methods), so the model's case folding and white space are those of ASCII.
\<close>

section \<open>strings\<close>

definition HasPrefix :: "string \<Rightarrow> string \<Rightarrow> bool" where
  "HasPrefix s p \<longleftrightarrow> take (length p) s = p"

definition HasSuffix :: "string \<Rightarrow> string \<Rightarrow> bool" where
  "HasSuffix s p \<longleftrightarrow> HasPrefix (rev s) (rev p)"

definition TrimPrefix :: "string \<Rightarrow> string \<Rightarrow> string" where
  "TrimPrefix s p = (if HasPrefix s p then drop (length p) s else s)"

definition TrimSuffix :: "string \<Rightarrow> string \<Rightarrow> string" where
  "TrimSuffix s p = (if HasSuffix s p then take (length s - length p) s else s)"

definition is_space :: "char \<Rightarrow> bool" where
  "is_space c \<longleftrightarrow> of_char c \<in> {9, 10, 11, 12, 13, 32 :: nat}"

definition TrimSpace :: "string \<Rightarrow> string" where
  "TrimSpace s = rev (dropWhile is_space (rev (dropWhile is_space s)))"

definition lower_char :: "char \<Rightarrow> char" where
  "lower_char c = (let n = (of_char c :: nat) in if 65 \<le> n \<and> n \<le> 90 then char_of (n + 32) else c)"

definition ToLower :: "string \<Rightarrow> string" where
  "ToLower s = map lower_char s"

definition upper_char :: "char \<Rightarrow> char" where
  "upper_char c = (let n = (of_char c :: nat) in if 97 \<le> n \<and> n \<le> 122 then char_of (n - 32) else c)"

definition ToUpper :: "string \<Rightarrow> string" where
  "ToUpper s = map upper_char s"

definition EqualFold :: "string \<Rightarrow> string \<Rightarrow> bool" where
  "EqualFold s t \<longleftrightarrow> ToLower s = ToLower t"

text \<open>\<open>strings.Split\<close> on a separator of one byte: always at least one piece.\<close>

fun SplitChar :: "char \<Rightarrow> string \<Rightarrow> string list" where
  "SplitChar c [] = [[]]"
| "SplitChar c (x # xs) =
     (if x = c then [] # SplitChar c xs
      else case SplitChar c xs of [] \<Rightarrow> [[x]] | p # ps \<Rightarrow> (x # p) # ps)"

fun ContainsStr :: "string \<Rightarrow> string \<Rightarrow> bool" where
  "ContainsStr [] p = (p = [])"
| "ContainsStr (x # xs) p = (HasPrefix (x # xs) p \<or> ContainsStr xs p)"

text \<open>Split at the last occurrence of a byte, if there is one.\<close>

definition split_last :: "char \<Rightarrow> string \<Rightarrow> (string \<times> string) option" where
  "split_last c s =
     (if c \<in> set s then
        let r = rev s in Some (rev (tl (dropWhile (\<lambda>x. x \<noteq> c) r)), rev (takeWhile (\<lambda>x. x \<noteq> c) r))
      else None)"

text \<open>Split at the first occurrence of a byte, if there is one (\<open>strings.Cut\<close>, \<open>IndexByte\<close>).\<close>

definition split_first :: "char \<Rightarrow> string \<Rightarrow> (string \<times> string) option" where
  "split_first c s =
     (if c \<in> set s then Some (takeWhile (\<lambda>x. x \<noteq> c) s, tl (dropWhile (\<lambda>x. x \<noteq> c) s)) else None)"

lemma split_first_eq: "c \<notin> set p \<Longrightarrow> split_first c (p @ c # q) = Some (p, q)"
proof -
  assume c: "c \<notin> set p"
  then have "takeWhile (\<lambda>x. x \<noteq> c) (p @ c # q) = p" "dropWhile (\<lambda>x. x \<noteq> c) (p @ c # q) = c # q"
    by (induction p) auto
  then show ?thesis by (simp add: split_first_def)
qed

lemma split_last_eq: "c \<notin> set q \<Longrightarrow> split_last c (p @ c # q) = Some (p, q)"
proof -
  assume c: "c \<notin> set q"
  have t: "takeWhile (\<lambda>x. x \<noteq> c) (r @ c # u) = r" "dropWhile (\<lambda>x. x \<noteq> c) (r @ c # u) = c # u"
    if "c \<notin> set r" for r u using that by (induction r) auto
  show ?thesis using t[of "rev q" "rev p"] c by (simp add: split_last_def Let_def)
qed

section \<open>strconv\<close>

definition digit_char :: "nat \<Rightarrow> char" where
  "digit_char d = char_of (48 + d)"

text \<open>\<open>strconv.Itoa\<close> and \<open>strconv.FormatUint\<close> on a non-negative number.\<close>

fun Itoa :: "nat \<Rightarrow> string" where
  "Itoa n = (if n < 10 then [digit_char n] else Itoa (n div 10) @ [digit_char (n mod 10)])"

declare Itoa.simps [simp del]

definition FormatInt :: "int \<Rightarrow> string" where
  "FormatInt i = (if i < 0 then ''-'' @ Itoa (nat (- i)) else Itoa (nat i))"

definition digit_val :: "char \<Rightarrow> nat option" where
  "digit_val c = (let n = of_char c in if 48 \<le> n \<and> n \<le> 57 then Some (n - 48) else None)"

fun parse_digits :: "nat \<Rightarrow> string \<Rightarrow> nat option" where
  "parse_digits acc [] = Some acc"
| "parse_digits acc (c # cs) =
     (case digit_val c of None \<Rightarrow> None | Some d \<Rightarrow> parse_digits (10 * acc + d) cs)"

text \<open>\<open>strconv.ParseInt(s, 10, 64)\<close>: an optional sign, at least one digit, in range.\<close>

definition ParseInt64 :: "string \<Rightarrow> int option" where
  "ParseInt64 s =
     (let (neg, ds) = (case s of [] \<Rightarrow> (False, []) | c # cs \<Rightarrow>
            if c = CHR ''-'' then (True, cs) else if c = CHR ''+'' then (False, cs) else (False, s))
      in if ds = [] then None
         else case parse_digits 0 ds of
                None \<Rightarrow> None
              | Some n \<Rightarrow> let i = (if neg then - int n else int n)
                          in if MinInt64 \<le> i \<and> i \<le> MaxInt64 then Some i else None)"

lemma digit_val_char [simp]: "d < 10 \<Longrightarrow> digit_val (digit_char d) = Some d"
  by (simp add: digit_val_def digit_char_def Let_def)

lemma parse_digits_append: "parse_digits acc (xs @ ys) =
    (case parse_digits acc xs of None \<Rightarrow> None | Some a \<Rightarrow> parse_digits a ys)"
  by (induction xs arbitrary: acc) (auto split: option.split)

lemma parse_digits_Itoa: "parse_digits 0 (Itoa n) = Some n"
proof (induction n rule: Itoa.induct)
  case (1 n)
  show ?case
  proof (cases "n < 10")
    case True
    then show ?thesis by (subst Itoa.simps) simp
  next
    case False
    then have "parse_digits 0 (Itoa (n div 10)) = Some (n div 10)" by (rule 1)
    then show ?thesis using False by (subst Itoa.simps) (simp add: parse_digits_append)
  qed
qed

lemma Itoa_first_digit: "\<exists>d ds. d < 10 \<and> Itoa n = digit_char d # ds"
proof (induction n rule: Itoa.induct)
  case (1 n)
  then show ?case by (subst Itoa.simps) (cases "n < 10"; force)
qed

lemma digit_char_not_sign: "d < 10 \<Longrightarrow> digit_char d \<noteq> CHR ''-'' \<and> digit_char d \<noteq> CHR ''+''"
proof -
  assume "d < 10"
  then have "digit_val (digit_char d) = Some d" by simp
  moreover have "digit_val CHR ''-'' = None" "digit_val CHR ''+'' = None" by code_simp+
  ultimately show ?thesis by (metis option.distinct(1))
qed

lemma ParseInt64_FormatInt:
  assumes "MinInt64 \<le> i" and "i \<le> MaxInt64"
  shows "ParseInt64 (FormatInt i) = Some i"
proof (cases "i < 0")
  case True
  then show ?thesis
    using assms Itoa_first_digit[of "nat (- i)"] parse_digits_Itoa[of "nat (- i)"]
    by (auto simp: FormatInt_def ParseInt64_def Let_def)
next
  case False
  obtain d ds where d: "d < 10" "Itoa (nat i) = digit_char d # ds" using Itoa_first_digit by blast
  then show ?thesis
    using False assms digit_char_not_sign[OF d(1)] parse_digits_Itoa[of "nat i"]
    by (auto simp: FormatInt_def ParseInt64_def Let_def)
qed

end
