(* ===== verification/ConsistentHash.thy ===== *)
theory ConsistentHash
  imports Algorithms GoStrings "HOL-Library.Char_ord" "HOL-Library.List_Lexorder"
begin

text \<open>
  \<open>internal/balancer/consistenthash.go\<close>: consistent hashing with bounded loads.  The
  ring is rebuilt when the signature of the healthy set changes; a key goes to the
  first backend clockwise whose load is below the capacity.
\<close>

section \<open>Definitions\<close>

definition NewConsistentHash :: "int \<Rightarrow> f64 \<Rightarrow> chash" where
  "NewConsistentHash replicas loadFactor =
     \<lparr>ch_replicas = (if replicas \<le> 0 then 100 else replicas),
      ch_loadFactor = (if loadFactor \<le> 1 then 5 / 4 else loadFactor),
      ch_ring = [], ch_ringMap = (\<lambda>_. None), ch_ringKey = ''''\<rparr>"

definition hashKey :: "string \<Rightarrow> uint32" where
  "hashKey s = fnv1a s"

definition membershipSignature :: "(bid \<Rightarrow> string) \<Rightarrow> bid list \<Rightarrow> string" where
  "membershipSignature url healthy = concat (map (\<lambda>u. u @ ''|'') (sort (map url healthy)))"

text \<open>The virtual nodes of a healthy set, in the order in which the ring takes them in.\<close>

definition vnodes :: "(bid \<Rightarrow> string) \<Rightarrow> int \<Rightarrow> bid list \<Rightarrow> (uint32 \<times> bid) list" where
  "vnodes url replicas healthy =
     concat (map (\<lambda>b. map (\<lambda>i. (hashKey (url b @ ''#'' @ Itoa i), b)) [0..<nat replicas]) healthy)"

fun ring_insert :: "(uint32 \<times> bid) list \<Rightarrow> uint32 list \<times> (uint32 \<rightharpoonup> bid) \<Rightarrow>
    uint32 list \<times> (uint32 \<rightharpoonup> bid)" where
  "ring_insert [] rm = rm"
| "ring_insert ((h, b) # vs) (ring, rmap) =
     (if rmap h \<noteq> None then ring_insert vs (ring, rmap)
      else ring_insert vs (ring @ [h], rmap(h \<mapsto> b)))"

definition rebuildLocked :: "(bid \<Rightarrow> string) \<Rightarrow> bid list \<Rightarrow> string \<Rightarrow> chash \<Rightarrow> chash" where
  "rebuildLocked url healthy sig c =
     (let (ring, rmap) = ring_insert (vnodes url (ch_replicas c) healthy) ([], (\<lambda>_. None))
      in c\<lparr>ch_ring := sort ring, ch_ringMap := rmap, ch_ringKey := sig\<rparr>)"

definition url_of :: "lb_heap \<Rightarrow> bid \<Rightarrow> string" where
  "url_of s b = be_URL (h_be s b)"

definition ch_total :: "lb_heap \<Rightarrow> bid list \<Rightarrow> int" where
  "ch_total s healthy = foldl (\<lambda>t b. t + GetActiveConns s b) 1 healthy"

definition ch_capacity :: "lb_heap \<Rightarrow> f64 \<Rightarrow> bid list \<Rightarrow> int" where
  "ch_capacity s loadFactor healthy =
     (let avg = f64_div (f64_of_int (ch_total s healthy)) (f64_of_int (int (length healthy)))
      in wrap64 (f64_trunc (f64_mul loadFactor avg) + 1))"

text \<open>\<open>sort.Search\<close> on the sorted ring: the first position whose hash is not below the key's.\<close>

definition ring_start :: "uint32 list \<Rightarrow> uint32 \<Rightarrow> nat" where
  "ring_start ring h =
     (let i = length (takeWhile (\<lambda>x. x < h) ring) in if i = length ring then 0 else i)"

fun ch_walk :: "(uint32 \<rightharpoonup> bid) \<Rightarrow> bid list \<Rightarrow> (bid \<Rightarrow> bool) \<Rightarrow> bid list \<Rightarrow> bid option \<Rightarrow>
    uint32 list \<Rightarrow> bid option \<times> bid option" where
  "ch_walk rmap healthy room seen fallback [] = (None, fallback)"
| "ch_walk rmap healthy room seen fallback (h # hs) =
     (case rmap h of
        None \<Rightarrow> ch_walk rmap healthy room seen fallback hs
      | Some b \<Rightarrow>
          let fallback' = (if fallback = None then Some b else fallback) in
          if b \<notin> set healthy \<or> b \<in> set seen
          then ch_walk rmap healthy room seen fallback' hs
          else if room b then (Some b, fallback')
          else ch_walk rmap healthy room (b # seen) fallback' hs)"

definition ch_choose :: "addr \<Rightarrow> string \<Rightarrow> bid list \<Rightarrow> lb_heap pick" where
  "ch_choose a key healthy s =
     (let c = h_ch s a; sig = membershipSignature (url_of s) healthy;
          c' = (if sig \<noteq> ch_ringKey c \<or> ch_ring c = []
                then rebuildLocked (url_of s) healthy sig c else c);
          s' = s\<lparr>h_ch := (h_ch s)(a := c')\<rparr>
      in if ch_ring c' = [] then (Inl ErrNoHealthy, s')
         else let capacity = ch_capacity s (ch_loadFactor c') healthy;
                  start = ring_start (ch_ring c') (hashKey key);
                  (sel, fallback) = ch_walk (ch_ringMap c') healthy
                     (\<lambda>b. GetActiveConns s b < capacity) [] None (rotate start (ch_ring c'))
              in reserve (case sel of Some b \<Rightarrow> b
                          | None \<Rightarrow> (case fallback of Some b \<Rightarrow> b | None \<Rightarrow> hd healthy)) s')"

definition CH_NextForKey :: "addr \<Rightarrow> string \<Rightarrow> lb_heap pick" where
  "CH_NextForKey a key = with_healthy a (ch_choose a key)"

definition CH_Next :: "addr \<Rightarrow> lb_heap pick" where
  "CH_Next a s = (let (k, s') = RandUint32 s in CH_NextForKey a (Itoa (unat k)) s')"

definition ConsistentHash :: "addr \<Rightarrow> lb_heap balancer" where
  "ConsistentHash a = (base_methods a (CH_Next a))\<lparr>m_NextForKey := Some (CH_NextForKey a)\<rparr>"

section \<open>The ring\<close>

text \<open>
  The virtual node of a hash is the first one that carries it; the ring holds exactly
  the hashes of the virtual nodes.
\<close>

lemma ring_insert_map:
  "ring_insert vs (ring, rmap) = (ring', rmap') \<Longrightarrow> rmap' h = (case rmap h of Some b \<Rightarrow> Some b | None \<Rightarrow> map_of vs h)"
proof (induction vs arbitrary: ring rmap)
  case (Cons v vs)
  obtain k b where v: "v = (k, b)" by (cases v)
  show ?case using Cons.prems Cons.IH by (auto simp: v split: if_splits option.splits)
qed (simp split: option.split)

lemma ring_insert_set:
  "ring_insert vs (ring, rmap) = (ring', rmap') \<Longrightarrow> set ring = dom rmap \<Longrightarrow>
     set ring' = dom rmap \<union> fst ` set vs"
proof (induction vs arbitrary: ring rmap)
  case (Cons v vs)
  obtain k b where v: "v = (k, b)" by (cases v)
  show ?case
  proof (cases "rmap k = None")
    case True
    then have "ring_insert vs (ring @ [k], rmap(k \<mapsto> b)) = (ring', rmap')" using Cons.prems(1) by (simp add: v)
    moreover have "set (ring @ [k]) = dom (rmap(k \<mapsto> b))" using Cons.prems(2) by simp
    ultimately have "set ring' = dom (rmap(k \<mapsto> b)) \<union> fst ` set vs" by (rule Cons.IH)
    then show ?thesis by (simp add: v)
  next
    case False
    then have "ring_insert vs (ring, rmap) = (ring', rmap')" using Cons.prems(1) by (auto simp: v)
    then have "set ring' = dom rmap \<union> fst ` set vs" using Cons.prems(2) by (rule Cons.IH)
    then show ?thesis using False by (auto simp: v)
  qed
qed simp

lemma rebuildLocked_ring:
  "set (ch_ring (rebuildLocked url hs sig c)) = fst ` set (vnodes url (ch_replicas c) hs)"
  "ch_ringMap (rebuildLocked url hs sig c) = map_of (vnodes url (ch_replicas c) hs)"
  "sorted (ch_ring (rebuildLocked url hs sig c))"
  "ch_ringKey (rebuildLocked url hs sig c) = sig"
  "ch_replicas (rebuildLocked url hs sig c) = ch_replicas c"
  "ch_loadFactor (rebuildLocked url hs sig c) = ch_loadFactor c"
proof -
  obtain ring rmap where r: "ring_insert (vnodes url (ch_replicas c) hs) ([], (\<lambda>_. None)) = (ring, rmap)"
    by fastforce
  show "set (ch_ring (rebuildLocked url hs sig c)) = fst ` set (vnodes url (ch_replicas c) hs)"
    "ch_ringMap (rebuildLocked url hs sig c) = map_of (vnodes url (ch_replicas c) hs)"
    "sorted (ch_ring (rebuildLocked url hs sig c))"
    "ch_ringKey (rebuildLocked url hs sig c) = sig"
    "ch_replicas (rebuildLocked url hs sig c) = ch_replicas c"
    "ch_loadFactor (rebuildLocked url hs sig c) = ch_loadFactor c"
    using ring_insert_map[OF r] ring_insert_set[OF r] r
    by (auto simp: rebuildLocked_def fun_eq_iff)
qed

lemma vnodes_mem: "(h, b) \<in> set (vnodes url r hs) \<Longrightarrow> b \<in> set hs"
  by (auto simp: vnodes_def)

lemma vnodes_nonempty: "0 < r \<Longrightarrow> hs \<noteq> [] \<Longrightarrow> vnodes url r hs \<noteq> []"
  by (cases hs) (auto simp: vnodes_def)

lemma vnodes_hashes: "fst ` set (vnodes url r hs) = (\<Union>b \<in> set hs. fst ` set (vnodes url r [b]))"
  by (auto simp: vnodes_def)

text \<open>The position of a key: the least hash not below it, or the least of all.\<close>

definition clockwise :: "uint32 set \<Rightarrow> uint32 \<Rightarrow> uint32" where
  "clockwise S h = (if \<exists>x \<in> S. h \<le> x then Min {x \<in> S. h \<le> x} else Min S)"

lemma Min_first: "sorted (x # xs) \<Longrightarrow> Min (set (x # xs)) = (x :: 'b :: linorder)"
  by (rule Min_eqI) auto

lemma ring_start_clockwise:
  assumes "sorted ring" and "ring \<noteq> []"
  shows "ring ! ring_start ring h = clockwise (set ring) h" and "ring_start ring h < length ring"
proof -
  define lo hi where "lo = takeWhile (\<lambda>x. x < h) ring" and "hi = dropWhile (\<lambda>x. x < h) ring"
  have st: "ring_start ring h = (if length lo = length ring then 0 else length lo)"
    by (simp add: ring_start_def lo_def Let_def)
  have hd: "hi \<noteq> [] \<Longrightarrow> h \<le> hd hi"
    using hd_dropWhile[of "\<lambda>x. x < h" ring] by (auto simp: hi_def)
  have lo: "\<And>x. x \<in> set lo \<Longrightarrow> x < h" by (auto simp: lo_def dest: set_takeWhileD)
  have ring: "ring = lo @ hi" by (simp add: lo_def hi_def)
  have "ring ! ring_start ring h = clockwise (set ring) h \<and> ring_start ring h < length ring"
  proof (cases hi)
    case Nil
    obtain x xs where x: "lo = x # xs" using assms(2) ring Nil by (cases lo) auto
    have "\<not> (\<exists>x \<in> set ring. h \<le> x)" using lo by (auto simp: ring Nil simp flip: not_less)
    then have "clockwise (set ring) h = Min (set lo)" by (simp add: clockwise_def ring Nil)
    then show ?thesis using st Min_first[of x xs] assms(1) x by (simp add: ring Nil)
  next
    case (Cons y ys)
    have y: "h \<le> y" and ys: "\<And>x. x \<in> set ys \<Longrightarrow> y \<le> x"
      using hd assms(1) by (auto simp: Cons ring sorted_append)
    have "Min {x \<in> set ring. h \<le> x} = y"
      by (rule Min_eqI) (use y ys lo ring Cons in \<open>force+\<close>)
    then show ?thesis using st y by (auto simp: clockwise_def ring Cons)
  qed
  then show "ring ! ring_start ring h = clockwise (set ring) h" and "ring_start ring h < length ring"
    by auto
qed

lemma clockwise_mem: "finite S \<Longrightarrow> S \<noteq> {} \<Longrightarrow> clockwise S h \<in> S"
proof (cases "\<exists>x \<in> S. h \<le> x")
  case True
  assume f: "finite S"
  have "Min {x \<in> S. h \<le> x} \<in> {x \<in> S. h \<le> x}" using True f by (intro Min_in) auto
  then show ?thesis using True by (simp add: clockwise_def)
qed (simp add: clockwise_def)

text \<open>Taking other hashes off the ring does not move the position of a key.\<close>

lemma clockwise_subset:
  assumes "finite S" and "T \<subseteq> S" and "clockwise S h \<in> T"
  shows "clockwise T h = clockwise S h"
proof -
  have fT: "finite T" using assms(1,2) by (rule finite_subset[rotated])
  show ?thesis
  proof (cases "\<exists>x \<in> S. h \<le> x")
    case True
    let ?m = "Min {x \<in> S. h \<le> x}"
    have m: "clockwise S h = ?m" using True by (simp add: clockwise_def)
    have "?m \<in> {x \<in> S. h \<le> x}" using True assms(1) by (intro Min_in) auto
    then have mT: "?m \<in> T" "h \<le> ?m" using assms(3) m by simp_all
    have "Min {x \<in> T. h \<le> x} = ?m"
      by (rule Min_eqI) (use fT mT assms(1,2) in \<open>auto intro: Min_le\<close>)
    then show ?thesis using m mT by (auto simp: clockwise_def)
  next
    case False
    then have m: "clockwise S h = Min S" "\<not> (\<exists>x \<in> T. h \<le> x)" using assms(2) by (auto simp: clockwise_def)
    have "Min T = Min S"
      by (rule Min_eqI) (use fT assms m(1) in \<open>auto intro: Min_le\<close>)
    then show ?thesis using m by (simp add: clockwise_def)
  qed
qed

section \<open>Ownership of keys\<close>

text \<open>The backend a key belongs to on the ring of a healthy set, before loads are looked at.\<close>

definition ring_owner :: "(bid \<Rightarrow> string) \<Rightarrow> int \<Rightarrow> bid list \<Rightarrow> uint32 \<Rightarrow> bid option" where
  "ring_owner url replicas healthy h =
     map_of (vnodes url replicas healthy) (clockwise (fst ` set (vnodes url replicas healthy)) h)"

lemma rebuildLocked_owner:
  assumes "0 < ch_replicas c" and "hs \<noteq> []"
  shows "ch_ringMap (rebuildLocked url hs sig c)
           (ch_ring (rebuildLocked url hs sig c) ! ring_start (ch_ring (rebuildLocked url hs sig c)) h) =
         ring_owner url (ch_replicas c) hs h"
proof -
  have "ch_ring (rebuildLocked url hs sig c) \<noteq> []"
    using vnodes_nonempty[OF assms] rebuildLocked_ring(1)[of url hs sig c]
    by (metis image_is_empty set_empty)
  then show ?thesis
    using ring_start_clockwise(1)[OF rebuildLocked_ring(3)]
    by (simp add: rebuildLocked_ring(1,2) ring_owner_def)
qed

lemma vnodes_filter:
  "vnodes url r (filter P hs) = filter (\<lambda>(h, b). P b) (vnodes url r hs)"
  by (induction hs) (auto simp: vnodes_def filter_map comp_def intro!: filter_True filter_False)

lemma map_of_filter_other:
  "map_of vs k = Some x \<Longrightarrow> P x \<Longrightarrow> map_of (filter (\<lambda>(h, b). P b) vs) k = Some x"
  by (induction vs) (auto split: if_splits)

lemma ring_owner_remove:
  assumes "ring_owner url r hs h = Some x" and "x \<noteq> b"
  shows "ring_owner url r (filter (\<lambda>y. y \<noteq> b) hs) h = Some x"
proof -
  let ?vs = "vnodes url r hs" and ?ws = "vnodes url r (filter (\<lambda>y. y \<noteq> b) hs)"
  let ?p = "clockwise (fst ` set ?vs) h"
  have own: "map_of ?vs ?p = Some x" using assms(1) by (simp add: ring_owner_def)
  then have "map_of ?ws ?p = Some x"
    using map_of_filter_other[of ?vs ?p x "\<lambda>y. y \<noteq> b"] assms(2) by (simp add: vnodes_filter)
  moreover from this have "?p \<in> fst ` set ?ws" by (force dest: map_of_SomeD)
  then have "clockwise (fst ` set ?ws) h = ?p"
    by (intro clockwise_subset) (auto simp: vnodes_filter)
  ultimately show ?thesis by (simp add: ring_owner_def)
qed

text \<open>
  C18. Losing a backend remaps only the keys it owned: every key owned by another backend
  keeps its owner when \<open>rebuildLocked\<close> builds the ring without the lost one, whatever
  hash collisions there are between virtual nodes.
\<close>

theorem ring_minimal_remap:
  assumes "0 < ch_replicas c" and "x \<noteq> b"
    and "ring_owner url (ch_replicas c) hs (hashKey key) = Some x"
    and "c' = rebuildLocked url (filter (\<lambda>y. y \<noteq> b) hs) sig c"
  shows "ch_ringMap c' (ch_ring c' ! ring_start (ch_ring c') (hashKey key)) = Some x"
proof -
  note own = ring_owner_remove[OF assms(3,2)]
  have "x \<in> set hs" using assms(3) by (auto simp: ring_owner_def dest!: map_of_SomeD vnodes_mem)
  then have "filter (\<lambda>y. y \<noteq> b) hs \<noteq> []" using assms(2) by (auto simp: filter_empty_conv)
  then show ?thesis using rebuildLocked_owner[OF assms(1)] own by (simp add: assms(4))
qed

section \<open>Signatures\<close>

lemma sep_inj:
  assumes "concat (map (\<lambda>u. u @ [c]) xs) = concat (map (\<lambda>u. u @ [c]) ys)"
    and "\<And>u. u \<in> set xs \<union> set ys \<Longrightarrow> c \<notin> set u"
  shows "xs = ys"
  using assms
proof (induction xs arbitrary: ys)
  case Nil
  then show ?case by (cases ys) auto
next
  case (Cons x xs)
  then obtain y ys' where y: "ys = y # ys'" by (cases ys) auto
  have eq: "x @ c # concat (map (\<lambda>u. u @ [c]) xs) = y @ c # concat (map (\<lambda>u. u @ [c]) ys')"
    using Cons.prems(1) by (simp add: y)
  have c: "c \<notin> set x" "c \<notin> set y" using Cons.prems(2) by (auto simp: y)
  have tw: "takeWhile (\<lambda>d. d \<noteq> c) (u @ c # r) = u" if "c \<notin> set u" for u r
    using that by (induction u) auto
  have "x = y" using tw[OF c(1)] tw[OF c(2)] eq by metis
  moreover from this have "xs = ys'" using eq Cons.prems(2) by (intro Cons.IH) (auto simp: y)
  ultimately show ?case by (simp add: y)
qed

definition urls_ok :: "(bid \<Rightarrow> string) \<Rightarrow> bid set \<Rightarrow> bool" where
  "urls_ok url S \<longleftrightarrow> inj_on url S \<and> (\<forall>b \<in> S. CHR ''|'' \<notin> set (url b))"

lemma signature_inj:
  assumes "membershipSignature url xs = membershipSignature url ys"
    and "urls_ok url (set xs \<union> set ys)"
  shows "set xs = set ys"
proof -
  have "sort (map url xs) = sort (map url ys)"
    using assms by (intro sep_inj[of "CHR ''|''"]) (auto simp: membershipSignature_def urls_ok_def)
  then have "url ` set xs = url ` set ys" by (metis set_map set_sort)
  moreover have "inj_on url (set xs \<union> set ys)" using assms(2) by (simp add: urls_ok_def)
  ultimately show ?thesis by (meson Un_upper1 Un_upper2 inj_on_image_eq_iff)
qed

section \<open>The walk\<close>

text \<open>
  The walk with its record of visited backends finds the first virtual node whose
  backend is healthy and has room.
\<close>

definition servable :: "(uint32 \<rightharpoonup> bid) \<Rightarrow> bid list \<Rightarrow> (bid \<Rightarrow> bool) \<Rightarrow> uint32 \<Rightarrow> bool" where
  "servable rmap healthy room h \<longleftrightarrow>
     (case rmap h of None \<Rightarrow> False | Some b \<Rightarrow> b \<in> set healthy \<and> room b)"

lemma ch_walk_find:
  "\<forall>b \<in> set seen. \<not> room b \<Longrightarrow>
   fst (ch_walk rmap healthy room seen fb hs) =
     Option.bind (List.find (servable rmap healthy room) hs) rmap"
proof (induction hs arbitrary: seen fb)
  case (Cons h hs)
  then show ?case by (cases "rmap h") (auto simp: servable_def Let_def)
qed simp

lemma ch_walk_fallback:
  "snd (ch_walk rmap healthy room seen fb hs) = Some b \<Longrightarrow> fb = Some b \<or> (\<exists>h \<in> set hs. rmap h = Some b)"
  by (induction rmap healthy room seen fb hs rule: ch_walk.induct)
     (auto simp: Let_def split: option.splits if_splits)

lemma find_servable:
  "Option.bind (List.find (servable rmap healthy room) hs) rmap = Some b \<Longrightarrow>
     b \<in> set healthy \<and> room b \<and> (\<exists>h \<in> set hs. rmap h = Some b)"
  by (auto simp: find_Some_iff servable_def bind_eq_Some_conv split: option.splits)

lemma find_servable_None:
  "Option.bind (List.find (servable rmap healthy room) hs) rmap = None \<Longrightarrow> h \<in> set hs \<Longrightarrow>
     rmap h = Some b \<Longrightarrow> b \<in> set healthy \<Longrightarrow> \<not> room b"
proof (cases "List.find (servable rmap healthy room) hs")
  case (Some k)
  assume "Option.bind (List.find (servable rmap healthy room) hs) rmap = None"
  then show ?thesis using Some by (auto simp: find_Some_iff servable_def split: option.splits)
qed (auto simp: find_None_iff servable_def split: option.splits)

text \<open>
  The invariant of a consistent-hash balancer: the ring, once built, is the ring of the
  set its signature was taken from, and no two of the backends involved share a URL.
\<close>

definition ch_wf :: "addr \<Rightarrow> lb_heap \<Rightarrow> bool" where
  "ch_wf a s \<longleftrightarrow> heap_wf s \<and> 0 < ch_replicas (h_ch s a) \<and>
     (\<exists>hs0. urls_ok (url_of s) (set hs0 \<union> set (BB_All a s)) \<and>
        (ch_ring (h_ch s a) \<noteq> [] \<longrightarrow>
           h_ch s a = rebuildLocked (url_of s) hs0 (membershipSignature (url_of s) hs0) (h_ch s a)))"

text \<open>The ring after the signature test, as \<open>NextForKey\<close> uses it.\<close>

definition ch_current :: "addr \<Rightarrow> bid list \<Rightarrow> lb_heap \<Rightarrow> chash" where
  "ch_current a healthy s =
     (let c = h_ch s a; sig = membershipSignature (url_of s) healthy
      in if sig \<noteq> ch_ringKey c \<or> ch_ring c = [] then rebuildLocked (url_of s) healthy sig c else c)"

lemma ch_current_ring:
  assumes wf: "ch_wf a s" and hs: "hs \<noteq> []" "set hs \<subseteq> set (BB_All a s)"
  obtains hs0 where "set hs0 = set hs"
    "ch_current a hs s = rebuildLocked (url_of s) hs0 (membershipSignature (url_of s) hs0) (h_ch s a)"
    "ch_ring (ch_current a hs s) \<noteq> []"
proof -
  let ?c = "h_ch s a" and ?sig = "membershipSignature (url_of s)"
  obtain hs0 where u: "urls_ok (url_of s) (set hs0 \<union> set (BB_All a s))"
    and r: "ch_ring ?c \<noteq> [] \<Longrightarrow> ?c = rebuildLocked (url_of s) hs0 (?sig hs0) ?c"
    and rep: "0 < ch_replicas ?c" using wf by (auto simp: ch_wf_def)
  show ?thesis
  proof (cases "?sig hs \<noteq> ch_ringKey ?c \<or> ch_ring ?c = []")
    case True
    then have c: "ch_current a hs s = rebuildLocked (url_of s) hs (?sig hs) ?c"
      by (simp add: ch_current_def Let_def)
    have "ch_ring (ch_current a hs s) \<noteq> []"
      using vnodes_nonempty[OF rep hs(1)] rebuildLocked_ring(1)[of "url_of s" hs "?sig hs" ?c] c
      by (metis image_is_empty set_empty)
    then show ?thesis using that[OF refl c] by blast
  next
    case False
    then have c: "ch_current a hs s = ?c" and key: "ch_ringKey ?c = ?sig hs" and ne: "ch_ring ?c \<noteq> []"
      by (auto simp: ch_current_def Let_def)
    have "ch_ringKey ?c = ?sig hs0" using r[OF ne] rebuildLocked_ring(4) by metis
    then have "set hs0 = set hs"
      using key u hs(2) by (intro signature_inj[of "url_of s"]) (auto simp: urls_ok_def intro: inj_on_subset)
    then show ?thesis using that[of hs0] r[OF ne] c ne by simp
  qed
qed

lemma ch_choose_eq:
  "ch_choose a key hs s =
     (let c = ch_current a hs s; s' = s\<lparr>h_ch := (h_ch s)(a := c)\<rparr>
      in if ch_ring c = [] then (Inl ErrNoHealthy, s')
         else let (sel, fallback) = ch_walk (ch_ringMap c) hs
                     (\<lambda>b. GetActiveConns s b < ch_capacity s (ch_loadFactor c) hs) [] None
                     (rotate (ring_start (ch_ring c) (hashKey key)) (ch_ring c))
              in reserve (case sel of Some b \<Rightarrow> b
                          | None \<Rightarrow> (case fallback of Some b \<Rightarrow> b | None \<Rightarrow> hd hs)) s')"
  by (simp add: ch_choose_def ch_current_def Let_def)

section \<open>The contract\<close>

lemma rebuildLocked_again:
  "rebuildLocked url hs sig (rebuildLocked url hs' sig' c) = rebuildLocked url hs sig c"
  by (simp add: rebuildLocked_def Let_def case_prod_beta)

lemma ch_wf_heap: "ch_wf a s \<Longrightarrow> heap_wf s"
  by (simp add: ch_wf_def)

lemma ch_wf_frame:
  assumes "ch_wf a s" and "heap_wf s'" and "config_frame s s'"
  shows "ch_wf a s'"
proof -
  have "url_of s' = url_of s" using assms(3) by (simp add: url_of_def config_frame_def fun_eq_iff)
  moreover have "BB_All a s' = BB_All a s"
    using assms(3) by (simp add: config_frame_def members_def fun_eq_iff)
  ultimately show ?thesis using assms by (simp add: ch_wf_def config_frame_def)
qed

lemma config_frame_GetHealthy: "config_frame s (snd (BB_GetHealthy a s))"
  by (simp add: config_frame_def members_def frame_simps fun_eq_iff) (simp add: BB_GetHealthy_def Let_def)

lemma ch_choose_pick:
  assumes wf: "ch_wf a s" and hs: "hs \<noteq> []" "set hs \<subseteq> set (BB_All a s)"
  obtains b where "b \<in> set hs"
    "ch_choose a key hs s = reserve b (s\<lparr>h_ch := (h_ch s)(a := ch_current a hs s)\<rparr>)"
    "Option.bind (List.find (servable (ch_ringMap (ch_current a hs s)) hs
        (\<lambda>b. GetActiveConns s b < ch_capacity s (ch_loadFactor (h_ch s a)) hs))
        (rotate (ring_start (ch_ring (ch_current a hs s)) (hashKey key)) (ch_ring (ch_current a hs s))))
        (ch_ringMap (ch_current a hs s)) \<in> {None, Some b}"
proof -
  let ?c = "ch_current a hs s"
  obtain hs0 where hs0: "set hs0 = set hs"
    "?c = rebuildLocked (url_of s) hs0 (membershipSignature (url_of s) hs0) (h_ch s a)"
    "ch_ring ?c \<noteq> []" by (rule ch_current_ring[OF wf hs])
  have lf: "ch_loadFactor ?c = ch_loadFactor (h_ch s a)" using hs0(2) by (simp add: rebuildLocked_ring)
  let ?room = "\<lambda>b. GetActiveConns s b < ch_capacity s (ch_loadFactor (h_ch s a)) hs"
  let ?ring = "rotate (ring_start (ch_ring ?c) (hashKey key)) (ch_ring ?c)"
  obtain sel fb where w: "ch_walk (ch_ringMap ?c) hs ?room [] None ?ring = (sel, fb)" by fastforce
  have sel: "sel = Option.bind (List.find (servable (ch_ringMap ?c) hs ?room) ?ring) (ch_ringMap ?c)"
    using ch_walk_find[of "[]" ?room "ch_ringMap ?c" hs None ?ring] w by simp
  let ?b = "case sel of Some b \<Rightarrow> b | None \<Rightarrow> (case fb of Some b \<Rightarrow> b | None \<Rightarrow> hd hs)"
  have rm: "b \<in> set hs" if "ch_ringMap ?c h = Some b" for h b
    using that hs0(1,2) by (auto simp: rebuildLocked_ring dest!: map_of_SomeD vnodes_mem)
  have "?b \<in> set hs"
    using find_servable[of "ch_ringMap ?c" hs ?room ?ring] sel
      ch_walk_fallback[of "ch_ringMap ?c" hs ?room "[]" None ?ring] w rm hs(1)
    by (auto split: option.split)
  moreover have "ch_choose a key hs s = reserve ?b (s\<lparr>h_ch := (h_ch s)(a := ?c)\<rparr>)"
    using hs0(3) w by (simp add: ch_choose_eq lf)
  moreover have "Option.bind (List.find (servable (ch_ringMap ?c) hs ?room) ?ring) (ch_ringMap ?c)
      \<in> {None, Some ?b}"
    unfolding sel[symmetric] by (cases sel) auto
  ultimately show ?thesis by (rule that)
qed

lemma ch_wf_set_current:
  assumes wf: "ch_wf a s" and hs: "hs \<noteq> []" "set hs \<subseteq> set (BB_All a s)"
  shows "ch_wf a (s\<lparr>h_ch := (h_ch s)(a := ch_current a hs s)\<rparr>)" (is "ch_wf a ?s")
proof -
  let ?c = "ch_current a hs s"
  obtain hs0 where hs0: "set hs0 = set hs"
    "?c = rebuildLocked (url_of s) hs0 (membershipSignature (url_of s) hs0) (h_ch s a)"
    by (rule ch_current_ring[OF wf hs])
  have "url_of ?s = url_of s" by (simp add: url_of_def fun_eq_iff)
  moreover have "heap_wf ?s" using wf obs_heap_wf[of ?s s] by (simp add: ch_wf_def)
  moreover have "BB_All a ?s = BB_All a s" by (rule obs_BB_All) simp
  moreover have "?c = rebuildLocked (url_of s) hs0 (membershipSignature (url_of s) hs0) ?c"
    using hs0(2) rebuildLocked_again by metis
  moreover have "urls_ok (url_of s) (set hs0 \<union> set (BB_All a s))"
    using wf hs0(1) hs(2) by (auto simp: ch_wf_def urls_ok_def Un_absorb1 intro: inj_on_subset)
  moreover have "0 < ch_replicas ?c" using hs0(2) wf by (simp add: rebuildLocked_ring ch_wf_def)
  ultimately show ?thesis unfolding ch_wf_def by auto
qed

lemma CH_NextForKey_pick:
  assumes wf: "ch_wf a s" and hs: "healthy_of a s \<noteq> []"
  shows "\<exists>b t. CH_NextForKey a key s = reserve b t \<and> b \<in> set (healthy_of a s) \<and> ch_wf a t \<and>
           obs t = obs (snd (BB_GetHealthy a s))"
proof -
  let ?t = "snd (BB_GetHealthy a s)" and ?hs = "healthy_of a s"
  have hw: "heap_wf s" using wf by (simp add: ch_wf_def)
  have wt: "ch_wf a ?t" by (rule ch_wf_frame[OF wf BB_GetHealthy_wf[OF hw] config_frame_GetHealthy])
  have sub: "set ?hs \<subseteq> set (BB_All a ?t)" by (auto simp: healthy_of_def frame_simps)
  obtain b where b: "b \<in> set ?hs"
    "ch_choose a key ?hs ?t = reserve b (?t\<lparr>h_ch := (h_ch ?t)(a := ch_current a ?hs ?t)\<rparr>)"
    by (rule ch_choose_pick[OF wt hs sub])
  then show ?thesis
    using ch_wf_set_current[OF wt hs sub] with_healthy_eq[OF hw hs]
    by (intro exI[of _ b] exI[of _ "?t\<lparr>h_ch := (h_ch ?t)(a := ch_current a ?hs ?t)\<rparr>"])
       (simp add: CH_NextForKey_def)
qed

lemma GetHealthy_members_BB: "members (snd (BB_GetHealthy a s)) = members s"
  by (simp add: members_def frame_simps fun_eq_iff)

lemma CH_NextForKey_ok:
  assumes wf: "ch_wf a s"
  shows "picks_ok (ch_wf a) s (set (BB_All a s)) (CH_NextForKey a key s)"
    and "same_health s (snd (CH_NextForKey a key s))"
proof -
  let ?t = "snd (BB_GetHealthy a s)"
  have hw: "heap_wf s" using wf by (simp add: ch_wf_def)
  have "picks_ok (ch_wf a) s (set (BB_All a s)) (CH_NextForKey a key s) \<and>
        same_health s (snd (CH_NextForKey a key s))"
  proof (cases "healthy_of a s = []")
    case True
    then show ?thesis
      using ch_wf_frame[OF wf BB_GetHealthy_wf[OF hw] config_frame_GetHealthy]
      by (simp add: CH_NextForKey_def with_healthy_none[OF hw] picks_ok_Inl GetHealthy_members_BB
          frame_simps same_health_def)
  next
    case False
    obtain b t where b: "CH_NextForKey a key s = reserve b t" "b \<in> set (healthy_of a s)"
      "ch_wf a t" and o: "obs t = obs ?t"
      using CH_NextForKey_pick[OF wf False] by blast
    note o' = obs_IsHealthy[OF o] obs_conns[OF o] obs_members[OF o]
    have "ch_wf a (IncrConn b t)"
      using b(3) by (intro ch_wf_frame[OF b(3) IncrConn_wf config_frame_IncrConn]) (simp add: ch_wf_def)
    then have "picks_ok (ch_wf a) t (set (BB_All a s)) (reserve b t)"
      using b(2) o' by (intro reserve_ok) (auto simp: healthy_of_def frame_simps)
    then have "picks_ok (ch_wf a) s (set (BB_All a s)) (reserve b t)"
      using o' by (elim picks_ok_from) (simp_all add: frame_simps GetHealthy_members_BB)
    moreover have "same_health s (snd (reserve b t))"
      using o' by (simp add: same_health_def reserve_def frame_simps)
    ultimately show ?thesis by (simp add: b(1))
  qed
  then show "picks_ok (ch_wf a) s (set (BB_All a s)) (CH_NextForKey a key s)"
    and "same_health s (snd (CH_NextForKey a key s))" by auto
qed

lemma CH_NextForKey_live:
  assumes "ch_wf a s" and "\<exists>b \<in> set (BB_All a s). IsHealthy s b"
  shows "succeeds (CH_NextForKey a key s)"
proof -
  have "healthy_of a s \<noteq> []" using assms(2) by (auto simp: healthy_of_def filter_empty_conv)
  then show ?thesis using CH_NextForKey_pick[OF assms(1)] by (metis succeeds_reserve)
qed

lemma CH_Next_eq:
  obtains k t where "CH_Next a s = CH_NextForKey a k t" "obs t = obs s" "h_ch t = h_ch s"
  by (rule that[of "Itoa (unat (word_of_nat (fst (draw s)) :: uint32))" "snd (draw s)"])
     (simp_all add: CH_Next_def RandUint32_def case_prod_beta draw_def)

lemma CH_Next_ok:
  assumes wf: "ch_wf a s"
  shows "picks_ok (ch_wf a) s (set (BB_All a s)) (CH_Next a s)"
    and "same_health s (snd (CH_Next a s))"
    and "\<exists>b \<in> set (BB_All a s). IsHealthy s b \<Longrightarrow> succeeds (CH_Next a s)"
proof -
  obtain k t where k: "CH_Next a s = CH_NextForKey a k t" "obs t = obs s" "h_ch t = h_ch s"
    by (rule CH_Next_eq)
  note o = obs_conns[OF k(2)] obs_members[OF k(2)] obs_BB_All[OF k(2)] obs_IsHealthy[OF k(2)]
  have t: "ch_wf a t"
    using ch_wf_frame[OF wf _ config_frame_obs[OF k(2,3)]] obs_heap_wf[OF k(2)] wf by (simp add: ch_wf_def)
  show "picks_ok (ch_wf a) s (set (BB_All a s)) (CH_Next a s)"
    using CH_NextForKey_ok(1)[OF t, of k] o by (auto simp: k(1) elim: picks_ok_from)
  show "same_health s (snd (CH_Next a s))"
    using CH_NextForKey_ok(2)[OF t, of k] o by (simp add: k(1) same_health_def)
  show "succeeds (CH_Next a s)" if "\<exists>b \<in> set (BB_All a s). IsHealthy s b"
    using CH_NextForKey_live[OF t, of k] o that by (simp add: k(1))
qed

lemma ch_contract: "balancer_contract (ConsistentHash a) (ch_wf a)"
proof
  fix s s' :: lb_heap assume "members s' = members s"
  then show "m_All (ConsistentHash a) s' = m_All (ConsistentHash a) s"
    by (simp add: ConsistentHash_def base_methods_def members_def fun_eq_iff)
next
  fix s s' :: lb_heap assume "ch_wf a s" "heap_wf s'" "config_frame s s'"
  then show "ch_wf a s'" by (rule ch_wf_frame)
next
  fix s assume wf: "ch_wf a s"
  then show "ch_wf a (snd (m_GetHealthy (ConsistentHash a) s))"
    using ch_wf_frame[OF wf BB_GetHealthy_wf config_frame_GetHealthy]
    by (simp add: ConsistentHash_def base_methods_def ch_wf_def)
  show "picks_ok (ch_wf a) s (set (m_All (ConsistentHash a) s)) (m_Next (ConsistentHash a) s)"
    using CH_Next_ok(1)[OF wf] by (simp add: ConsistentHash_def base_methods_def)
qed (auto simp: ConsistentHash_def base_methods_def frame_simps GetHealthy_members_BB
       intro: CH_NextForKey_ok(1) BB_GetHealthy_fst BB_All_distinct ch_wf_heap)

interpretation ch: live_balancer "ConsistentHash a" "ch_wf a" for a
  by (intro live_balancer.intro passive_balancer.intro ch_contract passive_balancer_axioms.intro
        live_balancer_axioms.intro)
     (auto simp: ConsistentHash_def base_methods_def some_healthy_def CH_Next_ok CH_NextForKey_ok(2))

interpretation ch_keyed: live_keyed "ConsistentHash a" "ch_wf a" for a
  by unfold_locales
     (auto simp: ConsistentHash_def base_methods_def some_healthy_def keyed_next_def CH_NextForKey_live)

section \<open>Bounded load\<close>

lemma ch_total_eq: "ch_total s hs = 1 + (\<Sum>b\<leftarrow>hs. GetActiveConns s b)"
proof -
  have "foldl (\<lambda>t b. t + GetActiveConns s b) t hs = t + (\<Sum>b\<leftarrow>hs. GetActiveConns s b)" for t
    by (induction hs arbitrary: t) auto
  from this[of 1] show ?thesis by (simp add: ch_total_def)
qed

lemma f64_avg_bounds:
  assumes "0 \<le> T" "T \<le> 2 ^ 53" "0 < n" "n \<le> 2 ^ 53"
  shows "of_int (T div n) \<le> f64_div (f64_of_int T) (f64_of_int n)"
    and "f64_div (f64_of_int T) (f64_of_int n) \<le> of_int T"
proof -
  let ?q = "T div n"
  have q: "0 \<le> ?q" using assms by (simp add: pos_imp_zdiv_nonneg_iff)
  have qn: "?q * n \<le> T"
    using div_mult_mod_eq[of T n] pos_mod_sign[OF assms(3), of T] by linarith
  have "?q * 1 \<le> ?q * n" using q assms(3) by (intro mult_left_mono) auto
  then have qT: "?q \<le> T" using qn by simp
  have ex: "f64_of_int T = of_int T" "f64_of_int n = of_int n"
    using assms by (auto intro: f64_of_int_exact)
  have "(of_int (?q * n) :: rat) \<le> of_int T" using qn by (simp only: of_int_le_iff)
  then have "(of_int ?q :: rat) \<le> of_int T / of_int n" using assms(3) by (simp add: field_simps)
  from round64_mono[OF this] show "of_int ?q \<le> f64_div (f64_of_int T) (f64_of_int n)"
    using round64_of_int[of ?q] q qT assms(2) by (simp add: f64_div_def ex)
  have "T * 1 \<le> T * n" using assms by (intro mult_left_mono) auto
  then have "(of_int (T * 1) :: rat) \<le> of_int (T * n)" by (simp only: of_int_le_iff)
  then have "of_int T / of_int n \<le> (of_int T :: rat)" using assms(3) by (simp add: field_simps)
  from round64_mono[OF this] show "f64_div (f64_of_int T) (f64_of_int n) \<le> of_int T"
    using round64_of_int[of T] assms(1,2) by (simp add: f64_div_def ex)
qed

lemma f64_trunc_le: "x \<le> of_int k \<Longrightarrow> 0 \<le> k \<Longrightarrow> f64_trunc x \<le> k"
  by (auto simp: f64_trunc_def Let_def floor_le_iff ceiling_le_iff MinInt64_def)

lemma ch_capacity_gt_avg:
  assumes "hs \<noteq> []" and "length hs \<le> 2 ^ 43" and "0 \<le> ch_total s hs" and "ch_total s hs \<le> 2 ^ 43"
    and "1 \<le> lf" and "lf \<le> 1024"
  shows "ch_total s hs div int (length hs) < ch_capacity s lf hs"
proof -
  let ?T = "ch_total s hs" and ?n = "int (length hs)"
  define avg where "avg = f64_div (f64_of_int ?T) (f64_of_int ?n)"
  have n: "0 < ?n" "?n \<le> 2 ^ 53" using assms(1,2) by simp_all
  have T: "?T \<le> 2 ^ 53" using assms(4) by simp
  note avg = f64_avg_bounds[OF assms(3) T n, folded avg_def]
  have q: "0 \<le> ?T div ?n" using assms(3) n by (simp add: pos_imp_zdiv_nonneg_iff)
  have avg0: "0 \<le> avg" using avg(1) q by (meson of_int_0_le_iff order_trans)
  have q53: "\<bar>?T div ?n\<bar> \<le> 2 ^ 53"
  proof -
    have "(of_int (?T div ?n) :: rat) \<le> of_int ?T" using avg by (rule order_trans)
    then show ?thesis using q T by simp
  qed
  have "of_int (?T div ?n) \<le> lf * avg" using avg(1) avg0 assms(5) mult_right_mono[of 1 lf avg] by simp
  from round64_mono[OF this] have lo: "of_int (?T div ?n) \<le> f64_mul lf avg"
    using round64_of_int[OF q53] by (simp add: f64_mul_def)
  have "lf * avg \<le> 1024 * of_int ?T" using assms(3,5,6) avg(2) avg0 by (intro mult_mono) auto
  also have "\<dots> = of_int (1024 * ?T)" by simp
  also have "\<dots> \<le> of_int (2 ^ 53)" unfolding of_int_le_iff using assms(4) by simp
  finally have "round64 (lf * avg) \<le> round64 (of_int (2 ^ 53))" by (rule round64_mono)
  then have hi: "f64_mul lf avg \<le> of_int (2 ^ 53)"
    using round64_of_int[of "2 ^ 53"] by (simp add: f64_mul_def)
  then have "f64_mul lf avg < of_int MaxInt64" by (rule le_less_trans) (simp add: MaxInt64_def)
  then have tr: "?T div ?n \<le> f64_trunc (f64_mul lf avg)" by (rule f64_trunc_ge[OF lo q])
  have "f64_trunc (f64_mul lf avg) \<le> 2 ^ 53" using hi by (rule f64_trunc_le) simp
  then have "wrap64 (f64_trunc (f64_mul lf avg) + 1) = f64_trunc (f64_mul lf avg) + 1"
    using tr q by (intro wrap64_id) (simp_all add: MaxInt64_def MinInt64_def)
  then show ?thesis using tr by (simp add: ch_capacity_def avg_def)
qed


text \<open>So some healthy backend is below the capacity.\<close>

lemma ch_room_exists:
  assumes "hs \<noteq> []" and "length hs \<le> 2 ^ 12" and "\<And>b. b \<in> set hs \<Longrightarrow> 0 \<le> GetActiveConns s b"
    and "1 \<le> lf" and "lf \<le> 1024"
  shows "\<exists>b \<in> set hs. GetActiveConns s b < ch_capacity s lf hs"
proof (rule ccontr)
  assume no: "\<not> ?thesis"
  let ?C = "ch_capacity s lf hs" and ?T = "ch_total s hs" and ?n = "int (length hs)"
  have n: "1 \<le> ?n" using assms(1) by (simp add: Suc_le_eq)
  have "GetActiveConns s b \<le> 2 ^ 31 - 1" for b using GetActiveConns_range(2)[of s b] by simp
  then have "(\<Sum>b\<leftarrow>hs. GetActiveConns s b) \<le> (\<Sum>b\<leftarrow>hs. 2 ^ 31 - 1)" by (intro sum_list_mono)
  then have "?T \<le> 1 + ?n * (2 ^ 31 - 1)" by (simp add: ch_total_eq sum_list_triv mult.commute)
  also have "\<dots> \<le> ?n * 2 ^ 31" using n by (simp add: algebra_simps)
  also have "\<dots> \<le> 2 ^ 12 * 2 ^ 31" using assms(2) by (intro mult_right_mono) auto
  finally have T: "?T \<le> 2 ^ 43" by simp
  have "0 \<le> (\<Sum>b\<leftarrow>hs. GetActiveConns s b)" using assms(3) by (intro sum_list_nonneg) auto
  then have T0: "0 \<le> ?T" by (simp add: ch_total_eq)
  have l: "length hs \<le> 2 ^ 43" using assms(2) by (rule order_trans) simp
  have "(\<Sum>b\<leftarrow>hs. ?C) \<le> (\<Sum>b\<leftarrow>hs. GetActiveConns s b)" using no by (intro sum_list_mono) force
  then have "?n * ?C \<le> ?T" by (simp add: ch_total_eq sum_list_triv mult.commute)
  then have "(?n * ?C) div ?n \<le> ?T div ?n" using n by (intro zdiv_mono1) auto
  then have "?C \<le> ?T div ?n" using assms(1) by simp
  then show False using ch_capacity_gt_avg[OF assms(1) l T0 T assms(4,5)] by simp
qed

lemma ch_total_cong: "GetActiveConns t = GetActiveConns s \<Longrightarrow> ch_capacity t lf hs = ch_capacity s lf hs"
  by (simp add: ch_capacity_def ch_total_def)

text \<open>
  C15. Bounded load: while every healthy backend has a virtual node on the ring (none lost
  all of them to hash collisions), \<open>NextForKey\<close> returns a backend whose connections were
  below the capacity \<open>int(loadFactor * average) + 1\<close>, so the reservation it makes does not
  take the backend above it.  The fall-back on a saturated backend never happens.  Stated
  for up to 4096 backends and load factors up to 1024, where the conversion of the
  product to an integer cannot overflow.
\<close>

theorem ch_bounded_load:
  assumes wf: "ch_wf a s" and hs: "healthy_of a s = hs" "hs \<noteq> []" "length hs \<le> 2 ^ 12"
    and nn: "\<forall>b \<in> set hs. 0 \<le> GetActiveConns s b"
    and lf: "1 \<le> ch_loadFactor (h_ch s a)" "ch_loadFactor (h_ch s a) \<le> 1024"
    and ring: "\<forall>b \<in> set hs. \<exists>h \<in> set (ch_ring (ch_current a hs s)). ch_ringMap (ch_current a hs s) h = Some b"
  shows "\<exists>b s'. CH_NextForKey a key s = (Inr b, s') \<and> b \<in> set hs \<and>
           GetActiveConns s b < ch_capacity s (ch_loadFactor (h_ch s a)) hs"
proof -
  let ?t = "snd (BB_GetHealthy a s)"
  have hw: "heap_wf s" using wf by (rule ch_wf_heap)
  have wt: "ch_wf a ?t" by (rule ch_wf_frame[OF wf BB_GetHealthy_wf[OF hw] config_frame_GetHealthy])
  have ch: "h_ch ?t = h_ch s" using config_frame_GetHealthy[of s a] by (simp add: config_frame_def)
  have ga: "GetActiveConns ?t = GetActiveConns s" by (simp add: GetActiveConns_def frame_simps fun_eq_iff)
  have "url_of ?t = url_of s" by (simp add: url_of_def frame_simps fun_eq_iff)
  then have cur: "ch_current a hs ?t = ch_current a hs s" by (simp add: ch_current_def ch Let_def)
  let ?c = "ch_current a hs s" and ?C = "ch_capacity s (ch_loadFactor (h_ch s a)) hs"
  let ?room = "\<lambda>b. GetActiveConns s b < ?C"
  let ?ring = "rotate (ring_start (ch_ring ?c) (hashKey key)) (ch_ring ?c)"
  let ?find = "Option.bind (List.find (servable (ch_ringMap ?c) hs ?room) ?ring) (ch_ringMap ?c)"
  have sub: "set hs \<subseteq> set (BB_All a ?t)" using hs(1) by (auto simp: healthy_of_def frame_simps)
  obtain b where b: "b \<in> set hs" "ch_choose a key hs ?t = reserve b (?t\<lparr>h_ch := (h_ch s)(a := ?c)\<rparr>)"
    and f: "?find \<in> {None, Some b}"
    by (rule ch_choose_pick[OF wt hs(2) sub, of key, unfolded cur ch ga ch_total_cong[OF ga]])
  obtain x where x: "x \<in> set hs" "?room x" using ch_room_exists[OF hs(2,3) _ lf] nn by blast
  obtain h where h: "h \<in> set (ch_ring ?c)" "ch_ringMap ?c h = Some x" using ring x(1) by blast
  have hr: "h \<in> set ?ring" using h(1) by (simp only: set_rotate)
  have "?find \<noteq> None" using find_servable_None[of "ch_ringMap ?c" hs ?room ?ring h x, OF _ hr h(2) x(1)] x(2) by blast
  with f have fb: "?find = Some b" by (simp only: insert_iff empty_iff simp_thms)
  have "?room b" using find_servable[OF fb] by (elim conjE)
  moreover have "CH_NextForKey a key s = reserve b (?t\<lparr>h_ch := (h_ch s)(a := ?c)\<rparr>)"
    using with_healthy_eq[OF hw] hs(1,2) b(2) by (simp add: CH_NextForKey_def)
  ultimately show ?thesis using b(1) by (simp add: reserve_def)
qed

section \<open>A ring that outlives its backends\<close>

text \<open>
  The signature is made of URLs, the ring of \<open>*Backend\<close> pointers.  When a backend is
  removed and a new object with the same URL is added before the next selection with a
  non-empty healthy set, the signature does not change and the ring is not rebuilt.
\<close>

lemma ch_walk_stale:
  assumes "\<And>h. h \<in> set hs \<Longrightarrow> rmap h = Some x" and "x \<notin> set healthy"
  shows "ch_walk rmap healthy room seen fb hs = (None, if hs = [] then fb else if fb = None then Some x else fb)"
  using assms by (induction hs arbitrary: fb) auto

lemma membershipSignature_single: "membershipSignature url [b] = url b @ ''|''"
  by (simp add: membershipSignature_def)

lemma ch_choose_stale:
  assumes "h_ch s a = rebuildLocked (url_of s) [old] (url_of s old @ ''|'') c" and "0 < ch_replicas c"
    and "url_of s new = url_of s old" and "old \<noteq> new"
  shows "fst (ch_choose a key [new] s) = Inr old"
proof -
  let ?c = "h_ch s a"
  have ring: "set (ch_ring ?c) = fst ` set (vnodes (url_of s) (ch_replicas c) [old])"
    and rm: "ch_ringMap ?c = map_of (vnodes (url_of s) (ch_replicas c) [old])"
    and key: "ch_ringKey ?c = url_of s old @ ''|''"
    unfolding assms(1) by (simp_all add: rebuildLocked_ring)
  have ne: "ch_ring ?c \<noteq> []"
    using ring vnodes_nonempty[OF assms(2), of "[old]" "url_of s"] by (metis image_is_empty list.distinct(1) set_empty)
  then have cur: "ch_current a [new] s = ?c"
    using key assms(3) by (simp add: ch_current_def membershipSignature_single)
  have old: "ch_ringMap ?c h = Some old" if "h \<in> set (ch_ring ?c)" for h
  proof -
    have "h \<in> fst ` set (vnodes (url_of s) (ch_replicas c) [old])" using that ring by blast
    then obtain y where y: "map_of (vnodes (url_of s) (ch_replicas c) [old]) h = Some y"
      by (metis map_of_eq_None_iff option.exhaust)
    then have "y \<in> set [old]" by (intro vnodes_mem map_of_SomeD)
    then show ?thesis using rm y by simp
  qed
  have "ch_walk (ch_ringMap ?c) [new] room [] None (rotate k (ch_ring ?c)) = (None, Some old)" for room k
    using ch_walk_stale[of "rotate k (ch_ring ?c)" "ch_ringMap ?c" old "[new]" room "[]" None] old ne assms(4)
    by simp
  then show ?thesis using ne by (simp add: ch_choose_eq cur Let_def reserve_def)
qed

lemma url_of_upd [simp]:
  "url_of (s\<lparr>h_base := x\<rparr>) = url_of s" "url_of (s\<lparr>h_ch := y\<rparr>) = url_of s"
  by (simp_all add: url_of_def fun_eq_iff)

lemma url_of_frame [frame_simps]:
  "url_of (IncrConn b s) = url_of s" "url_of (snd (BB_GetHealthy a s)) = url_of s"
  "url_of (BB_Add a b s) = url_of s" "url_of (BB_Remove a b s) = url_of s"
  "h_ch (snd (BB_GetHealthy a s)) = h_ch s" "h_ch (BB_Add a b s) = h_ch s" "h_ch (BB_Remove a b s) = h_ch s"
  by (auto simp: url_of_def IncrConn_def upd_be_def BB_GetHealthy_def BB_Add_def BB_Remove_def Let_def fun_eq_iff)

lemma member_change_frame [frame_simps]:
  "IsHealthy (BB_Add a b s) = IsHealthy s" "IsHealthy (BB_Remove a b s) = IsHealthy s"
  "BB_All a (BB_Add a b s) = BB_All a s @ [b]" "BB_All a (BB_Remove a b s) = remove1 b (BB_All a s)"
  by (auto simp: BB_Add_def BB_Remove_def BB_All_def remove1_idem)

text \<open>
  A consistent-hash balancer can hand out a backend that is no longer a member: a pool
  of one backend, a selection, and then the backend replaced by a new object with the
  same URL, as DNS or Kubernetes discovery does when a target flaps.  The next
  selection returns, and reserves a connection on, the removed object.
\<close>

lemma ch_stale_ring_returns_removed:
  assumes wf: "heap_wf s" and em: "BB_All a s = []" "ch_ring (h_ch s a) = []" and rep: "0 < ch_replicas (h_ch s a)"
    and he: "IsHealthy s old" "IsHealthy s new" and url: "url_of s new = url_of s old" and ne: "old \<noteq> new"
    and s1: "s1 = snd (CH_NextForKey a k1 (BB_Add a old s))"
    and s2: "s2 = BB_Add a new (BB_Remove a old s1)"
  shows "fst (CH_NextForKey a k2 s2) = Inr old \<and> BB_All a s2 = [new]"
proof -
  let ?s0 = "BB_Add a old s" and ?c = "rebuildLocked (url_of s) [old] (url_of s old @ ''|'') (h_ch s a)"
  have wf0: "heap_wf ?s0" using wf em by (intro BB_Add_wf) simp_all
  have h0: "healthy_of a ?s0 = [old]" using em he by (simp add: healthy_of_def frame_simps)
  let ?t = "snd (BB_GetHealthy a ?s0)"
  have cur: "ch_current a [old] ?t = ?c"
    using em by (simp add: ch_current_def frame_simps membershipSignature_single)
  have "ch_ring ?c \<noteq> []"
    using vnodes_nonempty[OF rep, of "[old]" "url_of s"]
      rebuildLocked_ring(1)[of "url_of s" "[old]" "url_of s old @ ''|''" "h_ch s a"]
    by (metis image_is_empty list.distinct(1) set_empty)
  then obtain b where b: "s1 = IncrConn b (?t\<lparr>h_ch := (h_ch ?t)(a := ?c)\<rparr>)"
    unfolding s1 CH_NextForKey_def
    by (simp add: with_healthy_eq[OF wf0] h0 ch_choose_eq cur Let_def case_prod_beta reserve_def)
  have f1: "url_of s1 = url_of s" "h_ch s1 a = ?c" "BB_All a s1 = [old]" "IsHealthy s1 = IsHealthy s"
    using em by (simp_all add: b frame_simps BB_All_def fun_eq_iff)
      (simp_all add: IncrConn_def upd_be_def BB_GetHealthy_def BB_Add_def IsHealthy_def Let_def)
  have "heap_wf ?t" by (rule BB_GetHealthy_wf[OF wf0])
  then have wf1: "heap_wf s1"
    unfolding b using obs_heap_wf[of "?t\<lparr>h_ch := (h_ch ?t)(a := ?c)\<rparr>" ?t] by (intro IncrConn_wf) simp
  have wf2: "heap_wf s2" unfolding s2 using wf1 f1 by (intro BB_Add_wf BB_Remove_wf) (simp_all add: frame_simps)
  have f2: "BB_All a s2 = [new]" "healthy_of a s2 = [new]" "url_of s2 = url_of s" "h_ch s2 a = ?c"
    using f1 he by (simp_all add: s2 healthy_of_def frame_simps)
  let ?u = "snd (BB_GetHealthy a s2)"
  have "fst (CH_NextForKey a k2 s2) = fst (ch_choose a k2 [new] ?u)"
    using with_healthy_eq[OF wf2, of a "ch_choose a k2"] f2 by (simp add: CH_NextForKey_def)
  also have "\<dots> = Inr old"
    by (rule ch_choose_stale[of _ _ _ "h_ch s a"]) (use f2 rep url ne in \<open>simp_all add: frame_simps\<close>)
  finally show ?thesis using f2 by simp
qed

section \<open>An instance\<close>

definition ch_duo :: lb_heap where
  "ch_duo = duo\<lparr>h_ch := (\<lambda>_. NewConsistentHash 1 0)\<rparr>"

lemma ch_duo_obs: "obs ch_duo = obs duo"
  by (simp add: ch_duo_def)

lemma ch_duo_simps [simp]:
  "url_of ch_duo b = (if b = 0 then ''http://a:80'' else ''http://b:80'')"
  "BB_All 0 ch_duo = [0, 1]" "IsHealthy ch_duo b" "GetActiveConns ch_duo b = 0" "heap_wf ch_duo"
  "h_ch ch_duo a = NewConsistentHash 1 0"
  using obs_BB_All[OF ch_duo_obs, of 0] obs_IsHealthy[OF ch_duo_obs] obs_GetActiveConns[OF ch_duo_obs]
    obs_heap_wf[OF ch_duo_obs] duo_wf
  by (simp_all add: ch_duo_def url_of_def) (simp add: duo_def BB_Add_def start_heap_def NewBackend_def duo_cfg_def)

lemma ch_duo_wf: "ch_wf 0 ch_duo"
  unfolding ch_wf_def
  by (intro conjI exI[of _ "[]"]) (auto simp: NewConsistentHash_def urls_ok_def inj_on_def)

lemma ch_duo_vnodes:
  "vnodes (url_of ch_duo) 1 [0, 1] = [(hashKey ''http://a:80#0'', 0), (hashKey ''http://b:80#0'', 1)]"
proof -
  have "Itoa 0 = ''0''" by code_simp
  then show ?thesis by (simp add: vnodes_def)
qed

lemma ch_duo_hashes: "hashKey ''http://a:80#0'' \<noteq> hashKey ''http://b:80#0''"
  by code_simp

lemma ch_duo_ring:
  "ch_current 0 [0, 1] ch_duo = rebuildLocked (url_of ch_duo) [0, 1]
     (membershipSignature (url_of ch_duo) [0, 1]) (NewConsistentHash 1 0)"
  by (simp add: ch_current_def NewConsistentHash_def Let_def)

theorem ch_bounded_load_witness:
  "\<exists>b s'. CH_NextForKey 0 ''203.0.113.9'' ch_duo = (Inr b, s') \<and> b \<in> {0, 1} \<and>
     GetActiveConns ch_duo b < ch_capacity ch_duo (5 / 4) [0, 1]"
proof -
  have "\<forall>b \<in> set [0, 1]. \<exists>h \<in> set (ch_ring (ch_current 0 [0, 1] ch_duo)).
      ch_ringMap (ch_current 0 [0, 1] ch_duo) h = Some b"
    using ch_duo_hashes
    by (simp add: ch_duo_ring rebuildLocked_ring NewConsistentHash_def ch_duo_vnodes del: One_nat_def)
  then show ?thesis
    using ch_bounded_load[of 0 ch_duo "[0, 1]" "''203.0.113.9''"]
    by (simp add: ch_duo_wf healthy_of_def NewConsistentHash_def)
qed

theorem ring_minimal_remap_witness:
  "\<exists>x y. {x, y} = {0, 1} \<and> (let c = rebuildLocked (url_of ch_duo) (filter (\<lambda>z. z \<noteq> y) [0, 1]) '''' (NewConsistentHash 1 0)
     in ch_ringMap c (ch_ring c ! ring_start (ch_ring c) (hashKey ''k'')) = Some x)"
proof -
  let ?u = "url_of ch_duo"
  have "ring_owner ?u 1 [0, 1] (hashKey ''k'') \<in> {Some 0, Some 1}"
  proof -
    have "clockwise (fst ` set (vnodes ?u 1 [0, 1])) (hashKey ''k'') \<in> fst ` set (vnodes ?u 1 [0, 1])"
      by (rule clockwise_mem) (simp_all add: ch_duo_vnodes del: One_nat_def)
    then show ?thesis by (auto simp: ring_owner_def ch_duo_vnodes simp del: One_nat_def)
  qed
  then obtain x where x: "ring_owner ?u 1 [0, 1] (hashKey ''k'') = Some x" "x = 0 \<or> x = 1" by auto
  have "x \<noteq> 1 - x" using x(2) by auto
  then show ?thesis
    using ring_minimal_remap[of "NewConsistentHash 1 0" x "1 - x" ?u "[0, 1]" "''k''", OF _ _ _ refl] x
    by (intro exI[of _ x] exI[of _ "1 - x"]) (auto simp: NewConsistentHash_def Let_def)
qed

lemma ch_stale_ring_returns_removed_witness:
  "let s = (start_heap (\<lambda>_. duo_cfg 0) (\<lambda>_. 0) (\<lambda>_. 0))\<lparr>h_ch := (\<lambda>_. NewConsistentHash 1 0)\<rparr>;
       s1 = snd (CH_NextForKey 0 ''k'' (BB_Add 0 3 s));
       s2 = BB_Add 0 4 (BB_Remove 0 3 s1)
   in fst (CH_NextForKey 0 ''k'' s2) = Inr 3 \<and> BB_All 0 s2 = [4]"
proof -
  let ?s = "(start_heap (\<lambda>_. duo_cfg 0) (\<lambda>_. 0) (\<lambda>_. 0))\<lparr>h_ch := (\<lambda>_. NewConsistentHash 1 0)\<rparr>"
  have "heap_wf ?s" using obs_heap_wf[of ?s "start_heap (\<lambda>_. duo_cfg 0) (\<lambda>_. 0) (\<lambda>_. 0)"] start_heap_wf by simp
  moreover have "BB_All 0 ?s = []" "IsHealthy ?s 3" "IsHealthy ?s 4" "url_of ?s 4 = url_of ?s 3"
    by (simp_all add: BB_All_def start_heap_def IsHealthy_def NewBackend_def url_of_def)
  ultimately show ?thesis
    using ch_stale_ring_returns_removed[of ?s 0 3 4, OF _ _ _ _ _ _ _ _ refl refl]
    by (simp add: NewConsistentHash_def Let_def)
qed

end
