(* ===== verification/Wrappers.thy ===== *)
theory Wrappers
  imports ConsistentHash "HOL-Library.AList"
begin

text \<open>
  \<open>internal/balancer/wrappers.go\<close>: the wrappers that compose around any balancer.  A
  wrapper is a function on method records; it narrows the candidates and passes the
  narrowed set down through the capability \<open>subsetPicker\<close> (the fields \<open>m_pickFrom\<close> and
  \<open>m_pickFromKey\<close>), which base algorithms do not have.
\<close>

section \<open>Selecting from a candidate set\<close>

definition sameSet :: "bid list \<Rightarrow> bid list \<Rightarrow> bool" where
  "sameSet a b \<longleftrightarrow> length a = length b \<and> (\<forall>x \<in> set b. x \<in> set a)"

definition statelessPick :: "bid list \<Rightarrow> lb_heap pick" where
  "statelessPick candidates s =
     (case candidates of
        [] \<Rightarrow> (Inl ErrNoHealthy, s)
      | c # rest \<Rightarrow>
          reserve_opt (fst (lc_scan (GetActiveConns s) (Some c, GetActiveConns s c) rest)) s)"

definition hashPick :: "bid list \<Rightarrow> string \<Rightarrow> lb_heap pick" where
  "hashPick candidates key s =
     (if candidates = [] then (Inl ErrNoHealthy, s)
      else reserve_res (index_mod (fnv1a key) candidates) s)"

definition selectFrom :: "lb_heap balancer \<Rightarrow> bid list \<Rightarrow> lb_heap pick" where
  "selectFrom inner candidates s =
     (if candidates = [] then (Inl ErrNoHealthy, s)
      else let (healthy, s1) = m_GetHealthy inner s in
           if sameSet healthy candidates then m_Next inner s1
           else case m_pickFrom inner of
                  Some pickFrom \<Rightarrow> pickFrom candidates s1
                | None \<Rightarrow> statelessPick candidates s1)"

definition keyedSelectFrom :: "lb_heap balancer \<Rightarrow> bid list \<Rightarrow> string \<Rightarrow> lb_heap pick" where
  "keyedSelectFrom inner candidates key s =
     (if candidates = [] then (Inl ErrNoHealthy, s)
      else let (healthy, s1) = m_GetHealthy inner s in
           if sameSet healthy candidates
           then (case m_NextForKey inner of
                   Some nextForKey \<Rightarrow> nextForKey key s1
                 | None \<Rightarrow> m_Next inner s1)
           else case m_pickFromKey inner of
                  Some pickFromKey \<Rightarrow> pickFromKey candidates key s1
                | None \<Rightarrow> (case m_NextForKey inner of
                             Some _ \<Rightarrow> hashPick candidates key s1
                           | None \<Rightarrow> statelessPick candidates s1))"

text \<open>The methods every wrapper forwards to the balancer it wraps.\<close>

definition forwarding ::
    "lb_heap balancer \<Rightarrow> lb_heap pick \<Rightarrow> (string \<Rightarrow> lb_heap pick) \<Rightarrow> (bid list \<Rightarrow> lb_heap pick) \<Rightarrow>
     (bid list \<Rightarrow> string \<Rightarrow> lb_heap pick) \<Rightarrow> lb_heap balancer" where
  "forwarding inner nxt nextForKey pickFrom pickFromKey =
     \<lparr>m_Next = nxt, m_Add = m_Add inner, m_Remove = m_Remove inner, m_All = m_All inner,
      m_GetHealthy = m_GetHealthy inner, m_UpdateWeight = m_UpdateWeight inner,
      m_NextForKey = Some nextForKey, m_pickFrom = Some pickFrom,
      m_pickFromKey = Some pickFromKey, m_ObserveLatency = None, m_ObserveOutcome = None\<rparr>"

section \<open>PriorityTiers and ZoneAware\<close>

definition PT_eligibleFrom :: "lb_heap \<Rightarrow> bid list \<Rightarrow> bid list" where
  "PT_eligibleFrom s pool =
     (case pool of
        [] \<Rightarrow> []
      | b # _ \<Rightarrow>
          let minTier = foldl (\<lambda>m b. if be_Tier (h_be s b) < m then be_Tier (h_be s b) else m)
                          (be_Tier (h_be s b)) pool
          in filter (\<lambda>b. be_Tier (h_be s b) = minTier) pool)"

definition ZA_eligibleFrom :: "string \<Rightarrow> bool \<Rightarrow> lb_heap \<Rightarrow> bid list \<Rightarrow> bid list" where
  "ZA_eligibleFrom zone preferSameZone s pool =
     (if \<not> preferSameZone \<or> zone = '''' then pool
      else let inZone = filter (\<lambda>b. be_Zone (h_be s b) = zone) pool
           in if inZone \<noteq> [] then inZone else pool)"

definition narrowing_wrapper ::
    "(lb_heap \<Rightarrow> bid list \<Rightarrow> bid list) \<Rightarrow> lb_heap balancer \<Rightarrow> lb_heap balancer" where
  "narrowing_wrapper elig inner = forwarding inner
     (\<lambda>s. let (pool, s1) = m_GetHealthy inner s in selectFrom inner (elig s1 pool) s1)
     (\<lambda>key s. let (pool, s1) = m_GetHealthy inner s in keyedSelectFrom inner (elig s1 pool) key s1)
     (\<lambda>candidates s. selectFrom inner (elig s candidates) s)
     (\<lambda>candidates key s. keyedSelectFrom inner (elig s candidates) key s)"

definition PriorityTiers :: "lb_heap balancer \<Rightarrow> lb_heap balancer" where
  "PriorityTiers inner = narrowing_wrapper PT_eligibleFrom inner"

definition ZoneAware :: "string \<Rightarrow> bool \<Rightarrow> lb_heap balancer \<Rightarrow> lb_heap balancer" where
  "ZoneAware localZone preferSameZone inner =
     narrowing_wrapper (ZA_eligibleFrom localZone preferSameZone) inner"

section \<open>SlowStart\<close>

definition NewSlowStart :: "duration \<Rightarrow> slow_start" where
  "NewSlowStart window =
     \<lparr>ss_window = window, ss_wasHealthy = (\<lambda>_. None), ss_healthySince = (\<lambda>_. None)\<rparr>"

text \<open>The constant \<open>0.01\<close> is the nearest \<open>float64\<close>.\<close>

definition SS_factor :: "slow_start \<Rightarrow> bid \<Rightarrow> time \<Rightarrow> f64" where
  "SS_factor ss b now =
     (if ss_window ss \<le> 0 then 1
      else case ss_healthySince ss b of
             None \<Rightarrow> 1
           | Some since \<Rightarrow>
               let elapsed = time_Sub now since in
               if elapsed \<ge> ss_window ss then 1
               else if elapsed \<le> 0 then round64 (1 / 100)
               else let f = f64_div (f64_of_int elapsed) (f64_of_int (ss_window ss))
                    in if f < round64 (1 / 100) then round64 (1 / 100) else f)"

definition SS_observe1 :: "lb_heap \<Rightarrow> time \<Rightarrow> bid \<Rightarrow> slow_start \<Rightarrow> slow_start" where
  "SS_observe1 s now b ss =
     (let h = IsHealthy s b;
          ss' = (if h \<and> ss_wasHealthy ss b \<noteq> Some True
                 then ss\<lparr>ss_healthySince := (ss_healthySince ss)(b \<mapsto> now)\<rparr> else ss)
      in ss'\<lparr>ss_wasHealthy := (ss_wasHealthy ss')(b \<mapsto> h)\<rparr>)"

definition SS_observeTransitions :: "addr \<Rightarrow> lb_heap balancer \<Rightarrow> time \<Rightarrow> lb_heap \<Rightarrow> lb_heap" where
  "SS_observeTransitions a inner now s =
     s\<lparr>h_ss := (h_ss s)(a := fold (SS_observe1 s now) (m_All inner s) (h_ss s a))\<rparr>"

fun ramp_loop :: "nat \<Rightarrow> addr \<Rightarrow> time \<Rightarrow> lb_heap pick \<Rightarrow> bid option \<Rightarrow> lb_heap pick" where
  "ramp_loop 0 a now sel prev s =
     (case prev of None \<Rightarrow> (Inl ErrNoHealthy, s) | Some b \<Rightarrow> reserve b s)"
| "ramp_loop (Suc n) a now sel prev s =
     (case sel s of
        (Inl e, s1) \<Rightarrow> (Inl e, s1)
      | (Inr b, s1) \<Rightarrow>
          let f = SS_factor (h_ss s1 a) b now in
          if f \<ge> 1 then (Inr b, s1)
          else let (r, s2) = RandFloat64 s1 in
               if r < f then (Inr b, s2)
               else ramp_loop n a now sel (Some b) (DecrConn b s2))"

definition rampedSelect :: "addr \<Rightarrow> time \<Rightarrow> lb_heap pick \<Rightarrow> lb_heap pick" where
  "rampedSelect a now sel = ramp_loop 8 a now sel None"

definition SlowStart :: "addr \<Rightarrow> lb_heap balancer \<Rightarrow> lb_heap balancer" where
  "SlowStart a inner = forwarding inner
     (\<lambda>s. let (now, s1) = Now s
          in rampedSelect a now (m_Next inner) (SS_observeTransitions a inner now s1))
     (\<lambda>key s. let (now, s1) = Now s; s2 = SS_observeTransitions a inner now s1;
                  (healthy, s3) = m_GetHealthy inner s2
              in keyedSelectFrom inner healthy key s3)
     (\<lambda>candidates s. let (now, s1) = Now s
          in rampedSelect a now (selectFrom inner candidates) (SS_observeTransitions a inner now s1))
     (\<lambda>candidates key s. let (now, s1) = Now s
          in keyedSelectFrom inner candidates key (SS_observeTransitions a inner now s1))"

section \<open>OutlierDetection\<close>

definition NewOutlierDetection :: "f64 \<Rightarrow> int \<Rightarrow> duration \<Rightarrow> int \<Rightarrow> outlier" where
  "NewOutlierDetection errorRateThreshold minRequests baseEjection maxEjectionPercent =
     \<lparr>od_enabled = True, od_errorRateThreshold = errorRateThreshold, od_minRequests = minRequests,
      od_baseEjection = baseEjection, od_maxEjectionPercent = maxEjectionPercent, od_stats = []\<rparr>"

definition OD_statFor :: "outlier \<Rightarrow> bid \<Rightarrow> outlierStat" where
  "OD_statFor od b =
     (case map_of (od_stats od) b of
        Some st \<Rightarrow> st
      | None \<Rightarrow> \<lparr>os_success = 0, os_failure = 0, os_ejected = False, os_ejectedAt = 0\<rparr>)"

definition OD_put :: "outlier \<Rightarrow> bid \<Rightarrow> outlierStat \<Rightarrow> outlier" where
  "OD_put od b st = od\<lparr>od_stats := AList.update b st (od_stats od)\<rparr>"

definition OD_currentlyEjectedLocked :: "outlier \<Rightarrow> int" where
  "OD_currentlyEjectedLocked od = int (length (filter (os_ejected \<circ> snd) (od_stats od)))"

definition OD_maxEject :: "int \<Rightarrow> int \<Rightarrow> int" where
  "OD_maxEject fleet pct = (let m = wrap64 (fleet * pct) sdiv 100 in if m < 1 then 1 else m)"

definition OD_bump :: "bool \<Rightarrow> outlierStat \<Rightarrow> outlierStat" where
  "OD_bump ok st = (if ok then st\<lparr>os_success := os_success st + 1\<rparr> else st\<lparr>os_failure := os_failure st + 1\<rparr>)"

definition OD_ObserveOutcome :: "addr \<Rightarrow> lb_heap balancer \<Rightarrow> bid \<Rightarrow> bool \<Rightarrow> lb_heap \<Rightarrow> lb_heap" where
  "OD_ObserveOutcome a inner b ok s =
     (if \<not> od_enabled (h_od s a) then s
      else let (now, s1) = Now s; od = h_od s1 a; st = OD_bump ok (OD_statFor od b);
               od1 = OD_put od b st; s2 = s1\<lparr>h_od := (h_od s1)(a := od1)\<rparr>;
               total = os_success st + os_failure st
           in if os_ejected st \<or> total < od_minRequests od then s2
              else if f64_div (f64_of_int (os_failure st)) (f64_of_int total)
                        \<le> od_errorRateThreshold od then s2
              else if OD_currentlyEjectedLocked od1 \<ge>
                        OD_maxEject (int (length (m_All inner s2))) (od_maxEjectionPercent od) then s2
              else SetHealthy b False
                     (s2\<lparr>h_od := (h_od s2)(a := OD_put od1 b
                         (st\<lparr>os_ejected := True, os_ejectedAt := now\<rparr>))\<rparr>))"

definition OD_expired :: "outlier \<Rightarrow> time \<Rightarrow> outlierStat \<Rightarrow> bool" where
  "OD_expired od now st \<longleftrightarrow>
     os_ejected st \<and> time_Sub now (os_ejectedAt st) \<ge> od_baseEjection od"

definition OD_restore :: "(outlierStat \<Rightarrow> bool) \<Rightarrow> bid \<times> outlierStat \<Rightarrow> lb_heap \<Rightarrow> lb_heap" where
  "OD_restore expired e s = (if expired (snd e) then SetHealthy (fst e) True s else s)"

definition OD_reinstateExpired :: "addr \<Rightarrow> time \<Rightarrow> lb_heap \<Rightarrow> lb_heap" where
  "OD_reinstateExpired a now s =
     (let od = h_od s a;
          stats' = map (\<lambda>(b, st). (b, if OD_expired od now st
                     then st\<lparr>os_ejected := False, os_success := 0, os_failure := 0\<rparr> else st)) (od_stats od);
          s' = s\<lparr>h_od := (h_od s)(a := od\<lparr>od_stats := stats'\<rparr>)\<rparr>
      in fold (OD_restore (OD_expired od now)) (od_stats od) s')"

definition OutlierDetection :: "addr \<Rightarrow> lb_heap balancer \<Rightarrow> lb_heap balancer" where
  "OutlierDetection a inner = (forwarding inner
     (\<lambda>s. let (now, s1) = Now s in m_Next inner (OD_reinstateExpired a now s1))
     (\<lambda>key s. let (now, s1) = Now s; (healthy, s2) = m_GetHealthy inner (OD_reinstateExpired a now s1)
              in keyedSelectFrom inner healthy key s2)
     (\<lambda>candidates s. let (now, s1) = Now s
          in selectFrom inner candidates (OD_reinstateExpired a now s1))
     (\<lambda>candidates key s. let (now, s1) = Now s
          in keyedSelectFrom inner candidates key (OD_reinstateExpired a now s1)))
     \<lparr>m_ObserveOutcome := Some (OD_ObserveOutcome a inner)\<rparr>"

section \<open>Selecting from candidates keeps the contract\<close>

lemma same_health_refl: "same_health s s"
  by (simp add: same_health_def)

lemma sameSet_set_eq: "sameSet a b \<Longrightarrow> distinct a \<Longrightarrow> distinct b \<Longrightarrow> set a = set b"
  using subset_same_length_set_eq[of b a] by (auto simp: sameSet_def)

lemma statelessPick_reserve:
  assumes "cs \<noteq> []"
  obtains b where "b \<in> set cs" "statelessPick cs s = reserve b s"
    "\<And>y. y \<in> set cs \<Longrightarrow> GetActiveConns s b \<le> GetActiveConns s y"
proof -
  obtain c rest where cs: "cs = c # rest" using assms by (cases cs) auto
  obtain r where r: "fst (lc_scan (GetActiveConns s) (Some c, GetActiveConns s c) rest) = Some r"
    using lc_scan_exists by blast
  show ?thesis
    using that[of r] lc_scan_Some[OF r] r by (simp add: statelessPick_def cs reserve_opt_def)
qed

lemma hashPick_cases:
  assumes "cs \<noteq> []"
  obtains (panic) e where "hashPick cs key s = (Inl e, s)" "\<not> length cs < 2 ^ 32"
  | (ok) b where "b \<in> set cs" "hashPick cs key s = reserve b s"
proof (cases "index_mod (fnv1a key) cs")
  case (Inl e)
  then have "\<not> length cs < 2 ^ 32" using index_mod_live[OF assms, of "fnv1a key"] by auto
  then show ?thesis using that(1) Inl assms by (simp add: hashPick_def reserve_res_def)
next
  case (Inr b)
  then show ?thesis using that(2) index_mod_mem[OF Inr] assms by (simp add: hashPick_def reserve_res_def)
qed

context passive_balancer
begin

text \<open>What a selection among \<open>cs\<close> owes its caller.\<close>

lemma reserve_pick:
  assumes "hinv s" and "b \<in> C" and "IsHealthy s b"
  shows "picks_ok hinv s C (reserve b s) \<and> same_health s (snd (reserve b s))"
  using assms by (auto intro!: reserve_ok inv_frame[OF _ IncrConn_wf config_frame_IncrConn] inv_wf reserve_health)

lemma pick_from_GetHealthy:
  assumes "picks_ok hinv (snd (m_GetHealthy B s)) C rs \<and> same_health (snd (m_GetHealthy B s)) (snd rs)"
  shows "picks_ok hinv s C rs \<and> same_health s (snd rs)"
  using assms picks_ok_from[of hinv "snd (m_GetHealthy B s)" C rs s]
  by (simp add: GetHealthy_conns GetHealthy_members same_health_def GetHealthy_health)

lemma pool_pick:
  assumes "picks_ok hinv (snd (m_GetHealthy B s)) C rs \<and> same_health (snd (m_GetHealthy B s)) (snd rs)"
    and "C \<subseteq> set (m_All B s)"
  shows "picks_ok hinv s (set (m_All B s)) rs \<and> same_health s (snd rs)"
  using pick_from_GetHealthy[OF assms(1)] picks_ok_mono[OF _ assms(2)] by blast

lemma same_candidates:
  assumes "hinv s" and "eligible B s cs" and "sameSet (fst (m_GetHealthy B s)) cs"
  shows "set cs = set (filter (IsHealthy s) (m_All B s))"
  using assms sameSet_set_eq[OF assms(3)] GetHealthy_fst[OF assms(1)] All_distinct[OF assms(1)]
  by (auto simp: eligible_def)

lemma whole_pick:
  assumes "hinv s" and "eligible B s cs" and "sameSet (fst (m_GetHealthy B s)) cs"
    and "picks_ok hinv t (set (m_All B t)) rs" and "same_health t (snd rs)"
    and "t = snd (m_GetHealthy B s)"
  shows "picks_ok hinv t (set cs) rs \<and> same_health t (snd rs)"
  using picks_ok_healthy[OF assms(4,5)] same_candidates[OF assms(1-3)] assms(5,6)
  by (simp add: GetHealthy_health GetHealthy_All)

lemma selectFrom_ok:
  assumes inv: "hinv s" and el: "eligible B s cs"
  shows "picks_ok hinv s (set cs) (selectFrom B cs s) \<and> same_health s (snd (selectFrom B cs s))"
proof (cases "cs = []")
  case True
  then show ?thesis using inv by (simp add: selectFrom_def picks_ok_Inl same_health_def)
next
  case False
  let ?t = "snd (m_GetHealthy B s)"
  have it: "hinv ?t" and et: "eligible B ?t cs"
    using inv el by (simp_all add: GetHealthy_wf eligible_GetHealthy)
  have "picks_ok hinv ?t (set cs) (selectFrom B cs s) \<and> same_health ?t (snd (selectFrom B cs s))"
  proof (cases "sameSet (fst (m_GetHealthy B s)) cs")
    case True
    then show ?thesis using False whole_pick[OF inv el True Next_ok[OF it] Next_health[OF it] refl]
      by (simp add: selectFrom_def case_prod_beta)
  next
    case ns: False
    show ?thesis
    proof (cases "m_pickFrom B")
      case None
      obtain b where "b \<in> set cs" "statelessPick cs ?t = reserve b ?t"
        by (rule statelessPick_reserve[OF False])
      then show ?thesis using False ns None et reserve_pick[OF it, of b "set cs"]
        by (simp add: selectFrom_def case_prod_beta eligible_def)
    next
      case (Some p)
      then show ?thesis using False ns pickFrom_ok[OF Some it et] pickFrom_health[OF Some it et]
        by (simp add: selectFrom_def case_prod_beta)
    qed
  qed
  then show ?thesis by (rule pick_from_GetHealthy)
qed

lemma keyed_next_ok:
  assumes "hinv s"
  shows "picks_ok hinv s (set (m_All B s)) (keyed_next B key s)"
    and "same_health s (snd (keyed_next B key s))"
  using assms Next_ok Next_health NextForKey_ok NextForKey_health
  by (auto simp: keyed_next_def split: option.split)

lemma keyedSelectFrom_ok:
  assumes inv: "hinv s" and el: "eligible B s cs"
  shows "picks_ok hinv s (set cs) (keyedSelectFrom B cs key s) \<and>
         same_health s (snd (keyedSelectFrom B cs key s))"
proof (cases "cs = []")
  case True
  then show ?thesis using inv by (simp add: keyedSelectFrom_def picks_ok_Inl same_health_def)
next
  case False
  let ?t = "snd (m_GetHealthy B s)"
  have it: "hinv ?t" and et: "eligible B ?t cs"
    using inv el by (simp_all add: GetHealthy_wf eligible_GetHealthy)
  have hp: "b \<in> set cs \<Longrightarrow> picks_ok hinv ?t (set cs) (reserve b ?t) \<and> same_health ?t (snd (reserve b ?t))" for b
    using reserve_pick[OF it, of b "set cs"] et by (simp add: eligible_def)
  have "picks_ok hinv ?t (set cs) (keyedSelectFrom B cs key s) \<and>
        same_health ?t (snd (keyedSelectFrom B cs key s))"
  proof (cases "sameSet (fst (m_GetHealthy B s)) cs")
    case True
    then have "keyedSelectFrom B cs key s = keyed_next B key ?t"
      using False by (auto simp: keyedSelectFrom_def case_prod_beta keyed_next_def split: option.split)
    then show ?thesis using whole_pick[OF inv el True keyed_next_ok[OF it] refl] by simp
  next
    case ns: False
    show ?thesis
    proof (cases "m_pickFromKey B")
      case (Some q)
      then show ?thesis using False ns pickFromKey_ok[OF Some it et] pickFromKey_health[OF Some it et]
        by (simp add: keyedSelectFrom_def case_prod_beta)
    next
      case None
      have "picks_ok hinv ?t (set cs) (hashPick cs key ?t) \<and> same_health ?t (snd (hashPick cs key ?t))"
        by (rule hashPick_cases[OF False, of key ?t]) (simp_all add: hp picks_ok_Inl it same_health_refl)
      moreover have "picks_ok hinv ?t (set cs) (statelessPick cs ?t) \<and>
          same_health ?t (snd (statelessPick cs ?t))"
        by (rule statelessPick_reserve[OF False, of ?t]) (simp add: hp)
      ultimately show ?thesis using False ns None
        by (simp add: keyedSelectFrom_def case_prod_beta split: option.split)
    qed
  qed
  then show ?thesis by (rule pick_from_GetHealthy)
qed

end

context live_balancer
begin

lemma some_healthy_candidates:
  "eligible B s cs \<Longrightarrow> cs \<noteq> [] \<Longrightarrow> length (m_All B s) < 2 ^ 32 \<Longrightarrow> some_healthy B s"
  by (cases cs) (auto simp: eligible_def some_healthy_def)

lemma selectFrom_live:
  assumes inv: "hinv s" and el: "eligible B s cs" and ne: "cs \<noteq> []" and len: "length (m_All B s) < 2 ^ 32"
  shows "succeeds (selectFrom B cs s)"
proof -
  let ?t = "snd (m_GetHealthy B s)"
  have it: "hinv ?t" and et: "eligible B ?t cs"
    using inv el by (simp_all add: GetHealthy_wf eligible_GetHealthy)
  have sh: "some_healthy B ?t" using some_healthy_candidates[OF et ne] len by (simp add: GetHealthy_All)
  have "succeeds (statelessPick cs ?t)" by (rule statelessPick_reserve[OF ne, of ?t]) simp
  then show ?thesis using ne Next_live[OF it sh] pickFrom_live[OF _ it sh et ne]
    by (auto simp: selectFrom_def case_prod_beta split: option.split)
qed

end

context live_keyed
begin

lemma keyedSelectFrom_live:
  assumes inv: "hinv s" and el: "eligible B s cs" and ne: "cs \<noteq> []" and len: "length (m_All B s) < 2 ^ 32"
  shows "succeeds (keyedSelectFrom B cs key s)"
proof -
  let ?t = "snd (m_GetHealthy B s)"
  have it: "hinv ?t" and et: "eligible B ?t cs"
    using inv el by (simp_all add: GetHealthy_wf eligible_GetHealthy)
  have sh: "some_healthy B ?t"
    using et ne len by (cases cs) (auto simp: eligible_def some_healthy_def GetHealthy_All)
  have "length cs = card (set cs)" using el by (simp add: eligible_def distinct_card)
  also have "\<dots> \<le> card (set (m_All B s))" using el by (intro card_mono) (auto simp: eligible_def)
  also have "\<dots> \<le> length (m_All B s)" by (rule card_length)
  finally have lcs: "length cs < 2 ^ 32" using len by simp
  have "succeeds (statelessPick cs ?t)" by (rule statelessPick_reserve[OF ne, of ?t]) simp
  moreover have "succeeds (hashPick cs key ?t)"
    by (rule hashPick_cases[OF ne, of key ?t]) (use lcs in simp_all)
  ultimately show ?thesis using ne keyed_live[OF it sh, of key] pickFromKey_live[OF _ it sh et ne]
    by (auto simp: keyedSelectFrom_def case_prod_beta keyed_next_def split: option.splits)
qed

end

section \<open>Narrowing wrappers\<close>

locale narrowing =
  fixes elig :: "lb_heap \<Rightarrow> bid list \<Rightarrow> bid list"
  assumes elig_sub: "set (elig s cs) \<subseteq> set cs"
    and elig_distinct: "distinct cs \<Longrightarrow> distinct (elig s cs)"
    and elig_nonempty: "cs \<noteq> [] \<Longrightarrow> elig s cs \<noteq> []"
begin

lemma eligible_elig: "eligible B s cs \<Longrightarrow> eligible B s (elig t cs)"
  using elig_sub[of t cs] by (auto simp: eligible_def elig_distinct)

end

lemma foldl_less_Min:
  "foldl (\<lambda>m b. if f b < m then f b else m) m0 pool = Min (insert (m0 :: int) (f ` set pool))"
proof -
  have "(\<lambda>m b. if f b < m then f b else m) = (\<lambda>m b. min m (f b))" by (auto simp: min_def fun_eq_iff)
  moreover have "foldl (\<lambda>m b. min m (f b)) m0 pool = Min (insert m0 (f ` set pool))"
    by (induction pool arbitrary: m0) (simp, case_tac "pool = []", simp_all add: min.assoc)
  ultimately show ?thesis by simp
qed

lemma PT_eligibleFrom_eq:
  "PT_eligibleFrom s pool =
     filter (\<lambda>b. \<forall>y \<in> set pool. be_Tier (h_be s b) \<le> be_Tier (h_be s y)) pool"
proof (cases pool)
  case (Cons x xs)
  let ?f = "\<lambda>b. be_Tier (h_be s b)"
  have m: "foldl (\<lambda>m b. if ?f b < m then ?f b else m) (?f x) pool = Min (?f ` set pool)"
    unfolding foldl_less_Min by (simp add: Cons insert_absorb)
  have "?f b = Min (?f ` set pool) \<longleftrightarrow> (\<forall>y \<in> set pool. ?f b \<le> ?f y)" if "b \<in> set pool" for b
  proof
    show "?f b = Min (?f ` set pool)" if "\<forall>y \<in> set pool. ?f b \<le> ?f y"
      using that \<open>b \<in> set pool\<close> by (intro Min_eqI[symmetric]) auto
  qed simp
  then have "filter (\<lambda>b. ?f b = Min (?f ` set pool)) pool = filter (\<lambda>b. \<forall>y \<in> set pool. ?f b \<le> ?f y) pool"
    by (rule filter_cong[OF refl])
  moreover have "PT_eligibleFrom s pool = filter (\<lambda>b. ?f b = Min (?f ` set pool)) pool"
    by (simp only: PT_eligibleFrom_def Cons list.case Let_def m[unfolded Cons])
  ultimately show ?thesis by simp
qed (simp add: PT_eligibleFrom_def)

interpretation tiers: narrowing PT_eligibleFrom
proof
  fix s :: lb_heap and cs :: "bid list" assume "cs \<noteq> []"
  then have "Min ((\<lambda>b. be_Tier (h_be s b)) ` set cs) \<in> (\<lambda>b. be_Tier (h_be s b)) ` set cs"
    by (intro Min_in) auto
  then obtain b where "b \<in> set cs" "be_Tier (h_be s b) = Min ((\<lambda>b. be_Tier (h_be s b)) ` set cs)" by force
  then show "PT_eligibleFrom s cs \<noteq> []"
    by (auto simp: PT_eligibleFrom_eq filter_empty_conv intro!: bexI[of _ b])
qed (auto simp: PT_eligibleFrom_eq)

interpretation zones: narrowing "ZA_eligibleFrom zone pref" for zone pref
  by unfold_locales (auto simp: ZA_eligibleFrom_def Let_def)

lemma forwarding_sel [simp]:
  "m_All (forwarding B n k p q) = m_All B" "m_GetHealthy (forwarding B n k p q) = m_GetHealthy B"
  "m_Next (forwarding B n k p q) = n" "m_NextForKey (forwarding B n k p q) = Some k"
  "m_pickFrom (forwarding B n k p q) = Some p" "m_pickFromKey (forwarding B n k p q) = Some q"
  "m_Add (forwarding B n k p q) = m_Add B" "m_Remove (forwarding B n k p q) = m_Remove B"
  "m_ObserveLatency (forwarding B n k p q) = None" "m_ObserveOutcome (forwarding B n k p q) = None"
  by (simp_all add: forwarding_def)

lemma eligible_forwarding [simp]: "eligible (forwarding B n k p q) s cs = eligible B s cs"
  by (simp add: eligible_def)

lemma some_healthy_forwarding [simp]: "some_healthy (forwarding B n k p q) s = some_healthy B s"
  by (simp add: some_healthy_def)

text \<open>
  A wrapper that forwards its bookkeeping meets the contract as soon as its four
  selections do.
\<close>

lemma forwarding_contract:
  assumes B: "balancer_contract B I"
    and n: "\<And>s. I s \<Longrightarrow> picks_ok I s (set (m_All B s)) (n s)"
    and k: "\<And>s key. I s \<Longrightarrow> picks_ok I s (set (m_All B s)) (k key s)"
    and p: "\<And>s cs. I s \<Longrightarrow> eligible B s cs \<Longrightarrow> picks_ok I s (set cs) (p cs s)"
    and q: "\<And>s cs key. I s \<Longrightarrow> eligible B s cs \<Longrightarrow> picks_ok I s (set cs) (q cs key s)"
  shows "balancer_contract ((forwarding B n k p q)\<lparr>m_ObserveOutcome := oo\<rparr>) I"
proof -
  have el: "eligible ((forwarding B n k p q)\<lparr>m_ObserveOutcome := oo\<rparr>) s cs = eligible B s cs" for s cs
    by (simp add: eligible_def)
  show ?thesis
    by (rule balancer_contract.intro)
       (auto simp: el n k p q dest: balancer_contract.inv_wf[OF B] balancer_contract.All_members[OF B]
          balancer_contract.All_distinct[OF B] balancer_contract.GetHealthy_fst[OF B]
          balancer_contract.GetHealthy_wf[OF B] balancer_contract.inv_frame[OF B]
          simp: balancer_contract.GetHealthy_be[OF B] balancer_contract.GetHealthy_members[OF B])
qed

lemma forwarding_passive:
  assumes B: "balancer_contract B I"
    and n: "\<And>s. I s \<Longrightarrow> picks_ok I s (set (m_All B s)) (n s) \<and> same_health s (snd (n s))"
    and k: "\<And>s key. I s \<Longrightarrow> picks_ok I s (set (m_All B s)) (k key s) \<and> same_health s (snd (k key s))"
    and p: "\<And>s cs. I s \<Longrightarrow> eligible B s cs \<Longrightarrow> picks_ok I s (set cs) (p cs s) \<and> same_health s (snd (p cs s))"
    and q: "\<And>s cs key. I s \<Longrightarrow> eligible B s cs \<Longrightarrow>
         picks_ok I s (set cs) (q cs key s) \<and> same_health s (snd (q cs key s))"
  shows "passive_balancer (forwarding B n k p q) I"
proof -
  have "balancer_contract ((forwarding B n k p q)\<lparr>m_ObserveOutcome := None\<rparr>) I"
    by (rule forwarding_contract[OF B]) (simp_all add: n k p q)
  moreover have "(forwarding B n k p q)\<lparr>m_ObserveOutcome := None\<rparr> = forwarding B n k p q"
    by (simp add: forwarding_def)
  ultimately have "balancer_contract (forwarding B n k p q) I" by simp
  then show ?thesis
    by (rule passive_balancer.intro) (rule passive_balancer_axioms.intro; auto simp: n k p q)
qed

lemma forwarding_live:
  assumes "passive_balancer (forwarding B n k p q) I"
    and "\<And>s. I s \<Longrightarrow> some_healthy B s \<Longrightarrow> succeeds (n s)"
    and "\<And>s cs. I s \<Longrightarrow> some_healthy B s \<Longrightarrow> eligible B s cs \<Longrightarrow> cs \<noteq> [] \<Longrightarrow> succeeds (p cs s)"
  shows "live_balancer (forwarding B n k p q) I"
  using assms by (intro live_balancer.intro live_balancer_axioms.intro) auto

lemma forwarding_live_keyed:
  assumes "passive_balancer (forwarding B n k p q) I"
    and "\<And>s key. I s \<Longrightarrow> some_healthy B s \<Longrightarrow> succeeds (k key s)"
    and "\<And>s cs key. I s \<Longrightarrow> some_healthy B s \<Longrightarrow> eligible B s cs \<Longrightarrow> cs \<noteq> [] \<Longrightarrow> succeeds (q cs key s)"
  shows "live_keyed (forwarding B n k p q) I"
  using assms by (intro live_keyed.intro live_keyed_axioms.intro) (auto simp: keyed_next_def)

lemma narrowing_passive:
  assumes e: "narrowing elig" and B: "passive_balancer B I"
  shows "passive_balancer (narrowing_wrapper elig B) I"
  unfolding narrowing_wrapper_def
proof (rule forwarding_passive)
  show bc: "balancer_contract B I" using B by (simp add: passive_balancer_def)
  note GH = balancer_contract.GetHealthy_fst[OF bc] balancer_contract.GetHealthy_wf[OF bc]
  note el = narrowing.eligible_elig[OF e]
  fix s :: lb_heap and key :: string assume I: "I s"
  let ?t = "snd (m_GetHealthy B s)" and ?hs = "filter (IsHealthy s) (m_All B s)"
  have It: "I ?t" and h: "fst (m_GetHealthy B s) = ?hs" using GH I by auto
  have et: "eligible B ?t ?hs"
    using balancer_contract.eligible_healthy[OF bc I] balancer_contract.eligible_GetHealthy[OF bc] by simp
  have sub: "set (elig ?t ?hs) \<subseteq> set (m_All B s)" using narrowing.elig_sub[OF e, of ?t ?hs] by auto
  note pp = passive_balancer.pool_pick[OF B _ sub]
  show "picks_ok I s (set (m_All B s)) (let (pool, s1) = m_GetHealthy B s in selectFrom B (elig s1 pool) s1) \<and>
     same_health s (snd (let (pool, s1) = m_GetHealthy B s in selectFrom B (elig s1 pool) s1))"
    unfolding case_prod_beta Let_def h by (rule pp[OF passive_balancer.selectFrom_ok[OF B It el[OF et]]])
  show "picks_ok I s (set (m_All B s))
      (let (pool, s1) = m_GetHealthy B s in keyedSelectFrom B (elig s1 pool) key s1) \<and>
     same_health s (snd (let (pool, s1) = m_GetHealthy B s in keyedSelectFrom B (elig s1 pool) key s1))"
    unfolding case_prod_beta Let_def h by (rule pp[OF passive_balancer.keyedSelectFrom_ok[OF B It el[OF et]]])
  fix cs assume cs: "eligible B s cs"
  show "picks_ok I s (set cs) (selectFrom B (elig s cs) s) \<and> same_health s (snd (selectFrom B (elig s cs) s))"
    using passive_balancer.selectFrom_ok[OF B I el[OF cs], of s]
      picks_ok_mono[OF _ narrowing.elig_sub[OF e, of s cs]] by blast
  show "picks_ok I s (set cs) (keyedSelectFrom B (elig s cs) key s) \<and>
      same_health s (snd (keyedSelectFrom B (elig s cs) key s))"
    using passive_balancer.keyedSelectFrom_ok[OF B I el[OF cs], of s key]
      picks_ok_mono[OF _ narrowing.elig_sub[OF e, of s cs]] by blast
qed

text \<open>The narrowed candidates of the whole pool are eligible and not empty.\<close>

lemma narrowed_pool:
  assumes e: "narrowing elig" and B: "balancer_contract B I" and I: "I s" and h: "some_healthy B s"
  shows "eligible B (snd (m_GetHealthy B s)) (elig (snd (m_GetHealthy B s)) (fst (m_GetHealthy B s)))"
    and "elig (snd (m_GetHealthy B s)) (fst (m_GetHealthy B s)) \<noteq> []"
    and "I (snd (m_GetHealthy B s))" and "length (m_All B (snd (m_GetHealthy B s))) < 2 ^ 32"
proof -
  have f: "fst (m_GetHealthy B s) = filter (IsHealthy s) (m_All B s)"
    by (rule balancer_contract.GetHealthy_fst[OF B I])
  then show "elig (snd (m_GetHealthy B s)) (fst (m_GetHealthy B s)) \<noteq> []"
    using h by (intro narrowing.elig_nonempty[OF e]) (auto simp: some_healthy_def filter_empty_conv)
  show "eligible B (snd (m_GetHealthy B s)) (elig (snd (m_GetHealthy B s)) (fst (m_GetHealthy B s)))"
    unfolding f using balancer_contract.eligible_healthy[OF B I] balancer_contract.eligible_GetHealthy[OF B]
    by (intro narrowing.eligible_elig[OF e]) simp
  show "I (snd (m_GetHealthy B s))" by (rule balancer_contract.GetHealthy_wf[OF B I])
  show "length (m_All B (snd (m_GetHealthy B s))) < 2 ^ 32"
    using h by (simp add: balancer_contract.GetHealthy_All[OF B] some_healthy_def)
qed

lemma narrowing_live:
  assumes e: "narrowing elig" and B: "live_balancer B I"
  shows "live_balancer (narrowing_wrapper elig B) I"
proof -
  have pb: "passive_balancer B I" using B by (simp add: live_balancer_def)
  then have bc: "balancer_contract B I" by (simp add: passive_balancer_def)
  show ?thesis
    unfolding narrowing_wrapper_def
  proof (rule forwarding_live[OF narrowing_passive[OF e pb, unfolded narrowing_wrapper_def]])
    fix s assume h: "I s" "some_healthy B s"
    show "succeeds (let (pool, s1) = m_GetHealthy B s in selectFrom B (elig s1 pool) s1)"
      unfolding case_prod_beta Let_def
      by (rule live_balancer.selectFrom_live[OF B narrowed_pool(3,1,2,4)[OF e bc h]])
    fix cs assume "eligible B s cs" "cs \<noteq> []"
    then show "succeeds (selectFrom B (elig s cs) s)"
      using h by (intro live_balancer.selectFrom_live[OF B] narrowing.eligible_elig[OF e]
          narrowing.elig_nonempty[OF e]) (auto simp: some_healthy_def)
  qed
qed

lemma narrowing_live_keyed:
  assumes e: "narrowing elig" and B: "live_keyed B I"
  shows "live_keyed (narrowing_wrapper elig B) I"
proof -
  have pb: "passive_balancer B I" using B by (simp add: live_keyed_def)
  then have bc: "balancer_contract B I" by (simp add: passive_balancer_def)
  show ?thesis
    unfolding narrowing_wrapper_def
  proof (rule forwarding_live_keyed[OF narrowing_passive[OF e pb, unfolded narrowing_wrapper_def]])
    fix s key assume h: "I s" "some_healthy B s"
    show "succeeds (let (pool, s1) = m_GetHealthy B s in keyedSelectFrom B (elig s1 pool) key s1)"
      unfolding case_prod_beta Let_def
      by (rule live_keyed.keyedSelectFrom_live[OF B narrowed_pool(3,1,2,4)[OF e bc h]])
    fix cs assume "eligible B s cs" "cs \<noteq> []"
    then show "succeeds (keyedSelectFrom B (elig s cs) key s)"
      using h by (intro live_keyed.keyedSelectFrom_live[OF B] narrowing.eligible_elig[OF e]
          narrowing.elig_nonempty[OF e]) (auto simp: some_healthy_def)
  qed
qed

section \<open>SlowStart\<close>

lemma obs_observeTransitions: "obs (SS_observeTransitions a B now s) = obs s"
  and ch_observeTransitions: "h_ch (SS_observeTransitions a B now s) = h_ch s"
  by (simp_all add: SS_observeTransitions_def)

lemma obs_frame:
  assumes "balancer_contract B I" and "I s" and "obs t = obs s" and "h_ch t = h_ch s"
  shows "I t" "m_All B t = m_All B s" "IsHealthy t = IsHealthy s" "conns t = conns s" "members t = members s"
    and "eligible B t cs = eligible B s cs" and "some_healthy B t = some_healthy B s"
proof -
  show "I t"
    using balancer_contract.inv_frame[OF assms(1,2) _ config_frame_obs[OF assms(3,4)]]
      balancer_contract.inv_wf[OF assms(1,2)] obs_heap_wf[OF assms(3)] by simp
  show m: "members t = members s" by (rule obs_members[OF assms(3)])
  show al: "m_All B t = m_All B s" by (rule balancer_contract.All_members[OF assms(1) m])
  show h: "IsHealthy t = IsHealthy s" "conns t = conns s"
    by (rule obs_IsHealthy[OF assms(3)], rule obs_conns[OF assms(3)])
  show "eligible B t cs = eligible B s cs" "some_healthy B t = some_healthy B s"
    by (simp_all add: eligible_def some_healthy_def al h)
qed

lemma pick_obs:
  assumes "picks_ok I t C rs \<and> same_health t (snd rs)" and "obs t = obs s"
  shows "picks_ok I s C rs \<and> same_health s (snd rs)"
  using assms obs_conns[OF assms(2)] obs_members[OF assms(2)] obs_IsHealthy[OF assms(2)]
  by (auto simp: same_health_def elim: picks_ok_from)

lemma RandFloat64_obs: "RandFloat64 s = (r, t) \<Longrightarrow> obs t = obs s \<and> h_ch t = h_ch s"
  by (auto simp: RandFloat64_def draw_def case_prod_beta)

text \<open>
  The rejection loop: every rejected reservation is released before the next attempt,
  and the last resort is a backend that was selected before.
\<close>

lemma ramp_loop_ok:
  assumes fr: "\<And>s t. I s \<Longrightarrow> heap_wf t \<Longrightarrow> config_frame s t \<Longrightarrow> I t" and hw: "\<And>s. I s \<Longrightarrow> heap_wf s"
    and sel: "\<And>t. I t \<Longrightarrow> same_health s0 t \<Longrightarrow> members t = members s0 \<Longrightarrow>
            picks_ok I t C (sel t) \<and> same_health t (snd (sel t))"
    and C: "\<And>b. b \<in> C \<Longrightarrow> IsHealthy s0 b"
    and st: "I s" "same_health s0 s" "members s = members s0" "\<And>b. prev = Some b \<Longrightarrow> b \<in> C"
  shows "picks_ok I s C (ramp_loop n a now sel prev s) \<and> same_health s (snd (ramp_loop n a now sel prev s))"
  using st
proof (induction n arbitrary: prev s)
  case 0
  have "picks_ok I s C (reserve b s) \<and> same_health s (snd (reserve b s))" if "prev = Some b" for b
  proof
    have "I (IncrConn b s)" by (rule fr[OF 0(1) IncrConn_wf[OF hw[OF 0(1)]] config_frame_IncrConn])
    then show "picks_ok I s C (reserve b s)"
      using 0(2,4) C that by (intro reserve_ok) (auto simp: same_health_def)
  qed (rule reserve_health)
  then show ?case using 0(1) by (auto simp: picks_ok_Inl same_health_refl split: option.split)
next
  case (Suc n)
  obtain r s1 where r: "sel s = (r, s1)" by fastforce
  have p: "picks_ok I s C (r, s1)" "same_health s s1" using sel[OF Suc.prems(1-3)] by (simp_all add: r)
  show ?case
  proof (cases r)
    case (Inl e)
    then show ?thesis using p by (simp add: r)
  next
    case (Inr b)
    obtain x s2 where x: "RandFloat64 s1 = (x, s2)" by fastforce
    have o: "obs s2 = obs s1" and ch: "h_ch s2 = h_ch s1" using RandFloat64_obs[OF x] by auto
    have s1: "I s1" "members s1 = members s" "b \<in> C" "conns s1 = (conns s)(b := conns s b + 1)" "IsHealthy s1 b"
      using p Inr by (auto simp: picks_ok_def)
    have I2: "I s2" using fr[OF s1(1) _ config_frame_obs[OF o ch]] obs_heap_wf[OF o] hw[OF s1(1)] by simp
    have p2: "picks_ok I s C (Inr b, s2)" "same_health s s2"
      using p Inr I2 obs_conns[OF o] obs_members[OF o] obs_IsHealthy[OF o]
      by (auto simp: picks_ok_def same_health_def)
    let ?d = "DecrConn b s2"
    have d: "I ?d" "same_health s ?d" "members ?d = members s" "conns ?d = conns s"
      using fr[OF I2 DecrConn_wf[OF hw[OF I2]] config_frame_DecrConn] p2
      by (auto simp: same_health_def frame_simps picks_ok_def)
    have "picks_ok I ?d C (ramp_loop n a now sel (Some b) ?d) \<and>
        same_health ?d (snd (ramp_loop n a now sel (Some b) ?d))"
      using d Suc.prems(2,3) s1(3) by (intro Suc.IH) (auto intro: same_health_trans)
    then have "picks_ok I s C (ramp_loop n a now sel (Some b) ?d) \<and>
        same_health s (snd (ramp_loop n a now sel (Some b) ?d))"
      using d by (auto elim: picks_ok_from intro: same_health_trans)
    then show ?thesis using p p2 Inr by (simp add: r x Let_def)
  qed
qed

lemma ramp_loop_live:
  "(\<And>t. P t \<Longrightarrow> succeeds (sel t)) \<Longrightarrow> (\<And>t r u. P t \<Longrightarrow> sel t = (r, u) \<Longrightarrow>
     (\<And>b x v. r = Inr b \<Longrightarrow> RandFloat64 u = (x, v) \<Longrightarrow> P (DecrConn b v))) \<Longrightarrow> P s \<Longrightarrow> prev \<noteq> None \<or> 0 < n \<Longrightarrow>
     succeeds (ramp_loop n a now sel prev s)"
proof (induction n arbitrary: prev s)
  case 0
  then show ?case by (auto simp: succeeds_def reserve_def)
next
  case (Suc n)
  obtain b u where r: "sel s = (Inr b, u)" using Suc.prems(1)[OF Suc.prems(3)] by (auto simp: succeeds_def)
  obtain x v where x: "RandFloat64 u = (x, v)" by fastforce
  have "succeeds (ramp_loop n a now sel (Some b) (DecrConn b v))"
    using Suc.prems(1,2) Suc.prems(2)[OF Suc.prems(3) r refl x] by (intro Suc.IH) auto
  then show ?case by (simp add: r x Let_def) (simp add: succeeds_def)
qed

lemma SlowStart_passive:
  assumes B: "passive_balancer B I"
  shows "passive_balancer (SlowStart a B) I"
  unfolding SlowStart_def
proof (rule forwarding_passive)
  show bc: "balancer_contract B I" using B by (simp add: passive_balancer_def)
  note fr = balancer_contract.inv_frame[OF bc] and hw = balancer_contract.inv_wf[OF bc]
  fix s :: lb_heap and key :: string assume I: "I s"
  let ?n = "fst (Now s)" and ?u = "SS_observeTransitions a B (fst (Now s)) (snd (Now s))"
  have o: "obs ?u = obs s" by (simp add: obs_observeTransitions)
  have ch: "h_ch ?u = h_ch s" by (simp add: ch_observeTransitions Now_def)
  note u = obs_frame[OF bc I o ch]
  have rl: "picks_ok I s C (rampedSelect a ?n sel ?u) \<and> same_health s (snd (rampedSelect a ?n sel ?u))"
    if "\<And>t. I t \<Longrightarrow> same_health ?u t \<Longrightarrow> members t = members ?u \<Longrightarrow>
            picks_ok I t C (sel t) \<and> same_health t (snd (sel t))" and "\<And>b. b \<in> C \<Longrightarrow> IsHealthy ?u b"
    for sel C
    unfolding rampedSelect_def
    by (rule pick_obs[OF _ o])
       (rule ramp_loop_ok[where ?s0.0 = ?u, OF fr hw that u(1)], simp_all add: same_health_refl)
  let ?hs = "set (filter (IsHealthy s) (m_All B s))"
  have "picks_ok I s ?hs (rampedSelect a ?n (m_Next B) ?u) \<and>
      same_health s (snd (rampedSelect a ?n (m_Next B) ?u))"
  proof (rule rl)
    fix t assume t: "I t" "same_health ?u t" "members t = members ?u"
    have "m_All B t = m_All B s" using balancer_contract.All_members[OF bc t(3)] u(2) by simp
    moreover have "IsHealthy t = IsHealthy s" using t(2) u(3) by (simp add: same_health_def fun_eq_iff)
    ultimately show "picks_ok I t ?hs (m_Next B t) \<and> same_health t (snd (m_Next B t))"
      using passive_balancer.Next_ok_healthy[OF B t(1)] passive_balancer.Next_health[OF B t(1)] by simp
  qed (auto simp: u(3))
  then show "picks_ok I s (set (m_All B s)) (let (now, s1) = Now s
        in rampedSelect a now (m_Next B) (SS_observeTransitions a B now s1)) \<and>
      same_health s (snd (let (now, s1) = Now s
        in rampedSelect a now (m_Next B) (SS_observeTransitions a B now s1)))"
    unfolding case_prod_beta Let_def by (auto elim: picks_ok_mono)
  let ?v = "snd (m_GetHealthy B ?u)"
  have el: "eligible B ?v (fst (m_GetHealthy B ?u))" "I ?v" "set (fst (m_GetHealthy B ?u)) \<subseteq> set (m_All B ?u)"
    using balancer_contract.eligible_healthy[OF bc u(1)] balancer_contract.eligible_GetHealthy[OF bc]
      balancer_contract.GetHealthy_fst[OF bc u(1)] balancer_contract.GetHealthy_wf[OF bc u(1)] by auto
  have "picks_ok I s (set (m_All B ?u)) (keyedSelectFrom B (fst (m_GetHealthy B ?u)) key ?v) \<and>
      same_health s (snd (keyedSelectFrom B (fst (m_GetHealthy B ?u)) key ?v))"
    by (rule pick_obs[OF passive_balancer.pool_pick[OF B passive_balancer.keyedSelectFrom_ok[OF B el(2,1)] el(3)] o])
  then show "picks_ok I s (set (m_All B s)) (let (now, s1) = Now s; s2 = SS_observeTransitions a B now s1;
        (healthy, s3) = m_GetHealthy B s2 in keyedSelectFrom B healthy key s3) \<and>
      same_health s (snd (let (now, s1) = Now s; s2 = SS_observeTransitions a B now s1;
        (healthy, s3) = m_GetHealthy B s2 in keyedSelectFrom B healthy key s3))"
    unfolding case_prod_beta Let_def u(2) .
  fix cs assume cs: "eligible B s cs"
  have "picks_ok I s (set cs) (rampedSelect a ?n (selectFrom B cs) ?u) \<and>
      same_health s (snd (rampedSelect a ?n (selectFrom B cs) ?u))"
  proof (rule rl)
    fix t assume t: "I t" "same_health ?u t" "members t = members ?u"
    have "eligible B t cs"
      using cs t(2) u(2,3) balancer_contract.All_members[OF bc t(3)] by (simp add: eligible_def same_health_def)
    then show "picks_ok I t (set cs) (selectFrom B cs t) \<and> same_health t (snd (selectFrom B cs t))"
      by (rule passive_balancer.selectFrom_ok[OF B t(1)])
  qed (use cs u(3) in \<open>simp add: eligible_def\<close>)
  then show "picks_ok I s (set cs) (let (now, s1) = Now s
        in rampedSelect a now (selectFrom B cs) (SS_observeTransitions a B now s1)) \<and>
      same_health s (snd (let (now, s1) = Now s
        in rampedSelect a now (selectFrom B cs) (SS_observeTransitions a B now s1)))"
    unfolding case_prod_beta Let_def .
  have "eligible B ?u cs" using cs u(6) by simp
  then show "picks_ok I s (set cs) (let (now, s1) = Now s
        in keyedSelectFrom B cs key (SS_observeTransitions a B now s1)) \<and>
      same_health s (snd (let (now, s1) = Now s
        in keyedSelectFrom B cs key (SS_observeTransitions a B now s1)))"
    unfolding case_prod_beta Let_def
    by (intro pick_obs[OF passive_balancer.keyedSelectFrom_ok[OF B u(1)] o])
qed

lemma SlowStart_live_keyed:
  assumes B: "live_keyed B I"
  shows "live_keyed (SlowStart a B) I"
proof -
  have pb: "passive_balancer B I" using B by (simp add: live_keyed_def)
  then have bc: "balancer_contract B I" by (simp add: passive_balancer_def)
  show ?thesis
    unfolding SlowStart_def
  proof (rule forwarding_live_keyed[OF SlowStart_passive[OF pb, of a, unfolded SlowStart_def]])
    fix s key assume h: "I s" "some_healthy B s"
    let ?u = "SS_observeTransitions a B (fst (Now s)) (snd (Now s))"
    have o: "obs ?u = obs s" by (simp add: obs_observeTransitions)
    have ch: "h_ch ?u = h_ch s" by (simp add: ch_observeTransitions Now_def)
    note u = obs_frame[OF bc h(1) o ch]
    have l: "length (m_All B ?u) < 2 ^ 32" using h(2) u(2) by (simp add: some_healthy_def)
    have ne: "fst (m_GetHealthy B ?u) \<noteq> []"
      using h(2) u(2,3) balancer_contract.GetHealthy_fst[OF bc u(1)]
      by (auto simp: some_healthy_def filter_empty_conv)
    have el: "eligible B (snd (m_GetHealthy B ?u)) (fst (m_GetHealthy B ?u))"
      using balancer_contract.eligible_healthy[OF bc u(1)] balancer_contract.eligible_GetHealthy[OF bc]
        balancer_contract.GetHealthy_fst[OF bc u(1)] by simp
    show "succeeds (let (now, s1) = Now s; s2 = SS_observeTransitions a B now s1;
        (healthy, s3) = m_GetHealthy B s2 in keyedSelectFrom B healthy key s3)"
      unfolding case_prod_beta Let_def
      by (rule live_keyed.keyedSelectFrom_live[OF B balancer_contract.GetHealthy_wf[OF bc u(1)] el ne])
         (simp only: balancer_contract.GetHealthy_All[OF bc] l)
    fix cs assume "eligible B s cs" "cs \<noteq> []"
    then show "succeeds (let (now, s1) = Now s in keyedSelectFrom B cs key (SS_observeTransitions a B now s1))"
      unfolding case_prod_beta Let_def
      by (intro live_keyed.keyedSelectFrom_live[OF B u(1)] l) (simp_all add: u(6))
  qed
qed

lemma SlowStart_live:
  assumes B: "live_balancer B I"
  shows "live_balancer (SlowStart a B) I"
proof -
  have pb: "passive_balancer B I" using B by (simp add: live_balancer_def)
  then have bc: "balancer_contract B I" by (simp add: passive_balancer_def)
  note fr = balancer_contract.inv_frame[OF bc] and hw = balancer_contract.inv_wf[OF bc]
  have ramp: "succeeds (rampedSelect a now sel s)"
    if s: "I s" and sel: "\<And>t. I t \<Longrightarrow> same_health s t \<Longrightarrow> members t = members s \<Longrightarrow> succeeds (sel t) \<and>
         picks_ok I t C (sel t) \<and> same_health t (snd (sel t))" for s now sel C
    unfolding rampedSelect_def
  proof (rule ramp_loop_live[where P = "\<lambda>t. I t \<and> same_health s t \<and> members t = members s"])
    fix t r u b x v
    assume t: "I t \<and> same_health s t \<and> members t = members s" and r: "sel t = (r, u)" "r = Inr b"
      and x: "RandFloat64 u = (x, v)"
    have p: "picks_ok I t C (Inr b, u)" "same_health t u" using sel[of t] t r by auto
    note o = RandFloat64_obs[OF x, THEN conjunct1] and ch = RandFloat64_obs[OF x, THEN conjunct2]
    have Iu: "I u" "members u = members t" using p(1) by (auto simp: picks_ok_def)
    have Iv: "I v" using fr[OF Iu(1) _ config_frame_obs[OF o ch]] obs_heap_wf[OF o] hw[OF Iu(1)] by simp
    then show "I (DecrConn b v) \<and> same_health s (DecrConn b v) \<and> members (DecrConn b v) = members s"
      using fr[OF Iv DecrConn_wf[OF hw[OF Iv]] config_frame_DecrConn] t p(2) Iu(2) obs_members[OF o]
        obs_IsHealthy[OF o] by (auto simp: same_health_def frame_simps)
  qed (use sel s in \<open>auto simp: same_health_refl\<close>)
  show ?thesis
    unfolding SlowStart_def
  proof (rule forwarding_live[OF SlowStart_passive[OF pb, of a, unfolded SlowStart_def]])
    fix s assume h: "I s" "some_healthy B s"
    let ?u = "SS_observeTransitions a B (fst (Now s)) (snd (Now s))"
    have o: "obs ?u = obs s" by (simp add: obs_observeTransitions)
    have ch: "h_ch ?u = h_ch s" by (simp add: ch_observeTransitions Now_def)
    note u = obs_frame[OF bc h(1) o ch]
    have sh: "some_healthy B t" if "same_health ?u t" "members t = members ?u" for t
      using h(2) u(2,3) that(1) balancer_contract.All_members[OF bc that(2)]
      by (simp add: some_healthy_def same_health_def)
    show "succeeds (let (now, s1) = Now s in rampedSelect a now (m_Next B) (SS_observeTransitions a B now s1))"
      unfolding case_prod_beta Let_def
    proof (rule ramp[OF u(1)])
      fix t assume t: "I t" "same_health ?u t" "members t = members ?u"
      show "succeeds (m_Next B t) \<and> picks_ok I t UNIV (m_Next B t) \<and> same_health t (snd (m_Next B t))"
        using live_balancer.Next_live[OF B t(1) sh[OF t(2,3)]] passive_balancer.Next_health[OF pb t(1)]
          picks_ok_mono[OF balancer_contract.Next_ok[OF bc t(1)] subset_UNIV] by blast
    qed
    fix cs assume cs: "eligible B s cs" "cs \<noteq> []"
    show "succeeds (let (now, s1) = Now s
        in rampedSelect a now (selectFrom B cs) (SS_observeTransitions a B now s1))"
      unfolding case_prod_beta Let_def
    proof (rule ramp[OF u(1)])
      fix t assume t: "I t" "same_health ?u t" "members t = members ?u"
      have el: "eligible B t cs"
        using cs t(2) u(2,3) balancer_contract.All_members[OF bc t(3)] by (simp add: eligible_def same_health_def)
      have "length (m_All B t) < 2 ^ 32" using sh[OF t(2,3)] by (simp add: some_healthy_def)
      then show "succeeds (selectFrom B cs t) \<and> picks_ok I t (set cs) (selectFrom B cs t) \<and>
          same_health t (snd (selectFrom B cs t))"
        using live_balancer.selectFrom_live[OF B t(1) el cs(2)] passive_balancer.selectFrom_ok[OF pb t(1) el] by blast
    qed
  qed
qed

section \<open>OutlierDetection\<close>

lemma restore_frame:
  "conns (OD_restore P x s) = conns s \<and> members (OD_restore P x s) = members s \<and>
   config_frame s (OD_restore P x s) \<and> (heap_wf s \<longrightarrow> heap_wf (OD_restore P x s)) \<and>
   (\<forall>b. IsHealthy s b \<longrightarrow> IsHealthy (OD_restore P x s) b)"
  by (simp add: OD_restore_def frame_simps inv_intros config_frame_SetHealthy config_frame_refl)

lemma fold_restore_all:
  "conns (fold (OD_restore P) xs s) = conns s \<and> members (fold (OD_restore P) xs s) = members s \<and>
   config_frame s (fold (OD_restore P) xs s) \<and> (heap_wf s \<longrightarrow> heap_wf (fold (OD_restore P) xs s)) \<and>
   (\<forall>b. IsHealthy s b \<longrightarrow> IsHealthy (fold (OD_restore P) xs s) b)"
proof (induction xs arbitrary: s)
  case (Cons x xs)
  show ?case
    using Cons.IH[of "OD_restore P x s"] restore_frame[of P x s]
    by (auto intro: config_frame_trans)
qed (simp add: config_frame_refl)

lemma fold_restore_frame:
  "conns (fold (OD_restore P) xs s) = conns s"
  "members (fold (OD_restore P) xs s) = members s"
  "config_frame s (fold (OD_restore P) xs s)"
  "heap_wf s \<Longrightarrow> heap_wf (fold (OD_restore P) xs s)"
  "IsHealthy s b \<Longrightarrow> IsHealthy (fold (OD_restore P) xs s) b"
  using fold_restore_all[of P xs s] by blast+

lemma reinstate_frame:
  assumes bc: "balancer_contract B I" and I: "I s"
    and u_def: "u = OD_reinstateExpired a (fst (Now s)) (snd (Now s))"
  shows "I u" "conns u = conns s" "members u = members s" "IsHealthy s b \<Longrightarrow> IsHealthy u b"
proof -
  let ?od = "h_od (snd (Now s)) a"
  obtain t where t: "obs t = obs s" "h_ch t = h_ch s"
    and u: "u = fold (OD_restore (OD_expired ?od (fst (Now s)))) (od_stats ?od) t"
    by (rule that[of "(snd (Now s))\<lparr>h_od := (h_od (snd (Now s)))(a := ?od\<lparr>od_stats :=
          map (\<lambda>(b, st). (b, if OD_expired ?od (fst (Now s)) st
             then st\<lparr>os_ejected := False, os_success := 0, os_failure := 0\<rparr> else st)) (od_stats ?od)\<rparr>)\<rparr>"])
       (simp_all add: u_def OD_reinstateExpired_def Let_def Now_def)
  note tt = obs_frame[OF bc I t]
  note f = fold_restore_frame[where P = "OD_expired ?od (fst (Now s))" and xs = "od_stats ?od" and s = t]
  show "I u" unfolding u
    by (rule balancer_contract.inv_frame[OF bc tt(1) f(4)[OF balancer_contract.inv_wf[OF bc tt(1)]] f(3)])
  show "conns u = conns s" "members u = members s" unfolding u using f(1,2) tt by simp_all
  show "IsHealthy s b \<Longrightarrow> IsHealthy u b" unfolding u using f(5) tt by simp
qed

lemma OutlierDetection_contract:
  assumes B: "passive_balancer B I"
  shows "balancer_contract (OutlierDetection a B) I"
  unfolding OutlierDetection_def
proof (rule forwarding_contract)
  show bc: "balancer_contract B I" using B by (simp add: passive_balancer_def)
  fix s :: lb_heap and key :: string assume I: "I s"
  let ?u = "OD_reinstateExpired a (fst (Now s)) (snd (Now s))"
  note u = reinstate_frame[OF bc I refl, where a = a]
  have al: "m_All B ?u = m_All B s" by (rule balancer_contract.All_members[OF bc u(3)])
  note from_u = picks_ok_from[OF _ u(2,3)]
  show "picks_ok I s (set (m_All B s)) (let (now, s1) = Now s in m_Next B (OD_reinstateExpired a now s1))"
    unfolding case_prod_beta Let_def al[symmetric] by (rule from_u[OF balancer_contract.Next_ok[OF bc u(1)]])
  let ?v = "snd (m_GetHealthy B ?u)"
  have el: "eligible B ?v (fst (m_GetHealthy B ?u))" "I ?v" "set (fst (m_GetHealthy B ?u)) \<subseteq> set (m_All B ?u)"
    using balancer_contract.eligible_healthy[OF bc u(1)] balancer_contract.eligible_GetHealthy[OF bc]
      balancer_contract.GetHealthy_fst[OF bc u(1)] balancer_contract.GetHealthy_wf[OF bc u(1)] by auto
  show "picks_ok I s (set (m_All B s)) (let (now, s1) = Now s;
        (healthy, s2) = m_GetHealthy B (OD_reinstateExpired a now s1) in keyedSelectFrom B healthy key s2)"
    unfolding case_prod_beta Let_def al[symmetric]
    by (rule from_u[OF passive_balancer.pool_pick[OF B passive_balancer.keyedSelectFrom_ok[OF B el(2,1)] el(3),
          THEN conjunct1]])
  fix cs assume "eligible B s cs"
  then have cs: "eligible B ?u cs" using u(4) al by (auto simp: eligible_def)
  show "picks_ok I s (set cs) (let (now, s1) = Now s in selectFrom B cs (OD_reinstateExpired a now s1))"
    unfolding case_prod_beta Let_def
    by (rule from_u[OF passive_balancer.selectFrom_ok[OF B u(1) cs, THEN conjunct1]])
  show "picks_ok I s (set cs) (let (now, s1) = Now s in keyedSelectFrom B cs key (OD_reinstateExpired a now s1))"
    unfolding case_prod_beta Let_def
    by (rule from_u[OF passive_balancer.keyedSelectFrom_ok[OF B u(1) cs, THEN conjunct1]])
qed

lemma OutlierDetection_keyed_live:
  assumes B: "live_keyed B I" and I: "I s" and h: "some_healthy B s"
  shows "succeeds (keyed_next (OutlierDetection a B) key s)"
proof -
  have pb: "passive_balancer B I" using B by (simp add: live_keyed_def)
  then have bc: "balancer_contract B I" by (simp add: passive_balancer_def)
  let ?u = "OD_reinstateExpired a (fst (Now s)) (snd (Now s))"
  note u = reinstate_frame[OF bc I refl, where a = a]
  have al: "m_All B ?u = m_All B s" by (rule balancer_contract.All_members[OF bc u(3)])
  obtain b where b: "b \<in> set (m_All B s)" "IsHealthy s b" using h by (auto simp: some_healthy_def)
  have ne: "fst (m_GetHealthy B ?u) \<noteq> []"
    using b u(4)[OF b(2)] balancer_contract.GetHealthy_fst[OF bc u(1)] al by (auto simp: filter_empty_conv)
  have el: "eligible B (snd (m_GetHealthy B ?u)) (fst (m_GetHealthy B ?u))"
    using balancer_contract.eligible_healthy[OF bc u(1)] balancer_contract.eligible_GetHealthy[OF bc]
      balancer_contract.GetHealthy_fst[OF bc u(1)] by simp
  have "length (m_All B (snd (m_GetHealthy B ?u))) < 2 ^ 32"
    using h al by (simp add: balancer_contract.GetHealthy_All[OF bc] some_healthy_def)
  then have "succeeds (keyedSelectFrom B (fst (m_GetHealthy B ?u)) key (snd (m_GetHealthy B ?u)))"
    by (intro live_keyed.keyedSelectFrom_live[OF B balancer_contract.GetHealthy_wf[OF bc u(1)] el ne])
  then show ?thesis by (simp add: keyed_next_def OutlierDetection_def case_prod_beta Let_def)
qed

end
