(* ===== verification/Stack.thy ===== *)
theory Stack
  imports Wrappers
begin

text \<open>
  \<open>internal/balancer/registry.go\<close> and the composition of \<open>internal/server/server.go\<close>
  (\<open>setupBalancer\<close>): a base algorithm by name, then the configured wrappers around it.
  The lemmas here show that every stack the configuration can ask for meets the
  contract of its interface.
\<close>

section \<open>Definitions\<close>

text \<open>
  The constructors leave zero values, so only \<open>NewConsistentHash\<close> writes to the heap.
  \<open>None\<close> is the error for an unknown name.
\<close>

definition NewByAlgorithm :: "(f64 \<Rightarrow> f64) \<Rightarrow> addr \<Rightarrow> string \<Rightarrow> int \<Rightarrow> f64 \<Rightarrow> lb_heap \<Rightarrow>
    lb_heap balancer option \<times> lb_heap" where
  "NewByAlgorithm mexp a name replicas loadFactor s =
     (if name = ''round_robin'' then (Some (RoundRobin a), s)
      else if name = ''least_conn'' then (Some (LeastConnections a), s)
      else if name = ''weighted'' then (Some (WeightedRoundRobin a), s)
      else if name = ''swrr'' then (Some (SWRR a), s)
      else if name = ''weighted_least_conn'' then (Some (WeightedLeastConn a), s)
      else if name = ''weighted_random'' then (Some (WeightedRandom a), s)
      else if name = ''p2c'' then (Some (P2C a), s)
      else if name = ''consistent_hash'' then
        (Some (ConsistentHash a), s\<lparr>h_ch := (h_ch s)(a := NewConsistentHash replicas loadFactor)\<rparr>)
      else if name = ''ewma'' then (Some (EWMA mexp a), s)
      else if name = ''ip_hash'' then (Some (IPHash a), s)
      else (None, s))"

record lb_config =
  lb_Algorithm :: string
  lb_Replicas :: int
  lb_LoadFactor :: f64
  lb_PreferSameZone :: bool
  lb_Zone :: string
  lb_SlowStart :: duration
  lb_OutlierEnabled :: bool
  lb_ErrorRateThreshold :: f64
  lb_MinRequests :: int
  lb_BaseEjection :: duration
  lb_MaxEjectionPercent :: int

definition backendsUseTiers :: "backend_config list \<Rightarrow> bool" where
  "backendsUseTiers backends \<longleftrightarrow> (\<exists>bc \<in> set backends. cfg_Tier bc \<noteq> 0)"

definition add_backend :: "lb_heap balancer \<Rightarrow> bid \<times> backend_config \<Rightarrow> lb_heap \<Rightarrow> lb_heap" where
  "add_backend B e s = m_Add B (fst e) (s\<lparr>h_be := (h_be s)(fst e := NewBackend (snd e))\<rparr>)"

text \<open>The balancer objects of one stack share the address: each kind keeps its own table.\<close>

definition compose :: "addr \<Rightarrow> lb_config \<Rightarrow> bool \<Rightarrow> lb_heap balancer \<Rightarrow> lb_heap balancer" where
  "compose a lb tiers base =
     (let b1 = (if tiers then PriorityTiers base else base);
          b2 = (if lb_PreferSameZone lb then ZoneAware (lb_Zone lb) (lb_PreferSameZone lb) b1 else b1);
          b3 = (if lb_SlowStart lb > 0 then SlowStart a b2 else b2)
      in if lb_OutlierEnabled lb then OutlierDetection a b3 else b3)"

definition setupBalancer :: "(f64 \<Rightarrow> f64) \<Rightarrow> addr \<Rightarrow> lb_config \<Rightarrow> backend_config list \<Rightarrow> lb_heap \<Rightarrow>
    lb_heap balancer \<times> lb_heap" where
  "setupBalancer mexp a lb backends s =
     (let (r, s1) = NewByAlgorithm mexp a (lb_Algorithm lb) (lb_Replicas lb) (lb_LoadFactor lb) s;
          base = (case r of Some b \<Rightarrow> b | None \<Rightarrow> RoundRobin a);
          s2 = (if lb_SlowStart lb > 0 then s1\<lparr>h_ss := (h_ss s1)(a := NewSlowStart (lb_SlowStart lb))\<rparr> else s1);
          s3 = (if lb_OutlierEnabled lb then s2\<lparr>h_od := (h_od s2)(a := NewOutlierDetection
                  (lb_ErrorRateThreshold lb) (lb_MinRequests lb) (lb_BaseEjection lb)
                  (lb_MaxEjectionPercent lb))\<rparr> else s2);
          B = compose a lb (backendsUseTiers backends) base
      in (B, fold (add_backend B) (enumerate 0 backends) s3))"

section \<open>Every base algorithm meets the contract\<close>

lemma base_plain:
  "(base_methods a nxt)\<lparr>m_NextForKey := None, m_ObserveLatency := None\<rparr> = base_methods a nxt"
  by (simp add: base_methods_def)

lemma base_chooser_live:
  "live_chooser sel \<Longrightarrow> live_balancer (base_methods a (with_healthy a sel)) heap_wf"
  using live_chooser.base_live[where sel = sel and a = a and ol = None] by (simp add: base_plain)

lemma RoundRobin_live: "live_balancer (RoundRobin a) heap_wf"
  unfolding RoundRobin_def by (rule base_chooser_live) (rule rr.live_chooser_axioms)

lemma LeastConnections_live: "live_balancer (LeastConnections a) heap_wf"
  unfolding LeastConnections_def by (rule base_chooser_live) (rule lc.live_chooser_axioms)

lemma SWRR_live: "live_balancer (SWRR a) heap_wf"
  unfolding SWRR_def by (rule base_chooser_live) (rule swrr.live_chooser_axioms)

lemma WeightedLeastConn_live: "live_balancer (WeightedLeastConn a) heap_wf"
  unfolding WeightedLeastConn_def by (rule base_chooser_live) (rule wlc.live_chooser_axioms)

lemma WeightedRandom_live: "live_balancer (WeightedRandom a) heap_wf"
  unfolding WeightedRandom_def by (rule base_chooser_live) (rule wr.live_chooser_axioms)

lemma P2C_live: "live_balancer (P2C a) heap_wf"
  unfolding P2C_def by (rule base_chooser_live) (rule p2c.live_chooser_axioms)

lemma EWMA_live: "live_balancer (EWMA mexp a) heap_wf"
proof -
  have "EWMA mexp a = (base_methods a (with_healthy a (ewma_choose a)))
      \<lparr>m_NextForKey := None, m_ObserveLatency := Some (EWMA_ObserveLatency mexp a)\<rparr>"
    by (simp add: EWMA_def base_methods_def)
  then show ?thesis by (simp add: ewma.base_live)
qed

lemma WeightedRoundRobin_passive: "passive_balancer (WeightedRoundRobin a) heap_wf"
proof -
  have "passive_balancer ((base_methods a (with_healthy a (wrr_choose a)))
      \<lparr>m_NextForKey := None, m_ObserveLatency := None\<rparr>) heap_wf"
    by (intro base_passive base_contract wrr.with_healthy_ok wrr.with_healthy_health) auto
  then show ?thesis by (simp add: base_plain WeightedRoundRobin_def)
qed

lemma IPHash_keyed: "live_keyed (IPHash a) heap_wf"
proof -
  let ?B = "(base_methods a (\<lambda>s. (Inl ErrIPHashNeedsIP, s)))
      \<lparr>m_NextForKey := Some (IPHash_NextForIP a), m_ObserveLatency := None\<rparr>"
  have eq: "IPHash a = ?B" by (simp add: IPHash_def base_methods_def)
  have "passive_balancer ?B heap_wf"
    by (intro base_passive base_contract)
       (auto simp: IPHash_NextForIP_def picks_ok_Inl same_health_refl iphash.with_healthy_ok iphash.with_healthy_health)
  then show ?thesis
    unfolding eq
    by (intro live_keyed.intro live_keyed_axioms.intro)
       (auto simp: keyed_next_def base_methods_def some_healthy_def IPHash_NextForIP_def iphash.with_healthy_live)
qed

lemma live_is_passive: "live_balancer B I \<Longrightarrow> passive_balancer B I"
  by (simp add: live_balancer_def)

lemma keyed_is_passive: "live_keyed B I \<Longrightarrow> passive_balancer B I"
  by (simp add: live_keyed_def)

lemmas base_live_balancers =
  RoundRobin_live LeastConnections_live SWRR_live WeightedLeastConn_live WeightedRandom_live P2C_live EWMA_live

lemma plain_keys:
  "m_NextForKey (RoundRobin a) = None" "m_NextForKey (LeastConnections a) = None" "m_NextForKey (SWRR a) = None"
  "m_NextForKey (WeightedLeastConn a) = None" "m_NextForKey (WeightedRandom a) = None"
  "m_NextForKey (P2C a) = None" "m_NextForKey (EWMA mexp a) = None"
  "m_pickFromKey (RoundRobin a) = None" "m_pickFromKey (LeastConnections a) = None" "m_pickFromKey (SWRR a) = None"
  "m_pickFromKey (WeightedLeastConn a) = None" "m_pickFromKey (WeightedRandom a) = None"
  "m_pickFromKey (P2C a) = None" "m_pickFromKey (EWMA mexp a) = None"
  by (simp_all add: RoundRobin_def LeastConnections_def SWRR_def WeightedLeastConn_def WeightedRandom_def
      P2C_def EWMA_def base_methods_def)

section \<open>Every stack meets the contract\<close>

text \<open>The invariant of a stack: that of its base algorithm.\<close>

definition stack_inv :: "addr \<Rightarrow> lb_config \<Rightarrow> lb_heap \<Rightarrow> bool" where
  "stack_inv a lb = (if lb_Algorithm lb = ''consistent_hash'' then ch_wf a else heap_wf)"

definition base_of :: "(f64 \<Rightarrow> f64) \<Rightarrow> addr \<Rightarrow> lb_config \<Rightarrow> lb_heap \<Rightarrow> lb_heap balancer" where
  "base_of mexp a lb s =
     (case fst (NewByAlgorithm mexp a (lb_Algorithm lb) (lb_Replicas lb) (lb_LoadFactor lb) s) of
        Some b \<Rightarrow> b | None \<Rightarrow> RoundRobin a)"

lemma setupBalancer_fst:
  "fst (setupBalancer mexp a lb backends s) = compose a lb (backendsUseTiers backends) (base_of mexp a lb s)"
  by (simp add: setupBalancer_def base_of_def Let_def case_prod_beta)

lemma base_of_keyed:
  assumes "lb_Algorithm lb \<noteq> ''weighted''"
  shows "live_keyed (base_of mexp a lb s) (stack_inv a lb)"
proof -
  have "live_keyed (RoundRobin a) heap_wf" "live_keyed (LeastConnections a) heap_wf" "live_keyed (SWRR a) heap_wf"
    "live_keyed (WeightedLeastConn a) heap_wf" "live_keyed (WeightedRandom a) heap_wf"
    "live_keyed (P2C a) heap_wf" "live_keyed (EWMA mexp a) heap_wf"
    by (auto intro!: live_keyedI base_live_balancers
        simp: plain_keys)
  then show ?thesis
    using assms IPHash_keyed[of a] ch_keyed.live_keyed_axioms[of a]
    by (simp add: base_of_def NewByAlgorithm_def stack_inv_def)
qed

lemma base_of_passive: "passive_balancer (base_of mexp a lb s) (stack_inv a lb)"
proof (cases "lb_Algorithm lb = ''weighted''")
  case True
  then show ?thesis
    using WeightedRoundRobin_passive[of a] by (simp add: base_of_def NewByAlgorithm_def stack_inv_def)
next
  case False
  then show ?thesis by (rule keyed_is_passive[OF base_of_keyed])
qed

lemma compose_contract:
  assumes "passive_balancer B I" shows "balancer_contract (compose a lb tiers B) I"
proof -
  have pt: "passive_balancer C I \<Longrightarrow> passive_balancer (PriorityTiers C) I" for C
    unfolding PriorityTiers_def by (rule narrowing_passive[OF tiers.narrowing_axioms])
  have za: "passive_balancer C I \<Longrightarrow> passive_balancer (ZoneAware z p C) I" for C z p
    unfolding ZoneAware_def by (rule narrowing_passive[OF zones.narrowing_axioms])
  have bc: "passive_balancer C I \<Longrightarrow> balancer_contract C I" for C by (simp add: passive_balancer_def)
  show ?thesis
    unfolding compose_def Let_def using assms
    by (auto intro: bc pt za SlowStart_passive OutlierDetection_contract)
qed

lemma compose_picks:
  assumes "passive_balancer B I" "I s" and C: "C = compose a lb tiers B"
  shows "picks_ok I s (set (m_All C s)) (m_Next C s) \<and> picks_ok I s (set (m_All C s)) (keyed_next C key s)"
proof
  have bc: "balancer_contract C I" unfolding C by (rule compose_contract[OF assms(1)])
  show n: "picks_ok I s (set (m_All C s)) (m_Next C s)" by (rule balancer_contract.Next_ok[OF bc assms(2)])
  show "picks_ok I s (set (m_All C s)) (keyed_next C key s)"
    using n balancer_contract.NextForKey_ok[OF bc _ assms(2)] by (auto simp: keyed_next_def split: option.split)
qed

lemma compose_keyed_live:
  assumes B: "live_keyed B I" and "I s" and "some_healthy B s"
  shows "succeeds (keyed_next (compose a lb tiers B) key s)"
proof -
  have pt: "live_keyed C I \<Longrightarrow> live_keyed (PriorityTiers C) I" for C
    unfolding PriorityTiers_def by (rule narrowing_live_keyed[OF tiers.narrowing_axioms])
  have za: "live_keyed C I \<Longrightarrow> live_keyed (ZoneAware z p C) I" for C z p
    unfolding ZoneAware_def by (rule narrowing_live_keyed[OF zones.narrowing_axioms])
  have al: "some_healthy (PriorityTiers C) s = some_healthy C s"
    "some_healthy (ZoneAware z p C) s = some_healthy C s"
    "some_healthy (SlowStart a C) s = some_healthy C s" for C z p
    by (simp_all add: PriorityTiers_def ZoneAware_def narrowing_wrapper_def SlowStart_def)
  have ne: "live_keyed C I \<Longrightarrow> some_healthy C s \<Longrightarrow> succeeds (keyed_next C key s)" for C
    using live_keyed.keyed_live[of C I s key] assms(2) by blast
  let ?b1 = "if tiers then PriorityTiers B else B"
  let ?b2 = "if lb_PreferSameZone lb then ZoneAware (lb_Zone lb) (lb_PreferSameZone lb) ?b1 else ?b1"
  let ?b3 = "if lb_SlowStart lb > 0 then SlowStart a ?b2 else ?b2"
  have b3: "live_keyed ?b3 I" "some_healthy ?b3 s" using assms by (simp_all add: pt za SlowStart_live_keyed al)
  show ?thesis
    unfolding compose_def Let_def
    using OutlierDetection_keyed_live[OF b3(1) assms(2) b3(2), of a key] ne[OF b3] by simp
qed

lemma compose_All: "m_All (compose a lb tiers B) = m_All B"
  by (simp add: compose_def Let_def PriorityTiers_def ZoneAware_def narrowing_wrapper_def SlowStart_def
      OutlierDetection_def)

text \<open>
  C1. Reserve on select, for every stack: with every algorithm and every combination of wrappers, on a
  well-formed heap, a selection with or without a routing key either returns a
  healthy member and adds one to exactly its connection count, or returns an error and
  changes no count; the invariant of the stack holds again afterwards.  Consistent hashing
  needs its ring in step with the membership as well (\<open>ch_wf\<close>: the ring names members only, and no two
  members share a URL); what it does otherwise is the stale ring of \<open>ch_stale_ring_returns_removed\<close>.
\<close>

theorem stack_selects_healthy_member:
  assumes "B = fst (setupBalancer mexp a lb backends s0)"
    and "heap_wf s" and "lb_Algorithm lb = ''consistent_hash'' \<longrightarrow> ch_wf a s"
  shows "picks_ok (stack_inv a lb) s (set (m_All B s)) (m_Next B s) \<and>
         picks_ok (stack_inv a lb) s (set (m_All B s)) (keyed_next B key s)"
  unfolding assms(1) setupBalancer_fst using assms(2,3) by (intro compose_picks[OF base_of_passive _ refl]) (simp add: stack_inv_def)

text \<open>
  C16. Progress: with some healthy member and fewer than \<open>2 ^ 32\<close> members, a selection by key of a stack
  succeeds, for every algorithm but classic weighted round robin (whose 32-bit sum of weights can be
  zero), on a well-formed heap, and for consistent hashing with the ring in step with the membership.
\<close>

theorem stack_keyed_progress:
  assumes "B = fst (setupBalancer mexp a lb backends s0)"
    and "heap_wf s" and "lb_Algorithm lb = ''consistent_hash'' \<longrightarrow> ch_wf a s"
    and "lb_Algorithm lb \<noteq> ''weighted''" and "length (m_All B s) < 2 ^ 32"
    and "\<exists>b \<in> set (m_All B s). IsHealthy s b"
  shows "\<exists>b s'. keyed_next B key s = (Inr b, s')"
proof -
  have si: "stack_inv a lb s" using assms(2,3) by (simp add: stack_inv_def)
  have "some_healthy (base_of mexp a lb s0) s"
    using assms(5,6) by (simp add: some_healthy_def assms(1) setupBalancer_fst compose_All)
  then show ?thesis
    using compose_keyed_live[OF base_of_keyed[OF assms(4)] si]
    by (simp add: assms(1) setupBalancer_fst succeeds_def)
qed


definition demo_lb :: lb_config where
  "demo_lb = \<lparr>lb_Algorithm = ''least_conn'', lb_Replicas = 0, lb_LoadFactor = 0, lb_PreferSameZone = True,
     lb_Zone = ''west'', lb_SlowStart = 5 * Second, lb_OutlierEnabled = True, lb_ErrorRateThreshold = 1 / 2,
     lb_MinRequests = 10, lb_BaseEjection = 30 * Second, lb_MaxEjectionPercent = 50\<rparr>"

lemma demo_stack_All: "m_All (fst (setupBalancer mexp 0 demo_lb bs s0)) duo = [0, 1]"
  by (simp add: setupBalancer_fst compose_All base_of_def NewByAlgorithm_def demo_lb_def LeastConnections_def
      base_methods_def)

theorem stack_selects_healthy_member_witness:
  "picks_ok heap_wf duo {0, 1} (m_Next (fst (setupBalancer id 0 demo_lb [duo_cfg 0, duo_cfg 1] duo)) duo)"
proof -
  have "stack_inv 0 demo_lb = heap_wf" "lb_Algorithm demo_lb \<noteq> ''consistent_hash''"
    by (simp_all add: stack_inv_def demo_lb_def)
  then show ?thesis
    using stack_selects_healthy_member[of _ id 0 demo_lb "[duo_cfg 0, duo_cfg 1]" duo duo "''k''", OF refl]
    by (simp add: duo_wf demo_stack_All)
qed

theorem stack_keyed_progress_witness:
  "\<exists>b s'. keyed_next (fst (setupBalancer id 0 demo_lb [duo_cfg 0, duo_cfg 1] duo)) ''k'' duo = (Inr b, s')"
proof -
  have "heap_wf duo" "lb_Algorithm demo_lb \<noteq> ''weighted''" "lb_Algorithm demo_lb \<noteq> ''consistent_hash''"
    by (simp_all add: demo_lb_def duo_wf)
  then show ?thesis
    using stack_keyed_progress[of _ id 0 demo_lb "[duo_cfg 0, duo_cfg 1]" duo duo "''k''", OF refl]
    by (auto simp: demo_stack_All)
qed

section \<open>Zones come before tiers\<close>

lemma zone_aware_local:
  assumes C: "passive_balancer C I" and I: "I s" and "zone \<noteq> ''''"
    and "\<exists>b \<in> set (m_All C s). IsHealthy s b \<and> be_Zone (h_be s b) = zone"
    and n: "keyed_next (ZoneAware zone True C) key s = (Inr b, s')"
  shows "be_Zone (h_be s b) = zone"
proof -
  let ?e = "ZA_eligibleFrom zone True"
  have bc: "balancer_contract C I" using C by (simp add: passive_balancer_def)
  let ?t = "snd (m_GetHealthy C s)" and ?hs = "filter (IsHealthy s) (m_All C s)"
  have h: "fst (m_GetHealthy C s) = ?hs" and w: "I ?t"
    using balancer_contract.GetHealthy_fst[OF bc I] balancer_contract.GetHealthy_wf[OF bc I] by auto
  have be: "h_be ?t = h_be s" by (rule balancer_contract.GetHealthy_be[OF bc])
  have "filter (\<lambda>b. be_Zone (h_be s b) = zone) ?hs \<noteq> []" using assms(4) by (auto simp: filter_empty_conv)
  then have e: "?e ?t ?hs = filter (\<lambda>b. be_Zone (h_be s b) = zone) ?hs"
    using assms(3) by (simp add: ZA_eligibleFrom_def Let_def be)
  have "eligible C ?t (?e ?t ?hs)"
    using balancer_contract.eligible_healthy[OF bc I] balancer_contract.eligible_GetHealthy[OF bc]
    by (intro zones.eligible_elig) simp
  then have "picks_ok I ?t (set (?e ?t ?hs)) (keyedSelectFrom C (?e ?t ?hs) key ?t)"
    using passive_balancer.keyedSelectFrom_ok[OF C w] by blast
  moreover have "keyedSelectFrom C (?e ?t ?hs) key ?t = (Inr b, s')"
    using n by (simp add: ZoneAware_def narrowing_wrapper_def[of "ZA_eligibleFrom zone True"]
        keyed_next_def case_prod_beta h)
  ultimately show ?thesis by (simp add: picks_ok_def e)
qed

text \<open>
  C21. The comment in \<open>setupBalancer\<close> says that \<open>PriorityTiers\<close> narrows to the lowest healthy
  tier and \<open>ZoneAware\<close> then prefers the local zone within that tier.  The stack it builds does
  it the other way round: with zone preference on, a zone configured, and neither slow start nor outlier
  detection, as soon as some healthy member is in the local zone, the
  backend selected by key is in the local zone, also when it belongs to a backup tier and
  healthy primaries remain in other zones.
\<close>

theorem zone_beats_tier:
  assumes B: "B = fst (setupBalancer mexp a lb backends s0)"
    and "heap_wf s" and "lb_Algorithm lb = ''consistent_hash'' \<longrightarrow> ch_wf a s"
    and "lb_PreferSameZone lb" "lb_Zone lb \<noteq> ''''" "lb_SlowStart lb \<le> 0" "\<not> lb_OutlierEnabled lb"
    and "\<exists>b \<in> set (m_All B s). IsHealthy s b \<and> be_Zone (h_be s b) = lb_Zone lb"
    and "keyed_next B key s = (Inr b, s')"
  shows "be_Zone (h_be s b) = lb_Zone lb"
proof -
  let ?base = "base_of mexp a lb s0"
  let ?C = "if backendsUseTiers backends then PriorityTiers ?base else ?base"
  have si: "stack_inv a lb s" using assms(2,3) by (simp add: stack_inv_def)
  have C: "passive_balancer ?C (stack_inv a lb)"
    unfolding PriorityTiers_def using narrowing_passive[OF tiers.narrowing_axioms] base_of_passive by auto
  have B': "B = ZoneAware (lb_Zone lb) True ?C"
    using assms(4,6,7) by (simp add: B setupBalancer_fst compose_def Let_def)
  have "m_All B = m_All ?C" by (simp add: B' ZoneAware_def narrowing_wrapper_def)
  then show ?thesis using zone_aware_local[OF C si assms(5), of key b s'] assms(8,9) by (simp add: B')
qed

text \<open>Two members: 0 is a backup in the local zone and 1 a healthy primary elsewhere; the backup is selected.\<close>

definition zone_lb :: lb_config where
  "zone_lb = demo_lb\<lparr>lb_SlowStart := 0, lb_OutlierEnabled := False\<rparr>"

theorem zone_beats_tier_witness:
  "\<exists>s'. keyed_next (fst (setupBalancer id 0 zone_lb [duo_cfg 0, duo_cfg 1] duo)) ''k'' duo = (Inr 0, s') \<and>
     backendsUseTiers [duo_cfg 0, duo_cfg 1] \<and> be_Tier (h_be duo 0) = 1 \<and> be_Tier (h_be duo 1) = 0 \<and> IsHealthy duo 1"
proof -
  let ?B = "fst (setupBalancer id 0 zone_lb [duo_cfg 0, duo_cfg 1] duo)"
  have lb: "lb_PreferSameZone zone_lb" "lb_Zone zone_lb = ''west''" "lb_SlowStart zone_lb \<le> 0"
    "\<not> lb_OutlierEnabled zone_lb" "lb_Algorithm zone_lb = ''least_conn''" by (simp_all add: zone_lb_def demo_lb_def)
  have al: "m_All (base_of id 0 zone_lb duo) duo = [0, 1]" "m_All ?B duo = [0, 1]"
    by (simp_all add: setupBalancer_fst compose_All base_of_def NewByAlgorithm_def lb LeastConnections_def base_methods_def)
  have t: "be_Tier (h_be duo 0) = 1" "be_Tier (h_be duo 1) = 0" "be_Zone (h_be duo 0) = ''west''"
    "be_Zone (h_be duo 1) = ''east''" "backendsUseTiers [duo_cfg 0, duo_cfg 1]"
    by (simp_all add: duo_def BB_Add_def start_heap_def NewBackend_def duo_cfg_def backendsUseTiers_def)
  have si: "stack_inv 0 zone_lb duo" by (simp add: stack_inv_def lb duo_wf)
  have "succeeds (keyed_next ?B ''k'' duo)" unfolding setupBalancer_fst
    by (rule compose_keyed_live[OF base_of_keyed si]) (auto simp: lb some_healthy_def al intro: exI[of _ 0])
  then obtain b s' where b: "keyed_next ?B ''k'' duo = (Inr b, s')" by (auto simp: succeeds_def)
  have "be_Zone (h_be duo b) = ''west''"
    using zone_beats_tier[OF refl duo_wf _ _ _ _ _ _ b] al(2) by (simp add: lb t)
  moreover have "b \<in> {0, 1}"
    using compose_picks[OF base_of_passive[of id 0 zone_lb duo] si refl, where a = 0 and lb = zone_lb and
      tiers = "backendsUseTiers [duo_cfg 0, duo_cfg 1]" and key = "''k''"] b al
    by (simp add: picks_ok_def setupBalancer_fst)
  ultimately have "b = 0" using t by auto
  then show ?thesis using b t by simp
qed

section \<open>The ejection cap\<close>

text \<open>
  The operations on an outlier detector, as a sequence of calls; the fleet is the list of
  members at the time of the call.
\<close>

datatype od_call = ObserveCall bid bool | ReinstateCall

fun od_step :: "addr \<Rightarrow> lb_heap balancer \<Rightarrow> od_call \<Rightarrow> lb_heap \<Rightarrow> lb_heap" where
  "od_step a B (ObserveCall b ok) s = OD_ObserveOutcome a B b ok s"
| "od_step a B ReinstateCall s = (let (now, s1) = Now s in OD_reinstateExpired a now s1)"

definition od_ejected :: "addr \<Rightarrow> lb_heap \<Rightarrow> int" where
  "od_ejected a s = OD_currentlyEjectedLocked (h_od s a)"

lemma ejected_put:
  assumes "distinct (map fst (od_stats od))"
  shows "OD_currentlyEjectedLocked (OD_put od b st) =
    OD_currentlyEjectedLocked od - (if os_ejected (OD_statFor od b) then 1 else 0) + (if os_ejected st then 1 else 0)"
proof -
  have "int (length (filter (os_ejected \<circ> snd) (AList.update b st xs))) =
      int (length (filter (os_ejected \<circ> snd) xs)) -
        (case map_of xs b of Some t \<Rightarrow> if os_ejected t then 1 else 0 | None \<Rightarrow> 0) + (if os_ejected st then 1 else 0)"
    if "distinct (map fst xs)" for xs
    using that by (induction xs) (auto split: option.splits dest: map_of_SomeD)
  from this[OF assms] show ?thesis
    by (auto simp: OD_currentlyEjectedLocked_def OD_put_def OD_statFor_def split: option.splits)
qed

definition od_ok :: "addr \<Rightarrow> lb_heap balancer \<Rightarrow> bid list \<Rightarrow> int \<Rightarrow> lb_heap \<Rightarrow> bool" where
  "od_ok a B bs pct s \<longleftrightarrow> distinct (map fst (od_stats (h_od s a))) \<and> m_All B s = bs \<and>
     od_maxEjectionPercent (h_od s a) = pct \<and> od_ejected a s \<le> OD_maxEject (int (length bs)) pct"

lemma SetHealthy_od: "h_od (SetHealthy b v s) = h_od s"
  by (simp add: SetHealthy_def upd_be_def Let_def)

lemma fold_restore_od: "h_od (fold (OD_restore P) xs s) = h_od s"
  by (induction xs arbitrary: s) (simp_all add: OD_restore_def SetHealthy_od)

lemma od_reinstate:
  assumes m: "\<And>s s'. members s' = members s \<Longrightarrow> m_All B s' = m_All B s" and ok: "od_ok a B bs pct s"
  shows "od_ok a B bs pct (od_step a B ReinstateCall s)"
proof -
  let ?n = "fst (Now s)" and ?od = "h_od s a"
  let ?f = "\<lambda>(b, st). (b, if OD_expired ?od ?n st
      then st\<lparr>os_ejected := False, os_success := 0, os_failure := 0\<rparr> else st)"
  let ?u = "od_step a B ReinstateCall s"
  have od: "h_od ?u a = ?od\<lparr>od_stats := map ?f (od_stats ?od)\<rparr>"
    by (simp add: OD_reinstateExpired_def Let_def fold_restore_od Now_def)
  have "members ?u = members s"
    by (simp add: OD_reinstateExpired_def Let_def fold_restore_frame(2) Now_def obs_members[of "_\<lparr>h_od := _\<rparr>"]
        members_def BB_All_def)
  then have al: "m_All B ?u = m_All B s" by (rule m)
  have "map fst (map ?f xs) = map fst xs" for xs :: "(bid \<times> outlierStat) list" by (induction xs) auto
  then have d: "distinct (map fst (map ?f (od_stats ?od)))" using ok by (simp only: od_ok_def)
  have "length (filter (os_ejected \<circ> snd) (map ?f xs)) \<le> length (filter (os_ejected \<circ> snd) xs)" for xs
    by (induction xs) (auto simp: OD_expired_def)
  from this[of "od_stats ?od"] have "od_ejected a ?u \<le> od_ejected a s"
    unfolding od_ejected_def OD_currentlyEjectedLocked_def od by simp
  then show ?thesis using ok d unfolding od_ok_def al od by (simp del: map_map)
qed

lemma od_observe:
  assumes m: "\<And>s s'. members s' = members s \<Longrightarrow> m_All B s' = m_All B s" and ok: "od_ok a B bs pct s"
  shows "od_ok a B bs pct (OD_ObserveOutcome a B b success s)"
proof (cases "od_enabled (h_od s a)")
  case True
  let ?s1 = "snd (Now s)" and ?od = "h_od s a"
  let ?st0 = "OD_statFor ?od b"
  define st where "st = OD_bump success ?st0"
  define s2 where "s2 = ?s1\<lparr>h_od := (h_od s)(a := OD_put ?od b st)\<rparr>"
  define s3 where "s3 = SetHealthy b False (s2\<lparr>h_od := (h_od s2)(a := OD_put (OD_put ?od b st) b
      (st\<lparr>os_ejected := True, os_ejectedAt := fst (Now s)\<rparr>))\<rparr>)"
  let ?cap = "OD_maxEject (int (length (m_All B s2))) (od_maxEjectionPercent ?od)"
  have od: "h_od ?s1 = h_od s" by (simp add: Now_def)
  have res: "OD_ObserveOutcome a B b success s = s2 \<or>
      OD_ObserveOutcome a B b success s = s3 \<and> \<not> os_ejected st \<and>
        \<not> OD_currentlyEjectedLocked (OD_put ?od b st) \<ge> ?cap"
    using True by (simp add: OD_ObserveOutcome_def Let_def case_prod_beta od st_def[symmetric] s2_def[symmetric]
        s3_def[symmetric])
  have ej: "os_ejected st = os_ejected ?st0" by (simp add: st_def OD_bump_def)
  have d: "distinct (map fst (od_stats ?od))" using ok by (simp add: od_ok_def)
  then have d2: "distinct (map fst (od_stats (OD_put ?od b st)))" by (simp add: OD_put_def distinct_update)
  have e2: "OD_currentlyEjectedLocked (OD_put ?od b st) = OD_currentlyEjectedLocked ?od"
    using ejected_put[OF d, of b st] ej by simp
  have sf: "OD_statFor (OD_put ?od b st) b = st" by (simp add: OD_statFor_def OD_put_def update_conv')
  have e3: "OD_currentlyEjectedLocked (OD_put (OD_put ?od b st) b (st\<lparr>os_ejected := True, os_ejectedAt := t\<rparr>)) =
      OD_currentlyEjectedLocked ?od + 1" if "\<not> os_ejected st" for t
    using ejected_put[OF d2, of b "st\<lparr>os_ejected := True, os_ejectedAt := t\<rparr>"] that by (simp add: sf e2)
  have m2: "members s2 = members s" and m3: "members s3 = members s"
    using obs_members[of s2 s] obs_members[of "s2\<lparr>h_od := x\<rparr>" s for x]
    by (simp_all add: s3_def frame_simps) (simp_all add: s2_def)
  note al = m[OF m2] m[OF m3]
  have "od_ok a B bs pct s2"
    using ok d2 e2 by (simp add: od_ok_def od_ejected_def al) (simp add: s2_def OD_put_def)
  moreover have "od_ok a B bs pct s3" if c: "\<not> os_ejected st" "\<not> OD_currentlyEjectedLocked (OD_put ?od b st) \<ge> ?cap"
  proof -
    have h: "h_od s3 a = OD_put (OD_put ?od b st) b (st\<lparr>os_ejected := True, os_ejectedAt := fst (Now s)\<rparr>)"
      by (simp add: s3_def SetHealthy_od)
    have "distinct (map fst (od_stats (h_od s3 a)))" using d by (simp add: h OD_put_def distinct_update)
    moreover have "od_maxEjectionPercent (h_od s3 a) = od_maxEjectionPercent ?od" by (simp add: h OD_put_def)
    moreover have "m_All B s = bs" "od_maxEjectionPercent ?od = pct" using ok by (simp_all add: od_ok_def)
    ultimately show ?thesis using c e2 e3[OF c(1)] by (simp add: od_ok_def od_ejected_def h al)
  qed
  ultimately show ?thesis using res by auto
qed (use ok in \<open>simp add: OD_ObserveOutcome_def\<close>)

lemma OD_maxEject_eq:
  assumes "0 \<le> n * pct" "n * pct < 2 ^ 63" shows "OD_maxEject n pct = max 1 (n * pct div 100)"
proof -
  have "wrap64 (n * pct) = n * pct" using assms by (intro wrap64_id) (simp_all add: MinInt64_def MaxInt64_def)
  then show ?thesis using assms by (simp add: OD_maxEject_def Let_def signed_divide_int_def sgn_if)
qed

text \<open>
  C20. The ejection cap holds through any sequence of outcome reports and reinstatements, with a fixed
  membership: a detector that starts with no statistics never has more backends ejected than the share
  \<open>maxEjectionPercent\<close> of the members, rounded down, or one if that is less than one.
\<close>

theorem ejection_cap:
  assumes "balancer_contract B I" and "od_stats (h_od s a) = []" and "0 \<le> od_maxEjectionPercent (h_od s a)"
    and "int (length (m_All B s)) * od_maxEjectionPercent (h_od s a) < 2 ^ 63"
  shows "od_ejected a (fold (od_step a B) calls s) \<le>
         max 1 (int (length (m_All B s)) * od_maxEjectionPercent (h_od s a) div 100)"
proof -
  note m = balancer_contract.All_members[OF assms(1)]
  let ?bs = "m_All B s" and ?pct = "od_maxEjectionPercent (h_od s a)"
  have step: "od_ok a B ?bs ?pct t \<Longrightarrow> od_ok a B ?bs ?pct (od_step a B c t)" for c t
    by (cases c) (simp_all add: od_observe[OF m] od_reinstate[OF m] del: od_step.simps(2))
  have "od_ok a B ?bs ?pct s"
    using assms(2) by (simp add: od_ok_def od_ejected_def OD_currentlyEjectedLocked_def OD_maxEject_def Let_def)
  then have "od_ok a B ?bs ?pct (fold (od_step a B) calls t)" if "od_ok a B ?bs ?pct t" for t
    using that by (induction calls arbitrary: t) (simp_all add: step)
  from this[of s] have "od_ok a B ?bs ?pct (fold (od_step a B) calls s)" using \<open>od_ok a B ?bs ?pct s\<close> by blast
  then show ?thesis using OD_maxEject_eq[of "int (length ?bs)" ?pct] assms(3,4) by (simp add: od_ok_def)
qed

text \<open>An enabled detector that ejects the first failing backend and is held back at the second.\<close>

definition od_heap :: lb_heap where
  "od_heap = duo\<lparr>h_od := (h_od duo)(0 := NewOutlierDetection (1 / 2) 1 (30 * Second) 50)\<rparr>"

theorem ejection_cap_witness:
  "od_ejected 0 (fold (od_step 0 (RoundRobin 0)) [ObserveCall 0 False, ObserveCall 1 False] od_heap) \<le> 1 \<and>
   od_ejected 0 (fold (od_step 0 (RoundRobin 0)) [ObserveCall 0 False] od_heap) = 1"
proof -
  have "balancer_contract (RoundRobin 0) heap_wf"
    using live_is_passive[OF RoundRobin_live] by (simp add: passive_balancer_def)
  moreover have "od_stats (h_od od_heap 0) = []" "od_maxEjectionPercent (h_od od_heap 0) = 50"
    by (simp_all add: od_heap_def NewOutlierDetection_def)
  moreover have "m_All (RoundRobin 0) od_heap = [0, 1]"
    by (simp add: od_heap_def RoundRobin_def base_methods_def BB_All_def duo_def BB_Add_def start_heap_def)
  moreover have "od_ejected 0 (fold (od_step 0 (RoundRobin 0)) [ObserveCall 0 False] od_heap) = 1"
    by (simp add: od_heap_def NewOutlierDetection_def OD_ObserveOutcome_def od_ejected_def OD_currentlyEjectedLocked_def
        Let_def Now_def SetHealthy_od OD_put_def OD_bump_def OD_statFor_def OD_maxEject_def f64_div_def f64_of_int_exact)
  ultimately show ?thesis using ejection_cap[of "RoundRobin 0" heap_wf od_heap 0 "[ObserveCall 0 False, ObserveCall 1 False]"] by simp
qed

end
