(* ===== verification/Circuit.thy ===== *)
theory Circuit
  imports LbHeap Float64 GoStrings
begin

text \<open>
  \<open>internal/circuit/breaker.go\<close>: the per-backend circuit breaker, in its consecutive-failure
  and rolling-window modes.  Every reading of the clock is one element of a stream; the
  transitions reported to the hook are appended to a log.
\<close>

section \<open>State\<close>

datatype cstate = StateClosed | StateOpen | StateHalfOpen

fun State_String :: "cstate \<Rightarrow> string" where
  "State_String StateClosed = ''closed''"
| "State_String StateOpen = ''open''"
| "State_String StateHalfOpen = ''half-open''"

datatype cmode = ModeConsecutive | ModeRolling

record cb_config =
  cc_Mode :: cmode
  cc_FailureThreshold :: int
  cc_SuccessThreshold :: int
  cc_Timeout :: duration
  cc_RollingWindow :: duration
  cc_ErrorRateThreshold :: f64
  cc_MinRequests :: int

record bucket =
  bk_start :: time
  bk_successes :: int
  bk_failures :: int

record backendState =
  bs_state :: cstate
  bs_failures :: int
  bs_successes :: int
  bs_halfOpenInFlight :: int
  bs_lastFailure :: time
  bs_closedAt :: time
  bs_buckets :: "bucket list"

record breaker =
  cb_mode :: cmode
  cb_failureThreshold :: int
  cb_successThreshold :: int
  cb_timeout :: duration
  cb_rollingWindow :: duration
  cb_errorRateThreshold :: f64
  cb_minRequests :: int
  cb_now :: "time strm"
  cb_hook :: "(bid \<times> cstate \<times> cstate) list"
  cb_states :: "bid \<rightharpoonup> backendState"

definition rollingBuckets :: nat where
  "rollingBuckets = 10"

definition NewCircuitBreakerWithConfig :: "cb_config \<Rightarrow> time strm \<Rightarrow> breaker" where
  "NewCircuitBreakerWithConfig cfg now =
     \<lparr>cb_mode = cc_Mode cfg,
      cb_failureThreshold = (if cc_FailureThreshold cfg < 1 then 1 else cc_FailureThreshold cfg),
      cb_successThreshold = (if cc_SuccessThreshold cfg < 1 then 1 else cc_SuccessThreshold cfg),
      cb_timeout = cc_Timeout cfg,
      cb_rollingWindow = (if cc_RollingWindow cfg \<le> 0 then 10 * Second else cc_RollingWindow cfg),
      cb_errorRateThreshold = (if cc_ErrorRateThreshold cfg \<le> 0 \<or> cc_ErrorRateThreshold cfg > 1
                               then 1 / 2 else cc_ErrorRateThreshold cfg),
      cb_minRequests = (if cc_MinRequests cfg \<le> 0 then 20 else cc_MinRequests cfg),
      cb_now = now, cb_hook = [], cb_states = (\<lambda>_. None)\<rparr>"

definition NewCircuitBreaker :: "int \<Rightarrow> int \<Rightarrow> duration \<Rightarrow> time strm \<Rightarrow> breaker" where
  "NewCircuitBreaker failureThreshold successThreshold timeout now =
     NewCircuitBreakerWithConfig
       \<lparr>cc_Mode = ModeConsecutive, cc_FailureThreshold = failureThreshold,
        cc_SuccessThreshold = successThreshold, cc_Timeout = timeout, cc_RollingWindow = 0,
        cc_ErrorRateThreshold = 0, cc_MinRequests = 0\<rparr> now"

definition cb_read :: "breaker \<Rightarrow> time \<times> breaker" where
  "cb_read c = (shd' (cb_now c), c\<lparr>cb_now := stl' (cb_now c)\<rparr>)"

definition maxProbes :: "breaker \<Rightarrow> int" where
  "maxProbes c = (if cb_successThreshold c < 1 then 1 else cb_successThreshold c)"

definition fresh_state :: backendState where
  "fresh_state = \<lparr>bs_state = StateClosed, bs_failures = 0, bs_successes = 0, bs_halfOpenInFlight = 0,
     bs_lastFailure = 0, bs_closedAt = 0, bs_buckets = []\<rparr>"

definition stateFor :: "breaker \<Rightarrow> bid \<Rightarrow> backendState" where
  "stateFor c b = (case cb_states c b of Some st \<Rightarrow> st | None \<Rightarrow> fresh_state)"

definition put_state :: "bid \<Rightarrow> backendState \<Rightarrow> breaker \<Rightarrow> breaker" where
  "put_state b st c = c\<lparr>cb_states := (cb_states c)(b \<mapsto> st)\<rparr>"

text \<open>\<open>transition\<close> with the notification it leads to after the lock is released.\<close>

definition notify :: "bid \<Rightarrow> cstate \<Rightarrow> cstate \<Rightarrow> breaker \<Rightarrow> breaker" where
  "notify b src dst c = c\<lparr>cb_hook := cb_hook c @ [(b, src, dst)]\<rparr>"

datatype cb_error = ErrOpen | ErrProbeLimit

section \<open>Operations\<close>

definition Allow :: "bid \<Rightarrow> breaker \<Rightarrow> cb_error option \<times> breaker" where
  "Allow b c =
     (let st = stateFor c b in
      case bs_state st of
        StateOpen \<Rightarrow>
          let (now, c1) = cb_read c in
          if time_Sub now (bs_lastFailure st) \<ge> cb_timeout c
          then (None, notify b StateOpen StateHalfOpen (put_state b
                 (st\<lparr>bs_state := StateHalfOpen, bs_successes := 0, bs_halfOpenInFlight := 1\<rparr>) c1))
          else (Some ErrOpen, put_state b st c1)
      | StateHalfOpen \<Rightarrow>
          if bs_halfOpenInFlight st \<ge> maxProbes c then (Some ErrProbeLimit, put_state b st c)
          else (None, put_state b (st\<lparr>bs_halfOpenInFlight := bs_halfOpenInFlight st + 1\<rparr>) c)
      | StateClosed \<Rightarrow> (None, put_state b st c))"

definition bucketDur :: "breaker \<Rightarrow> duration" where
  "bucketDur c = (let d = cb_rollingWindow c sdiv int rollingBuckets in if d \<le> 0 then Nanosecond else d)"

definition bucketIdx :: "breaker \<Rightarrow> time \<Rightarrow> nat" where
  "bucketIdx c now =
     (let i = (time_UnixNano now sdiv bucketDur c) smod int rollingBuckets
      in nat (if i < 0 then i + int rollingBuckets else i))"

definition stale_bucket :: "breaker \<Rightarrow> time \<Rightarrow> bucket \<Rightarrow> bool" where
  "stale_bucket c now bk \<longleftrightarrow> time_Sub now (bk_start bk) \<ge> cb_rollingWindow c \<or> time_IsZero (bk_start bk)"

definition bump_bucket :: "bool \<Rightarrow> bucket \<Rightarrow> bucket" where
  "bump_bucket success bk =
     (if success then bk\<lparr>bk_successes := bk_successes bk + 1\<rparr> else bk\<lparr>bk_failures := bk_failures bk + 1\<rparr>)"

definition zero_bucket :: bucket where
  "zero_bucket = \<lparr>bk_start = 0, bk_successes = 0, bk_failures = 0\<rparr>"

definition record_at :: "breaker \<Rightarrow> time \<Rightarrow> bool \<Rightarrow> bucket list \<Rightarrow> bucket list" where
  "record_at c now success bks0 =
     (let bks = (if bks0 = [] then replicate rollingBuckets zero_bucket else bks0);
          i = bucketIdx c now;
          bk = bks ! i;
          bk1 = (if stale_bucket c now bk then zero_bucket\<lparr>bk_start := now\<rparr> else bk)
      in bks[i := bump_bucket success bk1])"

definition recordWindow :: "backendState \<Rightarrow> bool \<Rightarrow> breaker \<Rightarrow> backendState \<times> breaker" where
  "recordWindow st success c =
     (let (now, c1) = cb_read c in (st\<lparr>bs_buckets := record_at c now success (bs_buckets st)\<rparr>, c1))"

definition windowTotals :: "breaker \<Rightarrow> time \<Rightarrow> bucket list \<Rightarrow> int \<times> int" where
  "windowTotals c now bks =
     foldl (\<lambda>(total, failures) bk.
        if time_IsZero (bk_start bk) \<or> time_Sub now (bk_start bk) \<ge> cb_rollingWindow c then (total, failures)
        else (total + (bk_successes bk + bk_failures bk), failures + bk_failures bk)) (0, 0) bks"

definition rollingShouldTrip :: "backendState \<Rightarrow> breaker \<Rightarrow> bool \<times> breaker" where
  "rollingShouldTrip st c =
     (let (now, c1) = cb_read c; (total, failures) = windowTotals c now (bs_buckets st)
      in (if total < cb_minRequests c then False
          else f64_div (f64_of_int failures) (f64_of_int total) > cb_errorRateThreshold c, c1))"

definition CB_RecordSuccess :: "bid \<Rightarrow> breaker \<times> 'a heap_scheme \<Rightarrow> breaker \<times> 'a heap_scheme" where
  "CB_RecordSuccess b cs =
     (let (c, s) = cs; st = stateFor c b in
      case bs_state st of
        StateHalfOpen \<Rightarrow>
          let st1 = st\<lparr>bs_halfOpenInFlight := (if bs_halfOpenInFlight st > 0 then bs_halfOpenInFlight st - 1
                                              else bs_halfOpenInFlight st),
                       bs_successes := bs_successes st + 1\<rparr>
          in if bs_successes st1 \<ge> cb_successThreshold c
             then let (now, c1) = cb_read c
                  in (notify b StateHalfOpen StateClosed (put_state b
                        (st1\<lparr>bs_state := StateClosed, bs_failures := 0, bs_successes := 0,
                             bs_halfOpenInFlight := 0, bs_closedAt := now, bs_buckets := []\<rparr>) c1),
                      SetHealthy b True s)
             else (put_state b st1 c, s)
      | StateClosed \<Rightarrow>
          let st1 = st\<lparr>bs_failures := 0, bs_successes := 0\<rparr>
          in if cb_mode c = ModeRolling
             then let (st2, c1) = recordWindow st1 True c in (put_state b st2 c1, s)
             else (put_state b st1 c, s)
      | StateOpen \<Rightarrow> (put_state b st c, s))"

definition CB_RecordFailure :: "bid \<Rightarrow> breaker \<times> 'a heap_scheme \<Rightarrow> breaker \<times> 'a heap_scheme" where
  "CB_RecordFailure b cs =
     (let (c, s) = cs; (now, c1) = cb_read c; st0 = stateFor c b;
          st = st0\<lparr>bs_failures := bs_failures st0 + 1, bs_lastFailure := now\<rparr> in
      if bs_state st = StateHalfOpen
      then (notify b StateHalfOpen StateOpen (put_state b
              (st\<lparr>bs_state := StateOpen, bs_successes := 0, bs_halfOpenInFlight := 0\<rparr>) c1),
            SetHealthy b False s)
      else if cb_mode c = ModeRolling
      then let (st1, c2) = recordWindow st False c1 in
           if bs_state st1 = StateClosed
           then let (trip, c3) = rollingShouldTrip st1 c2 in
                if trip then (notify b StateClosed StateOpen (put_state b (st1\<lparr>bs_state := StateOpen\<rparr>) c3),
                              SetHealthy b False s)
                else (put_state b st1 c3, s)
           else (put_state b st1 c2, s)
      else if bs_state st = StateClosed \<and> bs_failures st \<ge> cb_failureThreshold c
      then (notify b StateClosed StateOpen (put_state b (st\<lparr>bs_state := StateOpen\<rparr>) c1), SetHealthy b False s)
      else (put_state b st c1, s))"

definition GetState :: "breaker \<Rightarrow> bid \<Rightarrow> cstate" where
  "GetState c b = (case cb_states c b of Some st \<Rightarrow> bs_state st | None \<Rightarrow> StateClosed)"

definition CB_Reset :: "bid \<Rightarrow> breaker \<Rightarrow> breaker" where
  "CB_Reset b c = c\<lparr>cb_states := (cb_states c)(b := None)\<rparr>"

definition GetClosedAt :: "breaker \<Rightarrow> bid \<Rightarrow> int" where
  "GetClosedAt c b = (case cb_states c b of Some st \<Rightarrow> time_Unix (bs_closedAt st) | None \<Rightarrow> 0)"

definition forceOpen :: "bid \<Rightarrow> breaker \<times> 'a heap_scheme \<Rightarrow> breaker \<times> 'a heap_scheme" where
  "forceOpen b cs =
     (let (c, s) = cs; st = stateFor c b in
      if bs_state st = StateOpen then (put_state b st c, s)
      else let (now, c1) = cb_read c
           in (notify b (bs_state st) StateOpen
                 (put_state b (st\<lparr>bs_state := StateOpen, bs_lastFailure := now\<rparr>) c1),
               SetHealthy b False s))"

section \<open>A trace of calls\<close>

datatype cb_event =
    AllowEv bid
  | SuccessEv bid
  | FailureEv bid
  | ForceOpenEv bid
  | ResetEv bid

fun cb_step :: "cb_event \<Rightarrow> breaker \<times> 'a heap_scheme \<Rightarrow> breaker \<times> 'a heap_scheme" where
  "cb_step (AllowEv b) (c, s) = (snd (Allow b c), s)"
| "cb_step (SuccessEv b) cs = CB_RecordSuccess b cs"
| "cb_step (FailureEv b) cs = CB_RecordFailure b cs"
| "cb_step (ForceOpenEv b) cs = forceOpen b cs"
| "cb_step (ResetEv b) (c, s) = (CB_Reset b c, s)"

lemma cb_read_sel [simp]:
  "fst (cb_read c) = shd' (cb_now c)" "cb_states (snd (cb_read c)) = cb_states c"
  "cb_mode (snd (cb_read c)) = cb_mode c" "cb_failureThreshold (snd (cb_read c)) = cb_failureThreshold c"
  "cb_successThreshold (snd (cb_read c)) = cb_successThreshold c" "cb_timeout (snd (cb_read c)) = cb_timeout c"
  "cb_rollingWindow (snd (cb_read c)) = cb_rollingWindow c"
  "cb_errorRateThreshold (snd (cb_read c)) = cb_errorRateThreshold c" "cb_minRequests (snd (cb_read c)) = cb_minRequests c"
  by (simp_all add: cb_read_def)

lemma put_state_sel [simp]:
  "stateFor (put_state b st c) x = (if x = b then st else stateFor c x)"
  "cb_mode (put_state b st c) = cb_mode c" "cb_failureThreshold (put_state b st c) = cb_failureThreshold c"
  "cb_successThreshold (put_state b st c) = cb_successThreshold c" "cb_timeout (put_state b st c) = cb_timeout c"
  "stateFor (notify b f t c) x = stateFor c x" "cb_mode (notify b f t c) = cb_mode c"
  "cb_failureThreshold (notify b f t c) = cb_failureThreshold c" "cb_timeout (notify b f t c) = cb_timeout c"
  "cb_successThreshold (notify b f t c) = cb_successThreshold c"
  by (auto simp: put_state_def stateFor_def notify_def)

lemma stateFor_read [simp]: "stateFor (snd (cb_read c)) b = stateFor c b"
  by (simp add: stateFor_def)

lemma recordWindow_sel [simp]:
  "bs_state (fst (recordWindow st ok c)) = bs_state st" "bs_failures (fst (recordWindow st ok c)) = bs_failures st"
  "bs_successes (fst (recordWindow st ok c)) = bs_successes st"
  "bs_halfOpenInFlight (fst (recordWindow st ok c)) = bs_halfOpenInFlight st"
  "bs_lastFailure (fst (recordWindow st ok c)) = bs_lastFailure st"
  "snd (recordWindow st ok c) = snd (cb_read c)"
  by (simp_all add: recordWindow_def case_prod_beta Let_def)

lemma rollingShouldTrip_snd [simp]: "snd (rollingShouldTrip st c) = snd (cb_read c)"
  by (simp add: rollingShouldTrip_def case_prod_beta Let_def)

lemmas cb_defs = Allow_def CB_RecordSuccess_def CB_RecordFailure_def forceOpen_def Let_def case_prod_beta

section \<open>Half-open probing\<close>

text \<open>
  The invariant of one entry: while half-open, the trial requests in flight and the
  successes collected are within their limits.
\<close>

definition probe_ok :: "breaker \<Rightarrow> backendState \<Rightarrow> bool" where
  "probe_ok c st \<longleftrightarrow> (bs_state st = StateHalfOpen \<longrightarrow>
     0 \<le> bs_halfOpenInFlight st \<and> bs_halfOpenInFlight st \<le> maxProbes c \<and>
     0 \<le> bs_successes st \<and> bs_successes st < cb_successThreshold c)"

definition cb_inv :: "breaker \<Rightarrow> bool" where
  "cb_inv c \<longleftrightarrow> 1 \<le> cb_successThreshold c \<and> (\<forall>b. probe_ok c (stateFor c b))"

lemma probe_ok_cong: "cb_successThreshold c' = cb_successThreshold c \<Longrightarrow> probe_ok c' st = probe_ok c st"
  by (simp add: probe_ok_def maxProbes_def)

lemma cb_step_threshold: "cb_successThreshold (fst (cb_step e (c, s))) = cb_successThreshold c"
  by (cases e) (auto simp: cb_defs CB_Reset_def split: cstate.split)

lemma cb_step_entry:
  assumes "cb_inv c"
  shows "probe_ok c (stateFor (fst (cb_step e (c, s))) b)"
proof -
  have p: "probe_ok c (stateFor c x)" and S: "1 \<le> cb_successThreshold c" for x
    using assms by (auto simp: cb_inv_def)
  show ?thesis
  proof (cases e)
    case (AllowEv x)
    then show ?thesis using p[of x] p[of b] S
      by (cases "bs_state (stateFor c x)") (auto simp: cb_defs probe_ok_def maxProbes_def)
  next
    case (SuccessEv x)
    then show ?thesis using p[of x] p[of b] S
      by (cases "bs_state (stateFor c x)") (auto simp: cb_defs probe_ok_def maxProbes_def)
  next
    case (FailureEv x)
    then show ?thesis using p[of x] p[of b] S
      by (cases "bs_state (stateFor c x)") (auto simp: cb_defs probe_ok_def maxProbes_def)
  next
    case (ForceOpenEv x)
    then show ?thesis using p[of b] by (auto simp: cb_defs probe_ok_def)
  next
    case (ResetEv x)
    then show ?thesis using p[of b] by (auto simp: CB_Reset_def stateFor_def fresh_state_def probe_ok_def)
  qed
qed

lemma cb_step_inv: "cb_inv c \<Longrightarrow> cb_inv (fst (cb_step e (c, s)))"
  using cb_step_entry[of c e s] cb_step_threshold[of e c s]
  by (auto simp: cb_inv_def probe_ok_cong[of "fst (cb_step e (c, s))" c])

lemma cb_run_inv: "cb_inv c \<Longrightarrow> cb_inv (fst (fold cb_step es (c, s)))"
proof (induction es arbitrary: c s)
  case (Cons e es)
  obtain c' s' where e: "cb_step e (c, s) = (c', s')" by fastforce
  then show ?case using Cons.IH[of c' s'] cb_step_inv[OF Cons.prems, of e s] by simp
qed simp

lemma GetState_eq: "GetState c b = bs_state (stateFor c b)"
  by (simp add: GetState_def stateFor_def fresh_state_def split: option.split)

text \<open>
  What happened to a backend since its circuit became half-open, told by the calls and their answers:
  the requests \<open>Allow\<close> admitted and the successes reported.
\<close>

fun trial_step :: "bid \<Rightarrow> cb_event \<Rightarrow> (breaker \<times> 'a heap_scheme) \<times> int \<times> int \<Rightarrow> (breaker \<times> 'a heap_scheme) \<times> int \<times> int" where
  "trial_step b e (cs, admitted, reported) =
     (let cs' = cb_step e cs; half = (GetState (fst cs) b = StateHalfOpen); half' = (GetState (fst cs') b = StateHalfOpen);
          old = (if half then (admitted, reported) else (0, 0))
      in (cs', if \<not> half' then (0, 0)
               else if e = AllowEv b \<and> fst (Allow b (fst cs)) = None then (fst old + 1, snd old)
               else if e = SuccessEv b then (fst old, snd old + 1) else old))"

definition trials :: "bid \<Rightarrow> cb_event list \<Rightarrow> breaker \<times> 'a heap_scheme \<Rightarrow> (breaker \<times> 'a heap_scheme) \<times> int \<times> int" where
  "trials b es cs = fold (trial_step b) es (cs, 0, 0)"

lemma trial_step_fst: "fst (trial_step b e t) = cb_step e (fst t)"
  by (cases t) (simp add: Let_def)

lemma trials_run: "fst (fold (trial_step b) es t) = fold cb_step es (fst t)"
  by (induction es arbitrary: t) (simp_all add: trial_step_fst)

text \<open>The counter of the entry covers the trials that are still out.\<close>

definition trial_inv :: "bid \<Rightarrow> (breaker \<times> 'a heap_scheme) \<times> int \<times> int \<Rightarrow> bool" where
  "trial_inv b t \<longleftrightarrow> cb_inv (fst (fst t)) \<and> (GetState (fst (fst t)) b = StateHalfOpen \<longrightarrow>
     fst (snd t) - snd (snd t) \<le> bs_halfOpenInFlight (stateFor (fst (fst t)) b))"

lemma trial_step_inv: "trial_inv b t \<Longrightarrow> trial_inv b (trial_step b e t)"
proof -
  assume t: "trial_inv b t"
  obtain c s a r where eq: "t = ((c, s), a, r)" by (metis prod.collapse)
  have inv: "cb_inv c" and le: "bs_state (stateFor c b) = StateHalfOpen \<Longrightarrow> a - r \<le> bs_halfOpenInFlight (stateFor c b)"
    and S: "1 \<le> cb_successThreshold c" and p: "probe_ok c (stateFor c b)"
    using t by (simp_all add: trial_inv_def eq GetState_eq cb_inv_def)
  have "GetState (fst (cb_step e (c, s))) b = StateHalfOpen \<longrightarrow>
      fst (snd (trial_step b e t)) - snd (snd (trial_step b e t)) \<le> bs_halfOpenInFlight (stateFor (fst (cb_step e (c, s))) b)"
  proof (cases e)
    case (AllowEv x)
    then show ?thesis using le S
      by (cases "bs_state (stateFor c x)") (auto simp: eq cb_defs maxProbes_def GetState_eq)
  next
    case (SuccessEv x)
    then show ?thesis using le S p
      by (cases "bs_state (stateFor c x)") (auto simp: eq cb_defs maxProbes_def GetState_eq probe_ok_def)
  next
    case (FailureEv x)
    then show ?thesis using le
      by (cases "bs_state (stateFor c x)") (auto simp: eq cb_defs GetState_eq)
  next
    case (ForceOpenEv x)
    then show ?thesis using le by (cases "bs_state (stateFor c x)") (auto simp: eq cb_defs GetState_eq)
  next
    case (ResetEv x)
    then show ?thesis using le by (auto simp: eq GetState_eq CB_Reset_def stateFor_def fresh_state_def Let_def)
  qed
  then show ?thesis using cb_step_inv[OF inv, of e s] by (simp add: trial_inv_def eq Let_def)
qed

lemma trials_inv: "trial_inv b t \<Longrightarrow> trial_inv b (fold (trial_step b) es t)"
  by (induction es arbitrary: t) (simp_all add: trial_step_inv del: trial_step.simps)


definition probe_cfg :: cb_config where
  "probe_cfg = \<lparr>cc_Mode = ModeConsecutive, cc_FailureThreshold = 1, cc_SuccessThreshold = 2,
     cc_Timeout = 0, cc_RollingWindow = 0, cc_ErrorRateThreshold = 0, cc_MinRequests = 0\<rparr>"


section \<open>The consecutive mode refines a three-state machine\<close>

text \<open>
  The contract of the consecutive mode, without maps, hooks or clocks: consecutive failures
  open the circuit, the timeout admits probes, enough successes close it.
\<close>

datatype circuit =
    AClosed int
  | AOpen time
  | AHalf int int

fun spec_allow :: "breaker \<Rightarrow> time \<Rightarrow> circuit \<Rightarrow> bool \<times> circuit" where
  "spec_allow c now (AClosed k) = (True, AClosed k)"
| "spec_allow c now (AOpen t) = (if time_Sub now t \<ge> cb_timeout c then (True, AHalf 0 1) else (False, AOpen t))"
| "spec_allow c now (AHalf n i) =
     (if i < cb_successThreshold c then (True, AHalf n (i + 1)) else (False, AHalf n i))"

fun spec_success :: "breaker \<Rightarrow> circuit \<Rightarrow> circuit" where
  "spec_success c (AClosed k) = AClosed 0"
| "spec_success c (AOpen t) = AOpen t"
| "spec_success c (AHalf n i) =
     (if n + 1 \<ge> cb_successThreshold c then AClosed 0 else AHalf (n + 1) (max 0 (i - 1)))"

fun spec_failure :: "breaker \<Rightarrow> time \<Rightarrow> circuit \<Rightarrow> circuit" where
  "spec_failure c now (AClosed k) = (if k + 1 \<ge> cb_failureThreshold c then AOpen now else AClosed (k + 1))"
| "spec_failure c now (AOpen t) = AOpen now"
| "spec_failure c now (AHalf n i) = AOpen now"

fun spec_step :: "breaker \<Rightarrow> time \<Rightarrow> cb_event \<Rightarrow> (bid \<Rightarrow> circuit) \<Rightarrow> bid \<Rightarrow> circuit" where
  "spec_step c now (AllowEv b) A = A(b := snd (spec_allow c now (A b)))"
| "spec_step c now (SuccessEv b) A = A(b := spec_success c (A b))"
| "spec_step c now (FailureEv b) A = A(b := spec_failure c now (A b))"
| "spec_step c now (ForceOpenEv b) A = A(b := (case A b of AOpen t \<Rightarrow> AOpen t | _ \<Rightarrow> AOpen now))"
| "spec_step c now (ResetEv b) A = A(b := AClosed 0)"

definition circuit_of :: "backendState \<Rightarrow> circuit" where
  "circuit_of st = (case bs_state st of
     StateClosed \<Rightarrow> AClosed (bs_failures st)
   | StateOpen \<Rightarrow> AOpen (bs_lastFailure st)
   | StateHalfOpen \<Rightarrow> AHalf (bs_successes st) (bs_halfOpenInFlight st))"

definition circuits :: "breaker \<Rightarrow> bid \<Rightarrow> circuit" where
  "circuits c = (\<lambda>b. circuit_of (stateFor c b))"

lemma circuits_sel [simp]:
  "circuits (put_state b st c) = (circuits c)(b := circuit_of st)"
  "circuits (notify b f t c) = circuits c" "circuits (snd (cb_read c)) = circuits c"
  by (auto simp: circuits_def)

lemma circuits_self [simp]: "(circuits c)(b := circuit_of (stateFor c b)) = circuits c"
  by (auto simp: circuits_def)

lemma circuit_of_simps [simp]:
  "circuit_of (st\<lparr>bs_state := StateClosed\<rparr>) = AClosed (bs_failures st)"
  "circuit_of (st\<lparr>bs_state := StateOpen\<rparr>) = AOpen (bs_lastFailure st)"
  "circuit_of (st\<lparr>bs_state := StateHalfOpen\<rparr>) = AHalf (bs_successes st) (bs_halfOpenInFlight st)"
  by (simp_all add: circuit_of_def)

lemma circuits_at: "circuits c b = circuit_of (stateFor c b)"
  by (simp add: circuits_def)

lemma circuits_reset: "circuits (CB_Reset b c) = (circuits c)(b := AClosed 0)"
  by (auto simp: circuits_def CB_Reset_def stateFor_def circuit_of_def fresh_state_def)

text \<open>
  C14. Refinement of the consecutive mode: in every state the calls of a breaker can lead to,
  each call (\<open>Allow\<close>, \<open>RecordSuccess\<close>, \<open>RecordFailure\<close>, \<open>forceOpen\<close>, \<open>Reset\<close>) acts on the
  per-backend circuits exactly as the three-state machine does, on the named backend only,
  and \<open>Allow\<close> admits the request exactly when the machine does.
\<close>

theorem consecutive_refines_machine:
  assumes "cb_mode c = ModeConsecutive" "cb_inv c"
  shows "circuits (fst (cb_step e (c, s))) = spec_step c (shd' (cb_now c)) e (circuits c) \<and>
    (fst (Allow b c) = None \<longleftrightarrow> fst (spec_allow c (shd' (cb_now c)) (circuits c b)))"
proof
  have S: "1 \<le> cb_successThreshold c" and p: "probe_ok c (stateFor c x)" for x
    using assms(2) by (auto simp: cb_inv_def)
  show "circuits (fst (cb_step e (c, s))) = spec_step c (shd' (cb_now c)) e (circuits c)"
  proof (cases e)
    case (AllowEv x)
    then show ?thesis using S
      by (cases "bs_state (stateFor c x)") (auto simp: cb_defs maxProbes_def circuits_at circuit_of_def)
  next
    case (SuccessEv x)
    then show ?thesis using S p[of x] assms(1)
      by (cases "bs_state (stateFor c x)")
        (auto simp: cb_defs maxProbes_def circuits_at circuit_of_def probe_ok_def)
  next
    case (FailureEv x)
    then show ?thesis using assms(1)
      by (cases "bs_state (stateFor c x)") (auto simp: cb_defs circuits_at circuit_of_def)
  next
    case (ForceOpenEv x)
    then show ?thesis
      by (cases "bs_state (stateFor c x)") (auto simp: cb_defs circuits_at circuit_of_def)
  next
    case (ResetEv x)
    then show ?thesis by (simp add: circuits_reset)
  qed
  show "fst (Allow b c) = None \<longleftrightarrow> fst (spec_allow c (shd' (cb_now c)) (circuits c b))"
    using S by (cases "bs_state (stateFor c b)") (auto simp: cb_defs maxProbes_def circuits_def circuit_of_def)
qed

lemma cb_inv_new [simp]: "cb_inv (NewCircuitBreakerWithConfig cfg now)"
  by (simp add: cb_inv_def NewCircuitBreakerWithConfig_def stateFor_def fresh_state_def probe_ok_def)

lemma cb_mode_new [simp]: "cb_mode (NewCircuitBreakerWithConfig cfg now) = cc_Mode cfg"
  by (simp add: NewCircuitBreakerWithConfig_def)

definition probe_breaker :: breaker where
  "probe_breaker = NewCircuitBreakerWithConfig probe_cfg (\<lambda>n. 5)"

lemma probe_breaker_facts:
  "cb_mode probe_breaker = ModeConsecutive" "cb_inv probe_breaker"
  by (simp_all add: probe_breaker_def) (simp add: probe_cfg_def)

lemma spec_probe: "spec_step probe_breaker (shd' (cb_now probe_breaker)) (FailureEv 3) (circuits probe_breaker) 3 = AOpen 5"
  by code_simp

theorem consecutive_refines_machine_witness:
  "circuits (fst (cb_step (FailureEv 3) (probe_breaker, duo))) 3 = AOpen 5"
  using consecutive_refines_machine[OF probe_breaker_facts, of "FailureEv 3" duo] spec_probe by metis

end
