(* ===== verification/CircuitWindow.thy ===== *)
theory CircuitWindow
  imports Circuit
begin

text \<open>
  The rolling window of the circuit breaker: what the buckets count, against the log of
  outcomes recorded.
\<close>

section \<open>Soundness of the bucket counts\<close>

definition rec_log :: "breaker \<Rightarrow> (time \<times> bool) list \<Rightarrow> bucket list" where
  "rec_log c evs = fold (\<lambda>(t, ok). record_at c t ok) evs []"

text \<open>The outcomes of a log that are younger than \<open>w\<close> at \<open>now\<close>.\<close>

definition in_window :: "time \<Rightarrow> duration \<Rightarrow> (time \<times> bool) list \<Rightarrow> (time \<times> bool) list" where
  "in_window now w evs = filter (\<lambda>(t, _). now - t < w) evs"

definition bsum :: "time \<Rightarrow> (bucket \<Rightarrow> int) \<Rightarrow> bucket list \<Rightarrow> int" where
  "bsum edge f bks = (\<Sum>bk\<leftarrow>bks. if edge < bk_start bk then f bk else 0)"

definition since_edge :: "time \<Rightarrow> (bool \<Rightarrow> bool) \<Rightarrow> (time \<times> bool) list \<Rightarrow> int" where
  "since_edge edge P evs = int (length (filter (\<lambda>(t, ok). edge < t \<and> P ok) evs))"

definition window_inv :: "time \<Rightarrow> (time \<times> bool) list \<Rightarrow> bucket list \<Rightarrow> bool" where
  "window_inv now evs bks \<longleftrightarrow> (bks = [] \<or> length bks = rollingBuckets) \<and>
     (\<forall>bk\<in>set bks. 0 \<le> bk_successes bk \<and> 0 \<le> bk_failures bk \<and> bk_start bk \<le> now) \<and>
     (\<forall>edge. bsum edge bk_failures bks \<le> since_edge edge Not evs) \<and>
     (\<forall>edge. bsum edge bk_successes bks \<le> since_edge edge id evs)"

lemma smod_bound: "\<bar>x smod (10 :: int)\<bar> < 10"
  by (simp add: signed_modulo_int_def abs_mult sgn_if)

lemma bucketIdx_bound: "bucketIdx c now < rollingBuckets"
proof -
  let ?x = "time_UnixNano now sdiv bucketDur c smod 10"
  have "(if ?x < 0 then ?x + 10 else ?x) < 10" using smod_bound[of "time_UnixNano now sdiv bucketDur c"]
    by (auto simp: abs_less_iff)
  then show ?thesis by (simp only: bucketIdx_def rollingBuckets_def Let_def of_nat_numeral)
qed

lemma bsum_Cons: "bsum edge f (bk # bks) = (if edge < bk_start bk then f bk else 0) + bsum edge f bks"
  by (simp add: bsum_def)

lemma bsum_update:
  assumes "i < length bks"
  shows "bsum edge f (bks[i := bk]) = bsum edge f bks
     + (if edge < bk_start bk then f bk else 0) - (if edge < bk_start (bks ! i) then f (bks ! i) else 0)"
  using assms
proof (induction bks arbitrary: i)
  case (Cons x bks)
  then show ?case by (cases i) (simp_all add: bsum_Cons del: if_split)
qed simp

lemma since_edge_snoc: "since_edge edge P (evs @ [(t, ok)]) = since_edge edge P evs + (if edge < t \<and> P ok then 1 else 0)"
  by (simp add: since_edge_def)

lemma bsum_zero: "f zero_bucket = 0 \<Longrightarrow> bsum edge f (replicate n zero_bucket) = 0"
  by (induction n) (auto simp: bsum_def)

lemma since_edge_nonneg: "0 \<le> since_edge edge P evs"
  by (simp add: since_edge_def)

lemma window_inv_start: "0 \<le> now \<Longrightarrow> window_inv now evs [] \<Longrightarrow> window_inv now evs (replicate rollingBuckets zero_bucket)"
proof -
  assume "0 \<le> now" "window_inv now evs []"
  moreover have "bk_failures zero_bucket = 0" "bk_successes zero_bucket = 0" "bk_start zero_bucket = 0"
    by (simp_all add: zero_bucket_def)
  ultimately show ?thesis by (auto simp: window_inv_def bsum_zero since_edge_nonneg)
qed

lemma window_step:
  assumes "window_inv now0 evs bks" "now0 \<le> now" "0 \<le> now0"
  shows "window_inv now (evs @ [(now, ok)]) (record_at c now ok bks)"
proof -
  define B where "B = (if bks = [] then replicate rollingBuckets zero_bucket else bks)"
  have B: "window_inv now0 evs B" "length B = rollingBuckets"
    using assms(1,3) window_inv_start by (auto simp: B_def window_inv_def)
  let ?i = "bucketIdx c now"
  have i: "?i < length B" using B(2) bucketIdx_bound by simp
  define bk where "bk = B ! ?i"
  define bk1 where "bk1 = (if stale_bucket c now bk then zero_bucket\<lparr>bk_start := now\<rparr> else bk)"
  have r: "record_at c now ok bks = B[?i := bump_bucket ok bk1]"
    by (simp add: record_at_def Let_def B_def bk_def bk1_def)
  have bkin: "bk \<in> set B" using i by (simp add: bk_def)
  then have bk: "0 \<le> bk_successes bk" "0 \<le> bk_failures bk" "bk_start bk \<le> now"
    using B(1) assms(2) by (fastforce simp: window_inv_def)+
  have start: "bk_start bk1 \<le> now" and nn: "0 \<le> bk_successes bk1" "0 \<le> bk_failures bk1"
    and mono: "edge < bk_start bk1 \<Longrightarrow> bk_failures bk1 \<le> (if edge < bk_start bk then bk_failures bk else 0)"
      "edge < bk_start bk1 \<Longrightarrow> bk_successes bk1 \<le> (if edge < bk_start bk then bk_successes bk else 0)" for edge
    using bk by (auto simp: bk1_def zero_bucket_def)
  have F: "bsum edge bk_failures (B[?i := bump_bucket ok bk1]) \<le> since_edge edge Not (evs @ [(now, ok)])" for edge
  proof -
    have "bsum edge bk_failures B \<le> since_edge edge Not evs" using B(1) by (simp add: window_inv_def)
    then show ?thesis using mono(1)[of edge] bk start
      by (cases "edge < bk_start bk1") (auto simp: bsum_update[OF i] since_edge_snoc bump_bucket_def bk_def[symmetric])
  qed
  have S: "bsum edge bk_successes (B[?i := bump_bucket ok bk1]) \<le> since_edge edge id (evs @ [(now, ok)])" for edge
  proof -
    have "bsum edge bk_successes B \<le> since_edge edge id evs" using B(1) by (simp add: window_inv_def)
    then show ?thesis using mono(2)[of edge] bk start
      by (cases "edge < bk_start bk1") (auto simp: bsum_update[OF i] since_edge_snoc bump_bucket_def bk_def[symmetric])
  qed
  have "\<forall>x\<in>set (B[?i := bump_bucket ok bk1]). 0 \<le> bk_successes x \<and> 0 \<le> bk_failures x \<and> bk_start x \<le> now"
    using B(1) assms(2) nn start set_update_subset_insert[of B ?i "bump_bucket ok bk1"]
    by (fastforce simp: window_inv_def bump_bucket_def)
  then show ?thesis unfolding r window_inv_def using F S B(2) by simp
qed

lemma window_run:
  assumes "window_inv now0 evs0 bks" "0 \<le> now0" "sorted (now0 # map fst evs)" "\<forall>t\<in>set (map fst evs). t \<le> now"  "now0 \<le> now"
  shows "window_inv now (evs0 @ evs) (fold (\<lambda>(t, ok). record_at c t ok) evs bks)"
  using assms
proof (induction evs arbitrary: now0 evs0 bks)
  case Nil
  then show ?case by (fastforce simp: window_inv_def)
next
  case (Cons e evs)
  obtain t ok where e: "e = (t, ok)" by fastforce
  have t: "now0 \<le> t" "t \<le> now" using Cons.prems by (auto simp: e)
  have "window_inv t (evs0 @ [(t, ok)]) (record_at c t ok bks)"
    using window_step[OF Cons.prems(1) t(1) Cons.prems(2)] .
  from Cons.IH[OF this] Cons.prems t show ?case by (simp add: e)
qed

lemma windowTotals_sum:
  assumes "0 < cb_rollingWindow c" "cb_rollingWindow c \<le> MaxInt64" "0 \<le> now - cb_rollingWindow c"
  shows "windowTotals c now bks =
    (let edge = now - cb_rollingWindow c in (bsum edge bk_successes bks + bsum edge bk_failures bks, bsum edge bk_failures bks))"
proof -
  let ?edge = "now - cb_rollingWindow c"
  have skip: "(time_IsZero (bk_start bk) \<or> time_Sub now (bk_start bk) \<ge> cb_rollingWindow c) = (\<not> ?edge < bk_start bk)" for bk
    using time_Sub_ge_iff[of "cb_rollingWindow c" now "bk_start bk"] assms by (auto simp: time_IsZero_def MinInt64_def)
  have "foldl (\<lambda>(total, failures) bk.
        if time_IsZero (bk_start bk) \<or> time_Sub now (bk_start bk) \<ge> cb_rollingWindow c then (total, failures)
        else (total + (bk_successes bk + bk_failures bk), failures + bk_failures bk)) (a, b) bks =
     (a + (bsum ?edge bk_successes bks + bsum ?edge bk_failures bks), b + bsum ?edge bk_failures bks)" for a b
    by (induction bks arbitrary: a b) (auto simp: skip bsum_def)
  then show ?thesis by (simp add: windowTotals_def Let_def)
qed

lemma since_edge_window:
  "since_edge (now - w) Not evs = int (length (filter (Not \<circ> snd) (in_window now w evs)))"
  "since_edge (now - w) id evs + since_edge (now - w) Not evs = int (length (in_window now w evs))"
  by (induction evs) (auto simp: since_edge_def in_window_def)

section \<open>Exactly which outcomes count\<close>

text \<open>
  The outcomes a slot of the ring has seen since it was last reset, by the log alone: an outcome
  starts the slot afresh when the first one there is as old as the window.
\<close>

definition slot_add :: "breaker \<Rightarrow> time \<times> bool \<Rightarrow> (time \<times> bool) list \<Rightarrow> (time \<times> bool) list" where
  "slot_add c e l = (if l = [] \<or> fst e - fst (hd l) \<ge> cb_rollingWindow c then [e] else l @ [e])"

definition slot_log :: "breaker \<Rightarrow> (time \<times> bool) list \<Rightarrow> nat \<Rightarrow> (time \<times> bool) list" where
  "slot_log c evs i = fold (\<lambda>e l. if bucketIdx c (fst e) = i then slot_add c e l else l) evs []"

text \<open>The outcomes that count at a time: those of the slots whose first one is inside the window.\<close>

definition counted :: "breaker \<Rightarrow> time \<Rightarrow> (time \<times> bool) list \<Rightarrow> (time \<times> bool) list" where
  "counted c now evs = concat (map (\<lambda>i. let l = slot_log c evs i in
     if l \<noteq> [] \<and> now - fst (hd l) < cb_rollingWindow c then l else []) [0..<rollingBuckets])"

definition bucket_of :: "(time \<times> bool) list \<Rightarrow> bucket" where
  "bucket_of l = (if l = [] then zero_bucket
     else \<lparr>bk_start = fst (hd l), bk_successes = int (length (filter snd l)), bk_failures = int (length (filter (Not \<circ> snd) l))\<rparr>)"

lemma slot_log_snoc: "slot_log c (evs @ [e]) i = (if bucketIdx c (fst e) = i then slot_add c e (slot_log c evs i) else slot_log c evs i)"
  by (simp add: slot_log_def)

lemma slot_add_set: "set (slot_add c e l) \<subseteq> insert e (set l)"
  by (auto simp: slot_add_def)

lemma slot_log_set: "set (slot_log c evs i) \<subseteq> set evs"
proof (induction evs rule: rev_induct)
  case (snoc e evs)
  then show ?case using slot_add_set[of c e "slot_log c evs i"] by (auto simp: slot_log_snoc)
qed (simp add: slot_log_def)

lemma slot_log_first: "sorted (map fst evs) \<Longrightarrow> x \<in> set (slot_log c evs i) \<Longrightarrow> fst (hd (slot_log c evs i)) \<le> fst x"
proof (induction evs rule: rev_induct)
  case (snoc e evs)
  have "sorted (map fst evs)" and last: "\<forall>y\<in>set evs. fst y \<le> fst e" using snoc.prems(1) by (auto simp: sorted_append)
  show ?case
  proof (cases "bucketIdx c (fst e) = i")
    case True
    have "fst (hd (slot_log c evs i)) \<le> fst e" if "slot_log c evs i \<noteq> []"
      using slot_log_set[of c evs i] hd_in_set[OF that] last by blast
    then show ?thesis using snoc True \<open>sorted (map fst evs)\<close> by (auto simp: slot_log_snoc slot_add_def split: if_splits)
  next
    case False
    then show ?thesis using snoc \<open>sorted (map fst evs)\<close> by (simp add: slot_log_snoc)
  qed
qed (simp add: slot_log_def)

lemma bump_bucket_of: "l \<noteq> [] \<Longrightarrow> bump_bucket ok (bucket_of l) = bucket_of (l @ [(t, ok)])"
  by (simp add: bump_bucket_def bucket_of_def)

lemma bucket_slot_add:
  assumes "0 < cb_rollingWindow c" "cb_rollingWindow c \<le> MaxInt64" "0 < t" "\<forall>x\<in>set l. 0 < fst x"
  shows "bump_bucket ok (if stale_bucket c t (bucket_of l) then zero_bucket\<lparr>bk_start := t\<rparr> else bucket_of l) = bucket_of (slot_add c (t, ok) l)"
proof (cases "l = []")
  case True
  then show ?thesis by (simp add: bucket_of_def slot_add_def stale_bucket_def zero_bucket_def time_IsZero_def bump_bucket_def)
next
  case False
  then have "0 < fst (hd l)" using assms(4) by simp
  then have "stale_bucket c t (bucket_of l) \<longleftrightarrow> t - fst (hd l) \<ge> cb_rollingWindow c"
    using time_Sub_ge_iff[of "cb_rollingWindow c" t "fst (hd l)"] assms(1,2,3) False
    by (simp add: stale_bucket_def bucket_of_def time_IsZero_def MinInt64_def)
  then show ?thesis using False bump_bucket_of[OF False, of ok t]
    by (simp add: slot_add_def) (simp add: bucket_of_def bump_bucket_def zero_bucket_def)
qed

lemma rec_log_snoc: "rec_log c (evs @ [(t, ok)]) = record_at c t ok (rec_log c evs)"
  by (simp add: rec_log_def)

lemma rec_log_slots:
  assumes "0 < cb_rollingWindow c" "cb_rollingWindow c \<le> MaxInt64" "\<forall>x\<in>set evs. 0 < fst x"
  shows "evs \<noteq> [] \<longrightarrow> rec_log c evs = map (\<lambda>i. bucket_of (slot_log c evs i)) [0..<rollingBuckets]"
  using assms(3)
proof (induction evs rule: rev_induct)
  case (snoc e evs)
  obtain t ok where e: "e = (t, ok)" by fastforce
  let ?B = "if rec_log c evs = [] then replicate rollingBuckets zero_bucket else rec_log c evs"
  have "rollingBuckets \<noteq> 0" by (simp add: rollingBuckets_def)
  then have B: "?B = map (\<lambda>i. bucket_of (slot_log c evs i)) [0..<rollingBuckets]"
    using snoc by (cases "evs = []") (auto simp: rec_log_def slot_log_def bucket_of_def map_replicate_const)
  let ?i = "bucketIdx c t"
  have i: "?i < rollingBuckets" by (rule bucketIdx_bound)
  have pos: "\<forall>x\<in>set (slot_log c evs ?i). 0 < fst x" "0 < t" using slot_log_set[of c evs ?i] snoc.prems e by auto
  have n: "map (\<lambda>i. bucket_of (slot_log c evs i)) [0..<rollingBuckets] ! ?i = bucket_of (slot_log c evs ?i)" using i by simp
  have "rec_log c (evs @ [e]) = ?B[?i := bucket_of (slot_add c (t, ok) (slot_log c evs ?i))]"
    unfolding e rec_log_snoc record_at_def Let_def B n bucket_slot_add[OF assms(1,2) pos(2,1)] by (rule refl)
  also have "\<dots> = map (\<lambda>i. bucket_of (slot_log c (evs @ [e]) i)) [0..<rollingBuckets]"
    unfolding B using i by (intro nth_equalityI) (auto simp: nth_list_update slot_log_snoc e)
  finally show ?case by simp
qed simp

lemma bsum_slots:
  assumes "0 \<le> edge" "\<And>l. f (bucket_of l) = int (length (filter P l))"
  shows "bsum edge f (map (\<lambda>i. bucket_of (g i)) xs) =
    int (length (filter P (concat (map (\<lambda>i. if g i \<noteq> [] \<and> edge < fst (hd (g i)) then g i else []) xs))))"
  using assms by (induction xs) (auto simp: bsum_def bucket_of_def zero_bucket_def)

lemma bucket_of_counts:
  "bk_failures (bucket_of l) = int (length (filter (Not \<circ> snd) l))" "bk_successes (bucket_of l) = int (length (filter snd l))"
  by (simp_all add: bucket_of_def zero_bucket_def)

lemma windowTotals_counted:
  assumes "0 < cb_rollingWindow c" "cb_rollingWindow c \<le> MaxInt64" "cb_rollingWindow c \<le> now" "\<forall>x\<in>set evs. 0 < fst x"
  shows "windowTotals c now (rec_log c evs) =
    (int (length (counted c now evs)), int (length (filter (Not \<circ> snd) (counted c now evs))))"
proof (cases "evs = []")
  case True
  have "counted c now [] = []" by (simp add: counted_def slot_log_def)
  then show ?thesis using True by (simp add: windowTotals_def rec_log_def)
next
  case False
  let ?edge = "now - cb_rollingWindow c"
  have r: "rec_log c evs = map (\<lambda>i. bucket_of (slot_log c evs i)) [0..<rollingBuckets]"
    using rec_log_slots[OF assms(1,2,4)] False by blast
  have k: "concat (map (\<lambda>i. if slot_log c evs i \<noteq> [] \<and> ?edge < fst (hd (slot_log c evs i)) then slot_log c evs i else []) [0..<rollingBuckets])
      = counted c now evs"
    unfolding counted_def Let_def by (rule arg_cong[where f = concat]) (auto simp: algebra_simps intro!: map_cong)
  have b: "bsum ?edge bk_failures (rec_log c evs) = int (length (filter (Not \<circ> snd) (counted c now evs)))"
    "bsum ?edge bk_successes (rec_log c evs) = int (length (filter snd (counted c now evs)))"
    unfolding r k[symmetric] using assms(3) by (intro bsum_slots; simp add: bucket_of_counts)+
  have "length (filter snd l) + length (filter (Not \<circ> snd) l) = length l" for l :: "(time \<times> bool) list" by (induction l) auto
  from this[of "counted c now evs"] show ?thesis
    using windowTotals_sum[OF assms(1,2), of now "rec_log c evs"] assms(3) b by (simp add: Let_def flip: of_nat_add)
qed

lemma counted_in_window:
  assumes "sorted (map fst evs)"
  shows "set (counted c now evs) \<subseteq> set (in_window now (cb_rollingWindow c) evs)"
proof
  fix x assume "x \<in> set (counted c now evs)"
  then obtain i where x: "x \<in> set (slot_log c evs i)" "now - fst (hd (slot_log c evs i)) < cb_rollingWindow c"
    by (auto simp: counted_def Let_def split: if_splits)
  then show "x \<in> set (in_window now (cb_rollingWindow c) evs)"
    using slot_log_set[of c evs i] slot_log_first[OF assms x(1)] by (force simp: in_window_def)
qed

text \<open>
  C30. A rolling-window trip is justified: with outcomes recorded at non-decreasing times after the zero
  time and a window that fits an \<open>int64\<close>, when \<open>rollingShouldTrip\<close> answers true, the outcomes of the
  slots that started inside the window, successes and failures alike, are at least \<open>minRequests\<close> in
  number, and the exact share of failures among them is above the threshold.  All of them are
  outcomes of the last window, and no more than it has.
\<close>

theorem rolling_trip_justified:
  assumes "0 < cb_rollingWindow c" "cb_rollingWindow c \<le> MaxInt64" "is_f64 (cb_errorRateThreshold c)"
    and "sorted (map fst evs)" "\<forall>x\<in>set evs. 0 < fst x \<and> fst x \<le> shd' (cb_now c)"
    and "cb_rollingWindow c \<le> shd' (cb_now c)" "length evs \<le> 2 ^ 53"
    and "fst (rollingShouldTrip (st\<lparr>bs_buckets := rec_log c evs\<rparr>) c)"
    and "kept = counted c (shd' (cb_now c)) evs"
  shows "cb_minRequests c \<le> int (length kept) \<and>
    cb_errorRateThreshold c < of_nat (length (filter (Not \<circ> snd) kept)) / of_nat (length kept) \<and>
    set kept \<subseteq> set (in_window (shd' (cb_now c)) (cb_rollingWindow c) evs) \<and>
    length kept \<le> length (in_window (shd' (cb_now c)) (cb_rollingWindow c) evs)"
proof -
  let ?now = "shd' (cb_now c)" and ?W = "cb_rollingWindow c"
  let ?F = "bsum (?now - ?W) bk_failures (rec_log c evs)" and ?S = "bsum (?now - ?W) bk_successes (rec_log c evs)"
  have "window_inv 0 [] []" by (simp add: window_inv_def bsum_def since_edge_def)
  from window_run[OF this, of evs ?now c] assms(4,5,6,1)
  have inv: "window_inv ?now evs (rec_log c evs)" by (force simp: rec_log_def)
  have T: "?S + ?F \<le> int (length (in_window ?now ?W evs))"
  proof -
    have "?F \<le> since_edge (?now - ?W) Not evs" "?S \<le> since_edge (?now - ?W) id evs"
      using inv by (simp_all add: window_inv_def)
    then show ?thesis using since_edge_window[of ?now ?W evs] by linarith
  qed
  have wt: "windowTotals c ?now (rec_log c evs) = (int (length kept), int (length (filter (Not \<circ> snd) kept)))"
    using windowTotals_counted[OF assms(1,2,6), of evs] assms(5,9) by blast
  then have "int (length kept) = ?S + ?F" using windowTotals_sum[OF assms(1,2), of ?now "rec_log c evs"] assms(6) by (simp add: Let_def)
  then have len: "length kept \<le> length (in_window ?now ?W evs)" using T by simp
  have "length (in_window ?now ?W evs) \<le> length evs" by (simp add: in_window_def)
  then have le: "length kept \<le> 2 ^ 53" using len assms(7) by (meson order_trans)
  then have lf: "length (filter (Not \<circ> snd) kept) \<le> 2 ^ 53" by (meson length_filter_le order_trans)
  have "of_nat n \<le> (2 ^ 53 :: int)" if "n \<le> 2 ^ 53" for n :: nat using that by (metis of_nat_le_iff of_nat_numeral of_nat_power)
  then have small: "\<bar>int (length (filter (Not \<circ> snd) kept))\<bar> \<le> 2 ^ 53" "\<bar>int (length kept)\<bar> \<le> 2 ^ 53"
    using le lf by simp_all
  have "cb_minRequests c \<le> int (length kept)"
    and "cb_errorRateThreshold c < f64_div (f64_of_int (int (length (filter (Not \<circ> snd) kept)))) (f64_of_int (int (length kept)))"
    using assms(8) by (auto simp: rollingShouldTrip_def case_prod_beta Let_def wt split: if_splits)
  then show ?thesis using f64_ratio_gt[OF assms(3) _ small] counted_in_window[OF assms(4), of c ?now] len assms(9) by simp
qed


definition roll_cfg :: cb_config where
  "roll_cfg = \<lparr>cc_Mode = ModeRolling, cc_FailureThreshold = 1, cc_SuccessThreshold = 1,
     cc_Timeout = 0, cc_RollingWindow = 0, cc_ErrorRateThreshold = 0, cc_MinRequests = 2\<rparr>"

text \<open>Times are given from the Unix epoch.\<close>

definition roll_breaker :: "time \<Rightarrow> breaker" where
  "roll_breaker t = NewCircuitBreakerWithConfig roll_cfg (\<lambda>_. unix_epoch + t)"

definition roll_evs :: "(time \<times> bool) list" where
  "roll_evs = [(unix_epoch, True), (unix_epoch + Second, False), (unix_epoch + 2 * Second, False)]"

lemma roll_trip: "fst (rollingShouldTrip (fresh_state\<lparr>bs_buckets := rec_log (roll_breaker (3 * Second)) roll_evs\<rparr>) (roll_breaker (3 * Second)))"
  by code_simp

lemma roll_side:
  "0 < cb_rollingWindow (roll_breaker (3 * Second))" "cb_rollingWindow (roll_breaker (3 * Second)) \<le> MaxInt64"
  "is_f64 (cb_errorRateThreshold (roll_breaker (3 * Second)))"
  "sorted (map fst roll_evs)" "\<forall>x\<in>set roll_evs. 0 < fst x \<and> fst x \<le> shd' (cb_now (roll_breaker (3 * Second)))"
  "cb_rollingWindow (roll_breaker (3 * Second)) \<le> shd' (cb_now (roll_breaker (3 * Second)))" "length roll_evs \<le> 2 ^ 53"
  by (code_simp, code_simp, code_simp, code_simp, code_simp, code_simp, simp add: roll_evs_def)

theorem rolling_trip_justified_witness:
  "let kept = counted (roll_breaker (3 * Second)) (unix_epoch + 3 * Second) roll_evs in length kept = 3 \<and>
     cb_errorRateThreshold (roll_breaker (3 * Second)) < of_nat (length (filter (Not \<circ> snd) kept)) / of_nat (length kept)"
proof -
  have n: "shd' (cb_now (roll_breaker (3 * Second))) = unix_epoch + 3 * Second" by code_simp
  have "length (counted (roll_breaker (3 * Second)) (unix_epoch + 3 * Second) roll_evs) = 3" by code_simp
  then show ?thesis using rolling_trip_justified[OF roll_side roll_trip refl] unfolding n Let_def by blast
qed

section \<open>What the buckets lose\<close>

text \<open>
  The window is not complete: a bucket keeps the start of its first outcome when the slot
  comes round again inside the window, and the later outcomes leave with it.  With a 10 s
  window, two failures at 0.95 s and 10.05 s, and a reading at 11 s: the second failure is
  0.95 s old and is not counted.
\<close>

lemma rolling_window_drops_recent:
  "let c = roll_breaker (11 * Second);
       evs = [(unix_epoch + 950 * Millisecond, False), (unix_epoch + 10050 * Millisecond, False)]
   in length (in_window (unix_epoch + 11 * Second) (cb_rollingWindow c) evs) = 1 \<and>
      windowTotals c (unix_epoch + 11 * Second) (rec_log c evs) = (0, 0)"
  by code_simp

end
