(* ===== verification/RedisSync.thy ===== *)
theory RedisSync
  imports Circuit "HOL-Library.AList"
begin

text \<open>
  \<open>internal/circuit/redis_sync.go\<close>: sharing circuit state between replicas through a Redis
  hash per backend.  The evaluation of scripts by the server and the digest of a URL are
  parameters; the Lua script of the file is a definition over the server's hashes.
\<close>

section \<open>Fields and replies\<close>

datatype rawv = RawStr string | RawOther

datatype raw_reply = RawList "rawv list" | RawScalar

fun raw_string :: "rawv \<Rightarrow> string" where
  "raw_string (RawStr s) = s"
| "raw_string RawOther = []"

fun pairs_to_map :: "rawv list \<Rightarrow> (string \<times> string) list \<Rightarrow> (string \<times> string) list" where
  "pairs_to_map (k # v # rest) m =
     pairs_to_map rest (if raw_string k \<noteq> [] then AList.update (raw_string k) (raw_string v) m else m)"
| "pairs_to_map _ m = m"

fun hgetallToMap :: "raw_reply \<Rightarrow> (string \<times> string) list" where
  "hgetallToMap (RawList vs) = pairs_to_map vs []"
| "hgetallToMap RawScalar = []"

definition splitLastColon :: "string \<Rightarrow> string \<times> string" where
  "splitLastColon s = (case split_last CHR '':'' s of Some p \<Rightarrow> p | None \<Rightarrow> ([], s))"

text \<open>\<open>int(d.Seconds())\<close>\<close>

definition whole_seconds :: "duration \<Rightarrow> int" where
  "whole_seconds d = f64_trunc (f64_add (f64_of_int (d sdiv Second)) (f64_div (f64_of_int (d smod Second)) 1000000000))"

section \<open>The syncer\<close>

record redisSyncer =
  sy_replicaID :: string
  sy_prefix :: string
  sy_ttl :: duration
  sy_interval :: duration
  sy_backends :: "(bid \<times> string) list"

definition NewRedisSyncer :: "string \<Rightarrow> string \<Rightarrow> duration \<Rightarrow> duration \<Rightarrow> string \<Rightarrow> redisSyncer" where
  "NewRedisSyncer defaultReplicaID prefix ttl interval replicaID =
     \<lparr>sy_replicaID = (if replicaID = [] then defaultReplicaID else replicaID),
      sy_prefix = (if prefix = [] then ''rplb:cb'' else prefix),
      sy_ttl = (if ttl \<le> 0 then 30 * Second else ttl),
      sy_interval = (if interval \<le> 0 then Second else interval),
      sy_backends = []\<rparr>"

definition Track :: "(string \<Rightarrow> string) \<Rightarrow> 'a heap_scheme \<Rightarrow> bid \<Rightarrow> redisSyncer \<Rightarrow> redisSyncer" where
  "Track backendKey h b s =
     (case map_of (sy_backends s) b of
        Some _ \<Rightarrow> s
      | None \<Rightarrow> s\<lparr>sy_backends := sy_backends s @ [(b, backendKey (be_URL (h_be h b)))]\<rparr>)"

definition sync_key :: "(string \<Rightarrow> string) \<Rightarrow> 'a heap_scheme \<Rightarrow> redisSyncer \<Rightarrow> bid \<Rightarrow> string" where
  "sync_key backendKey h s b =
     sy_prefix s @ '':'' @ (case map_of (sy_backends s) b of Some k \<Rightarrow> k | None \<Rightarrow> backendKey (be_URL (h_be h b)))"

text \<open>The script call: key, replica, state, failures and time to live.\<close>

type_synonym 'db sync_eval = "string \<Rightarrow> string \<Rightarrow> string \<Rightarrow> string \<Rightarrow> int \<Rightarrow> 'db \<Rightarrow> (string + raw_reply) \<times> 'db"

definition pushAndRead ::
  "'db sync_eval \<Rightarrow> (string \<Rightarrow> string) \<Rightarrow> redisSyncer \<Rightarrow> bid \<Rightarrow> breaker \<times> 'a heap_scheme \<Rightarrow> 'db \<Rightarrow>
   (string + (string \<times> string) list) \<times> 'db" where
  "pushAndRead eval backendKey s b cs db =
     (let (c, h) = cs;
          (localState, failures) = (case cb_states c b of Some bst \<Rightarrow> (bs_state bst, bs_failures bst) | None \<Rightarrow> (StateClosed, 0));
          (result, db1) = eval (sync_key backendKey h s b) (sy_replicaID s) (State_String localState)
                            (FormatInt failures) (whole_seconds (sy_ttl s)) db
      in case result of Inl err \<Rightarrow> (Inl err, db1) | Inr raw \<Rightarrow> (Inr (hgetallToMap raw), db1))"

text \<open>Whether one field of the hash makes the local circuit open.\<close>

definition updated_of :: "(string \<times> string) list \<Rightarrow> string \<Rightarrow> int option" where
  "updated_of flds replica = (case map_of flds (replica @ '':updated'') of Some u \<Rightarrow> ParseInt64 u | None \<Rightarrow> None)"

definition remote_open :: "redisSyncer \<Rightarrow> int \<Rightarrow> int \<Rightarrow> (string \<times> string) list \<Rightarrow> string \<Rightarrow> string \<Rightarrow> bool" where
  "remote_open s now closedAt flds field val =
     (let (replica, suffix) = splitLastColon field; ttlSec = whole_seconds (sy_ttl s) in
      suffix = ''state'' \<and> replica \<noteq> sy_replicaID s \<and>
      (case updated_of flds replica of Some updTS \<Rightarrow> \<not> now - updTS > ttlSec | None \<Rightarrow> True) \<and>
      val = ''open'' \<and>
      (case updated_of flds replica of Some updTS \<Rightarrow> \<not> (closedAt > 0 \<and> closedAt > updTS) | None \<Rightarrow> True))"

fun apply_loop ::
  "redisSyncer \<Rightarrow> int \<Rightarrow> (string \<times> string) list \<Rightarrow> bid \<Rightarrow> (string \<times> string) list \<Rightarrow> breaker \<times> 'a heap_scheme \<Rightarrow> breaker \<times> 'a heap_scheme" where
  "apply_loop s now flds b [] cs = cs"
| "apply_loop s now flds b ((field, val) # rest) cs =
     (if remote_open s now (GetClosedAt (fst cs) b) flds field val then forceOpen b cs
      else apply_loop s now flds b rest cs)"

definition applyRemote :: "redisSyncer \<Rightarrow> time \<Rightarrow> bid \<Rightarrow> (string \<times> string) list \<Rightarrow> breaker \<times> 'a heap_scheme \<Rightarrow> breaker \<times> 'a heap_scheme" where
  "applyRemote s now b flds cs = apply_loop s (time_Unix now) flds b flds cs"

text \<open>One backend of a sync cycle; \<open>pushOne\<close> does the same on a state change.\<close>

definition pushOne ::
  "'db sync_eval \<Rightarrow> (string \<Rightarrow> string) \<Rightarrow> redisSyncer \<Rightarrow> time \<Rightarrow> bid \<Rightarrow> (breaker \<times> 'a heap_scheme) \<times> 'db \<Rightarrow>
   (breaker \<times> 'a heap_scheme) \<times> 'db" where
  "pushOne eval backendKey s now b csdb =
     (let (cs, db) = csdb; (res, db1) = pushAndRead eval backendKey s b cs db
      in case res of Inl _ \<Rightarrow> (cs, db1) | Inr flds \<Rightarrow> (applyRemote s now b flds cs, db1))"

definition sync_all where
  "sync_all eval backendKey s now csdb = fold (pushOne eval backendKey s now) (map fst (sy_backends s)) csdb"

section \<open>The script\<close>

text \<open>
  \<open>syncLuaScript\<close> at server time \<open>t\<close> (seconds): a hash holds its fields and the time it
  expires.
\<close>

definition syncLuaScript :: "int \<Rightarrow> (string \<rightharpoonup> (string \<times> string) list \<times> int) sync_eval" where
  "syncLuaScript t key replica state failures ttl db =
     (let old = (case db key of Some (fs, expires) \<Rightarrow> if t < expires then fs else [] | None \<Rightarrow> []);
          fs = AList.update (replica @ '':updated'') (FormatInt t)
                 (AList.update (replica @ '':failures'') failures (AList.update (replica @ '':state'') state old))
      in (Inr (RawList (concat (map (\<lambda>(k, v). [RawStr k, RawStr v]) fs))), db(key \<mapsto> (fs, t + ttl))))"

section \<open>Properties\<close>

lemma splitLastColon_join: "CHR '':'' \<notin> set q \<Longrightarrow> splitLastColon (p @ CHR '':'' # q) = (p, q)"
  by (simp add: splitLastColon_def split_last_eq)

lemma split_last_some: "split_last c s = Some (p, q) \<Longrightarrow> s = p @ c # q \<and> c \<notin> set q"
proof -
  assume a: "split_last c s = Some (p, q)"
  then have c: "c \<in> set s" by (auto simp: split_last_def split: if_splits)
  then obtain u v where s: "s = u @ c # v" "c \<notin> set v" by (metis split_list_last)
  then show ?thesis using a split_last_eq[OF s(2), of u] by simp
qed

lemma splitLastColon_inv: "splitLastColon f = (p, q) \<Longrightarrow> p \<noteq> [] \<Longrightarrow> f = p @ CHR '':'' # q"
  using split_last_some[of "CHR '':''" f p q] by (simp add: splitLastColon_def split: option.splits)

text \<open>
  Field names round-trip: the replica and the attribute written as \<open>replica:attribute\<close> are
  read back by \<open>splitLastColon\<close>, for every replica id (which itself contains a colon), and a
  field that splits into a non-empty replica is the one written for it.
\<close>

lemma sync_field_roundtrip:
  "CHR '':'' \<notin> set attr \<Longrightarrow>
     splitLastColon (replica @ '':'' @ attr) = (replica, attr) \<and>
     (\<forall>field. splitLastColon field = (replica, attr) \<and> replica \<noteq> [] \<longrightarrow> field = replica @ '':'' @ attr)"
  using splitLastColon_join[of attr replica] by (auto dest: splitLastColon_inv)

theorem sync_field_roundtrip_witness:
  "splitLastColon ''host:42:state'' = (''host:42'', ''state'')"
  using sync_field_roundtrip[of "''state''" "''host:42''"] by simp

lemma apply_loop_eq:
  "apply_loop s now flds b rest cs =
     (if \<exists>(f, v) \<in> set rest. remote_open s now (GetClosedAt (fst cs) b) flds f v then forceOpen b cs else cs)"
  by (induction rest) auto

lemma GetState_forceOpen: "GetState (fst (forceOpen b cs)) b = StateOpen"
  by (cases cs) (auto simp: forceOpen_def Let_def case_prod_beta GetState_def put_state_def notify_def stateFor_def)

lemma pairs_to_map_lookup:
  assumes "distinct (map fst fs)" "\<forall>(k, v)\<in>set fs. k \<noteq> []"
  shows "map_of (pairs_to_map (concat (map (\<lambda>(k, v). [RawStr k, RawStr v]) fs)) m) k =
     (case map_of fs k of Some v \<Rightarrow> Some v | None \<Rightarrow> map_of m k)"
  using assms
proof (induction fs arbitrary: m)
  case (Cons p fs)
  obtain a v where p: "p = (a, v)" by fastforce
  have "map_of fs a = None" using Cons.prems(1) by (simp add: p map_of_eq_None_iff)
  moreover have "a \<noteq> []" using Cons.prems(2) by (simp add: p)
  moreover have "map_of (pairs_to_map (concat (map (\<lambda>(k, v). [RawStr k, RawStr v]) fs)) (AList.update a v m)) k =
     (case map_of fs k of Some v \<Rightarrow> Some v | None \<Rightarrow> map_of (AList.update a v m) k)"
    using Cons.prems by (intro Cons.IH) simp_all
  ultimately show ?case by (cases "k = a") (simp_all add: p update_conv' split: option.split)
qed simp

definition hash_ok :: "(string \<times> string) list \<Rightarrow> bool" where
  "hash_ok fs \<longleftrightarrow> distinct (map fst fs) \<and> (\<forall>(k, v)\<in>set fs. k \<noteq> [])"

definition db_ok :: "(string \<rightharpoonup> (string \<times> string) list \<times> int) \<Rightarrow> bool" where
  "db_ok db \<longleftrightarrow> (\<forall>k fs ex. db k = Some (fs, ex) \<longrightarrow> hash_ok fs)"

lemma set_alist_update: "set (AList.update k v fs) \<subseteq> insert (k, v) (set fs)"
  by (induction fs) auto

lemma hash_ok_update: "hash_ok fs \<Longrightarrow> k \<noteq> [] \<Longrightarrow> hash_ok (AList.update k v fs)"
  using set_alist_update[of k v fs] by (auto simp: hash_ok_def distinct_update)

lemma script_reply:
  assumes "db_ok db" "syncLuaScript t key replica state failures ttl db = (res, db')"
  obtains fs where "res = Inr (RawList (concat (map (\<lambda>(k, v). [RawStr k, RawStr v]) fs)))" "hash_ok fs"
    "db' = db(key \<mapsto> (fs, t + ttl))"
    "map_of fs = (map_of (case db key of Some (fs, expires) \<Rightarrow> if t < expires then fs else [] | None \<Rightarrow> []))
       (replica @ '':state'' \<mapsto> state, replica @ '':failures'' \<mapsto> failures, replica @ '':updated'' \<mapsto> FormatInt t)"
proof -
  define old where "old = (case db key of Some (fs, expires) \<Rightarrow> if t < expires then fs else [] | None \<Rightarrow> [])"
  let ?fs = "AList.update (replica @ '':updated'') (FormatInt t)
     (AList.update (replica @ '':failures'') failures (AList.update (replica @ '':state'') state old))"
  have "hash_ok []" by (simp add: hash_ok_def)
  then have "hash_ok old" using assms(1) by (auto simp: old_def db_ok_def split: option.split)
  then have "hash_ok ?fs" by (intro hash_ok_update) simp_all
  moreover have "map_of ?fs = (map_of old)(replica @ '':state'' \<mapsto> state, replica @ '':failures'' \<mapsto> failures,
      replica @ '':updated'' \<mapsto> FormatInt t)" by (simp add: update_conv')
  ultimately show ?thesis using that[of ?fs] assms(2) by (simp add: syncLuaScript_def Let_def old_def[symmetric])
qed

lemma hgetall_lookup: "hash_ok fs \<Longrightarrow> map_of (hgetallToMap (RawList (concat (map (\<lambda>(k, v). [RawStr k, RawStr v]) fs)))) k = map_of fs k"
  unfolding hash_ok_def hgetallToMap.simps by (subst pairs_to_map_lookup) (auto split: option.split)

lemma remote_open_state:
  assumes "replica \<noteq> sy_replicaID s" "map_of flds (replica @ '':updated'') = Some (FormatInt u)"
    and "MinInt64 \<le> u" "u \<le> MaxInt64" "now - u \<le> whole_seconds (sy_ttl s)" "closedAt \<le> u \<or> closedAt \<le> 0"
  shows "remote_open s now closedAt flds (replica @ '':state'') ''open''"
  using assms splitLastColon_join[of "''state''" replica]
  by (auto simp: remote_open_def updated_of_def ParseInt64_FormatInt)

text \<open>
  C29. An open circuit reaches the other replicas: when one replica has pushed \<open>open\<close> for a
  backend at server time \<open>t\<close>, and another replica syncs the same key before the hash
  expires and before the entry is older than its time to live, not having recovered since \<open>t\<close>,
  its circuit for the backend is open afterwards.
\<close>

theorem remote_open_propagates:
  assumes db: "db_ok db" and t: "MinInt64 \<le> t" "t \<le> MaxInt64"
    and push: "db1 = snd (syncLuaScript t (sync_key bk h s b) replica ''open'' failures ttl db)"
    and live: "t' < t + ttl" and other: "replica \<noteq> sy_replicaID s"
    and young: "time_Unix now - t \<le> whole_seconds (sy_ttl s)" and recovered: "GetClosedAt c b \<le> t \<or> GetClosedAt c b \<le> 0"
  shows "GetState (fst (fst (pushOne (syncLuaScript t') bk s now b ((c, h), db1)))) b = StateOpen"
proof -
  let ?key = "sync_key bk h s b"
  obtain fs where fs: "hash_ok fs" "db1 = db(?key \<mapsto> (fs, t + ttl))"
      "map_of fs = (map_of (case db ?key of Some (fs, expires) \<Rightarrow> if t < expires then fs else [] | None \<Rightarrow> []))
       (replica @ '':state'' \<mapsto> ''open'', replica @ '':failures'' \<mapsto> failures, replica @ '':updated'' \<mapsto> FormatInt t)"
    using script_reply[OF db, of t ?key replica "''open''" failures ttl] push by (metis surjective_pairing)
  have "db_ok db1" using db fs(1,2) by (auto simp: db_ok_def)
  obtain st f where stf: "(case cb_states c b of Some bst \<Rightarrow> (bs_state bst, bs_failures bst) | None \<Rightarrow> (StateClosed, 0)) = (st, f)"
    by fastforce
  obtain res db2 where r: "syncLuaScript t' ?key (sy_replicaID s) (State_String st) (FormatInt f) (whole_seconds (sy_ttl s)) db1 = (res, db2)"
    by fastforce
  from script_reply[OF \<open>db_ok db1\<close> r] obtain gs where gs: "res = Inr (RawList (concat (map (\<lambda>(k, v). [RawStr k, RawStr v]) gs)))"
      "hash_ok gs"
      "map_of gs = (map_of fs)(sy_replicaID s @ '':state'' \<mapsto> State_String st, sy_replicaID s @ '':failures'' \<mapsto> FormatInt f,
         sy_replicaID s @ '':updated'' \<mapsto> FormatInt t')"
    using fs(2) live by auto
  define flds where "flds = hgetallToMap (RawList (concat (map (\<lambda>(k, v). [RawStr k, RawStr v]) gs)))"
  have sep: "replica @ x \<noteq> sy_replicaID s @ y" if "x \<in> A" "y \<in> A" "A = {'':state'', '':failures'', '':updated''}" for x y A
  proof
    assume e: "replica @ x = sy_replicaID s @ y"
    have c: "\<exists>q. x = CHR '':'' # q \<and> CHR '':'' \<notin> set q" "\<exists>q. y = CHR '':'' # q \<and> CHR '':'' \<notin> set q" using that by auto
    then show False using splitLastColon_join e other by (metis prod.inject)
  qed
  have look: "map_of flds k = map_of gs k" for k using hgetall_lookup[OF gs(2)] by (simp add: flds_def)
  have st: "map_of flds (replica @ '':state'') = Some ''open''" and up: "map_of flds (replica @ '':updated'') = Some (FormatInt t)"
    unfolding look gs(3) fs(3) using sep[OF _ _ refl] by auto
  have "remote_open s (time_Unix now) (GetClosedAt c b) flds (replica @ '':state'') ''open''"
    using remote_open_state[OF other up t young recovered] .
  then have "apply_loop s (time_Unix now) flds b flds (c, h) = forceOpen b (c, h)"
    unfolding apply_loop_eq using map_of_SomeD[OF st] by auto
  then show ?thesis
    using GetState_forceOpen[of b "(c, h)"]
    by (simp add: pushOne_def pushAndRead_def stf r gs(1) applyRemote_def flds_def[symmetric] del: hgetallToMap.simps)
qed

definition demo_syncer :: redisSyncer where
  "demo_syncer = NewRedisSyncer ''b:2'' [] 0 0 []"

lemma demo_sync_facts:
  "whole_seconds (sy_ttl demo_syncer) = 30" "''a:1'' \<noteq> sy_replicaID demo_syncer" "GetClosedAt probe_breaker 0 \<le> 0"
  "time_Unix (unix_epoch + 105 * Second) - 100 \<le> 30"
  by code_simp+

theorem remote_open_propagates_witness:
  "GetState (fst (fst (pushOne (syncLuaScript 110) id demo_syncer (unix_epoch + 105 * Second) 0
     ((probe_breaker, duo), snd (syncLuaScript 100 (sync_key id duo demo_syncer 0) ''a:1'' ''open'' ''3'' 30 (\<lambda>_. None)))))) 0 = StateOpen"
  by (rule remote_open_propagates[OF _ _ _ refl])
    (use demo_sync_facts in \<open>auto simp: db_ok_def MinInt64_def MaxInt64_def\<close>)

end
