(* ===== verification/Limiter.thy ===== *)
theory Limiter
  imports GoTime Float64 GoStrings "HOL-Library.AList"
begin

text \<open>
  \<open>internal/limiter\<close>: the GCRA and token-bucket limiters, the rate limiter with its global,
  per-key and per-rule buckets, and the shared stores.  A map is an association list whose
  order stands for the order a \<open>range\<close> loop meets the keys in.  The token bucket of
  \<open>golang.org/x/time/rate\<close> is a parameter.
\<close>

section \<open>GCRA\<close>

record gcraLimiter =
  g_emission :: duration
  g_tolerance :: duration
  g_tat :: time
  g_rps :: f64
  g_burst :: int

definition gcra_configure :: "f64 \<Rightarrow> int \<Rightarrow> gcraLimiter \<Rightarrow> gcraLimiter" where
  "gcra_configure rps burst g =
     (let emission = (if rps \<le> 0 then 2 ^ 62 - 1 else f64_trunc (f64_div (f64_of_int Second) rps))
      in g\<lparr>g_rps := rps, g_burst := burst, g_emission := emission,
          g_tolerance := (if burst < 1 then 0 else wrap64 (emission * (burst - 1)))\<rparr>)"

definition newGCRA :: "f64 \<Rightarrow> int \<Rightarrow> gcraLimiter" where
  "newGCRA rps burst = gcra_configure rps burst
     \<lparr>g_emission = 0, g_tolerance = 0, g_tat = 0, g_rps = rps, g_burst = burst\<rparr>"

definition gcra_reserve :: "time \<Rightarrow> gcraLimiter \<Rightarrow> (bool \<times> duration) \<times> gcraLimiter" where
  "gcra_reserve now g =
     (if g_burst g < 1 then ((False, 0), g)
      else let tat = (if time_Before (g_tat g) now then now else g_tat g);
               allowAt = time_Add tat (wrap64 (- g_tolerance g))
           in if time_Before now allowAt then ((False, time_Sub allowAt now), g)
              else ((True, 0), g\<lparr>g_tat := time_Add tat (g_emission g)\<rparr>))"

section \<open>The token bucket and the algorithm choice\<close>

text \<open>The operations of \<open>rate.Limiter\<close> and its reservations that the code calls.\<close>

record ('tb, 'r) rate_lib =
  rate_NewLimiter :: "f64 \<Rightarrow> int \<Rightarrow> 'tb"
  rate_ReserveN :: "time \<Rightarrow> int \<Rightarrow> 'tb \<Rightarrow> 'r \<times> 'tb"
  rate_OK :: "'r \<Rightarrow> bool"
  rate_DelayFrom :: "'r \<Rightarrow> time \<Rightarrow> duration"
  rate_CancelAt :: "'r \<Rightarrow> time \<Rightarrow> 'tb \<Rightarrow> 'tb"

definition newTokenBucket :: "('tb, 'r) rate_lib \<Rightarrow> f64 \<Rightarrow> int \<Rightarrow> 'tb" where
  "newTokenBucket lib rps burst = rate_NewLimiter lib rps burst"

definition tb_reserve :: "('tb, 'r) rate_lib \<Rightarrow> time \<Rightarrow> 'tb \<Rightarrow> (bool \<times> duration) \<times> 'tb" where
  "tb_reserve lib now t =
     (let (r, t1) = rate_ReserveN lib now 1 t in
      if \<not> rate_OK lib r then ((False, 0), t1)
      else let delay = rate_DelayFrom lib r now
           in if delay > 0 then ((False, delay), rate_CancelAt lib r now t1) else ((True, 0), t1))"

datatype 'tb algoLimiter = TokenBucket 'tb | GCRA gcraLimiter

definition AlgorithmTokenBucket :: string where "AlgorithmTokenBucket = ''token_bucket''"
definition AlgorithmGCRA :: string where "AlgorithmGCRA = ''gcra''"

definition newAlgoLimiter :: "('tb, 'r) rate_lib \<Rightarrow> string \<Rightarrow> f64 \<Rightarrow> int \<Rightarrow> 'tb algoLimiter" where
  "newAlgoLimiter lib algorithm rps burst =
     (if algorithm = AlgorithmGCRA then GCRA (newGCRA rps burst) else TokenBucket (newTokenBucket lib rps burst))"

fun reserve :: "('tb, 'r) rate_lib \<Rightarrow> time \<Rightarrow> 'tb algoLimiter \<Rightarrow> (bool \<times> duration) \<times> 'tb algoLimiter" where
  "reserve lib now (TokenBucket t) = (let (res, t') = tb_reserve lib now t in (res, TokenBucket t'))"
| "reserve lib now (GCRA g) = (let (res, g') = gcra_reserve now g in (res, GCRA g'))"

section \<open>The rate limiter\<close>

record 'tb keyLimiter =
  kl_algo :: "'tb algoLimiter"
  kl_lastSeen :: time

record 'tb ruleLimiter =
  ru_rps :: f64
  ru_burst :: int
  ru_limiters :: "(string \<times> 'tb keyLimiter) list"

record lim_options =
  lo_Algorithm :: string
  lo_PerKeyRPS :: f64
  lo_PerKeyBurst :: int
  lo_GlobalRPS :: f64
  lo_GlobalBurst :: int

text \<open>\<open>rl_store\<close> holds the rate, burst and key of the shared store, when one is installed.\<close>

record 'tb rateLimiter =
  rl_algorithm :: string
  rl_requestsPerSecond :: f64
  rl_burst :: int
  rl_globalRPS :: f64
  rl_globalBurst :: int
  rl_limiters :: "(string \<times> 'tb keyLimiter) list"
  rl_globalLimiter :: "'tb algoLimiter"
  rl_rules :: "(string \<times> 'tb ruleLimiter) list"
  rl_idleTTL :: duration
  rl_maxEntries :: int
  rl_store :: "(f64 \<times> int \<times> string) option"

definition SetStore :: "bool \<Rightarrow> f64 \<Rightarrow> int \<Rightarrow> string \<Rightarrow> 'tb rateLimiter \<Rightarrow> 'tb rateLimiter" where
  "SetStore present rps burst key r =
     r\<lparr>rl_store := (if present then Some (rps, burst, if key = [] then ''__global__'' else key) else None)\<rparr>"

definition NewRateLimiterWithOptions :: "('tb, 'r) rate_lib \<Rightarrow> lim_options \<Rightarrow> 'tb rateLimiter" where
  "NewRateLimiterWithOptions lib opts =
     (let algorithm = (if lo_Algorithm opts = [] then AlgorithmTokenBucket else lo_Algorithm opts);
          globalRPS = (if lo_GlobalRPS opts \<le> 0 then lo_PerKeyRPS opts else lo_GlobalRPS opts);
          globalBurst = (if lo_GlobalBurst opts \<le> 0 then lo_PerKeyBurst opts else lo_GlobalBurst opts)
      in \<lparr>rl_algorithm = algorithm, rl_requestsPerSecond = lo_PerKeyRPS opts, rl_burst = lo_PerKeyBurst opts,
          rl_globalRPS = globalRPS, rl_globalBurst = globalBurst, rl_limiters = [],
          rl_globalLimiter = newAlgoLimiter lib algorithm globalRPS globalBurst, rl_rules = [],
          rl_idleTTL = 10 * Minute, rl_maxEntries = 100000, rl_store = None\<rparr>)"

definition NewRateLimiter :: "('tb, 'r) rate_lib \<Rightarrow> f64 \<Rightarrow> int \<Rightarrow> 'tb rateLimiter" where
  "NewRateLimiter lib requestsPerSecond burst =
     NewRateLimiterWithOptions lib
       \<lparr>lo_Algorithm = AlgorithmTokenBucket, lo_PerKeyRPS = requestsPerSecond, lo_PerKeyBurst = burst,
        lo_GlobalRPS = 0, lo_GlobalBurst = 0\<rparr>"

definition AddRule :: "string \<Rightarrow> f64 \<Rightarrow> int \<Rightarrow> 'tb rateLimiter \<Rightarrow> 'tb rateLimiter" where
  "AddRule name rps burst r =
     r\<lparr>rl_rules := AList.update name \<lparr>ru_rps = rps, ru_burst = burst, ru_limiters = []\<rparr> (rl_rules r)\<rparr>"

definition newKeyLimiter :: "('tb, 'r) rate_lib \<Rightarrow> 'tb rateLimiter \<Rightarrow> f64 \<Rightarrow> int \<Rightarrow> time \<Rightarrow> 'tb keyLimiter" where
  "newKeyLimiter lib r rps burst now =
     \<lparr>kl_algo = (if rl_algorithm r = AlgorithmGCRA then GCRA (newGCRA rps burst)
                else TokenBucket (newTokenBucket lib rps burst)), kl_lastSeen = now\<rparr>"

definition idle :: "duration \<Rightarrow> time \<Rightarrow> string \<times> 'tb keyLimiter \<Rightarrow> bool" where
  "idle ttl now e \<longleftrightarrow> time_Sub now (kl_lastSeen (snd e)) > ttl"

fun oldest :: "(string \<times> 'tb keyLimiter) list \<Rightarrow> (string \<times> time) option \<Rightarrow> (string \<times> time) option" where
  "oldest [] acc = acc"
| "oldest ((key, entry) # es) acc =
     oldest es (case acc of
       None \<Rightarrow> Some (key, kl_lastSeen entry)
     | Some (k, seen) \<Rightarrow> if time_Before (kl_lastSeen entry) seen then Some (key, kl_lastSeen entry) else acc)"

definition ensureCapacityLocked :: "time \<Rightarrow> 'tb rateLimiter \<Rightarrow> 'tb rateLimiter" where
  "ensureCapacityLocked now r =
     (if rl_maxEntries r \<le> 0 \<or> int (length (rl_limiters r)) < rl_maxEntries r then r
      else let es = filter (\<lambda>e. \<not> idle (rl_idleTTL r) now e) (rl_limiters r)
           in if int (length es) < rl_maxEntries r then r\<lparr>rl_limiters := es\<rparr>
              else case oldest es None of
                     None \<Rightarrow> r\<lparr>rl_limiters := es\<rparr>
                   | Some (key, _) \<Rightarrow> r\<lparr>rl_limiters := AList.delete key es\<rparr>)"

datatype denyScope = scopeNone | scopeGlobal | scopePerKey

definition rule_of :: "'tb rateLimiter \<Rightarrow> string \<Rightarrow> 'tb ruleLimiter option" where
  "rule_of r rule = (if rule = [] then None else map_of (rl_rules r) rule)"

definition store_gate ::
  "(string \<Rightarrow> f64 \<Rightarrow> int \<Rightarrow> time \<Rightarrow> 'st \<Rightarrow> (bool \<times> duration) \<times> 'st) \<Rightarrow> time \<Rightarrow> 'tb rateLimiter \<Rightarrow> 'st \<Rightarrow>
   (bool \<times> duration) \<times> 'st" where
  "store_gate store now r st = (case rl_store r of
     None \<Rightarrow> ((True, 0), st)
   | Some (rps, burst, key) \<Rightarrow> store key rps burst now st)"

text \<open>The entry for the key in the default map or in the map of a known rule, made if missing.\<close>

definition find_entry :: "('tb, 'r) rate_lib \<Rightarrow> time \<Rightarrow> string \<Rightarrow> string \<Rightarrow> 'tb rateLimiter \<Rightarrow> 'tb keyLimiter \<times> 'tb rateLimiter" where
  "find_entry lib now key rule r =
     (case rule_of r rule of
        Some ru \<Rightarrow>
          (case map_of (ru_limiters ru) key of
             Some e \<Rightarrow> (e\<lparr>kl_lastSeen := now\<rparr>, r)
           | None \<Rightarrow> (newKeyLimiter lib r (ru_rps ru) (ru_burst ru) now, r))
      | None \<Rightarrow>
          (case map_of (rl_limiters r) key of
             Some e \<Rightarrow> (e\<lparr>kl_lastSeen := now\<rparr>, r)
           | None \<Rightarrow> let r1 = ensureCapacityLocked now r
                     in (newKeyLimiter lib r1 (rl_requestsPerSecond r1) (rl_burst r1) now, r1)))"

definition put_entry :: "string \<Rightarrow> string \<Rightarrow> 'tb keyLimiter \<Rightarrow> 'tb rateLimiter \<Rightarrow> 'tb rateLimiter" where
  "put_entry key rule e r =
     (case rule_of r rule of
        Some ru \<Rightarrow> r\<lparr>rl_rules := AList.update rule (ru\<lparr>ru_limiters := AList.update key e (ru_limiters ru)\<rparr>) (rl_rules r)\<rparr>
      | None \<Rightarrow> r\<lparr>rl_limiters := AList.update key e (rl_limiters r)\<rparr>)"

definition allow ::
  "('tb, 'r) rate_lib \<Rightarrow> (string \<Rightarrow> f64 \<Rightarrow> int \<Rightarrow> time \<Rightarrow> 'st \<Rightarrow> (bool \<times> duration) \<times> 'st) \<Rightarrow> time \<Rightarrow>
   string \<Rightarrow> string \<Rightarrow> 'tb rateLimiter \<times> 'st \<Rightarrow> (bool \<times> duration \<times> denyScope) \<times> 'tb rateLimiter \<times> 'st" where
  "allow lib store now key rule rs =
     (let (r, st) = rs; ((ok0, retry0), st1) = store_gate store now r st in
      if \<not> ok0 then ((False, retry0, scopeGlobal), r, st1)
      else let ((ok1, retry1), gl) = reserve lib now (rl_globalLimiter r); r1 = r\<lparr>rl_globalLimiter := gl\<rparr> in
           if \<not> ok1 then ((False, retry1, scopeGlobal), r1, st1)
           else let (e, r2) = find_entry lib now key rule r1; ((ok2, retry2), al) = reserve lib now (kl_algo e);
                    r3 = put_entry key rule (e\<lparr>kl_algo := al\<rparr>) r2
                in if \<not> ok2 then ((False, retry2, scopePerKey), r3, st1)
                   else ((True, 0, scopeNone), r3, st1))"

datatype lim_error = ErrGlobal | ErrPerIP

definition RL_Allow where
  "RL_Allow lib store now key rs =
     (let ((ok, _, scope), rs') = allow lib store now key [] rs
      in (if ok then None else if scope = scopeGlobal then Some ErrGlobal else Some ErrPerIP, rs'))"

definition AllowKey where
  "AllowKey lib store now key rs = (let ((ok, retry, _), rs') = allow lib store now key [] rs in ((ok, retry), rs'))"

definition AllowRule where
  "AllowRule lib store now rule key rs = (let ((ok, retry, _), rs') = allow lib store now key rule rs in ((ok, retry), rs'))"

text \<open>One tick of the cleanup goroutine.\<close>

definition lim_cleanup :: "time \<Rightarrow> 'tb rateLimiter \<Rightarrow> 'tb rateLimiter" where
  "lim_cleanup now r =
     r\<lparr>rl_limiters := filter (\<lambda>e. \<not> idle (rl_idleTTL r) now e) (rl_limiters r),
       rl_rules := map (\<lambda>(n, ru). (n, ru\<lparr>ru_limiters := filter (\<lambda>e. \<not> idle (rl_idleTTL r) now e) (ru_limiters ru)\<rparr>))
                     (rl_rules r)\<rparr>"

definition rebuildEntryLocked :: "('tb, 'r) rate_lib \<Rightarrow> string \<Rightarrow> f64 \<Rightarrow> int \<Rightarrow> 'tb keyLimiter \<Rightarrow> 'tb keyLimiter" where
  "rebuildEntryLocked lib algorithm rps burst e =
     e\<lparr>kl_algo := (if algorithm = AlgorithmGCRA then GCRA (newGCRA rps burst)
                  else TokenBucket (newTokenBucket lib rps burst))\<rparr>"

definition UpdateRates :: "('tb, 'r) rate_lib \<Rightarrow> f64 \<Rightarrow> int \<Rightarrow> f64 \<Rightarrow> int \<Rightarrow> 'tb rateLimiter \<Rightarrow> 'tb rateLimiter" where
  "UpdateRates lib perKeyRPS perKeyBurst globalRPS globalBurst r =
     r\<lparr>rl_requestsPerSecond := perKeyRPS, rl_burst := perKeyBurst, rl_globalRPS := globalRPS,
       rl_globalBurst := globalBurst,
       rl_globalLimiter := newAlgoLimiter lib (rl_algorithm r) globalRPS globalBurst,
       rl_limiters := map (\<lambda>(k, e). (k, rebuildEntryLocked lib (rl_algorithm r) perKeyRPS perKeyBurst e)) (rl_limiters r),
       rl_rules := map (\<lambda>(n, ru). (n, ru\<lparr>ru_limiters :=
           map (\<lambda>(k, e). (k, rebuildEntryLocked lib (rl_algorithm r) (ru_rps ru) (ru_burst ru) e)) (ru_limiters ru)\<rparr>))
         (rl_rules r)\<rparr>"

definition UpdateRate :: "('tb, 'r) rate_lib \<Rightarrow> f64 \<Rightarrow> int \<Rightarrow> 'tb rateLimiter \<Rightarrow> 'tb rateLimiter" where
  "UpdateRate lib rps burst = UpdateRates lib rps burst rps burst"

section \<open>Shared stores\<close>

text \<open>\<open>MemStore\<close>: the theoretical arrival time per key.\<close>

definition MemStore_Allow :: "string \<Rightarrow> f64 \<Rightarrow> int \<Rightarrow> time \<Rightarrow> (string \<rightharpoonup> time) \<Rightarrow> (bool \<times> duration) \<times> (string \<rightharpoonup> time)" where
  "MemStore_Allow key rps burst0 now m =
     (if rps \<le> 0 then ((True, 0), m)
      else let burst = (if burst0 < 1 then 1 else burst0);
               emission = f64_trunc (f64_div (f64_of_int Second) rps);
               tolerance = wrap64 (emission * (burst - 1));
               tat = (case m key of None \<Rightarrow> now | Some t \<Rightarrow> if time_Before t now then now else t);
               newTat = time_Add tat emission;
               allowAt = time_Add newTat (wrap64 (- tolerance))
           in if time_Before now allowAt then ((False, time_Sub allowAt now), m)
              else ((True, 0), m(key \<mapsto> newTat)))"

text \<open>
  The Lua script of \<open>redis_store.go\<close>, over the values and expiry times of the keys; its
  numbers are the integers it is called with.  Keys expire by the clock of the Redis server, which is
  read in microseconds too; \<open>now_us\<close> is the clock of the caller.
\<close>

definition gcraLuaScript :: "int \<Rightarrow> string \<Rightarrow> int \<Rightarrow> int \<Rightarrow> int \<Rightarrow> (string \<rightharpoonup> int \<times> int) \<Rightarrow> (int \<times> int) \<times> (string \<rightharpoonup> int \<times> int)" where
  "gcraLuaScript server key burst period_us now_us db =
     (let tat0 = (case db key of Some (v, expires) \<Rightarrow> if server < expires then v else now_us | None \<Rightarrow> now_us);
          tat_us = (if tat0 < now_us then now_us else tat0);
          new_tat = tat_us + period_us;
          allow_at = new_tat - burst * period_us
      in if now_us < allow_at then ((0, allow_at - now_us), db)
         else let ttl_us = (burst + 1) * period_us;
                  ttl_sec0 = - ((- ttl_us) div 1000000);
                  ttl_sec = (if ttl_sec0 < 1 then 1 else ttl_sec0)
              in ((1, 0), db(key \<mapsto> (new_tat, server + ttl_sec * 1000000))))"

text \<open>The calls on the Redis client: an error is its message.\<close>

datatype rval = RInt int | RFloat f64 | RNil

datatype reply = RList "rval list" | ROther

record 'db redis_client =
  rc_ScriptLoad :: "'db \<Rightarrow> (string + string) \<times> 'db"
  rc_Eval :: "string \<Rightarrow> int \<Rightarrow> int \<Rightarrow> int \<Rightarrow> 'db \<Rightarrow> (string + reply) \<times> 'db"
  rc_EvalSha :: "string \<Rightarrow> string \<Rightarrow> int \<Rightarrow> int \<Rightarrow> int \<Rightarrow> 'db \<Rightarrow> (string + reply) \<times> 'db"

fun toInt64 :: "rval \<Rightarrow> int" where
  "toInt64 (RInt n) = n"
| "toInt64 (RFloat x) = f64_trunc x"
| "toInt64 RNil = 0"

definition isNOSCRIPT :: "string \<Rightarrow> bool" where
  "isNOSCRIPT err \<longleftrightarrow> length err \<ge> 8 \<and> take 8 err = ''NOSCRIPT''"

text \<open>\<open>evalScript\<close>: the cached digest is part of the state.\<close>

definition load_and_run :: "'db redis_client \<Rightarrow> string \<Rightarrow> int \<Rightarrow> int \<Rightarrow> int \<Rightarrow> string \<times> 'db \<Rightarrow> (string + reply) \<times> string \<times> 'db" where
  "load_and_run rc key burst periodUS nowUS sd =
     (let (sha0, db) = sd; (loaded, db1) = rc_ScriptLoad rc db in
      case loaded of
        Inl _ \<Rightarrow> let (res, db2) = rc_Eval rc key burst periodUS nowUS db1 in (res, sha0, db2)
      | Inr sha \<Rightarrow> let (res, db2) = rc_EvalSha rc sha key burst periodUS nowUS db1 in (res, sha, db2))"

definition run_cached :: "'db redis_client \<Rightarrow> string \<Rightarrow> int \<Rightarrow> int \<Rightarrow> int \<Rightarrow> string \<times> 'db \<Rightarrow> (string + reply) \<times> string \<times> 'db" where
  "run_cached rc key burst periodUS nowUS sd =
     (let (sha, db) = sd; (res, db1) = rc_EvalSha rc sha key burst periodUS nowUS db in
      case res of
        Inl err \<Rightarrow> if isNOSCRIPT err then load_and_run rc key burst periodUS nowUS (sha, db1) else (res, sha, db1)
      | Inr _ \<Rightarrow> (res, sha, db1))"

definition evalScript :: "'db redis_client \<Rightarrow> string \<Rightarrow> int \<Rightarrow> int \<Rightarrow> int \<Rightarrow> string \<times> 'db \<Rightarrow> (string + reply) \<times> string \<times> 'db" where
  "evalScript rc key burst periodUS nowUS sd =
     (let (sha0, db) = sd in
      if sha0 = []
      then let (loaded, db1) = rc_ScriptLoad rc db in
           (case loaded of
              Inl _ \<Rightarrow> let (res, db2) = rc_Eval rc key burst periodUS nowUS db1 in (res, sha0, db2)
            | Inr sha \<Rightarrow> run_cached rc key burst periodUS nowUS (sha, db1))
      else run_cached rc key burst periodUS nowUS (sha0, db))"

definition RedisStore_Allow ::
  "'db redis_client \<Rightarrow> string \<Rightarrow> string \<Rightarrow> f64 \<Rightarrow> int \<Rightarrow> time \<Rightarrow> string \<times> 'db \<Rightarrow> (bool \<times> duration) \<times> string \<times> 'db" where
  "RedisStore_Allow rc prefix key rps burst0 now sd =
     (if rps \<le> 0 then ((True, 0), sd)
      else let burst = (if burst0 < 1 then 1 else burst0);
               periodUS = f64_trunc (f64_div 1000000 rps);
               (result, sd1) = evalScript rc (prefix @ '':'' @ key) burst periodUS (time_UnixMicro now) sd
           in case result of
                Inr (RList (v0 # v1 # _)) \<Rightarrow>
                  if toInt64 v0 = 1 then ((True, 0), sd1)
                  else ((False, wrap64 (wrap64 (toInt64 v1) * Microsecond)), sd1)
              | _ \<Rightarrow> ((True, 0), sd1))"

definition NewRedisStore_prefix :: "string \<Rightarrow> string" where
  "NewRedisStore_prefix keyPrefix = (if keyPrefix = [] then ''rplb:rl'' else keyPrefix)"

section \<open>Conformance\<close>

text \<open>
  A sequence of admission times conforms to a rate of one event per \<open>E\<close> with burst \<open>B\<close> when
  any \<open>n\<close> consecutive admissions take at least \<open>(n - B) * E\<close>.
\<close>

definition conforms :: "int \<Rightarrow> int \<Rightarrow> time list \<Rightarrow> bool" where
  "conforms E B A \<longleftrightarrow> (\<forall>i j. i \<le> j \<and> j < length A \<longrightarrow> (int j - int i + 1 - B) * E \<le> A ! j - A ! i)"

text \<open>The arrival time the limiter keeps is ahead of every admission by what followed it.\<close>

definition backlog :: "int \<Rightarrow> time list \<Rightarrow> time \<Rightarrow> bool" where
  "backlog E A tat \<longleftrightarrow> (\<forall>i < length A. A ! i + (int (length A) - int i) * E \<le> tat)"

lemma backlog_mono: "backlog E A tat \<Longrightarrow> tat \<le> tat' \<Longrightarrow> backlog E A tat'"
  by (fastforce simp: backlog_def)

lemma backlog_snoc:
  assumes "backlog E A tat" "tat \<le> t" "now \<le> t" "0 \<le> E"
  shows "backlog E (A @ [now]) (t + E)"
  unfolding backlog_def
proof (intro allI impI)
  fix i assume i: "i < length (A @ [now])"
  show "(A @ [now]) ! i + (int (length (A @ [now])) - int i) * E \<le> t + E"
  proof (cases "i < length A")
    case True
    then have "A ! i + (int (length A) - int i) * E \<le> t" using assms(1,2) by (fastforce simp: backlog_def)
    then show ?thesis using True by (simp add: nth_append algebra_simps)
  next
    case False
    then have "i = length A" using i by simp
    then show ?thesis using assms(3) by simp
  qed
qed

lemma conforms_snoc:
  assumes "conforms E B A" "backlog E A tat" "tat \<le> t" "t - E * (B - 1) \<le> now" "1 \<le> B" "0 \<le> E"
  shows "conforms E B (A @ [now])"
  unfolding conforms_def
proof (intro allI impI)
  fix i j assume ij: "i \<le> j \<and> j < length (A @ [now])"
  show "(int j - int i + 1 - B) * E \<le> (A @ [now]) ! j - (A @ [now]) ! i"
  proof (cases "j < length A")
    case True
    then show ?thesis using ij assms(1) by (simp add: conforms_def nth_append)
  next
    case j: False
    show ?thesis
    proof (cases "i < length A")
      case True
      then have "A ! i + (int (length A) - int i) * E \<le> t" using assms(2,3) by (fastforce simp: backlog_def)
      moreover have "j = length A" using ij j by simp
      ultimately show ?thesis using True assms(4) by (simp add: nth_append algebra_simps)
    next
      case False
      then have "i = j" using ij j by simp
      moreover have "(1 - B) * E \<le> 0" using assms(5,6) by (simp add: mult_nonpos_nonneg)
      ultimately show ?thesis by simp
    qed
  qed
qed

text \<open>A configured limiter whose tolerance did not wrap.\<close>

definition gcra_ok :: "gcraLimiter \<Rightarrow> bool" where
  "gcra_ok g \<longleftrightarrow> 1 \<le> g_burst g \<and> 0 \<le> g_emission g \<and> g_tolerance g = g_emission g * (g_burst g - 1) \<and>
     g_tolerance g \<le> MaxInt64"

lemma gcra_ok_tolerance: "gcra_ok g \<Longrightarrow> 0 \<le> g_tolerance g"
  by (simp add: gcra_ok_def)

lemma gcra_ok_neg: "gcra_ok g \<Longrightarrow> wrap64 (- g_tolerance g) = - g_tolerance g"
proof -
  assume g: "gcra_ok g"
  then have "0 \<le> g_tolerance g" "g_tolerance g \<le> MaxInt64" using gcra_ok_tolerance by (auto simp: gcra_ok_def)
  then show ?thesis by (intro wrap64_id) (simp_all add: MinInt64_def MaxInt64_def)
qed

lemma newGCRA_sel:
  "g_burst (newGCRA rps burst) = burst" "g_tat (newGCRA rps burst) = 0"
  "1 \<le> burst \<Longrightarrow> g_tolerance (newGCRA rps burst) = wrap64 (g_emission (newGCRA rps burst) * (burst - 1))"
  by (simp_all add: newGCRA_def gcra_configure_def Let_def)

lemma gcra_reserve_cases:
  assumes "gcra_ok g"
  shows "gcra_reserve now g =
    (let t = max (g_tat g) now in
     if now < t - g_tolerance g then ((False, time_Sub (t - g_tolerance g) now), g)
     else ((True, 0), g\<lparr>g_tat := t + g_emission g\<rparr>))"
  using assms gcra_ok_neg[OF assms]
  by (auto simp: gcra_reserve_def gcra_ok_def time_Before_def time_Add_def Let_def max_def)

lemma gcra_reserve_frame:
  "gcra_reserve now g = (res, g') \<Longrightarrow> g_emission g' = g_emission g \<and> g_tolerance g' = g_tolerance g \<and>
     g_burst g' = g_burst g"
  by (auto simp: gcra_reserve_def Let_def split: if_splits)

lemma gcra_reserve_ok: "gcra_ok g \<Longrightarrow> gcra_ok (snd (gcra_reserve now g))"
  using gcra_reserve_frame[of now g "fst (gcra_reserve now g)" "snd (gcra_reserve now g)"] by (simp add: gcra_ok_def)

definition gcra_inv :: "gcraLimiter \<Rightarrow> time list \<Rightarrow> bool" where
  "gcra_inv g A \<longleftrightarrow> gcra_ok g \<and> conforms (g_emission g) (g_burst g) A \<and> backlog (g_emission g) A (g_tat g)"

text \<open>Admitting an event extends the log; refusing one, or admitting one that is not logged, keeps it.\<close>

lemma gcra_inv_admit:
  assumes "gcra_inv g A" "fst (fst (gcra_reserve now g))"
  shows "gcra_inv (snd (gcra_reserve now g)) (A @ [now])"
proof -
  let ?t = "max (g_tat g) now"
  have ok: "gcra_ok g" using assms(1) by (simp add: gcra_inv_def)
  then have r: "snd (gcra_reserve now g) = g\<lparr>g_tat := ?t + g_emission g\<rparr>" and a: "?t - g_tolerance g \<le> now"
    using assms(2) by (auto simp: gcra_reserve_cases Let_def split: if_splits)
  have "conforms (g_emission g) (g_burst g) (A @ [now])"
    using assms(1) a by (intro conforms_snoc[of _ _ _ "g_tat g" ?t]) (auto simp: gcra_inv_def gcra_ok_def)
  moreover have "backlog (g_emission g) (A @ [now]) (?t + g_emission g)"
    using assms(1) by (intro backlog_snoc[of _ _ "g_tat g"]) (auto simp: gcra_inv_def gcra_ok_def)
  ultimately show ?thesis using ok by (simp add: gcra_inv_def r gcra_ok_def)
qed

lemma gcra_inv_keep: "gcra_inv g A \<Longrightarrow> gcra_inv (snd (gcra_reserve now g)) A"
  using backlog_mono[of "g_emission g" A "g_tat g" "max (g_tat g) now + g_emission g"]
  by (auto simp: gcra_inv_def gcra_reserve_cases Let_def gcra_ok_def)

lemma gcra_inv_start: "gcra_ok g \<Longrightarrow> gcra_inv g []"
  by (simp add: gcra_inv_def conforms_def backlog_def)


fun gcra_run :: "time list \<Rightarrow> gcraLimiter \<Rightarrow> time list \<Rightarrow> time list \<times> gcraLimiter" where
  "gcra_run [] g A = (A, g)"
| "gcra_run (now # ts) g A =
     (let ((ok, _), g') = gcra_reserve now g in gcra_run ts g' (if ok then A @ [now] else A))"

lemma gcra_run_inv: "gcra_inv g A \<Longrightarrow> gcra_run ts g A = (A', g') \<Longrightarrow> gcra_inv g' A' \<and> g_emission g' = g_emission g \<and> g_burst g' = g_burst g"
proof (induction ts arbitrary: g A)
  case (Cons now ts)
  obtain ok d h where r: "gcra_reserve now g = ((ok, d), h)" by (metis surj_pair)
  have "gcra_inv h (if ok then A @ [now] else A)"
    using gcra_inv_admit[OF Cons.prems(1), of now] gcra_inv_keep[OF Cons.prems(1), of now] by (simp add: r)
  from Cons.IH[OF this] Cons.prems(2) show ?case using gcra_reserve_frame[OF r] by (simp add: r)
qed auto

definition gcra_sound_config :: "f64 \<Rightarrow> int \<Rightarrow> bool" where
  "gcra_sound_config rps burst \<longleftrightarrow> 0 < rps \<and> 1 \<le> burst \<and> 0 \<le> g_emission (newGCRA rps burst) \<and>
     g_emission (newGCRA rps burst) * (burst - 1) \<le> MaxInt64"

lemma newGCRA_ok: "gcra_sound_config rps burst \<Longrightarrow> gcra_ok (newGCRA rps burst)"
proof -
  assume a: "gcra_sound_config rps burst"
  let ?E = "g_emission (newGCRA rps burst)"
  have "0 \<le> ?E * (burst - 1)" "?E * (burst - 1) \<le> MaxInt64"
    using a by (auto simp: gcra_sound_config_def)
  then have "wrap64 (?E * (burst - 1)) = ?E * (burst - 1)"
    by (intro wrap64_id) (simp_all add: MinInt64_def)
  then show ?thesis using a by (simp add: gcra_ok_def gcra_sound_config_def newGCRA_sel)
qed

text \<open>
  C25. The rate a GCRA limiter enforces: whatever the arrival times (in any order), any \<open>n\<close>
  consecutive admitted events of \<open>newGCRA rps burst\<close> span at least \<open>(n - burst)\<close> emission
  intervals, provided \<open>emission * (burst - 1)\<close> fits an \<open>int64\<close>.
\<close>

theorem gcra_conforms:
  assumes "gcra_sound_config rps burst"
  shows "conforms (g_emission (newGCRA rps burst)) burst (fst (gcra_run ts (newGCRA rps burst) []))"
proof -
  obtain A g where r: "gcra_run ts (newGCRA rps burst) [] = (A, g)" by fastforce
  from gcra_run_inv[OF gcra_inv_start[OF newGCRA_ok[OF assms]] r] show ?thesis
    by (auto simp: r gcra_inv_def newGCRA_sel)
qed

lemma gcra_sound_10_3: "gcra_sound_config 10 3"
  unfolding gcra_sound_config_def by code_simp

theorem gcra_conforms_witness:
  "gcra_sound_config 10 3 \<and> conforms (g_emission (newGCRA 10 3)) 3 (fst (gcra_run [5, 5, 5, 5] (newGCRA 10 3) []))"
  by (intro conjI gcra_conforms gcra_sound_10_3)


text \<open>
  The wait a denied caller is told is exact: when \<open>reserve\<close> refuses an event with a
  retry-after \<open>d\<close> that did not saturate, the same limiter admits the event at \<open>now + d\<close>
  and at no earlier moment.
\<close>

lemma gcra_retry_exact:
  assumes "gcra_ok g" "fst (gcra_reserve now g) = (False, d)" "d < MaxInt64"
  shows "0 < d \<and> fst (fst (gcra_reserve (now + d) g)) \<and>
    (\<forall>t. now \<le> t \<and> t < now + d \<longrightarrow> \<not> fst (fst (gcra_reserve t g)))"
proof -
  let ?a = "g_tat g - g_tolerance g"
  have tol: "0 \<le> g_tolerance g" using assms(1) by (rule gcra_ok_tolerance)
  have now: "now < max (g_tat g) now - g_tolerance g" and d: "d = time_Sub (max (g_tat g) now - g_tolerance g) now"
    using assms(2) by (auto simp: gcra_reserve_cases[OF assms(1)] Let_def split: if_splits)
  have m: "max (g_tat g) now = g_tat g" using now tol by simp
  have "d = ?a - now"
    using d assms(3) now unfolding m by (auto simp: time_Sub_def MinInt64_def MaxInt64_def)
  then show ?thesis using now m tol by (auto simp: gcra_reserve_cases[OF assms(1)] Let_def)
qed

definition busy_gcra :: gcraLimiter where
  "busy_gcra = \<lparr>g_emission = 10, g_tolerance = 20, g_tat = 130, g_rps = 1, g_burst = 3\<rparr>"

theorem gcra_retry_exact_witness:
  "gcra_ok busy_gcra \<and> fst (gcra_reserve 100 busy_gcra) = (False, 10) \<and> fst (fst (gcra_reserve 110 busy_gcra))"
  using gcra_retry_exact[of busy_gcra 100 10]
  by (simp add: busy_gcra_def gcra_ok_def gcra_reserve_def time_Before_def time_Add_def time_Sub_def
      wrap64_def MaxInt64_def MinInt64_def)

text \<open>A burst on a limiter that already ran \<open>k\<close> events ahead.\<close>

lemma gcra_burst_run:
  assumes "gcra_ok g" "0 < g_emission g" "max (g_tat g) now = now + int k * g_emission g" "int k \<le> g_burst g"
  shows "fst (gcra_run (replicate n now) g A) = A @ replicate (min n (nat (g_burst g) - k)) now"
  using assms
proof (induction n arbitrary: g k A)
  case (Suc n)
  let ?E = "g_emission g"
  have tol: "g_tolerance g = ?E * (g_burst g - 1)" using Suc.prems(1) by (simp add: gcra_ok_def)
  have denied: "now < now + int k * ?E - g_tolerance g \<longleftrightarrow> int k = g_burst g"
  proof -
    have "now < now + int k * ?E - g_tolerance g \<longleftrightarrow> 0 < ?E * (int k - (g_burst g - 1))"
      by (simp add: tol algebra_simps)
    also have "\<dots> \<longleftrightarrow> 0 < int k - (g_burst g - 1)" using Suc.prems(2) by (simp add: zero_less_mult_iff)
    finally show ?thesis using Suc.prems(4) by linarith
  qed
  show ?case
  proof (cases "int k = g_burst g")
    case True
    then have "gcra_reserve now g = ((False, time_Sub (now + int k * ?E - g_tolerance g) now), g)"
      using denied by (simp add: gcra_reserve_cases[OF Suc.prems(1)] Suc.prems(3))
    moreover have "nat (g_burst g) - k = 0" using True by simp
    ultimately show ?thesis using Suc.IH[OF Suc.prems] by (simp add: Let_def)
  next
    case False
    let ?g = "g\<lparr>g_tat := now + int k * ?E + ?E\<rparr>"
    have r: "gcra_reserve now g = ((True, 0), ?g)"
      using denied False by (simp add: gcra_reserve_cases[OF Suc.prems(1)] Suc.prems(3))
    have "0 \<le> int k * ?E" using Suc.prems(2) by simp
    then have "max (g_tat ?g) now = now + int (Suc k) * g_emission ?g" using Suc.prems(2) by (simp add: algebra_simps)
    moreover have "gcra_ok ?g" using Suc.prems(1) by (simp add: gcra_ok_def)
    moreover have "min (Suc n) (nat (g_burst g) - k) = Suc (min n (nat (g_burst g) - Suc k))"
      using False Suc.prems(4) by linarith
    ultimately show ?thesis using Suc.IH[of ?g "Suc k"] Suc.prems(2,4) False by (simp add: r Let_def)
  qed
qed simp

text \<open>
  The burst a GCRA limiter grants: of \<open>n\<close> events that arrive at once at an idle
  limiter, it admits exactly the first \<open>burst\<close>.
\<close>

lemma gcra_burst_exact:
  assumes "gcra_ok g" "0 < g_emission g" "g_tat g \<le> now"
  shows "fst (gcra_run (replicate n now) g []) = replicate (min n (nat (g_burst g))) now"
  using gcra_burst_run[of g now 0 n "[]"] assms by (simp add: gcra_ok_def)

theorem gcra_burst_exact_witness:
  "gcra_ok busy_gcra \<and> 0 < g_emission busy_gcra \<and> g_tat busy_gcra \<le> 200 \<and>
   fst (gcra_run (replicate 5 200) busy_gcra []) = [200, 200, 200]"
  using gcra_burst_exact[of busy_gcra 200 5]
  by (simp add: busy_gcra_def gcra_ok_def MaxInt64_def numeral_eq_Suc)

section \<open>The shared stores against the local limiter\<close>

fun gcra_decisions :: "time list \<Rightarrow> gcraLimiter \<Rightarrow> bool list" where
  "gcra_decisions [] g = []"
| "gcra_decisions (now # ts) g = (let ((ok, _), g') = gcra_reserve now g in ok # gcra_decisions ts g')"

fun mem_decisions :: "string \<Rightarrow> f64 \<Rightarrow> int \<Rightarrow> time list \<Rightarrow> (string \<rightharpoonup> time) \<Rightarrow> bool list" where
  "mem_decisions key rps burst [] m = []"
| "mem_decisions key rps burst (now # ts) m =
     (let ((ok, _), m') = MemStore_Allow key rps burst now m in ok # mem_decisions key rps burst ts m')"

definition mem_tat :: "string \<Rightarrow> (string \<rightharpoonup> time) \<Rightarrow> time" where
  "mem_tat key m = (case m key of None \<Rightarrow> 0 | Some t \<Rightarrow> t)"

definition emission_of :: "f64 \<Rightarrow> duration" where
  "emission_of rps = f64_trunc (f64_div (f64_of_int Second) rps)"

lemma emission_newGCRA: "0 < rps \<Longrightarrow> g_emission (newGCRA rps burst) = emission_of rps"
  by (simp add: newGCRA_def gcra_configure_def emission_of_def Let_def)

lemma MemStore_step:
  assumes "0 < rps" "0 < emission_of rps" "0 \<le> b" "emission_of rps * b \<le> MaxInt64" "0 \<le> now"
  shows "fst (fst (MemStore_Allow key rps (b + 1) now m)) = (max (mem_tat key m) now + emission_of rps - emission_of rps * b \<le> now)"
    and "mem_tat key (snd (MemStore_Allow key rps (b + 1) now m)) =
      (if max (mem_tat key m) now + emission_of rps - emission_of rps * b \<le> now
       then max (mem_tat key m) now + emission_of rps else mem_tat key m)"
proof -
  let ?E = "emission_of rps"
  have nn: "0 \<le> ?E * b" using assms(2,3) by simp
  have w1: "wrap64 (?E * b) = ?E * b" and w2: "wrap64 (- (?E * b)) = - (?E * b)"
    using nn assms(4) by (auto intro!: wrap64_id simp: MinInt64_def MaxInt64_def)
  have t: "(case m key of None \<Rightarrow> now | Some t \<Rightarrow> if time_Before t now then now else t) = max (mem_tat key m) now"
    using assms(5) by (auto simp: mem_tat_def max_def time_Before_def split: option.split)
  have d: "MemStore_Allow key rps (b + 1) now m =
    (let tat = max (mem_tat key m) now in
     if now < tat + ?E - ?E * b then ((False, time_Sub (tat + ?E - ?E * b) now), m) else ((True, 0), m(key \<mapsto> tat + ?E)))"
    using assms(1,3) w1 w2 t
    by (simp add: MemStore_Allow_def Let_def time_Add_def emission_of_def[symmetric]) (simp add: time_Before_def)
  show "fst (fst (MemStore_Allow key rps (b + 1) now m)) = (max (mem_tat key m) now + ?E - ?E * b \<le> now)"
    and "mem_tat key (snd (MemStore_Allow key rps (b + 1) now m)) =
      (if max (mem_tat key m) now + ?E - ?E * b \<le> now then max (mem_tat key m) now + ?E else mem_tat key m)"
    by (auto simp: d Let_def mem_tat_def[of key "m(key \<mapsto> max (mem_tat key m) now + ?E)"])
qed

definition gcra_at :: "f64 \<Rightarrow> int \<Rightarrow> time \<Rightarrow> gcraLimiter" where
  "gcra_at rps b tat = (newGCRA rps b)\<lparr>g_tat := tat\<rparr>"

lemma gcra_at_step:
  assumes "0 < rps" "0 < emission_of rps" "0 \<le> b" "emission_of rps * b \<le> MaxInt64"
  shows "fst (fst (gcra_reserve now (gcra_at rps b tat))) = (max tat now + emission_of rps - emission_of rps * b \<le> now) \<and>
    snd (gcra_reserve now (gcra_at rps b tat)) =
      (if max tat now + emission_of rps - emission_of rps * b \<le> now then gcra_at rps b (max tat now + emission_of rps)
       else gcra_at rps b tat)"
proof (cases "1 \<le> b")
  case True
  let ?E = "emission_of rps"
  have "?E * (b - 1) \<le> ?E * b" using assms(2) by simp
  then have "?E * (b - 1) \<le> MaxInt64" using assms(4) by linarith
  then have "gcra_sound_config rps b"
    using assms True by (simp add: gcra_sound_config_def emission_newGCRA)
  from newGCRA_ok[OF this] have ok: "gcra_ok (gcra_at rps b tat)" by (simp add: gcra_at_def gcra_ok_def)
  have "g_tolerance (gcra_at rps b tat) = ?E * (b - 1)"
    using ok by (simp add: gcra_ok_def gcra_at_def newGCRA_sel emission_newGCRA assms(1))
  moreover have "g_emission (gcra_at rps b tat) = ?E" "g_tat (gcra_at rps b tat) = tat"
    "(gcra_at rps b tat)\<lparr>g_tat := u\<rparr> = gcra_at rps b u" for u
    by (simp_all add: gcra_at_def emission_newGCRA assms(1))
  ultimately show ?thesis unfolding gcra_reserve_cases[OF ok] Let_def
    by (simp add: right_diff_distrib)
next
  case False
  then have "b = 0" using assms(3) by simp
  then show ?thesis using assms(2) by (auto simp: gcra_reserve_def gcra_at_def newGCRA_sel)
qed

text \<open>
  What \<open>MemStore\<close> enforces: with burst \<open>b + 1\<close> it admits exactly the events the local
  GCRA limiter of burst \<open>b\<close> admits, on every sequence of arrival times.  A shared limit is
  one event tighter than the local limit of the same configuration, and with burst 1 it
  admits nothing.
\<close>

lemma memstore_one_less:
  assumes "0 < rps" "0 < emission_of rps" "0 \<le> b" "emission_of rps * b \<le> MaxInt64" "\<forall>t\<in>set ts. 0 \<le> t"
  shows "mem_decisions key rps (b + 1) ts (\<lambda>_. None) = gcra_decisions ts (newGCRA rps b)"
proof -
  have "mem_decisions key rps (b + 1) ts m = gcra_decisions ts (gcra_at rps b (mem_tat key m))" for m
    using assms(5)
  proof (induction ts arbitrary: m)
    case (Cons now ts)
    have "0 \<le> now" using Cons.prems by simp
    note M = MemStore_step[OF assms(1-4) this, of key m]
    have "mem_decisions key rps (b + 1) ts (snd (MemStore_Allow key rps (b + 1) now m)) =
        gcra_decisions ts (gcra_at rps b (mem_tat key (snd (MemStore_Allow key rps (b + 1) now m))))"
      using Cons by simp
    then show ?case
      unfolding gcra_decisions.simps mem_decisions.simps Let_def case_prod_beta
      using M gcra_at_step[OF assms(1-4), of now "mem_tat key m"]
      by simp
  qed simp
  then have "mem_decisions key rps (b + 1) ts (\<lambda>_. None) = gcra_decisions ts (gcra_at rps b (mem_tat key (\<lambda>_. None)))" .
  then show ?thesis by (simp add: mem_tat_def gcra_at_def newGCRA_def gcra_configure_def Let_def)
qed

lemma memstore_one_less_witness:
  "mem_decisions ''k'' 10 1 [7, 2000000000] (\<lambda>_. None) = [False, False]"
proof -
  have e: "emission_of 10 = 100000000" by code_simp
  have "mem_decisions ''k'' 10 (0 + 1) [7, 2000000000] (\<lambda>_. None) = gcra_decisions [7, 2000000000] (newGCRA 10 0)"
    by (rule memstore_one_less) (simp_all add: e MaxInt64_def)
  then show ?thesis by (simp add: gcra_reserve_def newGCRA_sel)
qed

text \<open>The script with one key, over the readings of the caller's and the server's clock in microseconds.\<close>

fun script_decisions :: "string \<Rightarrow> int \<Rightarrow> int \<Rightarrow> (int \<times> int) list \<Rightarrow> (string \<rightharpoonup> int \<times> int) \<Rightarrow> bool list" where
  "script_decisions key burst period [] db = []"
| "script_decisions key burst period ((now, server) # ts) db =
     (let ((ok, _), db') = gcraLuaScript server key burst period now db in (ok = 1) # script_decisions key burst period ts db')"

text \<open>
  The value of a key is the arrival time of the limiter, and when the server has let it expire at a later
  call, that time has passed for the caller.
\<close>

definition script_sim :: "string \<Rightarrow> (string \<rightharpoonup> int \<times> int) \<Rightarrow> gcraLimiter \<Rightarrow> (int \<times> int) list \<Rightarrow> bool" where
  "script_sim key db g ts \<longleftrightarrow> (case db key of
     None \<Rightarrow> g_tat g = 0
   | Some (v, expires) \<Rightarrow> v = g_tat g \<and> (\<forall>(now, server)\<in>set ts. expires \<le> server \<longrightarrow> v \<le> now))"

lemma script_tat:
  assumes "script_sim key db g ((now, server) # ts)" "0 \<le> now"
  shows "(let tat0 = (case db key of Some (v, expires) \<Rightarrow> if server < expires then v else now | None \<Rightarrow> now)
          in if tat0 < now then now else tat0) = max (g_tat g) now"
  using assms by (auto simp: script_sim_def Let_def split: option.splits)

lemma ttl_covers: "(b + 1) * p \<le> (if - ((- ((b + 1) * p)) div 1000000) < 1 then 1 else - ((- ((b + 1) * p)) div 1000000)) * (1000000 :: int)"
proof -
  have "(b + 1) * p \<le> - ((- ((b + 1) * p)) div 1000000) * 1000000" by linarith
  then show ?thesis by (simp split: if_splits)
qed

text \<open>Between two calls the server's clock gains at most one emission interval on the callers'.\<close>

definition clocks_agree :: "int \<Rightarrow> (int \<times> int) list \<Rightarrow> bool" where
  "clocks_agree period ts \<longleftrightarrow> sorted_wrt (\<lambda>(now, server) (now', server'). server' - server \<le> now' - now + period) ts"

lemma script_step:
  assumes "script_sim key db g ((now, server) # ts)" "gcra_ok g" "0 \<le> now" "clocks_agree (g_emission g) ((now, server) # ts)"
  shows "(fst (fst (gcraLuaScript server key (g_burst g) (g_emission g) now db)) = 1) = fst (fst (gcra_reserve now g))"
    and "script_sim key (snd (gcraLuaScript server key (g_burst g) (g_emission g) now db)) (snd (gcra_reserve now g)) ts"
proof -
  let ?E = "g_emission g" and ?t = "max (g_tat g) now" and ?b = "g_burst g"
  have tol: "g_tolerance g = ?E * (?b - 1)" and E: "0 \<le> ?E" using assms(2) by (auto simp: gcra_ok_def)
  have eq: "now < ?t - g_tolerance g \<longleftrightarrow> now < ?t + ?E - ?b * ?E" by (simp add: tol algebra_simps)
  note s = script_tat[OF assms(1,3), unfolded Let_def]
  show "(fst (fst (gcraLuaScript server key ?b ?E now db)) = 1) = fst (fst (gcra_reserve now g))"
    by (simp add: gcraLuaScript_def Let_def s gcra_reserve_cases[OF assms(2)] eq)
  show "script_sim key (snd (gcraLuaScript server key ?b ?E now db)) (snd (gcra_reserve now g)) ts"
  proof (cases "now < ?t + ?E - ?b * ?E")
    case True
    then show ?thesis using assms(1)
      by (auto simp: gcraLuaScript_def Let_def s gcra_reserve_cases[OF assms(2)] eq script_sim_def split: option.splits)
  next
    case False
    let ?ttl = "\<lambda>c :: int. (if c < 1 then 1 else c) * 1000000"
    define c where "c = - ((- ((?b + 1) * ?E)) div 1000000)"
    have "?t + ?E \<le> n" if "(n, r) \<in> set ts" "server + ?ttl c \<le> r" for n r
    proof -
      have "r - server \<le> n - now + ?E" using assms(4) that(1) by (auto simp: clocks_agree_def)
      moreover have "(?b + 1) * ?E = ?b * ?E + ?E" by (simp add: algebra_simps)
      ultimately show ?thesis using False that(2) ttl_covers[of ?b ?E] unfolding c_def by linarith
    qed
    then show ?thesis using False
      unfolding gcraLuaScript_def Let_def s gcra_reserve_cases[OF assms(2)] eq script_sim_def c_def[symmetric] by auto
  qed
qed

text \<open>
  C27. The Redis script implements the local limiter: on every sequence of non-negative readings of the
  callers' clock, in any order, the script with its expiring key admits exactly the events a GCRA limiter of
  the same emission interval and burst admits, provided that between any two calls the clock of
  the Redis server, by which the key expires, gains at most one emission interval on the callers'.
  In particular expiry of the key then never forgets a backlog.
\<close>

theorem redis_script_matches_gcra:
  assumes "gcra_ok g" "g_tat g = 0" "\<forall>(now, server)\<in>set ts. 0 \<le> now" "clocks_agree (g_emission g) ts"
  shows "script_decisions key (g_burst g) (g_emission g) ts (\<lambda>_. None) = gcra_decisions (map fst ts) g"
proof -
  have "script_decisions key B E ts db = gcra_decisions (map fst ts) g"
    if "script_sim key db g ts" "gcra_ok g" "g_burst g = B" "g_emission g = E" "clocks_agree E ts" for B E db g
    using assms(3) that
  proof (induction ts arbitrary: db g)
    case (Cons nc ts)
    obtain now server where nc: "nc = (now, server)" by fastforce
    obtain res g' where r: "gcra_reserve now g = (res, g')" by fastforce
    have now: "0 \<le> now" using Cons.prems(1) by (simp add: nc)
    have a: "clocks_agree (g_emission g) ((now, server) # ts)" using Cons.prems(5,6) by (simp add: nc)
    note st = script_step[OF Cons.prems(2)[unfolded nc] Cons.prems(3) now a]
    have "script_decisions key B E ts (snd (gcraLuaScript server key B E now db)) = gcra_decisions (map fst ts) g'"
      using st(2) Cons.prems gcra_reserve_frame[OF r] gcra_reserve_ok[OF Cons.prems(3), of now]
      by (intro Cons.IH) (simp_all add: r nc clocks_agree_def)
    then show ?case using st(1) Cons.prems by (simp add: r nc case_prod_beta Let_def)
  qed simp
  from this[OF _ assms(1) refl refl assms(4)] show ?thesis using assms(2) by (simp add: script_sim_def)
qed

theorem redis_script_matches_gcra_witness:
  "script_decisions ''k'' 1 1000 [(5, 50), (900, 940), (1005, 1055)] (\<lambda>_. None) =
   gcra_decisions [5, 900, 1005] \<lparr>g_emission = 1000, g_tolerance = 0, g_tat = 0, g_rps = 0, g_burst = 1\<rparr>"
  using redis_script_matches_gcra[of "\<lparr>g_emission = 1000, g_tolerance = 0, g_tat = 0, g_rps = 0, g_burst = 1\<rparr>" "[(5, 50), (900, 940), (1005, 1055)]" "''k''"]
  by (simp add: gcra_ok_def MaxInt64_def clocks_agree_def)

section \<open>The composed limiter\<close>

type_synonym call = "time \<times> string \<times> string"

fun allow_run where
  "allow_run lib store [] rs A = (A, rs)"
| "allow_run lib store ((now, key, rule) # cs) rs A =
     (let ((ok, _, _), rs') = allow lib store now key rule rs
      in allow_run lib store cs rs' (if ok then A @ [now] else A))"

lemma find_entry_global [simp]: "rl_globalLimiter (snd (find_entry lib now key rule r)) = rl_globalLimiter r"
  by (auto simp: find_entry_def ensureCapacityLocked_def Let_def split: option.splits)

lemma put_entry_global [simp]: "rl_globalLimiter (put_entry key rule e r) = rl_globalLimiter r"
  by (auto simp: put_entry_def split: option.splits)

lemma allow_global:
  assumes "rl_globalLimiter r = GCRA g" "gcra_inv g A"
  obtains g' where "rl_globalLimiter (fst (snd (allow lib store now key rule (r, st)))) = GCRA g'"
    and "gcra_inv g' (if fst (fst (allow lib store now key rule (r, st))) then A @ [now] else A)"
    and "g_emission g' = g_emission g" "g_burst g' = g_burst g"
proof -
  obtain ok d g1 where g1: "gcra_reserve now g = ((ok, d), g1)" by (metis surj_pair)
  have admit: "ok \<Longrightarrow> gcra_inv g1 (A @ [now])" and keep: "gcra_inv g1 A"
    using gcra_inv_admit[OF assms(2), of now] gcra_inv_keep[OF assms(2), of now] by (simp_all add: g1)
  note frame = gcra_reserve_frame[OF g1]
  show ?thesis
  proof (cases "fst (fst (store_gate store now r st))")
    case False
    then show ?thesis using that[of g] assms by (simp add: allow_def case_prod_beta Let_def)
  next
    case gate: True
    show ?thesis
      using that[of g1] admit keep frame gate
      by (cases ok) (auto simp: allow_def case_prod_beta Let_def assms(1) g1)
  qed
qed

text \<open>
  C26. The aggregate limit of the algorithm \<open>gcra\<close> holds end to end: for a rate limiter whose global limiter is a
  sound GCRA (not the token bucket, which a library implements), whatever keys and rules the calls name, whatever the token-bucket library and the
  shared store do, the admitted calls conform to the global rate and burst.
\<close>

theorem global_rate_enforced:
  assumes "rl_globalLimiter r = GCRA g" "gcra_ok g"
  shows "conforms (g_emission g) (g_burst g) (fst (allow_run lib store cs (r, st) []))"
proof -
  have "conforms (g_emission g) (g_burst g) (fst (allow_run lib store cs rs A))"
    if "rl_globalLimiter (fst rs) = GCRA h" "gcra_inv h A" "g_emission h = g_emission g" "g_burst h = g_burst g" for rs A h
    using that
  proof (induction cs arbitrary: rs A h)
    case Nil
    then show ?case by (simp add: gcra_inv_def)
  next
    case (Cons c cs)
    obtain now key rule where c: "c = (now, key, rule)" by (metis surj_pair)
    obtain r' st' where rs: "rs = (r', st')" by fastforce
    with Cons.prems(1) have "rl_globalLimiter r' = GCRA h" by simp
    from allow_global[OF this Cons.prems(2), of lib store now key rule st'] obtain h' where
      "rl_globalLimiter (fst (snd (allow lib store now key rule (r', st')))) = GCRA h'"
      "gcra_inv h' (if fst (fst (allow lib store now key rule (r', st'))) then A @ [now] else A)"
      "g_emission h' = g_emission h" "g_burst h' = g_burst h" by metis
    from Cons.IH[OF this(1,2)] this(3,4) Cons.prems(3,4) show ?case
      by (simp add: c rs case_prod_beta Let_def)
  qed
  from this[OF _ gcra_inv_start[OF assms(2)]] assms(1) show ?thesis by simp
qed

definition null_rate :: "(unit, unit) rate_lib" where
  "null_rate = \<lparr>rate_NewLimiter = (\<lambda>_ _. ()), rate_ReserveN = (\<lambda>_ _ t. ((), t)), rate_OK = (\<lambda>_. True),
     rate_DelayFrom = (\<lambda>_ _. 0), rate_CancelAt = (\<lambda>_ _ t. t)\<rparr>"

definition gcra_opts :: lim_options where
  "gcra_opts = \<lparr>lo_Algorithm = AlgorithmGCRA, lo_PerKeyRPS = 10, lo_PerKeyBurst = 3, lo_GlobalRPS = 0, lo_GlobalBurst = 0\<rparr>"

lemma gcra_opts_global: "rl_globalLimiter (NewRateLimiterWithOptions null_rate gcra_opts) = GCRA (newGCRA 10 3)"
  by (simp add: NewRateLimiterWithOptions_def gcra_opts_def newAlgoLimiter_def AlgorithmGCRA_def)

theorem global_rate_enforced_witness:
  "rl_globalLimiter (NewRateLimiterWithOptions null_rate gcra_opts) = GCRA (newGCRA 10 3) \<and> gcra_ok (newGCRA 10 3) \<and>
   conforms (g_emission (newGCRA 10 3)) (g_burst (newGCRA 10 3))
     (fst (allow_run null_rate (\<lambda>_ _ _ _ m. ((True, 0), m)) [(5, ''a'', []), (6, ''b'', [])]
        (NewRateLimiterWithOptions null_rate gcra_opts, ()) []))"
  by (intro conjI gcra_opts_global newGCRA_ok[OF gcra_sound_10_3]
      global_rate_enforced[OF gcra_opts_global newGCRA_ok[OF gcra_sound_10_3]])

text \<open>The default map stays within its capacity and keeps one entry per key.\<close>

definition lim_ok :: "'tb rateLimiter \<Rightarrow> bool" where
  "lim_ok r \<longleftrightarrow> distinct (map fst (rl_limiters r)) \<and>
     (0 < rl_maxEntries r \<longrightarrow> int (length (rl_limiters r)) \<le> rl_maxEntries r)"

lemma length_alist_update:
  "length (AList.update k v al) = (if k \<in> fst ` set al then length al else Suc (length al))"
  by (induction al) auto

lemma length_alist_delete: "k \<in> fst ` set al \<Longrightarrow> length (AList.delete k al) < length al"
proof (induction al)
  case (Cons p al)
  have "length (AList.delete k al) \<le> length al" by (simp add: AList.delete_eq)
  then show ?case using Cons by (cases "fst p = k") (auto simp: less_Suc_eq_le image_iff)
qed simp

lemma oldest_mem:
  "oldest es acc = Some (k, t) \<Longrightarrow> (\<exists>e. (k, e) \<in> set es \<and> kl_lastSeen e = t) \<or> acc = Some (k, t)"
proof (induction es arbitrary: acc)
  case (Cons p es)
  obtain key entry where p: "p = (key, entry)" by fastforce
  let ?a = "case acc of None \<Rightarrow> Some (key, kl_lastSeen entry)
     | Some (k, seen) \<Rightarrow> if time_Before (kl_lastSeen entry) seen then Some (key, kl_lastSeen entry) else acc"
  have "?a = Some (key, kl_lastSeen entry) \<or> ?a = acc" by (auto split: option.split)
  then show ?case using Cons.IH[of ?a] Cons.prems by (auto simp: p)
qed simp

lemma oldest_some: "es \<noteq> [] \<or> acc \<noteq> None \<Longrightarrow> oldest es acc \<noteq> None"
  by (induction es acc rule: oldest.induct) (auto split: option.splits)

lemma ensureCapacity_room:
  assumes "0 < rl_maxEntries r"
  shows "int (length (rl_limiters (ensureCapacityLocked now r))) < rl_maxEntries r \<or>
    int (length (rl_limiters (ensureCapacityLocked now r))) < int (length (rl_limiters r))"
proof -
  let ?es = "filter (\<lambda>e. \<not> idle (rl_idleTTL r) now e) (rl_limiters r)"
  have le: "length ?es \<le> length (rl_limiters r)" by simp
  show ?thesis
  proof (cases "oldest ?es None")
    case None
    then have "?es = []" using oldest_some by blast
    then show ?thesis using assms by (auto simp: ensureCapacityLocked_def Let_def)
  next
    case (Some p)
    obtain k t where p: "p = (k, t)" by fastforce
    have "k \<in> fst ` set ?es" using oldest_mem[of ?es None k t] Some p by force
    from length_alist_delete[OF this] have "length (AList.delete k ?es) < length (rl_limiters r)" using le by linarith
    then show ?thesis using assms Some p by (auto simp: ensureCapacityLocked_def Let_def)
  qed
qed

lemma ensureCapacity_sel [simp]: "rl_maxEntries (ensureCapacityLocked now r) = rl_maxEntries r"
  "rl_rules (ensureCapacityLocked now r) = rl_rules r"
  by (auto simp: ensureCapacityLocked_def Let_def split: option.splits)

lemma ensureCapacity_distinct:
  "distinct (map fst (rl_limiters r)) \<Longrightarrow> distinct (map fst (rl_limiters (ensureCapacityLocked now r)))"
  by (auto simp: ensureCapacityLocked_def Let_def distinct_map_filter distinct_delete split: option.splits)

lemma ensureCapacity_subset: "set (rl_limiters (ensureCapacityLocked now r)) \<subseteq> set (rl_limiters r)"
  by (auto simp: ensureCapacityLocked_def Let_def AList.delete_eq split: option.splits)

lemma find_put_ok:
  assumes "lim_ok r"
  shows "lim_ok (put_entry key rule e (snd (find_entry lib now key rule r)))"
proof (cases "rule_of r rule")
  case (Some ru)
  then show ?thesis using assms by (auto simp: find_entry_def put_entry_def lim_ok_def split: option.split)
next
  case None
  show ?thesis
  proof (cases "map_of (rl_limiters r) key")
    case (Some x)
    from map_of_SomeD[OF this] have "key \<in> fst ` set (rl_limiters r)" by force
    then show ?thesis using assms None Some
      by (simp add: find_entry_def put_entry_def lim_ok_def length_alist_update distinct_update)
  next
    case new: None
    let ?r = "ensureCapacityLocked now r"
    have ro: "rule_of ?r rule = None" using None by (simp add: rule_of_def split: if_splits)
    have "key \<notin> fst ` set (rl_limiters ?r)"
      using new ensureCapacity_subset[of now r] by (auto simp: map_of_eq_None_iff)
    then show ?thesis
      using assms None new ro ensureCapacity_room[of r now] ensureCapacity_distinct[of r now]
      by (auto simp: find_entry_def put_entry_def lim_ok_def length_alist_update distinct_update Let_def)
  qed
qed

datatype lim_op =
    CallOp time string string
  | CleanupOp time
  | RatesOp f64 int f64 int
  | RuleOp string f64 int

fun lim_step where
  "lim_step lib store (CallOp now key rule) rs = snd (allow lib store now key rule rs)"
| "lim_step lib store (CleanupOp now) (r, st) = (lim_cleanup now r, st)"
| "lim_step lib store (RatesOp p b g gb) (r, st) = (UpdateRates lib p b g gb r, st)"
| "lim_step lib store (RuleOp n p b) (r, st) = (AddRule n p b r, st)"

lemma allow_lim_ok: "lim_ok r \<Longrightarrow> lim_ok (fst (snd (allow lib store now key rule (r, st))))"
  using find_put_ok[of "r\<lparr>rl_globalLimiter := snd (reserve lib now (rl_globalLimiter r))\<rparr>" key rule _ lib now]
  by (auto simp: allow_def case_prod_beta Let_def lim_ok_def)

lemma lim_step_ok: "lim_ok r \<Longrightarrow> lim_ok (fst (lim_step lib store e (r, st)))"
proof (cases e)
  case (CleanupOp now)
  assume a: "lim_ok r"
  have "length (filter (\<lambda>e. \<not> idle (rl_idleTTL r) now e) (rl_limiters r)) \<le> length (rl_limiters r)" by simp
  moreover have "distinct (map fst (rl_limiters r))" "0 < rl_maxEntries r \<longrightarrow> int (length (rl_limiters r)) \<le> rl_maxEntries r"
    using a by (simp_all add: lim_ok_def)
  ultimately have "lim_ok (lim_cleanup now r)"
    unfolding lim_ok_def lim_cleanup_def by (auto simp: distinct_map_filter simp del: length_filter_le)
  then show ?thesis using CleanupOp by simp
next
  case (CallOp now key rule)
  assume "lim_ok r"
  then show ?thesis using CallOp allow_lim_ok by simp
qed (auto simp: lim_ok_def UpdateRates_def AddRule_def case_prod_beta comp_def)

text \<open>
  Bounded memory: through every sequence of requests, cleanup ticks, rate updates and rule
  registrations, the default per-key map of a new rate limiter never holds more than
  \<open>maxEntries\<close> limiters, however many distinct keys clients send.
\<close>

lemma limiter_capacity:
  "int (length (rl_limiters (fst (fold (lim_step lib store) es (NewRateLimiterWithOptions lib opts, st))))) \<le> 100000"
proof -
  have "lim_ok (fst (fold (lim_step lib store) es rs)) \<and>
      rl_maxEntries (fst (fold (lim_step lib store) es rs)) = rl_maxEntries (fst rs)" if "lim_ok (fst rs)" for rs
    using that
  proof (induction es arbitrary: rs)
    case (Cons e es)
    obtain r st where rs: "rs = (r, st)" by fastforce
    have "rl_maxEntries (fst (lim_step lib store e (r, st))) = rl_maxEntries r"
      by (cases e) (auto simp: allow_def case_prod_beta Let_def lim_cleanup_def UpdateRates_def AddRule_def
          put_entry_def find_entry_def split: option.splits)
    with Cons.IH[of "lim_step lib store e rs"] lim_step_ok[of r lib store e st] Cons.prems show ?case by (simp add: rs)
  qed simp
  moreover have "rl_limiters (NewRateLimiterWithOptions lib opts) = []" "rl_maxEntries (NewRateLimiterWithOptions lib opts) = 100000"
    by (simp_all add: NewRateLimiterWithOptions_def Let_def)
  ultimately show ?thesis unfolding lim_ok_def by (metis distinct.simps(1) fst_conv int_ops(1) less_imp_le list.map(1)
      list.size(3) zero_less_numeral)
qed

end
