(* ===== verification/Http.thy ===== *)
theory Http
  imports GoStrings "HOL-Library.AList"
begin

text \<open>
  What the sources use of \<open>net/http\<close>: the parts of a request and of a response that they
  read, and header maps from canonical names to lists of values.
\<close>

section \<open>Headers\<close>

definition token_char :: "char \<Rightarrow> bool" where
  "token_char c \<longleftrightarrow> (let n = of_char c :: nat in
     48 \<le> n \<and> n \<le> 57 \<or> 65 \<le> n \<and> n \<le> 90 \<or> 97 \<le> n \<and> n \<le> 122 \<or>
     n \<in> {33, 35, 36, 37, 38, 39, 42, 43, 45, 46, 94, 95, 96, 124, 126})"

fun canon :: "bool \<Rightarrow> string \<Rightarrow> string" where
  "canon up [] = []"
| "canon up (c # cs) = (if up then upper_char c else lower_char c) # canon (c = CHR ''-'') cs"

definition CanonicalHeaderKey :: "string \<Rightarrow> string" where
  "CanonicalHeaderKey s = (if list_all token_char s then canon True s else s)"

type_synonym header = "(string \<times> string list) list"

definition hdr_Values :: "header \<Rightarrow> string \<Rightarrow> string list" where
  "hdr_Values h name = (case map_of h (CanonicalHeaderKey name) of Some vs \<Rightarrow> vs | None \<Rightarrow> [])"

definition hdr_Get :: "header \<Rightarrow> string \<Rightarrow> string" where
  "hdr_Get h name = (case hdr_Values h name of v # _ \<Rightarrow> v | [] \<Rightarrow> [])"

definition hdr_Set :: "string \<Rightarrow> string \<Rightarrow> header \<Rightarrow> header" where
  "hdr_Set name v h = AList.update (CanonicalHeaderKey name) [v] h"

definition hdr_Add :: "string \<Rightarrow> string \<Rightarrow> header \<Rightarrow> header" where
  "hdr_Add name v h = AList.update (CanonicalHeaderKey name) (hdr_Values h name @ [v]) h"

definition hdr_Del :: "string \<Rightarrow> header \<Rightarrow> header" where
  "hdr_Del name h = AList.delete (CanonicalHeaderKey name) h"

section \<open>Requests\<close>

record request =
  r_Method :: string
  r_Host :: string
  r_URLHost :: string
  r_Path :: string
  r_RawQuery :: string
  r_RequestURI :: string
  r_Header :: header
  r_RemoteAddr :: string
  r_ContentLength :: int
  r_TLS :: bool

section \<open>Case folding and canonical names\<close>

lemma char_byte: obtains n :: nat where "c = char_of n" "n < 256"
proof -
  have "c = char_of (of_char c mod 256 :: nat)" by simp
  then show ?thesis using that[of "of_char c mod 256"] by simp
qed

lemma of_char_byte: "n < 256 \<Longrightarrow> (of_char (char_of n :: char) :: nat) = n"
  by simp

lemma lower_byte: "(n :: nat) < 256 \<Longrightarrow> lower_char (char_of n) = char_of (if 65 \<le> n \<and> n \<le> 90 then n + 32 else n)"
  by (simp add: lower_char_def Let_def of_char_byte del: of_char_of)

lemma upper_byte: "(n :: nat) < 256 \<Longrightarrow> upper_char (char_of n) = char_of (if 97 \<le> n \<and> n \<le> 122 then n - 32 else n)"
  by (simp add: upper_char_def Let_def of_char_byte del: of_char_of)

lemma lower_idem [simp]: "lower_char (lower_char c) = lower_char c"
  by (rule char_byte[of c]) (simp add: lower_byte)

lemma upper_idem [simp]: "upper_char (upper_char c) = upper_char c"
  by (rule char_byte[of c]) (auto simp: upper_byte)

lemma lower_upper [simp]: "lower_char (upper_char c) = lower_char c"
  by (rule char_byte[of c]) (auto simp: upper_byte lower_byte)

lemma EqualFold_ToLower [simp]: "EqualFold s (ToLower t) = EqualFold s t"
  by (simp add: EqualFold_def ToLower_def comp_def)

lemma EqualFold_ToUpper [simp]: "EqualFold s (ToUpper t) = EqualFold s t"
  by (simp add: EqualFold_def ToLower_def ToUpper_def comp_def)

lemma dash_byte: "n < 256 \<Longrightarrow> (char_of n = CHR ''-'') = (n = (45 :: nat))"
proof -
  assume n: "n < 256"
  have "CHR ''-'' = char_of (45 :: nat)" by code_simp
  moreover have "(of_char (char_of (45 :: nat)) :: nat) = 45" by (simp add: of_char_byte del: of_char_of)
  ultimately show ?thesis using of_char_byte[OF n] by metis
qed

lemma dash_fold [simp]: "(upper_char c = CHR ''-'') = (c = CHR ''-'')" "(lower_char c = CHR ''-'') = (c = CHR ''-'')"
  by (rule char_byte[of c]; auto simp: upper_byte lower_byte dash_byte)+

lemma canon_idem: "canon up (canon up s) = canon up s"
  by (induction s arbitrary: up) auto


lemma token_byte: "(n :: nat) < 256 \<Longrightarrow> token_char (char_of n) \<longleftrightarrow>
    48 \<le> n \<and> n \<le> 57 \<or> 65 \<le> n \<and> n \<le> 90 \<or> 97 \<le> n \<and> n \<le> 122 \<or>
    n \<in> {33, 35, 36, 37, 38, 39, 42, 43, 45, 46, 94, 95, 96, 124, 126}"
  by (simp only: token_char_def Let_def of_char_byte)

lemma token_fold [simp]: "token_char (upper_char c) = token_char c" "token_char (lower_char c) = token_char c"
proof -
  obtain n where n: "c = char_of (n :: nat)" "n < 256" by (rule char_byte)
  show "token_char (upper_char c) = token_char c"
  proof (cases "97 \<le> n \<and> n \<le> 122")
    case True
    then have "n - 32 < 256" "65 \<le> n - 32" "n - 32 \<le> 90" by linarith+
    then have "token_char (char_of (n - 32))" using token_byte[of "n - 32"] by blast
    moreover have "token_char (char_of n)" using True token_byte[OF n(2)] by blast
    ultimately show ?thesis using True upper_byte[OF n(2)] by (simp add: n(1))
  next
    case False
    then show ?thesis using upper_byte[OF n(2)] by (auto simp: n(1))
  qed
  show "token_char (lower_char c) = token_char c"
  proof (cases "65 \<le> n \<and> n \<le> 90")
    case True
    then have "n + 32 < 256" "97 \<le> n + 32" "n + 32 \<le> 122" by linarith+
    then have "token_char (char_of (n + 32))" using token_byte[of "n + 32"] by blast
    moreover have "token_char (char_of n)" using True token_byte[OF n(2)] by blast
    ultimately show ?thesis using True lower_byte[OF n(2)] by (simp add: n(1))
  next
    case False
    then show ?thesis using lower_byte[OF n(2)] by (auto simp: n(1))
  qed
qed

lemma token_canon: "list_all token_char (canon up s) = list_all token_char s"
  by (induction s arbitrary: up) auto

lemma Canonical_idem [simp]: "CanonicalHeaderKey (CanonicalHeaderKey s) = CanonicalHeaderKey s"
  by (simp add: CanonicalHeaderKey_def token_canon canon_idem)

lemma hdr_Get_canonical [simp]: "hdr_Get h (CanonicalHeaderKey name) = hdr_Get h name"
  by (simp add: hdr_Get_def hdr_Values_def)

end
