(* ===== verification/Routing.thy ===== *)
theory Routing
  imports Stack Http
begin

text \<open>
  \<open>internal/routing/routing.go\<close>: first-match routing of requests to balancer groups.  Groups
  are allocated from balancer address \<open>a\<close> and backend address \<open>n\<close> on.
\<close>

record route_config =
  rc_Host :: string
  rc_PathPrefix :: string
  rc_Methods :: "string list"
  rc_Headers :: "(string \<times> string) list"
  rc_Algorithm :: string
  rc_Replicas :: int
  rc_LoadFactor :: f64
  rc_Backends :: "backend_config list"

record matcher =
  mt_host :: string
  mt_pathPrefix :: string
  mt_methods :: "string list"
  mt_headers :: "(string \<times> string) list"
  mt_bal :: "lb_heap balancer"

definition BuildGroup :: "(f64 \<Rightarrow> f64) \<Rightarrow> addr \<Rightarrow> bid \<Rightarrow> route_config \<Rightarrow> lb_heap \<Rightarrow> lb_heap balancer option \<times> lb_heap" where
  "BuildGroup mexp a n rc s =
     (case NewByAlgorithm mexp a (rc_Algorithm rc) (rc_Replicas rc) (rc_LoadFactor rc) s of
        (None, s1) \<Rightarrow> (None, s1)
      | (Some b, s1) \<Rightarrow> (Some b, fold (add_backend b) (enumerate n (rc_Backends rc)) s1))"

definition matches :: "matcher \<Rightarrow> request \<Rightarrow> bool" where
  "matches m req \<longleftrightarrow>
     (mt_host m \<noteq> [] \<longrightarrow> EqualFold (r_Host req) (mt_host m)) \<and>
     (mt_pathPrefix m \<noteq> [] \<longrightarrow> HasPrefix (r_Path req) (mt_pathPrefix m)) \<and>
     (mt_methods m \<noteq> [] \<longrightarrow> list_ex (\<lambda>meth. EqualFold (r_Method req) meth) (mt_methods m)) \<and>
     list_all (\<lambda>(name, want). hdr_Get (r_Header req) name = want) (mt_headers m)"

definition canonical_headers :: "(string \<times> string) list \<Rightarrow> (string \<times> string) list" where
  "canonical_headers hs = fold (\<lambda>(name, val) m. AList.update (CanonicalHeaderKey name) val m) hs []"

definition matcher_of :: "route_config \<Rightarrow> lb_heap balancer \<Rightarrow> matcher" where
  "matcher_of rc bal =
     \<lparr>mt_host = ToLower (rc_Host rc), mt_pathPrefix = rc_PathPrefix rc, mt_methods = map ToUpper (rc_Methods rc),
      mt_headers = canonical_headers (rc_Headers rc), mt_bal = bal\<rparr>"

record router =
  rt_routes :: "matcher list"
  rt_def :: "lb_heap balancer"

fun build_matchers :: "(f64 \<Rightarrow> f64) \<Rightarrow> addr \<Rightarrow> bid \<Rightarrow> route_config list \<Rightarrow> lb_heap \<Rightarrow> matcher list option \<times> lb_heap" where
  "build_matchers mexp a n [] s = (Some [], s)"
| "build_matchers mexp a n (rc # rcs) s =
     (case BuildGroup mexp a n rc s of
        (None, s1) \<Rightarrow> (None, s1)
      | (Some bal, s1) \<Rightarrow>
          (case build_matchers mexp (a + 1) (n + length (rc_Backends rc)) rcs s1 of
             (None, s2) \<Rightarrow> (None, s2)
           | (Some ms, s2) \<Rightarrow> (Some (matcher_of rc bal # ms), s2)))"

definition NewRouter :: "(f64 \<Rightarrow> f64) \<Rightarrow> addr \<Rightarrow> bid \<Rightarrow> route_config list \<Rightarrow> lb_heap balancer \<Rightarrow> lb_heap \<Rightarrow> router option \<times> lb_heap" where
  "NewRouter mexp a n rcs def s =
     (case build_matchers mexp a n rcs s of
        (None, s1) \<Rightarrow> (None, s1)
      | (Some ms, s1) \<Rightarrow> (Some \<lparr>rt_routes = ms, rt_def = def\<rparr>, s1))"

fun route_scan :: "matcher list \<Rightarrow> lb_heap balancer \<Rightarrow> request \<Rightarrow> lb_heap balancer" where
  "route_scan [] def req = def"
| "route_scan (m # ms) def req = (if matches m req then mt_bal m else route_scan ms def req)"

definition Route :: "router \<Rightarrow> request \<Rightarrow> lb_heap balancer" where
  "Route r req = route_scan (rt_routes r) (rt_def r) req"

definition Groups :: "router \<Rightarrow> lb_heap balancer list" where
  "Groups r = rt_def r # map mt_bal (rt_routes r)"

text \<open>The result is whether the update succeeded.\<close>

definition UpdateRoutes :: "(f64 \<Rightarrow> f64) \<Rightarrow> addr \<Rightarrow> bid \<Rightarrow> route_config list \<Rightarrow> router \<times> lb_heap \<Rightarrow> bool \<times> router \<times> lb_heap" where
  "UpdateRoutes mexp a n rcs rs =
     (let (r, s) = rs in
      case build_matchers mexp a n rcs s of
        (None, s1) \<Rightarrow> (False, r, s1)
      | (Some ms, s1) \<Rightarrow> (True, r\<lparr>rt_routes := ms\<rparr>, s1))"

section \<open>Routing by the configuration\<close>

text \<open>What a route of the configuration asks of a request, before any normalisation.\<close>

definition route_accepts :: "route_config \<Rightarrow> request \<Rightarrow> bool" where
  "route_accepts rc req \<longleftrightarrow>
     (rc_Host rc = [] \<or> EqualFold (r_Host req) (rc_Host rc)) \<and>
     (\<exists>rest. r_Path req = rc_PathPrefix rc @ rest) \<and>
     (rc_Methods rc = [] \<or> (\<exists>meth\<in>set (rc_Methods rc). EqualFold (r_Method req) meth)) \<and>
     (\<forall>(name, want)\<in>set (rc_Headers rc). hdr_Get (r_Header req) name = want)"

lemma HasPrefix_iff: "HasPrefix s p \<longleftrightarrow> (\<exists>r. s = p @ r)"
  unfolding HasPrefix_def by (metis append_eq_conv_conj append_take_drop_id)

lemma alist_update_new: "k \<notin> fst ` set m \<Longrightarrow> AList.update k v m = m @ [(k, v)]"
  by (induction m) auto

lemma canonical_headers_map:
  "distinct (map (CanonicalHeaderKey \<circ> fst) hs) \<Longrightarrow>
     set (canonical_headers hs) = (\<lambda>(name, val). (CanonicalHeaderKey name, val)) ` set hs"
proof -
  assume d: "distinct (map (CanonicalHeaderKey \<circ> fst) hs)"
  have "set (fold (\<lambda>(name, val) m. AList.update (CanonicalHeaderKey name) val m) hs m) =
      set m \<union> (\<lambda>(name, val). (CanonicalHeaderKey name, val)) ` set hs"
    if "distinct (map (CanonicalHeaderKey \<circ> fst) hs)" "(CanonicalHeaderKey \<circ> fst) ` set hs \<inter> fst ` set m = {}" for m
    using that
  proof (induction hs arbitrary: m)
    case (Cons p hs)
    obtain k v where p: "p = (k, v)" by fastforce
    have new: "CanonicalHeaderKey k \<notin> fst ` set m" using Cons.prems(2) by (auto simp: p)
    then have "AList.update (CanonicalHeaderKey k) v m = m @ [(CanonicalHeaderKey k, v)]" by (rule alist_update_new)
    then show ?case using Cons by (fastforce simp: p)
  qed simp
  from this[of "[]"] d show ?thesis by (simp add: canonical_headers_def)
qed

lemma matches_matcher_of:
  assumes "distinct (map (CanonicalHeaderKey \<circ> fst) (rc_Headers rc))"
  shows "matches (matcher_of rc bal) req = route_accepts rc req"
proof -
  have "(ToLower (rc_Host rc) = []) = (rc_Host rc = [])" by (simp add: ToLower_def)
  then show ?thesis unfolding matches_def route_accepts_def matcher_of_def
    by (auto simp: HasPrefix_iff list_ex_iff list_all_iff canonical_headers_map[OF assms])
qed

lemma build_matchers_bals:
  "build_matchers mexp a n rcs s = (Some ms, s') \<Longrightarrow> \<exists>bals. length bals = length rcs \<and> ms = map2 matcher_of rcs bals"
proof (induction rcs arbitrary: a n s ms s')
  case (Cons rc rcs)
  from Cons.prems obtain bal s1 ms' s2 where g: "BuildGroup mexp a n rc s = (Some bal, s1)"
      "build_matchers mexp (a + 1) (n + length (rc_Backends rc)) rcs s1 = (Some ms', s2)" "ms = matcher_of rc bal # ms'"
    by (auto split: prod.splits option.splits)
  from Cons.IH[OF g(2)] obtain bals where "length bals = length rcs" "ms' = map2 matcher_of rcs bals" by blast
  then show ?case using g(3) by (intro exI[of _ "bal # bals"]) simp
qed simp

text \<open>
  Routing follows the configuration: when \<open>NewRouter\<close> succeeds (no route lists one header
  under two spellings), it has one group per route after the default group, and \<open>Route\<close> sends
  a request to the group of the first route whose host, path prefix, methods and headers
  accept it as configured, or to the default group when none does; the lower- and upper-casing
  and the canonical header names the router precomputes change nothing.
\<close>

lemma route_first_match:
  assumes "NewRouter mexp a n rcs def s = (Some r, s')"
    and "\<forall>rc\<in>set rcs. distinct (map (CanonicalHeaderKey \<circ> fst) (rc_Headers rc))"
  shows "\<exists>bals. length bals = length rcs \<and> Groups r = def # bals \<and>
    Route r req = (case find (\<lambda>(rc, _). route_accepts rc req) (zip rcs bals) of Some (_, b) \<Rightarrow> b | None \<Rightarrow> def)"
proof -
  obtain ms where ms: "build_matchers mexp a n rcs s = (Some ms, s')" and r: "r = \<lparr>rt_routes = ms, rt_def = def\<rparr>"
    using assms(1) by (auto simp: NewRouter_def split: prod.splits option.splits)
  from build_matchers_bals[OF ms] obtain bals where b: "length bals = length rcs" "ms = map2 matcher_of rcs bals" by blast
  have "map mt_bal ms = bals" using b by (simp add: matcher_of_def comp_def case_prod_unfold map_snd_zip[unfolded snd_def])
  moreover have "route_scan (map2 matcher_of rcs bals) def req =
      (case find (\<lambda>(rc, _). route_accepts rc req) (zip rcs bals) of Some (_, b) \<Rightarrow> b | None \<Rightarrow> def)"
    using b(1) assms(2)
  proof (induction rcs bals rule: list_induct2')
    case (4 rc rcs b bals)
    then have "matches (matcher_of rc b) req = route_accepts rc req" by (intro matches_matcher_of) (simp add: comp_def)
    then show ?case using 4 by (simp add: matcher_of_def[of rc b, THEN arg_cong[of _ _ mt_bal]])
  qed simp_all
  ultimately show ?thesis using b by (auto simp: r Groups_def Route_def)
qed

definition api_route :: route_config where
  "api_route = \<lparr>rc_Host = ''API.example'', rc_PathPrefix = ''/v1'', rc_Methods = [''get''], rc_Headers = [(''x-team'', ''a'')],
     rc_Algorithm = ''round_robin'', rc_Replicas = 0, rc_LoadFactor = 0, rc_Backends = []\<rparr>"

lemma route_first_match_witness:
  "\<exists>r bals. fst (NewRouter id 1 2 [api_route] (RoundRobin 0) duo) = Some r \<and> length bals = 1 \<and> Groups r = RoundRobin 0 # bals"
proof -
  obtain r s' where r: "NewRouter id 1 2 [api_route] (RoundRobin 0) duo = (Some r, s')"
    by (auto simp: NewRouter_def BuildGroup_def NewByAlgorithm_def api_route_def)
  have "\<forall>rc\<in>set [api_route]. distinct (map (CanonicalHeaderKey \<circ> fst) (rc_Headers rc))" by (simp add: api_route_def)
  from route_first_match[OF r this, of undefined] show ?thesis unfolding r fst_conv by fastforce
qed

end
