(* ===== verification/Canary.thy ===== *)
theory Canary
  imports GoTime Float64
begin

text \<open>
  \<open>internal/canary/autopromote.go\<close>: stepping the canary weight up while its error rate is
  acceptable and rolling it back to zero when it is not.  The calls on the proxy and on the
  metrics layer are fields of the state they change.
\<close>

record ap_config =
  ap_Enabled :: bool
  ap_StepPercent :: int
  ap_StepInterval :: duration
  ap_MaxWeightPercent :: int
  ap_ErrorRateThreshold :: f64
  ap_MinRequests :: int
  ap_RollbackOnDegradation :: bool

text \<open>\<open>ap_metrics\<close> holds the published weight and rollback count, when metrics are attached.\<close>

record autoPromoter =
  ap_cfg :: ap_config
  ap_currentWeight :: int
  ap_rollbackCount :: int
  ap_proxyWeight :: int
  ap_metrics :: "(f64 \<times> int) option"

definition NewAutoPromoter :: "ap_config \<Rightarrow> int \<Rightarrow> autoPromoter" where
  "NewAutoPromoter cfg proxyWeight =
     \<lparr>ap_cfg = cfg, ap_currentWeight = 0, ap_rollbackCount = 0, ap_proxyWeight = proxyWeight, ap_metrics = None\<rparr>"

definition WithMetricsUpdater :: "(f64 \<times> int) option \<Rightarrow> autoPromoter \<Rightarrow> autoPromoter" where
  "WithMetricsUpdater u a = a\<lparr>ap_metrics := u\<rparr>"

definition IncrRollback :: "autoPromoter \<Rightarrow> autoPromoter" where
  "IncrRollback a = a\<lparr>ap_rollbackCount := ap_rollbackCount a + 1\<rparr>"

record ap_status =
  st_Enabled :: bool
  st_CurrentWeight :: int
  st_MaxWeight :: int
  st_StepPercent :: int
  st_StepInterval :: duration
  st_ErrorRate :: f64
  st_RollbackCount :: int

definition AP_Status :: "autoPromoter \<Rightarrow> ap_status" where
  "AP_Status a = \<lparr>st_Enabled = ap_Enabled (ap_cfg a), st_CurrentWeight = ap_currentWeight a,
     st_MaxWeight = ap_MaxWeightPercent (ap_cfg a), st_StepPercent = ap_StepPercent (ap_cfg a),
     st_StepInterval = ap_StepInterval (ap_cfg a), st_ErrorRate = 0, st_RollbackCount = ap_rollbackCount a\<rparr>"

text \<open>One step on the requests and errors of the last window.\<close>

definition ap_step :: "int \<times> int \<Rightarrow> autoPromoter \<Rightarrow> autoPromoter" where
  "ap_step win a =
     (let (reqs, errs) = win; cfg = ap_cfg a in
      if reqs < ap_MinRequests cfg then a
      else let errorRate = f64_div (f64_of_int errs) (f64_of_int reqs) in
      if errorRate > ap_ErrorRateThreshold cfg then
        (if ap_RollbackOnDegradation cfg
         then a\<lparr>ap_currentWeight := 0, ap_proxyWeight := 0, ap_rollbackCount := ap_rollbackCount a + 1,
                ap_metrics := map_option (\<lambda>(w, n). (0, n + 1)) (ap_metrics a)\<rparr>
         else a)
      else let nxt0 = ap_currentWeight a + ap_StepPercent cfg;
               nxt = (if nxt0 > ap_MaxWeightPercent cfg then ap_MaxWeightPercent cfg else nxt0)
           in if nxt \<noteq> ap_currentWeight a
              then a\<lparr>ap_currentWeight := nxt, ap_proxyWeight := nxt,
                     ap_metrics := map_option (\<lambda>(w, n). (f64_of_int nxt, n)) (ap_metrics a)\<rparr>
              else a)"

definition CurrentWeight :: "autoPromoter \<Rightarrow> int" where
  "CurrentWeight a = ap_currentWeight a"

section \<open>Properties\<close>

definition ap_valid :: "ap_config \<Rightarrow> bool" where
  "ap_valid cfg \<longleftrightarrow> 0 < ap_StepPercent cfg \<and> 0 \<le> ap_MaxWeightPercent cfg \<and> 1 \<le> ap_MinRequests cfg \<and>
     is_f64 (ap_ErrorRateThreshold cfg)"

lemma ap_step_cfg [simp]: "ap_cfg (ap_step win a) = ap_cfg a"
  by (auto simp: ap_step_def Let_def split: prod.split)

lemma ap_run_cfg [simp]: "ap_cfg (fold ap_step wins a) = ap_cfg a"
  by (induction wins arbitrary: a) auto

definition ap_bounded :: "autoPromoter \<Rightarrow> bool" where
  "ap_bounded a \<longleftrightarrow> 0 \<le> ap_currentWeight a \<and> ap_currentWeight a \<le> ap_MaxWeightPercent (ap_cfg a)"

lemma ap_step_bounded: "ap_valid (ap_cfg a) \<Longrightarrow> ap_bounded a \<Longrightarrow> ap_bounded (ap_step win a)"
  by (auto simp: ap_step_def ap_bounded_def ap_valid_def Let_def split: prod.split)

text \<open>The weight of a window whose exact error rate is at most the threshold.\<close>

lemma ap_step_good:
  assumes "ap_valid (ap_cfg a)" "ap_MinRequests (ap_cfg a) \<le> reqs" "0 \<le> errs" "errs \<le> reqs" "reqs \<le> 2 ^ 53"
    and "of_int errs / of_int reqs \<le> ap_ErrorRateThreshold (ap_cfg a)"
  shows "ap_currentWeight (ap_step (reqs, errs) a) =
    min (ap_currentWeight a + ap_StepPercent (ap_cfg a)) (ap_MaxWeightPercent (ap_cfg a))"
proof -
  have "f64_div (f64_of_int errs) (f64_of_int reqs) \<le> ap_ErrorRateThreshold (ap_cfg a)"
    using assms by (intro f64_ratio_le) (auto simp: ap_valid_def)
  then show ?thesis using assms(2) by (auto simp: ap_step_def Let_def)
qed

definition good_window :: "ap_config \<Rightarrow> int \<times> int \<Rightarrow> bool" where
  "good_window cfg win \<longleftrightarrow> (let (reqs, errs) = win in
     ap_MinRequests cfg \<le> reqs \<and> 0 \<le> errs \<and> errs \<le> reqs \<and> reqs \<le> 2 ^ 53 \<and>
     of_int errs / of_int reqs \<le> ap_ErrorRateThreshold cfg)"

lemma ap_good_run:
  assumes "ap_valid (ap_cfg a)" "\<forall>win\<in>set wins. good_window (ap_cfg a) win" "ap_bounded a"
  shows "ap_currentWeight (fold ap_step wins a) =
    min (ap_currentWeight a + int (length wins) * ap_StepPercent (ap_cfg a)) (ap_MaxWeightPercent (ap_cfg a))"
  using assms
proof (induction wins arbitrary: a)
  case (Cons win wins)
  obtain reqs errs where w: "win = (reqs, errs)" by fastforce
  have "ap_currentWeight (ap_step win a) = min (ap_currentWeight a + ap_StepPercent (ap_cfg a)) (ap_MaxWeightPercent (ap_cfg a))"
    unfolding w using Cons.prems by (intro ap_step_good) (auto simp: good_window_def w)
  moreover have "0 \<le> int (length wins) * ap_StepPercent (ap_cfg a)" using Cons.prems(1) by (simp add: ap_valid_def)
  ultimately show ?case
    using Cons.IH[of "ap_step win a"] Cons.prems ap_step_bounded[OF Cons.prems(1,3), of win]
    by (auto simp: algebra_simps min_def)
qed (auto simp: ap_bounded_def)

text \<open>
  Automatic promotion is bounded and reaches its target: through every sequence of windows
  the weight stays between 0 and \<open>MaxWeightPercent\<close>, and from any point reached, \<open>n\<close> windows
  with enough requests and an exact error rate within the threshold raise it by \<open>n\<close> steps, up
  to the maximum and no further.
\<close>

lemma canary_promotion:
  assumes "ap_valid cfg" "\<forall>win\<in>set good. good_window cfg win"
  shows "let a = fold ap_step wins (NewAutoPromoter cfg w0) in
    0 \<le> CurrentWeight a \<and> CurrentWeight a \<le> ap_MaxWeightPercent cfg \<and>
    CurrentWeight (fold ap_step good a) =
      min (CurrentWeight a + int (length good) * ap_StepPercent cfg) (ap_MaxWeightPercent cfg)"
proof -
  let ?a = "fold ap_step wins (NewAutoPromoter cfg w0)"
  have c: "ap_cfg ?a = cfg" by (simp add: NewAutoPromoter_def)
  have "ap_bounded (fold ap_step wins a)" if "ap_bounded a" "ap_valid (ap_cfg a)" for a
    using that by (induction wins arbitrary: a) (auto simp: ap_step_bounded)
  moreover have "ap_bounded (NewAutoPromoter cfg w0)"
    using assms(1) by (simp add: ap_bounded_def NewAutoPromoter_def ap_valid_def)
  ultimately have "ap_bounded ?a" using assms(1) by (simp add: NewAutoPromoter_def)
  then show ?thesis using ap_good_run[of ?a good] assms c by (simp add: ap_bounded_def CurrentWeight_def Let_def)
qed

definition demo_ap :: ap_config where
  "demo_ap = \<lparr>ap_Enabled = True, ap_StepPercent = 10, ap_StepInterval = Minute, ap_MaxWeightPercent = 25,
     ap_ErrorRateThreshold = 1 / 2, ap_MinRequests = 10, ap_RollbackOnDegradation = True\<rparr>"

lemma canary_promotion_witness:
  "CurrentWeight (fold ap_step [(10, 1), (20, 5), (100, 50)] (NewAutoPromoter demo_ap 0)) = 25"
proof -
  have v: "ap_valid demo_ap" unfolding ap_valid_def by code_simp
  have "\<forall>win\<in>set [(10, 1), (20, 5), (100, 50)]. good_window demo_ap win"
    by (simp add: good_window_def demo_ap_def)
  from canary_promotion[OF v this, of "[]" 0] show ?thesis
    by (simp add: Let_def CurrentWeight_def NewAutoPromoter_def demo_ap_def)
qed

text \<open>
  Rollback: a window with enough requests whose exact error rate, in the precision of
  \<open>float64\<close>, exceeds the threshold sets the weight of the promoter and of the proxy to 0 and
  counts one rollback when rollback is configured, and changes nothing when it is not.
\<close>

lemma canary_rollback:
  assumes "ap_MinRequests (ap_cfg a) \<le> reqs"
    and "f64_div (f64_of_int errs) (f64_of_int reqs) > ap_ErrorRateThreshold (ap_cfg a)"
  shows "if ap_RollbackOnDegradation (ap_cfg a)
     then CurrentWeight (ap_step (reqs, errs) a) = 0 \<and> ap_proxyWeight (ap_step (reqs, errs) a) = 0 \<and>
          st_RollbackCount (AP_Status (ap_step (reqs, errs) a)) = st_RollbackCount (AP_Status a) + 1
     else ap_step (reqs, errs) a = a"
  using assms by (auto simp: ap_step_def CurrentWeight_def AP_Status_def Let_def)

theorem canary_rollback_witness:
  "CurrentWeight (ap_step (10, 9) (NewAutoPromoter demo_ap 5)) = 0"
proof -
  have "ap_MinRequests (ap_cfg (NewAutoPromoter demo_ap 5)) \<le> 10" by code_simp
  moreover have "f64_div (f64_of_int 9) (f64_of_int 10) > ap_ErrorRateThreshold (ap_cfg (NewAutoPromoter demo_ap 5))" by code_simp
  ultimately show ?thesis using canary_rollback[of "NewAutoPromoter demo_ap 5" 10 9]
    by (simp add: NewAutoPromoter_def demo_ap_def)
qed

end
