(* ===== verification/NetUtil.thy ===== *)
theory NetUtil
  imports Http "HOL-Library.Word"
begin

text \<open>
  \<open>internal/netutil/netutil.go\<close>: parsing of address blocks and the resolution of the client
  address behind trusted proxies, with the parts of package \<open>net\<close> it calls.
\<close>

unbundle bit_operations_syntax

section \<open>Package net\<close>

text \<open>
  An address as \<open>To4\<close> sees it: the IPv4-mapped IPv6 addresses are IPv4 addresses.
\<close>

datatype ip = V4 "32 word" | V6 "128 word"

datatype ipnet = Net4 "32 word" nat | Net6 "128 word" nat

text \<open>A decimal octet has no leading zero and at most three digits.\<close>

definition parse_octet :: "string \<Rightarrow> nat option" where
  "parse_octet s =
     (if s = [] \<or> length s > 3 \<or> (length s > 1 \<and> hd s = CHR ''0'') then None
      else case parse_digits 0 s of Some n \<Rightarrow> if n \<le> 255 then Some n else None | None \<Rightarrow> None)"

definition parseIPv4 :: "string \<Rightarrow> (32 word) option" where
  "parseIPv4 s = (case map parse_octet (SplitChar CHR ''.'' s) of
     [Some a, Some b, Some c, Some d] \<Rightarrow> Some (of_nat (((a * 256 + b) * 256 + c) * 256 + d))
   | _ \<Rightarrow> None)"

definition hex_val :: "char \<Rightarrow> nat option" where
  "hex_val c = (let n = of_char c in
     if 48 \<le> n \<and> n \<le> 57 then Some (n - 48)
     else if 97 \<le> n \<and> n \<le> 102 then Some (n - 87)
     else if 65 \<le> n \<and> n \<le> 70 then Some (n - 55) else None)"

fun parse_hex :: "nat \<Rightarrow> string \<Rightarrow> nat option" where
  "parse_hex acc [] = Some acc"
| "parse_hex acc (c # cs) = (case hex_val c of None \<Rightarrow> None | Some d \<Rightarrow> parse_hex (16 * acc + d) cs)"

definition parse_group :: "string \<Rightarrow> nat option" where
  "parse_group s = (if s = [] \<or> length s > 4 then None else parse_hex 0 s)"

text \<open>A list of groups, the last of which may be a dotted IPv4 address.\<close>

fun groups_of :: "string list \<Rightarrow> nat list option" where
  "groups_of [] = Some []"
| "groups_of (g # gs) =
     (if gs = [] \<and> CHR ''.'' \<in> set g
      then map_option (\<lambda>w. [unat w div 65536, unat w mod 65536]) (parseIPv4 g)
      else case (parse_group g, groups_of gs) of (Some n, Some ns) \<Rightarrow> Some (n # ns) | _ \<Rightarrow> None)"

definition colon_groups :: "string \<Rightarrow> nat list option" where
  "colon_groups s = (if s = [] then Some [] else groups_of (SplitChar CHR '':'' s))"

text \<open>The text before and after the first \<open>::\<close>.\<close>

fun split_ellipsis :: "string \<Rightarrow> (string \<times> string) option" where
  "split_ellipsis (a # b # cs) =
     (if a = CHR '':'' \<and> b = CHR '':'' then Some ([], cs)
      else map_option (\<lambda>(p, q). (a # p, q)) (split_ellipsis (b # cs)))"
| "split_ellipsis _ = None"

definition word_of_groups :: "nat list \<Rightarrow> 128 word" where
  "word_of_groups gs = of_nat (foldl (\<lambda>acc g. acc * 65536 + g) 0 gs)"

definition parseIPv6 :: "string \<Rightarrow> (128 word) option" where
  "parseIPv6 s = (case split_ellipsis s of
     None \<Rightarrow> (case groups_of (SplitChar CHR '':'' s) of
        Some gs \<Rightarrow> if length gs = 8 then Some (word_of_groups gs) else None | None \<Rightarrow> None)
   | Some (p, q) \<Rightarrow>
       (if CHR ''.'' \<in> set p then None
        else case (colon_groups p, colon_groups q) of
         (Some xs, Some ys) \<Rightarrow> if length xs + length ys < 8
           then Some (word_of_groups (xs @ replicate (8 - (length xs + length ys)) 0 @ ys)) else None
       | _ \<Rightarrow> None))"

definition to4 :: "128 word \<Rightarrow> ip" where
  "to4 w = (if drop_bit 32 w = 0xFFFF then V4 (ucast w) else V6 w)"

text \<open>The first dot or colon decides the family; \<open>ParseIP\<close> refuses zones.\<close>

definition is_dotted :: "string \<Rightarrow> bool" where
  "is_dotted s \<longleftrightarrow> (case dropWhile (\<lambda>c. c \<noteq> CHR ''.'' \<and> c \<noteq> CHR '':'') s of c # _ \<Rightarrow> c = CHR ''.'' | [] \<Rightarrow> False)"

definition ParseIP :: "string \<Rightarrow> ip option" where
  "ParseIP s = (if is_dotted s then map_option V4 (parseIPv4 s) else map_option to4 (parseIPv6 s))"

definition mask4 :: "nat \<Rightarrow> 32 word" where
  "mask4 n = push_bit (32 - n) (mask n)"

definition mask6 :: "nat \<Rightarrow> 128 word" where
  "mask6 n = push_bit (128 - n) (mask n)"

text \<open>
  \<open>ParseCIDR\<close>: a prefix length without sign or leading zero, within the width of the family.
  A network whose masked number is an IPv4-mapped address is matched as an IPv4 network.
\<close>

definition parse_prefix :: "string \<Rightarrow> nat option" where
  "parse_prefix s = (if s = [] \<or> (length s > 1 \<and> hd s = CHR ''0'') then None else parse_digits 0 s)"

definition net6 :: "128 word \<Rightarrow> nat \<Rightarrow> ipnet" where
  "net6 w n = (let m = w AND mask6 n in
     case to4 m of V4 v \<Rightarrow> Net4 v (n - 96) | V6 v \<Rightarrow> Net6 v n)"

definition ParseCIDR :: "string \<Rightarrow> ipnet option" where
  "ParseCIDR s = (case split_first CHR ''/'' s of
     None \<Rightarrow> None
   | Some (addr, len) \<Rightarrow>
       (case parse_prefix len of
          None \<Rightarrow> None
        | Some n \<Rightarrow>
            if is_dotted addr
            then (case parseIPv4 addr of Some w \<Rightarrow> if n \<le> 32 then Some (Net4 (w AND mask4 n) n) else None | None \<Rightarrow> None)
            else (case parseIPv6 addr of Some w \<Rightarrow> if n \<le> 128 then Some (net6 w n) else None | None \<Rightarrow> None)))"

fun Contains :: "ipnet \<Rightarrow> ip \<Rightarrow> bool" where
  "Contains (Net4 nn n) (V4 a) = (nn AND mask4 n = a AND mask4 n)"
| "Contains (Net6 nn n) (V6 a) = (nn AND mask6 n = a AND mask6 n)"
| "Contains _ _ = False"

text \<open>\<open>SplitHostPort\<close>: the host of \<open>host:port\<close> or \<open>[host]:port\<close>.\<close>

definition SplitHost :: "string \<Rightarrow> string option" where
  "SplitHost s = (case split_last CHR '':'' s of
     None \<Rightarrow> None
   | Some (h, port) \<Rightarrow>
       (if CHR ''['' \<in> set port \<or> CHR '']'' \<in> set port then None
        else case h of
          c # cs \<Rightarrow>
            if c = CHR ''[''
            then (if cs \<noteq> [] \<and> last cs = CHR '']'' \<and> CHR ''['' \<notin> set (butlast cs) \<and> CHR '']'' \<notin> set (butlast cs)
                  then Some (butlast cs) else None)
            else (if CHR '':'' \<in> set h \<or> CHR ''['' \<in> set h \<or> CHR '']'' \<in> set h then None else Some h)
        | [] \<Rightarrow> Some []))"

section \<open>The package\<close>

definition single_net :: "ip \<Rightarrow> ipnet" where
  "single_net a = (case a of V4 w \<Rightarrow> Net4 w 32 | V6 w \<Rightarrow> Net6 w 128)"

definition parse_entry :: "string \<Rightarrow> ipnet option" where
  "parse_entry e0 =
     (let e = TrimSpace e0 in
      if e = [] then None
      else case ParseCIDR e of
             Some n \<Rightarrow> Some n
           | None \<Rightarrow> map_option single_net (ParseIP e))"

definition ParseCIDRs :: "string list \<Rightarrow> ipnet list" where
  "ParseCIDRs entries = List.map_filter parse_entry entries"

definition ipInNets :: "ip option \<Rightarrow> ipnet list \<Rightarrow> bool" where
  "ipInNets a nets = (case a of None \<Rightarrow> False | Some i \<Rightarrow> list_ex (\<lambda>n. Contains n i) nets)"

definition peerIP :: "request \<Rightarrow> string" where
  "peerIP r = (case SplitHost (r_RemoteAddr r) of Some h \<Rightarrow> h | None \<Rightarrow> r_RemoteAddr r)"

fun xff_scan :: "ipnet list \<Rightarrow> string list \<Rightarrow> string option" where
  "xff_scan trusted [] = None"
| "xff_scan trusted (p # ps) =
     (let a = TrimSpace p in
      if a = [] then xff_scan trusted ps
      else if \<not> ipInNets (ParseIP a) trusted then Some a else xff_scan trusted ps)"

definition ClientIP :: "request \<Rightarrow> ipnet list \<Rightarrow> string" where
  "ClientIP r trusted =
     (let peer = peerIP r in
      if trusted = [] \<or> \<not> ipInNets (ParseIP peer) trusted then peer
      else let xff = hdr_Get (r_Header r) ''X-Forwarded-For'';
               hit = (if xff \<noteq> [] then xff_scan trusted (rev (SplitChar CHR '','' xff)) else None)
           in case hit of
                Some a \<Rightarrow> a
              | None \<Rightarrow> let xr = TrimSpace (hdr_Get (r_Header r) ''X-Real-IP'')
                        in if xr \<noteq> [] then xr else peer)"

section \<open>No spoofing\<close>

lemmas net_eval = ParseIP_def parseIPv4_def is_dotted_def parse_octet_def digit_val_def Let_def of_char_def ParseCIDRs_def
  map_filter_def parse_entry_def ParseCIDR_def split_first_def parse_prefix_def mask4_def mask_eq_exp_minus_1 TrimSpace_def
  is_space_def ipInNets_def

definition demo_req :: "header \<Rightarrow> request" where
  "demo_req h = \<lparr>r_Method = ''GET'', r_Host = ''h'', r_URLHost = [], r_Path = ''/'', r_RawQuery = [], r_RequestURI = ''/'', r_Header = h,
     r_RemoteAddr = ''10.0.0.9:51234'', r_ContentLength = 0, r_TLS = False\<rparr>"

text \<open>
  A client that is not a trusted proxy cannot choose its address: two requests from the
  same remote address resolve to the same client address whatever headers they carry.
\<close>

lemma client_ip_untrusted:
  assumes "\<not> ipInNets (ParseIP (peerIP r)) trusted" "r_RemoteAddr r' = r_RemoteAddr r"
  shows "ClientIP r' trusted = ClientIP r trusted \<and> ClientIP r trusted = peerIP r"
proof -
  have p: "peerIP r' = peerIP r" by (simp only: peerIP_def assms(2))
  show ?thesis using assms(1) by (simp add: ClientIP_def p)
qed

lemma client_ip_untrusted_witness:
  "ClientIP (demo_req [(''X-Forwarded-For'', [''1.2.3.4''])]) (ParseCIDRs [''192.168.0.0/16'']) = ''10.0.0.9''"
proof -
  have p: "peerIP (demo_req []) = ''10.0.0.9''" by (simp add: peerIP_def demo_req_def SplitHost_def split_last_def)
  have u: "\<not> ipInNets (ParseIP (peerIP (demo_req []))) (ParseCIDRs [''192.168.0.0/16''])"
    unfolding p by (simp add: net_eval)
  from p show ?thesis
    using client_ip_untrusted[OF u, of "demo_req [(''X-Forwarded-For'', [''1.2.3.4''])]"] by (simp add: demo_req_def)
qed

lemma SplitChar_nonempty: "SplitChar c s \<noteq> []"
  by (induction s) (auto split: list.split)

lemma SplitChar_append: "SplitChar c (p @ c # q) = SplitChar c p @ SplitChar c q"
  by (induction p) (auto simp: SplitChar_nonempty split: list.split)

lemma SplitChar_join: "\<forall>h\<in>set hs. c \<notin> set h \<Longrightarrow> SplitChar c (concat (map (\<lambda>h. c # h) hs)) = [] # hs"
proof (induction hs)
  case (Cons h hs)
  have single: "SplitChar c h = [h]" if "c \<notin> set h" for h using that by (induction h) auto
  show ?case
  proof (cases hs)
    case Nil
    then show ?thesis using Cons.prems single[of h] by simp
  next
    case (Cons h' hs')
    have "SplitChar c (h @ c # h' @ concat (map (\<lambda>h. c # h) hs')) = [h] @ SplitChar c (h' @ concat (map (\<lambda>h. c # h) hs'))"
      using SplitChar_append[of c h] single[of h] Cons.prems by simp
    then show ?thesis using Cons.IH Cons.prems Cons by simp
  qed
qed simp

lemma xff_scan_skip: "\<forall>p\<in>set ps. TrimSpace p = [] \<or> ipInNets (ParseIP (TrimSpace p)) trusted \<Longrightarrow> xff_scan trusted (ps @ qs) = xff_scan trusted qs"
  by (induction ps) (auto simp: Let_def)



lemma xff_name: "hdr_Get [(''X-Forwarded-For'', [v])] ''X-Forwarded-For'' = v"
proof -
  have "CanonicalHeaderKey ''X-Forwarded-For'' = ''X-Forwarded-For''" by code_simp
  then show ?thesis by (simp add: hdr_Get_def hdr_Values_def)
qed


end
