(* ===== verification/Discovery.thy ===== *)
theory Discovery
  imports Stack Http
begin

text \<open>
  \<open>internal/discovery\<close>: keeping the backends of DNS targets and of a Kubernetes Endpoints object
  in a balancer.  A new backend gets the next free address; the lookups, the HTTP exchanges
  with the API server, file reads and the base64 decoding are arguments.  A set is a list
  without duplicates whose order is the order of a \<open>range\<close> loop.
\<close>

section \<open>Converging to a desired set\<close>

text \<open>The owned backends by key, the next free address and the heap.\<close>

type_synonym owned = "(string \<times> bid) list"
type_synonym disc = "owned \<times> bid \<times> lb_heap"

definition disc_add :: "lb_heap balancer \<Rightarrow> (string \<Rightarrow> backend_config) \<Rightarrow> string \<Rightarrow> disc \<Rightarrow> disc" where
  "disc_add B cfg key st =
     (let (ow, n, s) = st in
      case map_of ow key of
        Some _ \<Rightarrow> st
      | None \<Rightarrow> (ow @ [(key, n)], n + 1, add_backend B (n, cfg key) s))"

definition disc_remove :: "lb_heap balancer \<Rightarrow> string \<Rightarrow> disc \<Rightarrow> disc" where
  "disc_remove B key st =
     (let (ow, n, s) = st in
      case map_of ow key of
        Some b \<Rightarrow> (AList.delete key ow, n, m_Remove B b s)
      | None \<Rightarrow> st)"

section \<open>DNS\<close>

record dns_target =
  dt_Name :: string
  dt_Type :: string
  dt_Port :: int
  dt_Scheme :: string
  dt_Weight :: int
  dt_MaxConns :: int

record resolver =
  LookupSRV :: "string \<Rightarrow> (string \<times> int) list option"
  LookupHost :: "string \<Rightarrow> string list option"

text \<open>The standard resolver drops the trailing dot of an SRV target.\<close>

definition std_LookupSRV :: "(string \<Rightarrow> (string \<times> int) list option) \<Rightarrow> string \<Rightarrow> (string \<times> int) list option" where
  "std_LookupSRV netLookupSRV service =
     map_option (map (\<lambda>(host, port). (if host \<noteq> [] \<and> last host = CHR ''.'' then butlast host else host, port)))
       (netLookupSRV service)"

definition hostport_url :: "string \<Rightarrow> string \<Rightarrow> int \<Rightarrow> string" where
  "hostport_url scheme host port = scheme @ ''://'' @ host @ '':'' @ FormatInt port"

definition resolve :: "resolver \<Rightarrow> dns_target \<Rightarrow> string list option" where
  "resolve res t =
     (let scheme = (if dt_Scheme t = [] then ''http'' else dt_Scheme t) in
      if ToLower (dt_Type t) = ''srv''
      then map_option (\<lambda>as. remdups (map (\<lambda>(h, p). hostport_url scheme h p) as)) (LookupSRV res (dt_Name t))
      else map_option (\<lambda>hs. remdups (map (\<lambda>h. hostport_url scheme h (dt_Port t)) hs)) (LookupHost res (dt_Name t)))"

definition dns_backend :: "dns_target \<Rightarrow> string \<Rightarrow> backend_config" where
  "dns_backend t url = \<lparr>cfg_URL = url, cfg_Weight = dt_Weight t, cfg_MaxConns = dt_MaxConns t, cfg_Zone = [], cfg_Tier = 0\<rparr>"

definition converge_sorted :: "lb_heap balancer \<Rightarrow> (string \<Rightarrow> backend_config) \<Rightarrow> string list \<Rightarrow> disc \<Rightarrow> disc" where
  "converge_sorted B cfg desired st =
     (let st1 = fold (disc_add B cfg) desired st;
          gone = filter (\<lambda>k. k \<notin> set desired) (map fst (fst st1))
      in fold (disc_remove B) (sort gone) st1)"

record discoverer =
  d_owned :: "(string \<times> owned) list"
  d_next :: bid

definition owned_of :: "discoverer \<Rightarrow> string \<Rightarrow> owned" where
  "owned_of d name = (case map_of (d_owned d) name of Some ow \<Rightarrow> ow | None \<Rightarrow> [])"

definition dns_sync :: "lb_heap balancer \<Rightarrow> resolver \<Rightarrow> dns_target \<Rightarrow> discoverer \<times> lb_heap \<Rightarrow> discoverer \<times> lb_heap" where
  "dns_sync B res t ds =
     (case resolve res t of
        None \<Rightarrow> ds
      | Some desired \<Rightarrow>
          let (d, s) = ds; (ow, n, s1) = converge_sorted B (dns_backend t) desired (owned_of d (dt_Name t), d_next d, s)
          in (d\<lparr>d_owned := AList.update (dt_Name t) ow (d_owned d), d_next := n\<rparr>, s1))"

section \<open>Kubernetes\<close>

record k8sSubset =
  ks_Addresses :: "string list"
  ks_NotReadyAddresses :: "string list"
  ks_Ports :: "(string \<times> int) list"

record k8sEndpoints =
  ke_ResourceVersion :: string
  ke_Subsets :: "k8sSubset list"

record k8sWatchEvent =
  kw_Type :: string
  kw_Object :: k8sEndpoints

record kubernetesDiscovery =
  kd_namespace :: string
  kd_service :: string
  kd_portName :: string
  kd_token :: string
  kd_tokenFile :: string
  kd_clientCert :: string
  kd_clientKey :: string
  kd_apiServer :: string
  kd_caCert :: string
  kd_scheme :: string
  kd_owned :: owned
  kd_next :: bid

fun resolve_port :: "string \<Rightarrow> (string \<times> int) list \<Rightarrow> int" where
  "resolve_port portName [] = 0"
| "resolve_port portName ((name, port) # ps) = (if portName = [] \<or> name = portName then port else resolve_port portName ps)"

definition addressesFromEndpoints :: "kubernetesDiscovery \<Rightarrow> k8sEndpoints \<Rightarrow> string list" where
  "addressesFromEndpoints kd ep =
     remdups (concat (map (\<lambda>subset. let port = resolve_port (kd_portName kd) (ks_Ports subset) in
        if port = 0 then [] else map (\<lambda>ip. ip @ '':'' @ FormatInt port) (ks_Addresses subset)) (ke_Subsets ep)))"

definition k8s_backend :: "string \<Rightarrow> string \<Rightarrow> backend_config" where
  "k8s_backend scheme key = \<lparr>cfg_URL = scheme @ ''://'' @ key, cfg_Weight = 1, cfg_MaxConns = 100, cfg_Zone = [], cfg_Tier = 0\<rparr>"

definition converge :: "lb_heap balancer \<Rightarrow> (string \<Rightarrow> backend_config) \<Rightarrow> string list \<Rightarrow> disc \<Rightarrow> disc" where
  "converge B cfg desired st =
     (let st1 = fold (disc_add B cfg) desired st
      in fold (disc_remove B) (filter (\<lambda>k. k \<notin> set desired) (map fst (fst st1))) st1)"

definition k8s_put :: "kubernetesDiscovery \<Rightarrow> disc \<Rightarrow> kubernetesDiscovery \<times> lb_heap" where
  "k8s_put kd st = (let (ow, n, s) = st in (kd\<lparr>kd_owned := ow, kd_next := n\<rparr>, s))"

definition k8s_sync :: "lb_heap balancer \<Rightarrow> string list \<Rightarrow> kubernetesDiscovery \<times> lb_heap \<Rightarrow> kubernetesDiscovery \<times> lb_heap" where
  "k8s_sync B desired ks =
     (let (kd, s) = ks in k8s_put kd (converge B (k8s_backend (kd_scheme kd)) desired (kd_owned kd, kd_next kd, s)))"

definition removeAll :: "lb_heap balancer \<Rightarrow> kubernetesDiscovery \<times> lb_heap \<Rightarrow> kubernetesDiscovery \<times> lb_heap" where
  "removeAll B ks =
     (let (kd, s) = ks in k8s_put kd (fold (disc_remove B) (map fst (kd_owned kd)) (kd_owned kd, kd_next kd, s)))"

definition endpointsURL :: "kubernetesDiscovery \<Rightarrow> string" where
  "endpointsURL kd = kd_apiServer kd @ ''/api/v1/namespaces/'' @ kd_namespace kd @ ''/endpoints/'' @ kd_service kd"

definition watchURL :: "kubernetesDiscovery \<Rightarrow> string \<Rightarrow> string" where
  "watchURL kd rv = endpointsURL kd @ ''?watch=true&resourceVersion='' @ rv"

definition refreshToken :: "(string \<Rightarrow> string option) \<Rightarrow> kubernetesDiscovery \<Rightarrow> kubernetesDiscovery" where
  "refreshToken readFile kd =
     (if kd_tokenFile kd = [] then kd
      else case readFile (kd_tokenFile kd) of None \<Rightarrow> kd | Some tok \<Rightarrow> kd\<lparr>kd_token := TrimSpace tok\<rparr>)"

datatype k8s_error = ErrTransport | ErrUnauthorized | ErrStatus int | ErrDecode

text \<open>\<open>listAndSync\<close> over the response: its status and the decoded body.\<close>

definition listAndSync ::
  "(string \<Rightarrow> string option) \<Rightarrow> lb_heap balancer \<Rightarrow> (int \<times> k8sEndpoints option) option \<Rightarrow> kubernetesDiscovery \<times> lb_heap \<Rightarrow>
   (k8s_error + string) \<times> kubernetesDiscovery \<times> lb_heap" where
  "listAndSync readFile B resp ks =
     (case resp of
        None \<Rightarrow> (Inl ErrTransport, ks)
      | Some (status, body) \<Rightarrow>
          if status = 401 then (Inl ErrUnauthorized, refreshToken readFile (fst ks), snd ks)
          else if status \<noteq> 200 then (Inl (ErrStatus status), ks)
          else case body of
                 None \<Rightarrow> (Inl ErrDecode, ks)
               | Some ep \<Rightarrow> (Inr (ke_ResourceVersion ep), k8s_sync B (addressesFromEndpoints (fst ks) ep) ks))"

text \<open>One line of the watch stream: \<open>None\<close> is an empty line or one that does not decode.\<close>

definition watch_line :: "lb_heap balancer \<Rightarrow> k8sWatchEvent option \<Rightarrow> string \<times> kubernetesDiscovery \<times> lb_heap \<Rightarrow> string \<times> kubernetesDiscovery \<times> lb_heap" where
  "watch_line B line st =
     (case line of
        None \<Rightarrow> st
      | Some ev \<Rightarrow>
          let (rv, ks) = st; desired = addressesFromEndpoints (fst ks) (kw_Object ev)
          in (ke_ResourceVersion (kw_Object ev),
              if kw_Type ev = ''ADDED'' \<or> kw_Type ev = ''MODIFIED'' then k8s_sync B desired ks
              else if kw_Type ev = ''DELETED'' then removeAll B ks else ks))"

definition watchStream ::
  "(string \<Rightarrow> string option) \<Rightarrow> lb_heap balancer \<Rightarrow> (int \<times> k8sWatchEvent option list \<times> bool) option \<Rightarrow>
   string \<times> kubernetesDiscovery \<times> lb_heap \<Rightarrow> k8s_error option \<times> string \<times> kubernetesDiscovery \<times> lb_heap" where
  "watchStream readFile B resp st =
     (case resp of
        None \<Rightarrow> (Some ErrTransport, st)
      | Some (status, evs, scanErr) \<Rightarrow>
          let (rv, kd, s) = st in
          if status = 401 then (Some ErrUnauthorized, rv, refreshToken readFile kd, s)
          else if status \<noteq> 200 then (Some (ErrStatus status), st)
          else (if scanErr then Some ErrTransport else None, fold (watch_line B) evs st))"

definition min2 :: "duration \<Rightarrow> duration \<Rightarrow> duration" where
  "min2 a b = (if a < b then a else b)"

text \<open>The waits of the loop of \<open>run\<close>, over how its iterations end.\<close>

datatype k8s_iter = ListFailed | WatchFailed | StreamClosed

fun run_waits :: "k8s_iter list \<Rightarrow> duration \<Rightarrow> duration list" where
  "run_waits [] backoff = []"
| "run_waits (ListFailed # its) backoff = backoff # run_waits its (min2 (backoff * 2) (30 * Second))"
| "run_waits (WatchFailed # its) backoff = Second # run_waits its (min2 (Second * 2) (30 * Second))"
| "run_waits (StreamClosed # its) backoff = run_waits its Second"

section \<open>Membership\<close>

text \<open>
  Owned backends are members with their own addresses; the static ones are the other members.
\<close>

definition disc_inv :: "lb_heap balancer \<Rightarrow> disc \<Rightarrow> bool" where
  "disc_inv B st \<longleftrightarrow> (let (ow, n, s) = st in
     distinct (map fst ow) \<and> distinct (map snd ow) \<and> snd ` set ow \<subseteq> set (m_All B s) \<and>
     distinct (m_All B s) \<and> (\<forall>b\<in>set (m_All B s). b < n))"

definition static_of :: "lb_heap balancer \<Rightarrow> disc \<Rightarrow> bid list" where
  "static_of B st = (let (ow, n, s) = st in filter (\<lambda>b. b \<notin> snd ` set ow) (m_All B s))"

text \<open>Each owned backend has the URL of its key; the backends that exist stay as they are.\<close>

definition disc_urls :: "(string \<Rightarrow> string) \<Rightarrow> disc \<Rightarrow> bool" where
  "disc_urls f st \<longleftrightarrow> (let (ow, n, s) = st in \<forall>(k, b)\<in>set ow. be_URL (h_be s b) = f k)"

definition disc_kept :: "disc \<Rightarrow> disc \<Rightarrow> bool" where
  "disc_kept st st' \<longleftrightarrow> (let (_, n, s) = st; (_, n', s') = st' in n \<le> n' \<and> (\<forall>b < n. h_be s' b = h_be s b))"

lemma disc_kept_refl: "disc_kept st st"
  by (simp add: disc_kept_def case_prod_beta Let_def)

lemma disc_kept_trans: "disc_kept st st' \<Longrightarrow> disc_kept st' st'' \<Longrightarrow> disc_kept st st''"
  by (auto simp: disc_kept_def case_prod_beta Let_def)

text \<open>What discovery relies on: the members are the backends added and not removed, and neither changes a backend.\<close>

locale membership =
  fixes B :: "lb_heap balancer"
  assumes Add_All: "m_All B (m_Add B b s) = m_All B s @ [b]"
    and Remove_All: "m_All B (m_Remove B b s) = remove1 b (m_All B s)"
    and All_be: "m_All B (s\<lparr>h_be := f\<rparr>) = m_All B s"
    and Add_be: "h_be (m_Add B b s) = h_be s"
    and Remove_be: "h_be (m_Remove B b s) = h_be s"
begin

lemma add_backend_All: "m_All B (add_backend B (n, cfg) s) = m_All B s @ [n]"
  by (simp add: add_backend_def Add_All All_be)

lemma disc_add_step:
  assumes "disc_inv B st"
  shows "disc_inv B (disc_add B cfg key st) \<and> static_of B (disc_add B cfg key st) = static_of B st \<and>
    fst ` set (fst (disc_add B cfg key st)) = insert key (fst ` set (fst st))"
proof -
  obtain ow n s where st: "st = (ow, n, s)" by (cases st)
  show ?thesis
  proof (cases "map_of ow key")
    case None
    then have new: "key \<notin> fst ` set ow" by (simp add: map_of_eq_None_iff)
    have n: "n \<notin> set (m_All B s)" "n \<notin> snd ` set ow" using assms by (auto simp: st disc_inv_def)
    have "filter (\<lambda>b. b \<noteq> n \<and> b \<notin> snd ` set ow) (m_All B s) = filter (\<lambda>b. b \<notin> snd ` set ow) (m_All B s)"
      using n(1) by (intro filter_cong) auto
    then have "static_of B (disc_add B cfg key st) = static_of B st"
      by (simp add: st disc_add_def None static_of_def add_backend_All)
    moreover have "disc_inv B (disc_add B cfg key st)"
      using assms new n by (auto simp: st disc_add_def None disc_inv_def add_backend_All less_Suc_eq)
    ultimately show ?thesis by (simp add: st disc_add_def None)
  next
    case (Some b)
    then have "key \<in> fst ` set ow" using map_of_SomeD[OF Some] by force
    then show ?thesis using assms Some by (auto simp: st disc_add_def)
  qed
qed

lemma disc_remove_step:
  assumes "disc_inv B st"
  shows "disc_inv B (disc_remove B key st) \<and> static_of B (disc_remove B key st) = static_of B st \<and>
    fst ` set (fst (disc_remove B key st)) = fst ` set (fst st) - {key}"
proof -
  obtain ow n s where st: "st = (ow, n, s)" by (cases st)
  show ?thesis
  proof (cases "map_of ow key")
    case None
    then have "key \<notin> fst ` set ow" by (simp add: map_of_eq_None_iff)
    then show ?thesis using assms None by (simp add: st disc_remove_def)
  next
    case (Some b)
    have d: "distinct (map fst ow)" "distinct (map snd ow)" "distinct (m_All B s)" "snd ` set ow \<subseteq> set (m_All B s)"
      using assms by (auto simp: st disc_inv_def)
    have inb: "(key, b) \<in> set ow" using Some by (rule map_of_SomeD)
    have del: "set (AList.delete key ow) = {p \<in> set ow. fst p \<noteq> key}" by (auto simp: AList.delete_eq)
    have only: "p \<in> set ow \<Longrightarrow> snd p = b \<longleftrightarrow> fst p = key" for p
      using d(1,2) inb by (metis eq_key_imp_eq_value fst_conv inj_on_eq_iff distinct_map prod.collapse snd_conv)
    have img: "snd ` set (AList.delete key ow) = snd ` set ow - {b}"
      unfolding del using only by auto
    have "filter (\<lambda>x. x \<notin> snd ` set ow - {b}) (remove1 b (m_All B s)) = filter (\<lambda>x. x \<notin> snd ` set ow) (m_All B s)"
    proof -
      have "b \<in> snd ` set ow" using inb by force
      then show ?thesis using d(3) by (auto simp: distinct_remove1_removeAll removeAll_filter_not_eq intro!: filter_cong)
    qed
    then have "static_of B (disc_remove B key st) = static_of B st"
      by (simp add: st disc_remove_def Some static_of_def Remove_All img)
    moreover have "snd ` set (AList.delete key ow) \<subseteq> set (remove1 b (m_All B s))" using d(3,4) img by auto
    moreover have "distinct (map snd (AList.delete key ow))" "distinct (map fst (AList.delete key ow))"
      using d(1,2) by (simp_all add: AList.delete_eq distinct_map_filter)
    moreover have "\<forall>x\<in>set (remove1 b (m_All B s)). x < n" using assms d(3) by (simp add: st disc_inv_def)
    ultimately have "disc_inv B (disc_remove B key st)" and "static_of B (disc_remove B key st) = static_of B st"
      using d(3) by (simp_all add: st disc_remove_def Some disc_inv_def Remove_All)
    then show ?thesis by (auto simp: st disc_remove_def Some del)
  qed
qed

lemma disc_add_run:
  assumes "disc_inv B st"
  shows "disc_inv B (fold (disc_add B cfg) ks st) \<and> static_of B (fold (disc_add B cfg) ks st) = static_of B st \<and>
    fst ` set (fst (fold (disc_add B cfg) ks st)) = set ks \<union> fst ` set (fst st)"
  using assms
proof (induction ks arbitrary: st)
  case (Cons k ks)
  then show ?case using Cons.IH[of "disc_add B cfg k st"] disc_add_step[OF Cons.prems, of cfg k] by auto
qed simp

lemma disc_remove_run:
  assumes "disc_inv B st"
  shows "disc_inv B (fold (disc_remove B) ks st) \<and> static_of B (fold (disc_remove B) ks st) = static_of B st \<and>
    fst ` set (fst (fold (disc_remove B) ks st)) = fst ` set (fst st) - set ks"
  using assms
proof (induction ks arbitrary: st)
  case (Cons k ks)
  then show ?case using Cons.IH[of "disc_remove B k st"] disc_remove_step[OF Cons.prems, of k] by auto
qed simp

lemma disc_add_urls:
  assumes "disc_inv B st" "disc_urls (\<lambda>k. cfg_URL (cfg k)) st"
  shows "disc_urls (\<lambda>k. cfg_URL (cfg k)) (disc_add B cfg key st) \<and> disc_kept st (disc_add B cfg key st)"
proof -
  obtain ow n s where st: "st = (ow, n, s)" by (cases st)
  have "\<forall>b\<in>snd ` set ow. b < n" using assms(1) by (auto simp: st disc_inv_def)
  then show ?thesis using assms(2)
    by (cases "map_of ow key")
      (auto simp: st disc_add_def disc_urls_def disc_kept_def add_backend_def Add_be NewBackend_def)
qed

lemma disc_remove_urls: "disc_urls f st \<Longrightarrow> disc_urls f (disc_remove B key st) \<and> disc_kept st (disc_remove B key st)"
  by (cases st) (auto simp: disc_remove_def disc_urls_def disc_kept_def Remove_be AList.delete_eq split: option.split)

lemma disc_add_run_urls:
  "disc_inv B st \<Longrightarrow> disc_urls (\<lambda>k. cfg_URL (cfg k)) st \<Longrightarrow>
    disc_urls (\<lambda>k. cfg_URL (cfg k)) (fold (disc_add B cfg) ks st) \<and> disc_kept st (fold (disc_add B cfg) ks st)"
proof (induction ks arbitrary: st)
  case (Cons k ks)
  show ?case using Cons.IH[of "disc_add B cfg k st"] disc_add_step[OF Cons.prems(1), of cfg k] disc_add_urls[OF Cons.prems, of k]
    by (auto intro: disc_kept_trans)
qed (simp add: disc_kept_refl)

lemma disc_remove_run_urls: "disc_urls f st \<Longrightarrow> disc_urls f (fold (disc_remove B) ks st) \<and> disc_kept st (fold (disc_remove B) ks st)"
proof (induction ks arbitrary: st)
  case (Cons k ks)
  show ?case using Cons.IH[of "disc_remove B k st"] disc_remove_urls[OF Cons.prems, of k] by (auto intro: disc_kept_trans)
qed (simp add: disc_kept_refl)

lemma converge_sorted_urls:
  assumes "disc_inv B st" "disc_urls (\<lambda>k. cfg_URL (cfg k)) st"
  shows "disc_urls (\<lambda>k. cfg_URL (cfg k)) (converge_sorted B cfg desired st) \<and> disc_kept st (converge_sorted B cfg desired st)"
  using disc_add_run_urls[OF assms, of desired] disc_remove_run_urls unfolding converge_sorted_def Let_def by (blast intro: disc_kept_trans)

lemma converge_both:
  assumes "disc_inv B st" "set gone = fst ` set (fst (fold (disc_add B cfg) desired st)) - set desired"
  shows "let st' = fold (disc_remove B) gone (fold (disc_add B cfg) desired st) in
    disc_inv B st' \<and> static_of B st' = static_of B st \<and> fst ` set (fst st') = set desired"
proof -
  note a = disc_add_run[OF assms(1), of cfg desired]
  note r = disc_remove_run[OF a[THEN conjunct1], of gone]
  show ?thesis using a r assms(2) by (auto simp: Let_def)
qed

lemma converge_ok:
  assumes "disc_inv B st"
  shows "let st' = converge B cfg desired st in disc_inv B st' \<and> static_of B st' = static_of B st \<and> fst ` set (fst st') = set desired"
  unfolding converge_def Let_def using converge_both[OF assms, of _ cfg desired] by (simp add: Let_def) (rule converge_both[OF assms, unfolded Let_def]; auto)

lemma converge_sorted_ok:
  assumes "disc_inv B st"
  shows "let st' = converge_sorted B cfg desired st in disc_inv B st' \<and> static_of B st' = static_of B st \<and> fst ` set (fst st') = set desired"
  unfolding converge_sorted_def Let_def by (rule converge_both[OF assms, unfolded Let_def]) auto

end


section \<open>Every balancer of the configuration keeps its membership\<close>

lemma membership_base: "m_All B = BB_All a \<Longrightarrow> m_Add B = BB_Add a \<Longrightarrow> m_Remove B = BB_Remove a \<Longrightarrow> membership B"
  by unfold_locales (auto simp: BB_All_def BB_Add_def BB_Remove_def remove1_idem)

lemma membership_same:
  "membership B \<Longrightarrow> m_All B' = m_All B \<Longrightarrow> m_Add B' = m_Add B \<Longrightarrow> m_Remove B' = m_Remove B \<Longrightarrow> membership B'"
  by (simp add: membership_def)

lemmas vtable_defs = RoundRobin_def LeastConnections_def WeightedRoundRobin_def SWRR_def WeightedLeastConn_def
  WeightedRandom_def P2C_def ConsistentHash_def EWMA_def IPHash_def base_methods_def

lemma membership_algorithm:
  "NewByAlgorithm mexp a name reps lf s = (Some B, s') \<Longrightarrow> membership B"
  by (rule membership_base[of _ a]) (auto simp: NewByAlgorithm_def vtable_defs split: if_splits)

interpretation rr_members: membership "RoundRobin a" for a
  by (rule membership_base[of _ a]) (simp_all add: vtable_defs)

lemmas wrapper_defs = PriorityTiers_def ZoneAware_def SlowStart_def OutlierDetection_def narrowing_wrapper_def forwarding_def

lemma membership_wrappers:
  assumes "membership B"
  shows "membership (PriorityTiers B)" "membership (ZoneAware z p B)" "membership (SlowStart a B)" "membership (OutlierDetection a B)"
  by (rule membership_same[OF assms]; simp add: wrapper_defs)+

lemma membership_setup: "setupBalancer mexp a lb backends s = (B, s') \<Longrightarrow> membership B"
proof -
  assume a: "setupBalancer mexp a lb backends s = (B, s')"
  obtain r s1 where r: "NewByAlgorithm mexp a (lb_Algorithm lb) (lb_Replicas lb) (lb_LoadFactor lb) s = (r, s1)" by fastforce
  have "membership (case r of Some b \<Rightarrow> b | None \<Rightarrow> RoundRobin a)"
    using membership_algorithm[of mexp a _ _ _ s _ s1] r rr_members.membership_axioms by (auto split: option.split)
  then show ?thesis using a by (auto simp: setupBalancer_def r compose_def Let_def intro!: membership_wrappers)
qed


text \<open>
  Kubernetes discovery follows the Endpoints object: after an \<open>ADDED\<close> or \<open>MODIFIED\<close> event the
  owned keys are the ready addresses with the resolved port, after a \<open>DELETED\<close> event there are
  none, and in every case the members it does not own stay as they are.
\<close>

lemma k8s_watch_follows:
  assumes "setupBalancer mexp a lb backends s0 = (B, s1)" "disc_inv B (kd_owned kd, kd_next kd, s)"
    and "watch_line B (Some ev) (rv, kd, s) = (rv', kd', s')"
  shows "disc_inv B (kd_owned kd', kd_next kd', s') \<and>
    static_of B (kd_owned kd', kd_next kd', s') = static_of B (kd_owned kd, kd_next kd, s) \<and>
    (kw_Type ev = ''ADDED'' \<or> kw_Type ev = ''MODIFIED'' \<longrightarrow>
       fst ` set (kd_owned kd') = set (addressesFromEndpoints kd (kw_Object ev))) \<and>
    (kw_Type ev = ''DELETED'' \<longrightarrow> kd_owned kd' = [])"
proof -
  note m = membership_setup[OF assms(1)]
  obtain ow n s2 where c: "converge B (k8s_backend (kd_scheme kd)) (addressesFromEndpoints kd (kw_Object ev)) (kd_owned kd, kd_next kd, s) = (ow, n, s2)"
    by (metis surj_pair)
  obtain ow' n' s3 where r: "fold (disc_remove B) (map fst (kd_owned kd)) (kd_owned kd, kd_next kd, s) = (ow', n', s3)"
    by (metis surj_pair)
  have cv: "disc_inv B (ow, n, s2)" "static_of B (ow, n, s2) = static_of B (kd_owned kd, kd_next kd, s)"
      "fst ` set ow = set (addressesFromEndpoints kd (kw_Object ev))"
    using membership.converge_ok[OF m assms(2)] c by (metis fst_conv)+
  have rm: "disc_inv B (ow', n', s3)" "static_of B (ow', n', s3) = static_of B (kd_owned kd, kd_next kd, s)" "fst ` set ow' = {}"
    using membership.disc_remove_run[OF m assms(2), of "map fst (kd_owned kd)"] by (auto simp: r)
  consider (sync) "kw_Type ev = ''ADDED'' \<or> kw_Type ev = ''MODIFIED''" | (del) "kw_Type ev = ''DELETED''"
    | (other) "kw_Type ev \<noteq> ''ADDED''" "kw_Type ev \<noteq> ''MODIFIED''" "kw_Type ev \<noteq> ''DELETED''" by blast
  then show ?thesis
  proof cases
    case sync
    then have "kd' = kd\<lparr>kd_owned := ow, kd_next := n\<rparr>" "s' = s2"
      using assms(3) by (simp_all add: watch_line_def k8s_sync_def k8s_put_def c Let_def)
    moreover have "kw_Type ev \<noteq> ''DELETED''" using sync by auto
    ultimately show ?thesis using cv by simp
  next
    case del
    then have "kd' = kd\<lparr>kd_owned := ow', kd_next := n'\<rparr>" "s' = s3"
      using assms(3) by (simp_all add: watch_line_def removeAll_def k8s_put_def r Let_def)
    then show ?thesis using rm del by simp
  next
    case other
    then have "kd' = kd" "s' = s" using assms(3) by (simp_all add: watch_line_def Let_def)
    then show ?thesis using assms(2) other by simp
  qed
qed

definition run_waits_ok :: "duration \<Rightarrow> duration list \<Rightarrow> bool" where
  "run_waits_ok b ws \<longleftrightarrow> (\<forall>d\<in>set ws. Second \<le> d \<and> d \<le> 30 * Second) \<and> (ws \<noteq> [] \<longrightarrow> hd ws \<le> b) \<and>
     (\<forall>i. Suc i < length ws \<longrightarrow> ws ! Suc i \<le> 2 * ws ! i)"

lemma run_waits_ok_Cons:
  assumes "run_waits_ok (2 * d) ws" "Second \<le> d" "d \<le> 30 * Second" "d \<le> b"
  shows "run_waits_ok b (d # ws)"
  unfolding run_waits_ok_def
proof (intro conjI allI impI)
  show "\<forall>x\<in>set (d # ws). Second \<le> x \<and> x \<le> 30 * Second" using assms by (simp add: run_waits_ok_def)
  show "hd (d # ws) \<le> b" using assms(4) by simp
  fix i assume i: "Suc i < length (d # ws)"
  show "(d # ws) ! Suc i \<le> 2 * (d # ws) ! i"
  proof (cases i)
    case 0
    then show ?thesis using i assms(1) by (cases ws) (simp_all add: run_waits_ok_def)
  next
    case (Suc j)
    then show ?thesis using i assms(1) by (simp add: run_waits_ok_def)
  qed
qed

lemma run_waits_ok_mono: "run_waits_ok b ws \<Longrightarrow> b \<le> b' \<Longrightarrow> run_waits_ok b' ws"
  unfolding run_waits_ok_def by (meson order_trans)

lemma run_waits_ok: "Second \<le> b \<Longrightarrow> b \<le> 30 * Second \<Longrightarrow> run_waits_ok b (run_waits its b)"
proof (induction its b rule: run_waits.induct)
  case (2 its b)
  have "Second \<le> min2 (b * 2) (30 * Second)" "min2 (b * 2) (30 * Second) \<le> 30 * Second" "min2 (b * 2) (30 * Second) \<le> 2 * b"
    using 2 by (auto simp: min2_def Second_def)
  then have "run_waits_ok (2 * b) (run_waits its (min2 (b * 2) (30 * Second)))" using 2 run_waits_ok_mono by blast
  then show ?case unfolding run_waits.simps using 2 by (intro run_waits_ok_Cons) simp_all
next
  case (3 its b)
  have "Second \<le> min2 (Second * 2) (30 * Second)" "min2 (Second * 2) (30 * Second) \<le> 30 * Second" "min2 (Second * 2) (30 * Second) \<le> 2 * Second"
    by (auto simp: min2_def Second_def)
  then have "run_waits_ok (2 * Second) (run_waits its (min2 (Second * 2) (30 * Second)))" using 3 run_waits_ok_mono by blast
  then show ?case unfolding run_waits.simps using 3 by (intro run_waits_ok_Cons) (simp_all add: Second_def)
next
  case (4 its b)
  have "run_waits_ok Second (run_waits its Second)" using 4 by (simp add: Second_def)
  then show ?case unfolding run_waits.simps using 4 run_waits_ok_mono by blast
qed (simp add: run_waits_ok_def)

text \<open>
  Reconnecting backs off within bounds: however the iterations of the watch loop end, every
  wait is between one and thirty seconds, and a wait is at most twice the one before it.
\<close>

lemma k8s_backoff_bounded:
  "(\<forall>d\<in>set (run_waits its Second). Second \<le> d \<and> d \<le> 30 * Second) \<and>
   (\<forall>i. Suc i < length (run_waits its Second) \<longrightarrow> run_waits its Second ! Suc i \<le> 2 * run_waits its Second ! i)"
  using run_waits_ok[of Second its] by (simp add: run_waits_ok_def Second_def)

section \<open>Examples\<close>

definition plain_lb :: lb_config where
  "plain_lb = \<lparr>lb_Algorithm = ''round_robin'', lb_Replicas = 0, lb_LoadFactor = 0, lb_PreferSameZone = False, lb_Zone = [],
     lb_SlowStart = 0, lb_OutlierEnabled = False, lb_ErrorRateThreshold = 0, lb_MinRequests = 0, lb_BaseEjection = 0,
     lb_MaxEjectionPercent = 0\<rparr>"

lemma plain_setup: "setupBalancer id 0 plain_lb [] duo = (RoundRobin 0, duo)"
  by (simp add: setupBalancer_def plain_lb_def NewByAlgorithm_def compose_def backendsUseTiers_def)

lemma plain_inv: "disc_inv (RoundRobin 0) ([], 2, duo)"
  by (simp add: disc_inv_def RoundRobin_def base_methods_def)

definition demo_target :: dns_target where
  "demo_target = \<lparr>dt_Name = ''svc'', dt_Type = [], dt_Port = 80, dt_Scheme = [], dt_Weight = 1, dt_MaxConns = 10\<rparr>"

definition demo_resolver :: resolver where
  "demo_resolver = \<lparr>LookupSRV = (\<lambda>_. None), LookupHost = (\<lambda>_. Some [''10.0.0.1'', ''10.0.0.2''])\<rparr>"

lemma demo_resolve: "resolve demo_resolver demo_target =
    Some (remdups [hostport_url ''http'' ''10.0.0.1'' 80, hostport_url ''http'' ''10.0.0.2'' 80])"
  by (simp add: resolve_def demo_resolver_def demo_target_def ToLower_def Let_def del: remdups.simps)

lemma demo_static: "static_of (RoundRobin 0) ([], 2, duo) = [0, 1]"
  by (simp add: static_of_def RoundRobin_def base_methods_def)

lemma demo_owned: "owned_of \<lparr>d_owned = [], d_next = 2\<rparr> name = []"
  by (simp add: owned_of_def)


definition demo_kd :: kubernetesDiscovery where
  "demo_kd = \<lparr>kd_namespace = ''default'', kd_service = ''web'', kd_portName = [], kd_token = [], kd_tokenFile = [], kd_clientCert = [],
     kd_clientKey = [], kd_apiServer = [], kd_caCert = [], kd_scheme = ''http'', kd_owned = [], kd_next = 2\<rparr>"

definition demo_event :: k8sWatchEvent where
  "demo_event = \<lparr>kw_Type = ''ADDED'', kw_Object = \<lparr>ke_ResourceVersion = ''7'',
     ke_Subsets = [\<lparr>ks_Addresses = [''10.1.1.1''], ks_NotReadyAddresses = [], ks_Ports = [(''web'', 8080)]\<rparr>]\<rparr>\<rparr>"

lemma k8s_watch_follows_witness:
  "\<exists>rv' kd' s'. watch_line (RoundRobin 0) (Some demo_event) ([], demo_kd, duo) = (rv', kd', s') \<and>
     fst ` set (kd_owned kd') = set (addressesFromEndpoints demo_kd (kw_Object demo_event))"
proof -
  obtain rv' kd' s' where e: "watch_line (RoundRobin 0) (Some demo_event) ([], demo_kd, duo) = (rv', kd', s')" by (rule prod_cases3)
  have i: "disc_inv (RoundRobin 0) (kd_owned demo_kd, kd_next demo_kd, duo)" using plain_inv by (simp add: demo_kd_def)
  have "kw_Type demo_event = ''ADDED'' \<or> kw_Type demo_event = ''MODIFIED''" by (simp add: demo_event_def)
  with k8s_watch_follows[OF plain_setup i e] have "fst ` set (kd_owned kd') = set (addressesFromEndpoints demo_kd (kw_Object demo_event))"
    by (elim conjE) (rule mp)
  then show ?thesis by (intro exI[of _ rv'] exI[of _ kd'] exI[of _ s'] conjI e)
qed

theorem k8s_backoff_bounded_witness:
  "run_waits [ListFailed, WatchFailed] Second ! Suc 0 \<le> 2 * run_waits [ListFailed, WatchFailed] Second ! 0"
  by (rule mp[OF spec[OF conjunct2[OF k8s_backoff_bounded]]]) simp

end
