(* ===== verification/HealthCheck.thy ===== *)
theory HealthCheck
  imports LbHeap Http
begin

text \<open>
  \<open>internal/health\<close>: active health checks with rise and fall thresholds, and the gRPC health
  service.  The outcome of an HTTP exchange (status and the first 64 KiB of the body), of a dial,
  of parsing a URL and of a random draw are arguments.
\<close>

record hc_config =
  hk_Interval :: duration
  hk_Timeout :: duration
  hk_Path :: string
  hk_Type :: string
  hk_Method :: string
  hk_ExpectedStatuses :: "int list"
  hk_ExpectedBody :: string
  hk_Host :: string
  hk_Headers :: "(string \<times> string) list"
  hk_HealthyThreshold :: int
  hk_UnhealthyThreshold :: int
  hk_Jitter :: f64
  hk_StartupGracePeriod :: duration

record healthChecker =
  hk_cfg :: hc_config
  hk_overrides :: "string \<rightharpoonup> hc_config"
  hk_startedAt :: time

definition effectiveConfig :: "healthChecker \<Rightarrow> 'a heap_scheme \<Rightarrow> bid \<Rightarrow> hc_config" where
  "effectiveConfig h s b = (case hk_overrides h (be_URL (h_be s b)) of Some ov \<Rightarrow> ov | None \<Rightarrow> hk_cfg h)"

definition jitteredInterval :: "hc_config \<Rightarrow> f64 \<Rightarrow> duration" where
  "jitteredInterval cfg u =
     (let interval = hk_Interval cfg in
      if interval \<le> 0 \<or> hk_Jitter cfg \<le> 0 then interval
      else let j = (if hk_Jitter cfg > 1 then 1 else hk_Jitter cfg);
               delta = f64_mul (f64_sub (f64_mul u 2) 1) j;
               d = f64_trunc (f64_mul (f64_of_int interval) (f64_add 1 delta))
           in if d \<le> 0 then interval else d)"

definition statusAccepted :: "int \<Rightarrow> int list \<Rightarrow> bool" where
  "statusAccepted code expected =
     (if expected = [] then code \<ge> 200 \<and> code < 300 else list_ex (\<lambda>x. x = code) expected)"

text \<open>A request of a probe: method, target, host and headers; no answer is an error.\<close>

type_synonym http_do = "string \<Rightarrow> string \<Rightarrow> string \<Rightarrow> (string \<times> string) list \<Rightarrow> (int \<times> string option) option"

definition checkHTTP :: "http_do \<Rightarrow> string \<Rightarrow> hc_config \<Rightarrow> bool" where
  "checkHTTP client url cfg =
     (let method = (if hk_Method cfg = [] then ''GET'' else hk_Method cfg) in
      case client method (url @ hk_Path cfg) (hk_Host cfg) (hk_Headers cfg) of
        None \<Rightarrow> False
      | Some (status, body) \<Rightarrow>
          if \<not> statusAccepted status (hk_ExpectedStatuses cfg) then False
          else if hk_ExpectedBody cfg \<noteq> []
               then (case body of None \<Rightarrow> False | Some txt \<Rightarrow> ContainsStr txt (hk_ExpectedBody cfg))
               else True)"

definition JoinHostPort :: "string \<Rightarrow> string \<Rightarrow> string" where
  "JoinHostPort host port = (if CHR '':'' \<in> set host then ''['' @ host @ '']:'' @ port else host @ '':'' @ port)"

text \<open>The dial address of a URL parsed into scheme, host name and port.\<close>

definition hostPort :: "(string \<Rightarrow> (string \<times> string \<times> string) option) \<Rightarrow> string \<Rightarrow> string option" where
  "hostPort urlParse rawURL = (case urlParse rawURL of
     None \<Rightarrow> None
   | Some (scheme, host, port) \<Rightarrow>
       Some (JoinHostPort host (if port = [] then (if ToLower scheme = ''https'' then ''443'' else ''80'') else port)))"

definition checkTCP :: "(string \<Rightarrow> (string \<times> string \<times> string) option) \<Rightarrow> (string \<Rightarrow> bool) \<Rightarrow> string \<Rightarrow> bool" where
  "checkTCP urlParse dial url = (case hostPort urlParse url of None \<Rightarrow> False | Some addr \<Rightarrow> dial addr)"

definition markHealthy :: "bid \<Rightarrow> hc_config \<Rightarrow> 'a heap_scheme \<Rightarrow> 'a heap_scheme" where
  "markHealthy b cfg s =
     (let s1 = RecordSuccess b s;
          threshold = (if hk_HealthyThreshold cfg < 1 then 1 else hk_HealthyThreshold cfg)
      in if GetSuccesses s1 b \<ge> threshold \<and> \<not> IsHealthy s1 b then SetHealthy b True s1 else s1)"

definition markUnhealthy :: "time \<Rightarrow> time \<Rightarrow> bid \<Rightarrow> hc_config \<Rightarrow> 'a heap_scheme \<Rightarrow> 'a heap_scheme" where
  "markUnhealthy startedAt now b cfg s =
     (let s1 = RecordFailure b s;
          threshold = (if hk_UnhealthyThreshold cfg < 1 then 1 else hk_UnhealthyThreshold cfg)
      in if hk_StartupGracePeriod cfg > 0 \<and> time_Sub now startedAt < hk_StartupGracePeriod cfg then s1
         else if GetFailures s1 b \<ge> threshold \<and> IsHealthy s1 b then SetHealthy b False s1 else s1)"

definition checkBackend ::
  "http_do \<Rightarrow> (string \<Rightarrow> (string \<times> string \<times> string) option) \<Rightarrow> (string \<Rightarrow> bool) \<Rightarrow> healthChecker \<Rightarrow> time \<Rightarrow> bid \<Rightarrow>
   hc_config \<Rightarrow> 'a heap_scheme \<Rightarrow> 'a heap_scheme" where
  "checkBackend client urlParse dial h now b cfg s =
     (let url = be_URL (h_be s b);
          ok = (if EqualFold (hk_Type cfg) ''tcp'' then checkTCP urlParse dial url else checkHTTP client url cfg)
      in if ok then markHealthy b cfg s else markUnhealthy (hk_startedAt h) now b cfg s)"

definition checkAll where
  "checkAll client urlParse dial h now backends s =
     fold (\<lambda>b s. checkBackend client urlParse dial h now b (effectiveConfig h s b) s) backends s"

section \<open>The gRPC health service\<close>

datatype serving = SERVING | NOT_SERVING | UNKNOWN

type_synonym grpc_health = "string \<rightharpoonup> serving"

definition NewGRPCHealthServer :: grpc_health where
  "NewGRPCHealthServer = [[] \<mapsto> SERVING]"

definition SetServingStatus :: "string \<Rightarrow> serving \<Rightarrow> grpc_health \<Rightarrow> grpc_health" where
  "SetServingStatus service st m = m(service \<mapsto> st)"

definition GRPC_Check :: "grpc_health \<Rightarrow> string \<Rightarrow> serving" where
  "GRPC_Check m service = (case m service of Some st \<Rightarrow> st | None \<Rightarrow> SERVING)"

section \<open>Hysteresis\<close>

lemma SetHealthy_sel [simp]:
  "IsHealthy (SetHealthy b v s) x = (if x = b then v else IsHealthy s x)"
  "GetFailures (SetHealthy b v s) x = GetFailures s x" "GetSuccesses (SetHealthy b v s) x = GetSuccesses s x"
  "be_Failures (h_be (SetHealthy b v s) x) = be_Failures (h_be s x)"
  "be_Successes (h_be (SetHealthy b v s) x) = be_Successes (h_be s x)"
  by (auto simp: SetHealthy_def IsHealthy_def GetFailures_def GetSuccesses_def upd_be_def Let_def)

lemma Record_sel [simp]:
  "IsHealthy (RecordFailure b s) x = IsHealthy s x" "IsHealthy (RecordSuccess b s) x = IsHealthy s x"
  "be_Failures (h_be (RecordFailure b s) b) = be_Failures (h_be s b) + 1"
  "be_Successes (h_be (RecordSuccess b s) b) = be_Successes (h_be s b) + 1"
  by (auto simp: RecordFailure_def RecordSuccess_def IsHealthy_def upd_be_def)

definition past_grace :: "hc_config \<Rightarrow> time \<Rightarrow> time \<Rightarrow> bool" where
  "past_grace cfg startedAt now \<longleftrightarrow> \<not> (hk_StartupGracePeriod cfg > 0 \<and> time_Sub now startedAt < hk_StartupGracePeriod cfg)"

lemma sint_count: "n < 2 ^ 31 \<Longrightarrow> sint (of_nat n :: int32) = int n"
  using sint32_of_int[of "int n"] by simp

lemma fall_run:
  assumes "be_Failures (h_be s b) = of_nat k" "k + length nows < 2 ^ 31"
  shows "IsHealthy (fold (\<lambda>now. markUnhealthy startedAt now b cfg) nows s) b \<longleftrightarrow> IsHealthy s b \<and>
    (\<forall>i < length nows. past_grace cfg startedAt (nows ! i) \<longrightarrow> int (k + i + 1) < max 1 (hk_UnhealthyThreshold cfg))"
  using assms
proof (induction nows arbitrary: s k)
  case (Cons now nows)
  let ?s = "markUnhealthy startedAt now b cfg s" and ?T = "max 1 (hk_UnhealthyThreshold cfg)"
  have f: "GetFailures (RecordFailure b s) b = int (Suc k)"
    using sint_count[of "Suc k"] Cons.prems by (simp add: GetFailures_def add.commute)
  have h: "IsHealthy ?s b \<longleftrightarrow> IsHealthy s b \<and> (past_grace cfg startedAt now \<longrightarrow> int (Suc k) < ?T)"
    using f by (auto simp: markUnhealthy_def past_grace_def Let_def)
  have "be_Failures (h_be ?s b) = of_nat (Suc k)" using Cons.prems(1) by (auto simp: markUnhealthy_def Let_def)
  from Cons.IH[OF this] Cons.prems(2)
  have "IsHealthy (fold (\<lambda>now. markUnhealthy startedAt now b cfg) nows ?s) b \<longleftrightarrow> IsHealthy ?s b \<and>
      (\<forall>i < length nows. past_grace cfg startedAt (nows ! i) \<longrightarrow> int (Suc k + i + 1) < ?T)" by simp
  then show ?case using h by (simp add: All_less_Suc2)
qed simp

lemma rise_run:
  assumes "be_Successes (h_be s b) = of_nat k" "k + n < 2 ^ 31" "IsHealthy s b = (int k \<ge> max 1 (hk_HealthyThreshold cfg))"
  shows "IsHealthy ((markHealthy b cfg ^^ n) s) b = (int (k + n) \<ge> max 1 (hk_HealthyThreshold cfg))"
  using assms
proof (induction n arbitrary: s k)
  case (Suc n)
  let ?s = "markHealthy b cfg s"
  have f: "GetSuccesses (RecordSuccess b s) b = int (Suc k)"
    using sint_count[of "Suc k"] Suc.prems(1,2) by (simp add: GetSuccesses_def add.commute)
  have "IsHealthy ?s b = (int (Suc k) \<ge> max 1 (hk_HealthyThreshold cfg))"
    using f Suc.prems(3) by (auto simp: markHealthy_def Let_def)
  moreover have "be_Successes (h_be ?s b) = of_nat (Suc k)"
    using Suc.prems(1) by (auto simp: markHealthy_def Let_def)
  ultimately show ?case using Suc.IH[of ?s "Suc k"] Suc.prems by (simp add: funpow_Suc_right del: funpow.simps)
qed simp

lemma mark_resets:
  "be_Successes (h_be (markUnhealthy startedAt now b cfg s) b) = 0" "be_Failures (h_be (markHealthy b cfg s) b) = 0"
  by (auto simp: markUnhealthy_def markHealthy_def RecordFailure_def RecordSuccess_def upd_be_def Let_def)


definition demo_hc :: hc_config where
  "demo_hc = \<lparr>hk_Interval = Second, hk_Timeout = Second, hk_Path = ''/health'', hk_Type = [], hk_Method = [],
     hk_ExpectedStatuses = [], hk_ExpectedBody = [], hk_Host = [], hk_Headers = [], hk_HealthyThreshold = 2,
     hk_UnhealthyThreshold = 3, hk_Jitter = 0, hk_StartupGracePeriod = 0\<rparr>"


text \<open>
  During the startup grace period a failed probe is counted and ejects nobody.
\<close>

lemma grace_never_ejects:
  assumes "\<not> past_grace cfg startedAt now"
  shows "IsHealthy (markUnhealthy startedAt now b cfg s) x = IsHealthy s x \<and>
    be_Failures (h_be (markUnhealthy startedAt now b cfg s) b) = be_Failures (h_be s b) + 1"
  using assms by (auto simp: markUnhealthy_def past_grace_def Let_def)

lemma grace_never_ejects_witness:
  "IsHealthy (markUnhealthy 0 5 0 (demo_hc\<lparr>hk_StartupGracePeriod := Second\<rparr>) duo) 0"
  using grace_never_ejects[of "demo_hc\<lparr>hk_StartupGracePeriod := Second\<rparr>" 0 5 0 duo 0]
  by (simp add: past_grace_def demo_hc_def Second_def time_Sub_def MinInt64_def MaxInt64_def)

end
