(* ===== verification/Cache.thy ===== *)
theory Cache
  imports Http GoTime
begin

text \<open>
  \<open>internal/middleware/cache.go\<close>: the response cache.  The entries are the list in the order of
  recency; the map from keys to list elements is the lookup by key in it.  A downstream handler
  is the response header and the sequence of calls it makes on the response writer.  Parsing of
  HTTP dates is an argument.
\<close>

section \<open>Entries and directives\<close>

record cacheEntry =
  ce_key :: string
  ce_baseKey :: string
  ce_status :: int
  ce_header :: header
  ce_body :: string
  ce_storedAt :: time
  ce_ttl :: duration
  ce_swr :: duration
  ce_etag :: string
  ce_lastMod :: string
  ce_varyNames :: "string list"
  ce_public :: bool

definition fresh :: "time \<Rightarrow> cacheEntry \<Rightarrow> bool" where
  "fresh now e \<longleftrightarrow> time_Sub now (ce_storedAt e) < ce_ttl e"

definition serveableStale :: "time \<Rightarrow> cacheEntry \<Rightarrow> bool" where
  "serveableStale now e =
     (if ce_swr e \<le> 0 then False
      else let age = time_Sub now (ce_storedAt e) in age \<ge> ce_ttl e \<and> age < wrap64 (ce_ttl e + ce_swr e))"

record cacheControl =
  cc_noStore :: bool
  cc_noCache :: bool
  cc_private :: bool
  cc_public :: bool
  cc_maxAge :: int
  cc_maxAgeSet :: bool
  cc_swr :: int

definition empty_cc :: cacheControl where
  "empty_cc = \<lparr>cc_noStore = False, cc_noCache = False, cc_private = False, cc_public = False, cc_maxAge = 0,
     cc_maxAgeSet = False, cc_swr = 0\<rparr>"

text \<open>One directive; the accumulator carries \<open>s-maxage\<close> and \<open>max-age\<close>, -1 when absent.\<close>

definition cc_directive :: "string \<Rightarrow> cacheControl \<times> int \<times> int \<Rightarrow> cacheControl \<times> int \<times> int" where
  "cc_directive raw acc =
     (let (cc, sMaxAge, maxAge) = acc; d = TrimSpace (ToLower raw) in
      if d = ''no-store'' then (cc\<lparr>cc_noStore := True\<rparr>, sMaxAge, maxAge)
      else if d = ''no-cache'' then (cc\<lparr>cc_noCache := True\<rparr>, sMaxAge, maxAge)
      else if d = ''private'' then (cc\<lparr>cc_private := True\<rparr>, sMaxAge, maxAge)
      else if d = ''public'' then (cc\<lparr>cc_public := True\<rparr>, sMaxAge, maxAge)
      else if HasPrefix d ''s-maxage='' then
        (case ParseInt64 (TrimPrefix d ''s-maxage='') of Some n \<Rightarrow> (cc, n, maxAge) | None \<Rightarrow> acc)
      else if HasPrefix d ''max-age='' then
        (case ParseInt64 (TrimPrefix d ''max-age='') of Some n \<Rightarrow> (cc, sMaxAge, n) | None \<Rightarrow> acc)
      else if HasPrefix d ''stale-while-revalidate='' then
        (case ParseInt64 (TrimPrefix d ''stale-while-revalidate='') of
           Some n \<Rightarrow> if n > 0 then (cc\<lparr>cc_swr := n\<rparr>, sMaxAge, maxAge) else acc
         | None \<Rightarrow> acc)
      else acc)"

definition parseCacheControl :: "string \<Rightarrow> cacheControl" where
  "parseCacheControl v =
     (if v = [] then empty_cc
      else let (cc, sMaxAge, maxAge) = fold cc_directive (SplitChar CHR '','' v) (empty_cc, -1, -1)
           in if sMaxAge \<ge> 0 then cc\<lparr>cc_maxAge := sMaxAge, cc_maxAgeSet := True\<rparr>
              else if maxAge \<ge> 0 then cc\<lparr>cc_maxAge := maxAge, cc_maxAgeSet := True\<rparr> else cc)"

definition requestBypassesCache :: "request \<Rightarrow> bool" where
  "requestBypassesCache r \<longleftrightarrow>
     (let cc = parseCacheControl (hdr_Get (r_Header r) ''Cache-Control'') in cc_noStore cc \<or> cc_noCache cc)"

section \<open>Keys\<close>

definition requestKey :: "request \<Rightarrow> string" where
  "requestKey r =
     (let host = (if r_Host r = [] then r_URLHost r else r_Host r)
      in r_Method r @ '' '' @ host @ '' '' @ r_RequestURI r)"

definition buildVaryKey :: "string list \<Rightarrow> request \<Rightarrow> string" where
  "buildVaryKey names r =
     (if names = [] then [] else '' vary:'' @ concat (map (\<lambda>n. n @ ''='' @ hdr_Get (r_Header r) n @ '';'') names))"

definition parseVary :: "string \<Rightarrow> string list" where
  "parseVary v =
     (if v = [] then []
      else filter (\<lambda>p. p \<noteq> []) (map (\<lambda>p. CanonicalHeaderKey (TrimSpace p)) (SplitChar CHR '','' v)))"

section \<open>Conditional requests\<close>

definition etagMatch :: "string \<Rightarrow> string \<Rightarrow> bool" where
  "etagMatch a b \<longleftrightarrow> TrimPrefix a ''W/'' = TrimPrefix b ''W/''"

definition notModified :: "(string \<Rightarrow> time option) \<Rightarrow> request \<Rightarrow> cacheEntry \<Rightarrow> bool" where
  "notModified parseTime r e =
     (let inm = hdr_Get (r_Header r) ''If-None-Match''; ims = hdr_Get (r_Header r) ''If-Modified-Since'' in
      if inm \<noteq> [] \<and> ce_etag e \<noteq> []
      then list_ex (\<lambda>t. let tag = TrimSpace t in tag = ''*'' \<or> etagMatch tag (ce_etag e)) (SplitChar CHR '','' inm)
      else if ims \<noteq> [] \<and> ce_lastMod e \<noteq> []
      then (case (parseTime ims, parseTime (ce_lastMod e)) of (Some i, Some l) \<Rightarrow> \<not> l > i | _ \<Rightarrow> False)
      else False)"

definition ageSeconds :: "time \<Rightarrow> cacheEntry \<Rightarrow> string" where
  "ageSeconds now e = (let age = time_Sub now (ce_storedAt e) sdiv Second in FormatInt (if age < 0 then 0 else age))"

section \<open>The capturing writer\<close>

record cacheCapture =
  cw_maxBody :: int
  cw_status :: int
  cw_wroteHeader :: bool
  cw_body :: string
  cw_overflow :: bool
  cw_streamed :: bool
  cw_hijacked :: bool

datatype writer_call = WriteHeaderCall int | WriteCall string | FlushCall | HijackCall

definition new_capture :: "int \<Rightarrow> cacheCapture" where
  "new_capture maxBody = \<lparr>cw_maxBody = maxBody, cw_status = 200, cw_wroteHeader = False, cw_body = [],
     cw_overflow = False, cw_streamed = False, cw_hijacked = False\<rparr>"

definition cw_WriteHeader :: "int \<Rightarrow> cacheCapture \<Rightarrow> cacheCapture" where
  "cw_WriteHeader code c = (if cw_wroteHeader c then c else c\<lparr>cw_wroteHeader := True, cw_status := code\<rparr>)"

definition cw_Write :: "string \<Rightarrow> cacheCapture \<Rightarrow> cacheCapture" where
  "cw_Write b c0 =
     (let c = (if cw_wroteHeader c0 then c0 else cw_WriteHeader 200 c0) in
      if \<not> cw_overflow c \<and> \<not> cw_streamed c
      then (if int (length (cw_body c)) + int (length b) > cw_maxBody c then c\<lparr>cw_overflow := True, cw_body := []\<rparr>
            else c\<lparr>cw_body := cw_body c @ b\<rparr>)
      else c)"

fun cw_call :: "writer_call \<Rightarrow> cacheCapture \<Rightarrow> cacheCapture" where
  "cw_call (WriteHeaderCall code) c = cw_WriteHeader code c"
| "cw_call (WriteCall b) c = cw_Write b c"
| "cw_call FlushCall c = c\<lparr>cw_streamed := True, cw_body := []\<rparr>"
| "cw_call HijackCall c = c\<lparr>cw_hijacked := True\<rparr>"

section \<open>The cache\<close>

record responseCache =
  rc_methods :: "string list"
  rc_defaultTTL :: duration
  rc_maxEntries :: int
  rc_maxBody :: int
  rc_lru :: "cacheEntry list"
  rc_varyHints :: "string \<rightharpoonup> string list"
  rc_refreshing :: "string list"

definition NewCache :: "string list \<Rightarrow> duration \<Rightarrow> int \<Rightarrow> int \<Rightarrow> responseCache" where
  "NewCache methods defaultTTL maxEntries maxBody =
     \<lparr>rc_methods = map (\<lambda>m. ToUpper (TrimSpace m)) (if methods = [] then [''GET'', ''HEAD''] else methods),
      rc_defaultTTL = (if defaultTTL \<le> 0 then 60 * Second else defaultTTL),
      rc_maxEntries = (if maxEntries \<le> 0 then 1000 else maxEntries),
      rc_maxBody = (if maxBody \<le> 0 then 2 ^ 20 else maxBody),
      rc_lru = [], rc_varyHints = (\<lambda>_. None), rc_refreshing = []\<rparr>"

definition cache_lookup :: "string \<Rightarrow> request \<Rightarrow> responseCache \<Rightarrow> cacheEntry option \<times> responseCache" where
  "cache_lookup baseKey r c =
     (let key = (case rc_varyHints c baseKey of Some names \<Rightarrow> baseKey @ buildVaryKey names r | None \<Rightarrow> baseKey) in
      case find (\<lambda>e. ce_key e = key) (rc_lru c) of
        Some e \<Rightarrow> (Some e, c\<lparr>rc_lru := e # remove1 e (rc_lru c)\<rparr>)
      | None \<Rightarrow> (None, c))"

definition purgeBaseLocked :: "string \<Rightarrow> responseCache \<Rightarrow> responseCache" where
  "purgeBaseLocked baseKey c = c\<lparr>rc_lru := filter (\<lambda>e. ce_baseKey e \<noteq> baseKey) (rc_lru c)\<rparr>"

fun evict :: "nat \<Rightarrow> cacheEntry list \<Rightarrow> cacheEntry list" where
  "evict bound lru = (if length lru > bound then evict bound (butlast lru) else lru)"

declare evict.simps [simp del]

definition fix_hint :: "cacheEntry \<Rightarrow> responseCache \<Rightarrow> responseCache" where
  "fix_hint e c =
     (let prev = rc_varyHints c (ce_baseKey e) in
      if (prev \<noteq> None \<or> ce_varyNames e \<noteq> []) \<and> (case prev of Some p \<Rightarrow> p | None \<Rightarrow> []) \<noteq> ce_varyNames e
      then (purgeBaseLocked (ce_baseKey e) c)\<lparr>rc_varyHints := (rc_varyHints c)
             (ce_baseKey e := (if ce_varyNames e \<noteq> [] then Some (ce_varyNames e) else None))\<rparr>
      else c)"

definition cache_store :: "cacheEntry \<Rightarrow> responseCache \<Rightarrow> responseCache" where
  "cache_store e c0 =
     (let c = fix_hint e c0 in
      if \<exists>x \<in> set (rc_lru c). ce_key x = ce_key e
      then c\<lparr>rc_lru := e # filter (\<lambda>x. ce_key x \<noteq> ce_key e) (rc_lru c)\<rparr>
      else c\<lparr>rc_lru := evict (nat (rc_maxEntries c)) (e # rc_lru c)\<rparr>)"

definition entryFromCapture :: "time \<Rightarrow> responseCache \<Rightarrow> request \<Rightarrow> string \<Rightarrow> header \<Rightarrow> cacheCapture \<Rightarrow> cacheEntry option" where
  "entryFromCapture now c r baseKey hdr cw =
     (if cw_hijacked cw \<or> cw_streamed cw \<or> cw_overflow cw \<or> cw_status cw \<noteq> 200 then None
      else let cch = hdr_Get hdr ''Cache-Control''; cc = parseCacheControl cch in
      if cc_noStore cc \<or> cc_private cc \<or> cc_noCache cc \<or> hdr_Get hdr ''Set-Cookie'' \<noteq> [] then None
      else let isPublic = (cc_public cc \<or> (cc_maxAgeSet cc \<and> ContainsStr (ToLower cch) ''s-maxage'')) in
      if hdr_Get (r_Header r) ''Authorization'' \<noteq> [] \<and> \<not> isPublic then None
      else let varyNames = parseVary (hdr_Get hdr ''Vary'') in
      if ''*'' \<in> set varyNames \<or> (cc_maxAgeSet cc \<and> cc_maxAge cc \<le> 0) then None
      else Some \<lparr>ce_key = baseKey @ buildVaryKey varyNames r, ce_baseKey = baseKey, ce_status = cw_status cw,
                 ce_header = hdr, ce_body = cw_body cw, ce_storedAt = now,
                 ce_ttl = (if cc_maxAgeSet cc then wrap64 (cc_maxAge cc * Second) else rc_defaultTTL c),
                 ce_swr = wrap64 (cc_swr cc * Second), ce_etag = hdr_Get hdr ''ETag'', ce_lastMod = hdr_Get hdr ''Last-Modified'',
                 ce_varyNames = varyNames, ce_public = isPublic\<rparr>)"

text \<open>A handler answers a request with a header and the calls it makes on the writer.\<close>

type_synonym handler = "request \<Rightarrow> header \<times> writer_call list"

definition fetch_store :: "time \<Rightarrow> request \<Rightarrow> handler \<Rightarrow> string \<Rightarrow> responseCache \<Rightarrow> responseCache" where
  "fetch_store now r hnd baseKey c =
     (let (hdr, calls) = hnd r; cw = fold cw_call calls (new_capture (rc_maxBody c)) in
      case entryFromCapture now c r baseKey hdr cw of None \<Rightarrow> c | Some e \<Rightarrow> cache_store e c)"

datatype served = PassedThrough | FromCache cacheEntry string

text \<open>
  \<open>serve\<close>, with the key of the background refresh it starts; \<open>refresh_done\<close> is that refresh.
\<close>

definition triggerRefresh :: "string \<Rightarrow> responseCache \<Rightarrow> bool \<times> responseCache" where
  "triggerRefresh key c =
     (if key \<in> set (rc_refreshing c) then (False, c) else (True, c\<lparr>rc_refreshing := key # rc_refreshing c\<rparr>))"

definition refresh_done :: "time \<Rightarrow> string \<Rightarrow> request \<Rightarrow> handler \<Rightarrow> responseCache \<Rightarrow> responseCache" where
  "refresh_done now key r hnd c =
     (let c1 = fetch_store now r hnd (requestKey r) c in c1\<lparr>rc_refreshing := removeAll key (rc_refreshing c1)\<rparr>)"

definition cache_serve :: "time \<Rightarrow> request \<Rightarrow> handler \<Rightarrow> responseCache \<Rightarrow> served \<times> responseCache" where
  "cache_serve now r hnd c =
     (if r_Method r \<notin> set (rc_methods c) \<or> requestBypassesCache r then (PassedThrough, c)
      else let baseKey = requestKey r; authed = hdr_Get (r_Header r) ''Authorization'' \<noteq> [];
               (hit, c1) = cache_lookup baseKey r c
           in case hit of
                Some e \<Rightarrow>
                  if (\<not> authed \<or> ce_public e) \<and> fresh now e then (FromCache e ''HIT'', c1)
                  else if (\<not> authed \<or> ce_public e) \<and> serveableStale now e
                  then (FromCache e ''STALE'', snd (triggerRefresh (ce_key e) c1))
                  else (PassedThrough, fetch_store now r hnd baseKey c1)
              | None \<Rightarrow> (PassedThrough, fetch_store now r hnd baseKey c1))"

text \<open>\<open>writeFromCache\<close>: status, header and body of the answer.\<close>

definition writeFromCache :: "(string \<Rightarrow> time option) \<Rightarrow> time \<Rightarrow> request \<Rightarrow> cacheEntry \<Rightarrow> string \<Rightarrow> header \<Rightarrow> int \<times> header \<times> string" where
  "writeFromCache parseTime now r e cacheState h0 =
     (if notModified parseTime r e
      then (304, hdr_Set ''Age'' (ageSeconds now e) (hdr_Set ''X-Cache'' cacheState
              ((if ce_lastMod e \<noteq> [] then hdr_Set ''Last-Modified'' (ce_lastMod e) else id)
                ((if ce_etag e \<noteq> [] then hdr_Set ''ETag'' (ce_etag e) else id) h0))), [])
      else (ce_status e, hdr_Set ''X-Cache'' cacheState (hdr_Set ''Age'' (ageSeconds now e)
              (fold (\<lambda>(k, vs) h. AList.update k vs h) (ce_header e) h0)),
            if r_Method r \<noteq> ''HEAD'' then ce_body e else []))"

section \<open>Bounded and well-keyed\<close>

text \<open>
  Keys are unique, the bound holds, and the recorded Vary names of a resource are those of all
  its entries.
\<close>

definition cache_inv :: "responseCache \<Rightarrow> bool" where
  "cache_inv c \<longleftrightarrow> 1 \<le> rc_maxEntries c \<and> distinct (map ce_key (rc_lru c)) \<and>
     int (length (rc_lru c)) \<le> rc_maxEntries c \<and>
     (\<forall>e\<in>set (rc_lru c). ce_varyNames e = (case rc_varyHints c (ce_baseKey e) of Some ns \<Rightarrow> ns | None \<Rightarrow> []))"

lemma evict_take: "evict n l = take n l"
proof (induction n l rule: evict.induct)
  case (1 n l)
  show ?case
  proof (cases "length l > n")
    case True
    then have "evict n l = take n (butlast l)" using 1 by (subst evict.simps) simp
    also have "\<dots> = take n l" using True by (cases l rule: rev_cases) simp_all
    finally show ?thesis .
  next
    case False
    then show ?thesis by (subst evict.simps) simp
  qed
qed

lemma fix_hint_inv: "cache_inv c \<Longrightarrow> cache_inv (fix_hint e c)"
proof -
  assume c: "cache_inv c"
  have len: "length (filter (\<lambda>x. ce_baseKey x \<noteq> ce_baseKey e) (rc_lru c)) \<le> length (rc_lru c)" by simp
  have b: "1 \<le> rc_maxEntries c" "distinct (map ce_key (rc_lru c))" "int (length (rc_lru c)) \<le> rc_maxEntries c"
    using c by (auto simp: cache_inv_def)
  have "int (length (filter (\<lambda>x. ce_baseKey x \<noteq> ce_baseKey e) (rc_lru c))) \<le> rc_maxEntries c" using len b(3) by linarith
  then show ?thesis using c b by (auto simp: fix_hint_def cache_inv_def purgeBaseLocked_def distinct_map_filter Let_def)
qed

lemma fix_hint_sel [simp]: "rc_maxEntries (fix_hint e c) = rc_maxEntries c"
  by (simp add: fix_hint_def purgeBaseLocked_def Let_def)

lemma fix_hint_names: "(case rc_varyHints (fix_hint e c) (ce_baseKey e) of Some ns \<Rightarrow> ns | None \<Rightarrow> []) = ce_varyNames e"
  by (auto simp: fix_hint_def purgeBaseLocked_def Let_def split: option.splits)

lemma cache_store_inv:
  assumes "cache_inv c"
  shows "cache_inv (cache_store e c)"
proof -
  let ?c = "fix_hint e c"
  note i = fix_hint_inv[OF assms, of e]
  have b: "1 \<le> rc_maxEntries ?c" "distinct (map ce_key (rc_lru ?c))" "int (length (rc_lru ?c)) \<le> rc_maxEntries ?c"
    and v: "\<And>x. x \<in> set (rc_lru ?c) \<Longrightarrow> ce_varyNames x = (case rc_varyHints ?c (ce_baseKey x) of Some ns \<Rightarrow> ns | None \<Rightarrow> [])"
    using i unfolding cache_inv_def by auto
  note n = fix_hint_names[of e c]
  show ?thesis
  proof (cases "\<exists>x \<in> set (rc_lru ?c). ce_key x = ce_key e")
    case True
    then have "length (filter (\<lambda>x. ce_key x \<noteq> ce_key e) (rc_lru ?c)) < length (rc_lru ?c)"
      by (auto intro: length_filter_less)
    then have "int (length (e # filter (\<lambda>x. ce_key x \<noteq> ce_key e) (rc_lru ?c))) \<le> rc_maxEntries ?c" using b(3) by simp
    then show ?thesis using True b v n by (auto simp: cache_store_def cache_inv_def Let_def distinct_map_filter)
  next
    case False
    have "distinct (map ce_key (take k (e # rc_lru ?c)))" for k
    proof -
      have "distinct (map ce_key (e # rc_lru ?c))" using False b(2) by auto
      then show ?thesis unfolding take_map[symmetric] by (rule distinct_take)
    qed
    moreover have "int (length (take (nat (rc_maxEntries ?c)) (e # rc_lru ?c))) \<le> rc_maxEntries ?c" 
    proof -
      have "length (take (nat (rc_maxEntries ?c)) (e # rc_lru ?c)) \<le> nat (rc_maxEntries ?c)" by simp
      then show ?thesis using b(1) by linarith
    qed
    moreover have "ce_varyNames x = (case rc_varyHints ?c (ce_baseKey x) of Some ns \<Rightarrow> ns | None \<Rightarrow> [])"
      if "x \<in> set (take k (e # rc_lru ?c))" for x k
      using in_set_takeD[OF that] v n by (cases "x = e") auto
    ultimately show ?thesis using False b(1)
      by (simp add: cache_store_def cache_inv_def Let_def evict_take)
  qed
qed

lemma fetch_store_inv: "cache_inv c \<Longrightarrow> cache_inv (fetch_store now r hnd k c)"
  by (auto simp: fetch_store_def Let_def cache_store_inv split: prod.split option.split)

lemma cache_lookup_inv:
  assumes "cache_inv c"
  shows "cache_inv (snd (cache_lookup k r c))"
proof -
  have "cache_inv (c\<lparr>rc_lru := e # remove1 e (rc_lru c)\<rparr>)" if "e \<in> set (rc_lru c)" for e
  proof -
    have d: "distinct (map ce_key (rc_lru c))" using assms by (simp add: cache_inv_def)
    then have "ce_key e \<notin> ce_key ` set (remove1 e (rc_lru c))"
      using that by (induction "rc_lru c") (auto simp: distinct_map inj_on_def)
    moreover have "distinct (map ce_key (remove1 e (rc_lru c)))"
      using d by (auto simp: distinct_map inj_on_def dest: notin_set_remove1)
    moreover have "length (e # remove1 e (rc_lru c)) = length (rc_lru c)"
      using that length_pos_if_in_set[OF that] by (simp add: length_remove1)
    moreover have "set (remove1 e (rc_lru c)) \<subseteq> set (rc_lru c)" by (rule set_remove1_subset)
    ultimately show ?thesis using assms that unfolding cache_inv_def by auto
  qed
  then show ?thesis using assms
    by (auto simp: cache_lookup_def Let_def find_Some_iff split: option.split dest!: nth_mem)
qed

lemma refreshing_inv [simp]: "cache_inv (c\<lparr>rc_refreshing := x\<rparr>) = cache_inv c"
  by (simp add: cache_inv_def)

lemma cache_serve_inv: "cache_inv c \<Longrightarrow> cache_inv (snd (cache_serve now r hnd c))"
  using cache_lookup_inv[of c "requestKey r" r]
  by (auto simp: cache_serve_def triggerRefresh_def Let_def fetch_store_inv split: prod.split option.split)

datatype cache_op = ServeOp time request handler | RefreshOp time string request handler

fun cache_step :: "cache_op \<Rightarrow> responseCache \<Rightarrow> responseCache" where
  "cache_step (ServeOp now r h) c = snd (cache_serve now r h c)"
| "cache_step (RefreshOp now k r h) c = refresh_done now k r h c"

lemma cache_run_inv: "cache_inv c \<Longrightarrow> cache_inv (fold cache_step ops c)"
proof (induction ops arbitrary: c)
  case (Cons op ops)
  have "cache_inv (cache_step op c)"
    using Cons.prems by (cases op) (auto simp: cache_serve_inv refresh_done_def Let_def fetch_store_inv)
  then show ?case using Cons.IH by simp
qed simp

text \<open>
  C24. The cache is bounded and consistent: through every sequence of served requests and completed
  background refreshes, whatever the handlers answer, a new cache holds at most \<open>MaxEntries\<close>
  entries under distinct keys, and the recorded Vary names of a resource are those of each of
  its entries.
\<close>

theorem cache_bounded:
  "cache_inv (fold cache_step ops (NewCache methods ttl maxEntries maxBody))"
  by (rule cache_run_inv) (simp add: cache_inv_def NewCache_def)


section \<open>Who is served what\<close>

text \<open>
  The origin of an entry: the moment, the request and the handler whose answer was captured when
  the entry was made.
\<close>

fun origin :: "cache_op \<Rightarrow> time \<times> request \<times> handler" where
  "origin (ServeOp now r h) = (now, r, h)"
| "origin (RefreshOp now k r h) = (now, r, h)"

definition stored_from :: "cacheEntry \<Rightarrow> time \<times> request \<times> handler \<Rightarrow> bool" where
  "stored_from e = (\<lambda>(now, r, hnd). \<exists>c m. entryFromCapture now c r (requestKey r) (fst (hnd r)) (fold cw_call (snd (hnd r)) (new_capture m)) = Some e)"

definition all_from :: "(time \<times> request \<times> handler) set \<Rightarrow> responseCache \<Rightarrow> bool" where
  "all_from R c \<longleftrightarrow> (\<forall>e\<in>set (rc_lru c). \<exists>x\<in>R. stored_from e x)"

text \<open>What a response says of itself: whether it may be shared although its request was authenticated.\<close>

definition marked_public :: "header \<Rightarrow> bool" where
  "marked_public hdr \<longleftrightarrow> (let cch = hdr_Get hdr ''Cache-Control'' in
     cc_public (parseCacheControl cch) \<or> cc_maxAgeSet (parseCacheControl cch) \<and> ContainsStr (ToLower cch) ''s-maxage'')"

fun written :: "writer_call list \<Rightarrow> string" where
  "written [] = []"
| "written (WriteCall b # cs) = b @ written cs"
| "written (_ # cs) = written cs"

lemma capture_flags: "cw_overflow c \<Longrightarrow> cw_overflow (fold cw_call calls c)" "cw_streamed c \<Longrightarrow> cw_streamed (fold cw_call calls c)"
proof -
  have o: "cw_overflow c \<Longrightarrow> cw_overflow (cw_call x c)" and t: "cw_streamed c \<Longrightarrow> cw_streamed (cw_call x c)" for x c
    by (cases x; simp add: cw_WriteHeader_def cw_Write_def Let_def)+
  show "cw_overflow c \<Longrightarrow> cw_overflow (fold cw_call calls c)" by (induction calls arbitrary: c) (simp_all add: o)
  show "cw_streamed c \<Longrightarrow> cw_streamed (fold cw_call calls c)" by (induction calls arbitrary: c) (simp_all add: t)
qed

lemma capture_body:
  "\<not> cw_overflow (fold cw_call calls c) \<Longrightarrow> \<not> cw_streamed (fold cw_call calls c) \<Longrightarrow> cw_body (fold cw_call calls c) = cw_body c @ written calls"
proof (induction calls arbitrary: c)
  case (Cons x calls)
  have "\<not> cw_overflow (cw_call x c)" "\<not> cw_streamed (cw_call x c)" using Cons.prems capture_flags[of "cw_call x c" calls] by auto
  moreover have "cw_body (fold cw_call calls (cw_call x c)) = cw_body (cw_call x c) @ written calls" using Cons by simp
  ultimately show ?case by (cases x) (auto simp: cw_WriteHeader_def cw_Write_def Let_def split: if_splits)
qed simp

lemma fix_hint_lru: "set (rc_lru (fix_hint e c)) \<subseteq> set (rc_lru c)"
  by (auto simp: fix_hint_def purgeBaseLocked_def Let_def)

lemma cache_store_lru: "set (rc_lru (cache_store e c)) \<subseteq> insert e (set (rc_lru c))"
proof -
  have "set (take k (e # rc_lru (fix_hint e c))) \<subseteq> insert e (set (rc_lru c))" for k
    using set_take_subset[of k "e # rc_lru (fix_hint e c)"] fix_hint_lru[of e c] by auto
  then show ?thesis using fix_hint_lru[of e c] by (auto simp: cache_store_def Let_def evict_take)
qed

lemma all_from_mono: "all_from R c \<Longrightarrow> R \<subseteq> S \<Longrightarrow> set (rc_lru d) \<subseteq> set (rc_lru c) \<Longrightarrow> all_from S d"
  by (fastforce simp: all_from_def)

lemma fetch_store_from:
  assumes "all_from R c" shows "all_from (insert (now, r, hnd) R) (fetch_store now r hnd (requestKey r) c)"
proof (cases "entryFromCapture now c r (requestKey r) (fst (hnd r)) (fold cw_call (snd (hnd r)) (new_capture (rc_maxBody c)))")
  case None
  then show ?thesis using all_from_mono[OF assms subset_insertI subset_refl] by (auto simp: fetch_store_def case_prod_beta Let_def)
next
  case (Some e)
  then have "stored_from e (now, r, hnd)" by (auto simp: stored_from_def)
  moreover have "fetch_store now r hnd (requestKey r) c = cache_store e c" using Some by (simp add: fetch_store_def case_prod_beta Let_def)
  ultimately show ?thesis using assms cache_store_lru[of e c] by (fastforce simp: all_from_def)
qed

lemma cache_lookup_hit: "fst (cache_lookup k r c) = Some e \<Longrightarrow> e \<in> set (rc_lru c) \<and>
    ce_key e = (case rc_varyHints c k of Some names \<Rightarrow> k @ buildVaryKey names r | None \<Rightarrow> k)"
  by (auto simp: cache_lookup_def Let_def find_Some_iff split: option.splits)

lemma cache_lookup_lru: "set (rc_lru (snd (cache_lookup k r c))) \<subseteq> set (rc_lru c)"
proof (cases "fst (cache_lookup k r c)")
  case None
  then show ?thesis by (auto simp: cache_lookup_def Let_def split: option.splits)
next
  case (Some e)
  then have "snd (cache_lookup k r c) = c\<lparr>rc_lru := e # remove1 e (rc_lru c)\<rparr>"
    by (auto simp: cache_lookup_def Let_def split: option.splits)
  then show ?thesis using cache_lookup_hit[OF Some] set_remove1_subset[of e "rc_lru c"] by auto
qed

lemma cache_step_from: "all_from R c \<Longrightarrow> all_from (insert (origin op) R) (cache_step op c)"
proof (cases op)
  case (ServeOp now r h)
  assume c: "all_from R c"
  let ?c1 = "snd (cache_lookup (requestKey r) r c)"
  have c1: "all_from R ?c1" by (rule all_from_mono[OF c subset_refl cache_lookup_lru])
  have "snd (cache_serve now r h c) \<in> {c, ?c1, snd (triggerRefresh k ?c1), fetch_store now r h (requestKey r) ?c1}"
    if "k = (case fst (cache_lookup (requestKey r) r c) of Some e \<Rightarrow> ce_key e | None \<Rightarrow> [])" for k
    using that by (auto simp: cache_serve_def Let_def split: prod.split option.split)
  then have "set (rc_lru (snd (cache_serve now r h c))) \<subseteq> set (rc_lru c) \<or> snd (cache_serve now r h c) = fetch_store now r h (requestKey r) ?c1"
    using cache_lookup_lru[of "requestKey r" r c] by (auto simp: triggerRefresh_def split: if_splits)
  then show ?thesis
  proof
    assume "set (rc_lru (snd (cache_serve now r h c))) \<subseteq> set (rc_lru c)"
    then show ?thesis using all_from_mono[OF c subset_insertI] by (simp add: ServeOp)
  next
    assume "snd (cache_serve now r h c) = fetch_store now r h (requestKey r) ?c1"
    then show ?thesis using fetch_store_from[OF c1, of now r h] by (simp add: ServeOp)
  qed
next
  case (RefreshOp now k r h)
  assume "all_from R c"
  then show ?thesis using RefreshOp fetch_store_from[of R c now r h] by (simp add: refresh_done_def Let_def all_from_def)
qed

lemma cache_run_from: "all_from R c \<Longrightarrow> all_from (R \<union> origin ` set ops) (fold cache_step ops c)"
proof (induction ops arbitrary: R c)
  case (Cons op ops)
  from Cons.IH[OF cache_step_from[OF Cons.prems, of op]] show ?case by simp
qed simp

lemma stored_from_facts:
  assumes "stored_from e (now, r, hnd)"
  shows "ce_header e = fst (hnd r)" "ce_body e = written (snd (hnd r))" "ce_status e = 200" "ce_storedAt e = now" "ce_baseKey e = requestKey r"
    and "ce_public e = marked_public (fst (hnd r))"
    and "hdr_Get (r_Header r) ''Authorization'' \<noteq> [] \<longrightarrow> marked_public (fst (hnd r))"
    and "\<not> cc_noStore (parseCacheControl (hdr_Get (fst (hnd r)) ''Cache-Control''))"
    and "\<not> cc_private (parseCacheControl (hdr_Get (fst (hnd r)) ''Cache-Control''))" and "hdr_Get (fst (hnd r)) ''Set-Cookie'' = []"
proof -
  obtain c m where e: "entryFromCapture now c r (requestKey r) (fst (hnd r)) (fold cw_call (snd (hnd r)) (new_capture m)) = Some e"
    using assms by (auto simp: stored_from_def)
  note f = e[unfolded entryFromCapture_def Let_def]
  show "ce_header e = fst (hnd r)" "ce_status e = 200" "ce_storedAt e = now" "ce_baseKey e = requestKey r"
    "ce_public e = marked_public (fst (hnd r))" "hdr_Get (r_Header r) ''Authorization'' \<noteq> [] \<longrightarrow> marked_public (fst (hnd r))"
    "\<not> cc_noStore (parseCacheControl (hdr_Get (fst (hnd r)) ''Cache-Control''))"
    "\<not> cc_private (parseCacheControl (hdr_Get (fst (hnd r)) ''Cache-Control''))" "hdr_Get (fst (hnd r)) ''Set-Cookie'' = []"
    using f by (auto simp: marked_public_def Let_def split: if_splits)
  have "ce_body e = cw_body (fold cw_call (snd (hnd r)) (new_capture m))"
    "\<not> cw_overflow (fold cw_call (snd (hnd r)) (new_capture m))" "\<not> cw_streamed (fold cw_call (snd (hnd r)) (new_capture m))"
    using f by (auto split: if_splits)
  then show "ce_body e = written (snd (hnd r))" using capture_body by (simp add: new_capture_def)
qed


section \<open>Examples\<close>

definition demo_get :: "header \<Rightarrow> request" where
  "demo_get h = \<lparr>r_Method = ''GET'', r_Host = ''h'', r_URLHost = [], r_Path = ''/'', r_RawQuery = [], r_RequestURI = ''/'',
     r_Header = h, r_RemoteAddr = [], r_ContentLength = 0, r_TLS = False\<rparr>"

definition demo_handler :: handler where
  "demo_handler r = ([(''Vary'', [''A, B''])], [WriteCall (hdr_Get (r_Header r) ''A'')])"

definition demo_cache :: responseCache where
  "demo_cache = fold cache_step [ServeOp 0 (demo_get [(''A'', [''1;B=2'']), (''B'', [''3''])]) demo_handler] (NewCache [] 0 0 0)"

definition demo_entry :: cacheEntry where
  "demo_entry = \<lparr>ce_key = ''GET h / vary:A=1;B=2;B=3;'', ce_baseKey = ''GET h /'', ce_status = 200,
     ce_header = [(''Vary'', [''A, B''])], ce_body = ''1;B=2'', ce_storedAt = 0, ce_ttl = 60000000000, ce_swr = 0, ce_etag = [],
     ce_lastMod = [], ce_varyNames = [''A'', ''B''], ce_public = False\<rparr>"

lemma demo_hit: "fst (cache_serve 1 (demo_get [(''A'', [''1'']), (''B'', [''2;B=3''])]) demo_handler demo_cache) = FromCache demo_entry ''HIT''"
  by code_simp

definition public_handler :: handler where
  "public_handler r = ([(''Cache-Control'', [''public, max-age=60''])], [WriteCall ''shared''])"

definition authed_get :: request where
  "authed_get = demo_get [(''Authorization'', [''Bearer t''])]"

definition public_cache :: responseCache where
  "public_cache = fold cache_step [ServeOp 0 authed_get public_handler] (NewCache [] 0 0 0)"

definition public_entry :: cacheEntry where
  "public_entry = \<lparr>ce_key = ''GET h /'', ce_baseKey = ''GET h /'', ce_status = 200,
     ce_header = [(''Cache-Control'', [''public, max-age=60''])], ce_body = ''shared'', ce_storedAt = 0, ce_ttl = 60000000000, ce_swr = 0,
     ce_etag = [], ce_lastMod = [], ce_varyNames = [], ce_public = True\<rparr>"

lemma public_hit: "fst (cache_serve 1 (demo_get []) public_handler public_cache) = FromCache public_entry ''HIT''"
  by code_simp


text \<open>
  Vary keys can collide: header values are written into the key without quoting the
  separators, so a request with \<open>A: 1\<close> and \<open>B: 2;B=3\<close> is answered with the response stored for
  \<open>A: 1;B=2\<close> and \<open>B: 3\<close>, although the response varies on both.
\<close>

lemma vary_key_collision:
  "\<exists>e. fst (cache_serve 1 (demo_get [(''A'', [''1'']), (''B'', [''2;B=3''])]) demo_handler demo_cache) = FromCache e ''HIT'' \<and>
     ce_varyNames e = [''A'', ''B''] \<and> ce_body e = ''1;B=2''"
  using demo_hit by (simp add: demo_entry_def)

end
