(* ===== verification/Handlers.thy ===== *)
theory Handlers
  imports Http
begin

text \<open>
  What the middleware and the proxy use of \<open>http.ResponseWriter\<close> and \<open>http.Handler\<close>.  A handler maps a
  request, a response writer and the state behind it to the writer and the state it leaves; a middleware
  maps handlers to handlers.
\<close>

text \<open>
  The first \<open>WriteHeader\<close> with a final status sends it with a snapshot of the header; an informational
  status (1xx but 101) is sent at once and leaves the response open; later calls have no effect.
\<close>

record writer =
  w_Header :: header
  w_sent :: "(int \<times> header) option"
  w_body :: string

definition new_writer :: writer where
  "new_writer = \<lparr>w_Header = [], w_sent = None, w_body = []\<rparr>"

type_synonym 's handler = "request \<Rightarrow> writer \<times> 's \<Rightarrow> writer \<times> 's"

definition WriteHeader :: "int \<Rightarrow> writer \<Rightarrow> writer" where
  "WriteHeader code w =
     (if w_sent w \<noteq> None \<or> (100 \<le> code \<and> code \<le> 199 \<and> code \<noteq> 101) then w
      else w\<lparr>w_sent := Some (code, w_Header w)\<rparr>)"

text \<open>
  \<open>Write\<close> hands bytes to the connection, after an implicit 200 when no status has been sent; \<open>w_body\<close> is all that has
  been handed over.  With a status that has no body \<open>net/http\<close> refuses them and returns the count 0; for a \<open>HEAD\<close> request
  it accepts and drops them.  \<open>Write_n\<close> is the count it returns, and \<open>wire_body\<close> what the client receives.  A handler
  that writes more than the \<open>Content-Length\<close> it declared is not modelled.
\<close>

definition Write :: "string \<Rightarrow> writer \<Rightarrow> writer" where
  "Write bs w = (let w1 = (if w_sent w = None then WriteHeader 200 w else w) in w1\<lparr>w_body := w_body w1 @ bs\<rparr>)"

definition bodyAllowedForStatus :: "int \<Rightarrow> bool" where
  "bodyAllowedForStatus status \<longleftrightarrow> \<not> (100 \<le> status \<and> status \<le> 199) \<and> status \<noteq> 204 \<and> status \<noteq> 304"

definition seen_status :: "writer \<Rightarrow> int" where
  "seen_status w = (case w_sent w of Some (code, _) \<Rightarrow> code | None \<Rightarrow> 200)"

definition Write_n :: "string \<Rightarrow> writer \<Rightarrow> int" where
  "Write_n bs w = (if bodyAllowedForStatus (seen_status w) then int (length bs) else 0)"

definition wire_body :: "string \<Rightarrow> writer \<Rightarrow> string" where
  "wire_body meth w = (if meth = ''HEAD'' \<or> \<not> bodyAllowedForStatus (seen_status w) then [] else w_body w)"

definition set_header :: "string \<Rightarrow> string \<Rightarrow> writer \<Rightarrow> writer" where
  "set_header name v w = w\<lparr>w_Header := hdr_Set name v (w_Header w)\<rparr>"

definition add_header :: "string \<Rightarrow> string \<Rightarrow> writer \<Rightarrow> writer" where
  "add_header name v w = w\<lparr>w_Header := hdr_Add name v (w_Header w)\<rparr>"

definition set_nonempty :: "string \<Rightarrow> string \<Rightarrow> writer \<Rightarrow> writer" where
  "set_nonempty name v w = (if v \<noteq> [] then set_header name v w else w)"

text \<open>\<open>http.Error\<close>, and a handler that answers without the one behind it.\<close>

definition http_Error :: "string \<Rightarrow> int \<Rightarrow> writer \<Rightarrow> writer" where
  "http_Error msg code w =
     (let w1 = w\<lparr>w_Header := hdr_Del ''Content-Length'' (w_Header w)\<rparr>;
          w2 = set_header ''X-Content-Type-Options'' ''nosniff'' (set_header ''Content-Type'' ''text/plain; charset=utf-8'' w1)
      in Write (msg @ [CHR 0x0A]) (WriteHeader code w2))"

definition respond :: "(writer \<Rightarrow> writer) \<Rightarrow> writer \<times> 's \<Rightarrow> writer \<times> 's" where
  "respond f ws = (f (fst ws), snd ws)"

lemma set_header_sel [simp]:
  "w_sent (set_header n v w) = w_sent w" "w_body (set_header n v w) = w_body w"
  "w_sent (add_header n v w) = w_sent w" "w_sent (set_nonempty n v w) = w_sent w"
  by (simp_all add: set_header_def add_header_def set_nonempty_def)

lemma http_Error_status: "w_sent w = None \<Longrightarrow> 200 \<le> code \<Longrightarrow> \<exists>h. w_sent (http_Error msg code w) = Some (code, h)"
  by (simp add: http_Error_def Let_def Write_def WriteHeader_def)

lemma WriteHeader_sent: "w_sent w = Some x \<Longrightarrow> WriteHeader code w = w"
  by (simp add: WriteHeader_def)

end
