(* ===== verification/Access.thy ===== *)
theory Access
  imports Limiter NetUtil Handlers
begin

text \<open>
  \<open>internal/middleware\<close>: the security middleware of \<open>security.go\<close> (response headers, CORS, the access
  control list, API keys) and the rate limiting of \<open>middleware.go\<close>.
\<close>

section \<open>Security headers\<close>

record headersConfig =
  hc_Enabled :: bool
  hc_HSTS :: string
  hc_FrameOptions :: string
  hc_ContentTypeOptions :: bool
  hc_CSP :: string
  hc_ReferrerPolicy :: string

definition SecurityHeaders :: "headersConfig \<Rightarrow> 's handler \<Rightarrow> 's handler" where
  "SecurityHeaders cfg next' =
     (if \<not> hc_Enabled cfg then next'
      else (\<lambda>r (w, s).
        let w1 = set_nonempty ''Strict-Transport-Security'' (hc_HSTS cfg) w;
            w2 = set_nonempty ''X-Frame-Options'' (hc_FrameOptions cfg) w1;
            w3 = (if hc_ContentTypeOptions cfg then set_header ''X-Content-Type-Options'' ''nosniff'' w2 else w2);
            w4 = set_nonempty ''Content-Security-Policy'' (hc_CSP cfg) w3;
            w5 = set_nonempty ''Referrer-Policy'' (hc_ReferrerPolicy cfg) w4
        in next' r (w5, s)))"

section \<open>CORS\<close>

record corsConfig =
  cors_Enabled :: bool
  cors_AllowOrigins :: "string list"
  cors_AllowMethods :: "string list"
  cors_AllowHeaders :: "string list"
  cors_AllowCredentials :: bool
  cors_MaxAge :: int

fun join_comma :: "string list \<Rightarrow> string" where
  "join_comma [] = []"
| "join_comma [x] = x"
| "join_comma (x # xs) = x @ '', '' @ join_comma xs"

fun origin_scan :: "bool \<Rightarrow> string \<Rightarrow> string list \<Rightarrow> string option" where
  "origin_scan cred origin [] = None"
| "origin_scan cred origin (x # xs) =
     (if x = ''*'' then (if cred then Some origin else Some ''*'')
      else if x = origin then Some origin else origin_scan cred origin xs)"

definition originMatch :: "corsConfig \<Rightarrow> string \<Rightarrow> string option" where
  "originMatch cfg origin = origin_scan (cors_AllowCredentials cfg) origin (cors_AllowOrigins cfg)"

definition cors_headers :: "corsConfig \<Rightarrow> string \<Rightarrow> writer \<Rightarrow> writer" where
  "cors_headers cfg allowed w =
     (let w1 = set_header ''Access-Control-Allow-Origin'' allowed w;
          w2 = (if allowed \<noteq> ''*'' then add_header ''Vary'' ''Origin'' w1 else w1)
      in if cors_AllowCredentials cfg then set_header ''Access-Control-Allow-Credentials'' ''true'' w2 else w2)"

definition preflight_headers :: "corsConfig \<Rightarrow> request \<Rightarrow> writer \<Rightarrow> writer" where
  "preflight_headers cfg r w =
     (let allowHeaders = join_comma (cors_AllowHeaders cfg);
          w1 = set_nonempty ''Access-Control-Allow-Methods'' (join_comma (cors_AllowMethods cfg)) w;
          w2 = (if allowHeaders \<noteq> [] then set_header ''Access-Control-Allow-Headers'' allowHeaders w1
                else set_nonempty ''Access-Control-Allow-Headers'' (hdr_Get (r_Header r) ''Access-Control-Request-Headers'') w1)
      in set_nonempty ''Access-Control-Max-Age'' (if cors_MaxAge cfg > 0 then FormatInt (cors_MaxAge cfg) else []) w2)"

definition CORS :: "corsConfig \<Rightarrow> 's handler \<Rightarrow> 's handler" where
  "CORS cfg next' =
     (if \<not> cors_Enabled cfg then next'
      else (\<lambda>r (w, s).
        let origin = hdr_Get (r_Header r) ''Origin'' in
        if origin = [] then next' r (w, s)
        else let m = originMatch cfg origin;
                 w1 = (case m of Some allowed \<Rightarrow> cors_headers cfg allowed w | None \<Rightarrow> w)
             in if r_Method r = ''OPTIONS'' \<and> hdr_Get (r_Header r) ''Access-Control-Request-Method'' \<noteq> []
                then (WriteHeader 204 (if m \<noteq> None then preflight_headers cfg r w1 else w1), s)
                else next' r (w1, s)))"

section \<open>Access control list\<close>

record aclConfig =
  acl_Allow :: "string list"
  acl_Deny :: "string list"
  acl_Methods :: "string list"
  acl_BlockedPaths :: "string list"

definition ACL :: "aclConfig \<Rightarrow> ipnet list \<Rightarrow> 's handler \<Rightarrow> 's handler" where
  "ACL cfg trusted next' =
     (if acl_Allow cfg = [] \<and> acl_Deny cfg = [] \<and> acl_Methods cfg = [] \<and> acl_BlockedPaths cfg = [] then next'
      else
        let allow = ParseCIDRs (acl_Allow cfg); deny = ParseCIDRs (acl_Deny cfg);
            methods = map (\<lambda>m. ToUpper (TrimSpace m)) (acl_Methods cfg);
            blocked = filter (\<lambda>p. p \<noteq> []) (map TrimSpace (acl_BlockedPaths cfg))
        in (\<lambda>r ws.
          let a = ParseIP (ClientIP r trusted) in
          if deny \<noteq> [] \<and> ipInNets a deny then respond (http_Error ''forbidden'' 403) ws
          else if allow \<noteq> [] \<and> \<not> ipInNets a allow then respond (http_Error ''forbidden'' 403) ws
          else if methods \<noteq> [] \<and> ToUpper (r_Method r) \<notin> set methods then respond (http_Error ''method not allowed'' 405) ws
          else if list_ex (HasPrefix (r_Path r)) blocked then respond (http_Error ''forbidden'' 403) ws
          else next' r ws))"

section \<open>API keys\<close>

fun key_scan :: "string \<Rightarrow> bool \<Rightarrow> string list \<Rightarrow> bool" where
  "key_scan got m [] = m"
| "key_scan got m (k # ks) = key_scan got (if got = k then True else m) ks"

definition keyMatch :: "string \<Rightarrow> string list \<Rightarrow> bool" where
  "keyMatch got keys = key_scan got False keys"

definition apiKeyAuth :: "string \<Rightarrow> string list \<Rightarrow> 's handler \<Rightarrow> 's handler" where
  "apiKeyAuth hname keys next' =
     (let h = (if hname = [] then ''X-API-Key'' else hname) in
      (\<lambda>r ws. let got = hdr_Get (r_Header r) h in
         if got \<noteq> [] \<and> keyMatch got keys then next' r ws else respond (http_Error ''unauthorized'' 401) ws))"

section \<open>Rate limiting\<close>

record rateLimitRule =
  rule_PathPrefix :: string
  rule_Method :: string
  rule_RPS :: int
  rule_Burst :: int

record rateLimiterConfig =
  rlc_Enabled :: bool
  rlc_RequestsPerSecond :: int
  rlc_Burst :: int
  rlc_Algorithm :: string
  rlc_GlobalRPS :: int
  rlc_GlobalBurst :: int
  rlc_Key :: string
  rlc_RetryAfterSeconds :: int
  rlc_Message :: string
  rlc_Allowlist :: "string list"
  rlc_Rules :: "rateLimitRule list"
  rlc_StoreEnabled :: bool
  rlc_StoreBackend :: string
  rlc_StoreKey :: string
  rlc_RedisAddr :: string
  rlc_RedisPassword :: string
  rlc_RedisPrefix :: string

definition RuleName :: "nat \<Rightarrow> string" where
  "RuleName i = ''rule:'' @ Itoa i"

fun register_from :: "nat \<Rightarrow> rateLimitRule list \<Rightarrow> 'tb rateLimiter \<Rightarrow> 'tb rateLimiter" where
  "register_from i [] rl = rl"
| "register_from i (x # xs) rl = register_from (Suc i) xs (AddRule (RuleName i) (round64 (of_int (rule_RPS x))) (rule_Burst x) rl)"

definition RegisterRules :: "'tb rateLimiter \<Rightarrow> rateLimiterConfig \<Rightarrow> 'tb rateLimiter" where
  "RegisterRules rl cfg = register_from 0 (rlc_Rules cfg) rl"

definition rule_matches :: "rateLimitRule \<Rightarrow> request \<Rightarrow> bool" where
  "rule_matches x r \<longleftrightarrow>
     \<not> (rule_PathPrefix x \<noteq> [] \<and> \<not> HasPrefix (r_Path r) (rule_PathPrefix x)) \<and>
     \<not> (rule_Method x \<noteq> [] \<and> \<not> EqualFold (rule_Method x) (r_Method r))"

fun match_from :: "nat \<Rightarrow> rateLimitRule list \<Rightarrow> request \<Rightarrow> string" where
  "match_from i [] r = []"
| "match_from i (x # xs) r = (if rule_matches x r then RuleName i else match_from (Suc i) xs r)"

definition matchRule :: "rateLimitRule list \<Rightarrow> request \<Rightarrow> string" where
  "matchRule rules r = match_from 0 rules r"

text \<open>Go's integer division truncates; the sum may wrap.\<close>

definition retry_secs :: "duration \<Rightarrow> int \<Rightarrow> int" where
  "retry_secs retry floor' =
     (let secs = (if retry > 0
                  then let d = wrap64 (retry + Second - 1); c = (if d \<ge> 0 then d div Second else - ((- d) div Second))
                       in if c > floor' then c else floor'
                  else floor')
      in if secs < 0 then 0 else secs)"

definition retryAfterHeader :: "duration \<Rightarrow> int \<Rightarrow> string" where
  "retryAfterHeader retry floor' = FormatInt (retry_secs retry floor')"

definition limit_key :: "rateLimiterConfig \<Rightarrow> request \<Rightarrow> string \<Rightarrow> string" where
  "limit_key cfg r a =
     (let headerName = (if HasPrefix (rlc_Key cfg) ''header:'' then TrimPrefix (rlc_Key cfg) ''header:'' else []) in
      if headerName \<noteq> [] then (let v = hdr_Get (r_Header r) headerName in if v \<noteq> [] then v else a) else a)"

text \<open>The state is the limiter with its shared store (None for a nil limiter), the counter of rejected
  requests (None for nil metrics) and the state behind the handler.\<close>

definition RateLimit ::
  "('tb, 'r) rate_lib \<Rightarrow> (string \<Rightarrow> f64 \<Rightarrow> int \<Rightarrow> time \<Rightarrow> 'st \<Rightarrow> (bool \<times> duration) \<times> 'st) \<Rightarrow> rateLimiterConfig \<Rightarrow>
   ipnet list \<Rightarrow> time \<Rightarrow> 's handler \<Rightarrow> (('tb rateLimiter \<times> 'st) option \<times> nat option \<times> 's) handler" where
  "RateLimit lib store cfg trusted now next' r ws =
     (let (w, rl, m, s) = ws; a = ClientIP r trusted; allowNets = ParseCIDRs (rlc_Allowlist cfg);
          message = (if rlc_Message cfg = [] then ''Rate limit exceeded'' else rlc_Message cfg);
          floor' = (if rlc_RetryAfterSeconds cfg \<le> 0 then 1 else rlc_RetryAfterSeconds cfg)
      in case rl of
           None \<Rightarrow> let (w', s') = next' r (w, s) in (w', rl, m, s')
         | Some rs \<Rightarrow>
             if allowNets \<noteq> [] \<and> ipInNets (ParseIP a) allowNets
             then let (w', s') = next' r (w, s) in (w', rl, m, s')
             else let key = limit_key cfg r a; rule = matchRule (rlc_Rules cfg) r;
                      ((allowed, retry), rs') = (if rule \<noteq> [] then AllowRule lib store now rule key rs
                                                 else AllowKey lib store now key rs)
                  in if \<not> allowed
                     then (http_Error message 429 (set_header ''Retry-After'' (retryAfterHeader retry floor') w),
                           Some rs', map_option Suc m, s)
                     else let (w', s') = next' r (w, s) in (w', Some rs', m, s'))"

section \<open>The access control policy\<close>

lemma ipInNets_ParseCIDRs:
  "ipInNets a (ParseCIDRs es) \<longleftrightarrow> (\<exists>i e n. a = Some i \<and> e \<in> set es \<and> parse_entry e = Some n \<and> Contains n i)"
  by (cases a) (auto simp: ipInNets_def ParseCIDRs_def map_filter_def list_ex_iff)

lemma ParseCIDRs_valid: "\<forall>e \<in> set es. parse_entry e \<noteq> None \<Longrightarrow> ParseCIDRs es = [] \<longleftrightarrow> es = []"
  by (cases es) (auto simp: ParseCIDRs_def map_filter_def)

lemma ipInNets_nonempty: "ipInNets a nets \<Longrightarrow> nets \<noteq> []"
  by (cases a) (auto simp: ipInNets_def)

definition entry_matches :: "ipnet list \<Rightarrow> request \<Rightarrow> string \<Rightarrow> bool" where
  "entry_matches trusted r e =
     (case (parse_entry e, ParseIP (ClientIP r trusted)) of (Some n, Some i) \<Rightarrow> Contains n i | _ \<Rightarrow> False)"

lemma ipInNets_entries: "ipInNets (ParseIP (ClientIP r trusted)) (ParseCIDRs es) \<longleftrightarrow> (\<exists>e \<in> set es. entry_matches trusted r e)"
  unfolding ipInNets_ParseCIDRs entry_matches_def
  by (cases "ParseIP (ClientIP r trusted)") (auto split: option.splits)

definition blocked_path :: "aclConfig \<Rightarrow> request \<Rightarrow> bool" where
  "blocked_path cfg r \<longleftrightarrow> (\<exists>p \<in> set (acl_BlockedPaths cfg). TrimSpace p \<noteq> [] \<and> HasPrefix (r_Path r) (TrimSpace p))"

lemma blocked_list: "list_ex (HasPrefix (r_Path r)) (filter (\<lambda>p. p \<noteq> []) (map TrimSpace (acl_BlockedPaths cfg))) \<longleftrightarrow> blocked_path cfg r"
  by (auto simp: blocked_path_def list_ex_iff)

lemma deny_entries: "ParseCIDRs es \<noteq> [] \<and> ipInNets (ParseIP (ClientIP r trusted)) (ParseCIDRs es) \<longleftrightarrow>
    (\<exists>e \<in> set es. entry_matches trusted r e)"
  using ipInNets_nonempty[of "ParseIP (ClientIP r trusted)" "ParseCIDRs es"] unfolding ipInNets_entries by blast

lemma method_list: "ToUpper x \<in> set (map (\<lambda>m. ToUpper (TrimSpace m)) ms) \<longleftrightarrow> (\<exists>m \<in> set ms. ToUpper (TrimSpace m) = ToUpper x)"
  by (induction ms) auto

lemma ACL_entries:
  assumes "\<forall>e \<in> set (acl_Allow cfg). parse_entry e \<noteq> None"
  shows "ACL cfg trusted next' r ws =
    (if \<exists>e \<in> set (acl_Deny cfg). entry_matches trusted r e then respond (http_Error ''forbidden'' 403) ws
     else if acl_Allow cfg \<noteq> [] \<and> \<not> (\<exists>e \<in> set (acl_Allow cfg). entry_matches trusted r e) then respond (http_Error ''forbidden'' 403) ws
     else if acl_Methods cfg \<noteq> [] \<and> \<not> (\<exists>m \<in> set (acl_Methods cfg). ToUpper (TrimSpace m) = ToUpper (r_Method r))
     then respond (http_Error ''method not allowed'' 405) ws
     else if blocked_path cfg r then respond (http_Error ''forbidden'' 403) ws else next' r ws)"
proof (cases "acl_Allow cfg = [] \<and> acl_Deny cfg = [] \<and> acl_Methods cfg = [] \<and> acl_BlockedPaths cfg = []")
  case True
  then show ?thesis by (simp add: ACL_def blocked_path_def)
next
  case False
  then show ?thesis
    by (simp only: ACL_def if_False Let_def deny_entries blocked_list method_list list.map_disc_iff)
      (simp only: ipInNets_entries ParseCIDRs_valid[OF assms])
qed

text \<open>A handler that records that it was reached.\<close>

definition reached :: "bool handler" where
  "reached r ws = (fst ws, True)"

text \<open>C36. With an access control list whose allow entries are all valid (what the configuration check
  demands), a request reaches the handler behind it exactly when no deny entry contains its client
  address, the allow list is empty or one of its entries contains the address, the method is listed when
  methods are, and no blocked path is a prefix of its path.\<close>

theorem acl_policy:
  assumes "\<forall>e \<in> set (acl_Allow cfg). parse_entry e \<noteq> None"
  shows "snd (ACL cfg trusted reached r (w, False)) \<longleftrightarrow>
    \<not> (\<exists>e \<in> set (acl_Deny cfg). entry_matches trusted r e) \<and>
    (acl_Allow cfg = [] \<or> (\<exists>e \<in> set (acl_Allow cfg). entry_matches trusted r e)) \<and>
    (acl_Methods cfg = [] \<or> (\<exists>m \<in> set (acl_Methods cfg). ToUpper (TrimSpace m) = ToUpper (r_Method r))) \<and>
    \<not> blocked_path cfg r"
  unfolding ACL_entries[OF assms] by (simp add: respond_def reached_def)

definition demo_acl :: aclConfig where
  "demo_acl = \<lparr>acl_Allow = [''10.0.0.0/8''], acl_Deny = [], acl_Methods = [''get ''], acl_BlockedPaths = []\<rparr>"

lemma demo_acl_valid: "parse_entry ''10.0.0.0/8'' \<noteq> None"
  by (simp add: net_eval)

theorem acl_policy_witness:
  "snd (ACL demo_acl [] reached (demo_req []) (new_writer, False)) \<longleftrightarrow>
     entry_matches [] (demo_req []) ''10.0.0.0/8'' \<and> ToUpper (TrimSpace ''get '') = ToUpper (r_Method (demo_req []))"
  using acl_policy[of demo_acl "[]" "demo_req []" new_writer] demo_acl_valid by (simp add: demo_acl_def blocked_path_def)

section \<open>Rules\<close>

lemma Itoa_inj: "Itoa i = Itoa j \<Longrightarrow> i = j"
  by (metis parse_digits_Itoa option.inject)

lemma RuleName_inj [simp]: "RuleName i = RuleName j \<longleftrightarrow> i = j"
  by (simp only: RuleName_def append_same_eq same_append_eq) (blast dest: Itoa_inj)

lemma RuleName_nonempty [simp]: "RuleName i \<noteq> []"
  by (simp add: RuleName_def)

lemma rule_of_AddRule: "rule_of (AddRule name rps burst rl) x =
    (if x = name \<and> x \<noteq> [] then Some \<lparr>ru_rps = rps, ru_burst = burst, ru_limiters = []\<rparr> else rule_of rl x)"
  by (simp add: rule_of_def AddRule_def update_conv')

lemma register_from_earlier: "j < i \<Longrightarrow> rule_of (register_from i xs rl) (RuleName j) = rule_of rl (RuleName j)"
  by (induction i xs rl rule: register_from.induct) (simp_all add: rule_of_AddRule)

definition rule_entry :: "rateLimitRule \<Rightarrow> 'tb ruleLimiter" where
  "rule_entry x = \<lparr>ru_rps = round64 (of_int (rule_RPS x)), ru_burst = rule_Burst x, ru_limiters = []\<rparr>"

lemma match_registered:
  "rule_of (register_from i xs rl) (match_from i xs r) = map_option rule_entry (find (\<lambda>x. rule_matches x r) xs)"
  by (induction i xs rl rule: register_from.induct)
    (simp_all add: rule_of_def[of _ "[]"] register_from_earlier rule_of_AddRule rule_entry_def)

text \<open>The name the middleware computes for a request looks up, in the limiter the rules were registered
  on, a fresh limiter with the rate and burst of the first rule that matches the request, and no rule
  when none does.\<close>

lemma rule_budget:
  "rule_of (RegisterRules rl cfg) (matchRule (rlc_Rules cfg) r) =
     map_option rule_entry (find (\<lambda>x. rule_matches x r) (rlc_Rules cfg))"
  unfolding RegisterRules_def matchRule_def by (rule match_registered)

section \<open>Retry-After\<close>

lemma retry_secs_covers:
  assumes "0 < retry" "retry + Second \<le> MaxInt64"
  shows "retry \<le> retry_secs retry f * Second \<and> f \<le> retry_secs retry f"
proof -
  have w: "wrap64 (retry + Second - 1) = retry + Second - 1"
    using assms by (intro wrap64_id) (simp_all add: MinInt64_def Second_def)
  define c where "c = (retry + Second - 1) div Second"
  have c: "retry \<le> c * Second" "0 \<le> c"
    using assms(1) by (simp_all add: c_def Second_def)
  have d: "0 \<le> retry + Second - 1" using assms(1) by (simp add: Second_def)
  have "retry_secs retry f = (if c > f then c else if f < 0 then 0 else f)"
    using assms(1) c(2) d by (simp add: retry_secs_def w c_def)
  moreover have "c \<le> f \<Longrightarrow> retry \<le> f * Second" using c by (simp add: Second_def)
  ultimately show ?thesis using c by (cases "f < c") simp_all
qed

section \<open>Origins and keys\<close>

lemma origin_scan_some:
  "origin_scan cred origin xs = Some a \<Longrightarrow> (a = origin \<and> (origin \<in> set xs \<or> cred \<and> ''*'' \<in> set xs)) \<or> (\<not> cred \<and> a = ''*'' \<and> ''*'' \<in> set xs)"
  by (induction xs) (auto split: if_splits)

lemma originMatch_credentials:
  "cors_AllowCredentials cfg \<Longrightarrow> originMatch cfg origin = Some a \<Longrightarrow> a = origin"
  unfolding originMatch_def by (drule origin_scan_some) auto

lemma key_scan_iff: "key_scan got m ks \<longleftrightarrow> m \<or> got \<in> set ks"
  by (induction ks arbitrary: m) auto

lemma keyMatch_iff [simp]: "keyMatch got keys \<longleftrightarrow> got \<in> set keys"
  by (simp add: keyMatch_def key_scan_iff)

lemma apiKeyAuth_policy:
  "snd (apiKeyAuth hname keys reached r (w, False)) \<longleftrightarrow>
     (let got = hdr_Get (r_Header r) (if hname = [] then ''X-API-Key'' else hname) in got \<noteq> [] \<and> got \<in> set keys)"
  by (simp add: apiKeyAuth_def respond_def reached_def Let_def)

end
