(* ===== verification/Proxy.thy ===== *)
theory Proxy
  imports Stack Circuit NetUtil Handlers
begin

text \<open>
  \<open>internal/proxy/proxy.go\<close>: selection with sticky sessions, the retry loop on one backend, the failover
  loop over backends and the accounting around them.  What the network does is an input: the exchanges of
  successive round trips are the elements of a stream, each with the calls it makes on the response writer,
  the error it ends with and the time it takes; the parser of URLs is an argument.  The balancer of a request
  is resolved once and passed along, the way the source pins it to the context.  Counters that wrap at
  \<open>2 ^ 64\<close> are unbounded; the updates of the metrics are appended to a log.
\<close>

section \<open>Upstream errors\<close>

text \<open>The chain of wrapped errors, outermost first; the flags are what \<open>Timeout()\<close> returns.\<close>

datatype err_node = OpError string bool | ECONNREFUSED | DeadlineExceeded | Canceled | NetError bool | PlainError

type_synonym uerr = "err_node list"

fun as_OpError :: "uerr \<Rightarrow> string option" where
  "as_OpError [] = None"
| "as_OpError (OpError op t # es) = Some op"
| "as_OpError (e # es) = as_OpError es"

fun as_NetError :: "uerr \<Rightarrow> bool option" where
  "as_NetError [] = None"
| "as_NetError (OpError op t # es) = Some t"
| "as_NetError (NetError t # es) = Some t"
| "as_NetError (DeadlineExceeded # es) = Some True"
| "as_NetError (ECONNREFUSED # es) = Some False"
| "as_NetError (e # es) = as_NetError es"

definition isConnectError :: "uerr \<Rightarrow> bool" where
  "isConnectError e \<longleftrightarrow> as_OpError e = Some ''dial'' \<or> ECONNREFUSED \<in> set e"

text \<open>The first argument tells whether the context of the attempt has run into its deadline.\<close>

definition classifyError :: "bool \<Rightarrow> uerr \<Rightarrow> string" where
  "classifyError ctxDeadline e =
     (if DeadlineExceeded \<in> set e \<or> Canceled \<in> set e then ''timeout''
      else if ctxDeadline then ''timeout''
      else if as_NetError e = Some True then ''timeout''
      else if isConnectError e then ''connect''
      else ''connect'')"

section \<open>Configuration\<close>

record upstreamConfig =
  up_DialTimeout :: duration
  up_TLSHandshakeTimeout :: duration
  up_ResponseHeaderTimeout :: duration
  up_ExpectContinueTimeout :: duration
  up_IdleConnTimeout :: duration
  up_MaxIdleConns :: int
  up_MaxIdleConnsPerHost :: int
  up_MaxConnsPerHost :: int
  up_HTTP2 :: bool

record retryConfig =
  rc_MaxAttempts :: int
  rc_Backoff :: string
  rc_MaxBackoff :: duration
  rc_Budget :: f64
  rc_PerTryTimeout :: duration
  rc_HonorRetryAfter :: bool
  rc_RetryOn :: "string list"
  rc_HedgeEnabled :: bool
  rc_HedgeDelay :: duration
  rc_HedgeMaxExtra :: int

record stickyConfig =
  st_Enabled :: bool
  st_Cookie :: string
  st_TTL :: duration

record proxy =
  pc_balancer :: "lb_heap balancer"
  pc_retry :: retryConfig
  pc_trusted :: "ipnet list"
  pc_upstream :: upstreamConfig
  pc_tripOn :: "string list"
  pc_retryOn :: "string list"
  pc_sticky :: stickyConfig
  pc_router :: "(request \<Rightarrow> lb_heap balancer option) option"
  pc_canary :: "lb_heap balancer option"
  pc_canaryWeight :: int

definition NewProxy :: "lb_heap balancer \<Rightarrow> retryConfig \<Rightarrow> ipnet list \<Rightarrow> upstreamConfig \<Rightarrow> proxy" where
  "NewProxy b retryCfg trusted upstream =
     \<lparr>pc_balancer = b, pc_retry = retryCfg, pc_trusted = trusted, pc_upstream = upstream,
      pc_tripOn = [''connect'', ''timeout''],
      pc_retryOn = (if rc_RetryOn retryCfg \<noteq> [] then rc_RetryOn retryCfg else [''connect'', ''timeout'']),
      pc_sticky = \<lparr>st_Enabled = False, st_Cookie = [], st_TTL = 0\<rparr>, pc_router = None, pc_canary = None,
      pc_canaryWeight = 0\<rparr>"

definition SetRouter :: "(request \<Rightarrow> lb_heap balancer option) \<Rightarrow> proxy \<Rightarrow> proxy" where
  "SetRouter router p = p\<lparr>pc_router := Some router\<rparr>"

definition clamp_percent :: "int \<Rightarrow> int" where
  "clamp_percent n = (if n < 0 then 0 else if n > 100 then 100 else n)"

definition SetCanary :: "lb_heap balancer \<Rightarrow> int \<Rightarrow> proxy \<Rightarrow> proxy" where
  "SetCanary b weightPercent p = p\<lparr>pc_canary := Some b, pc_canaryWeight := clamp_percent weightPercent\<rparr>"

definition UpdateCanaryWeight :: "int \<Rightarrow> proxy \<Rightarrow> proxy" where
  "UpdateCanaryWeight weightPercent p = p\<lparr>pc_canaryWeight := clamp_percent weightPercent\<rparr>"

definition SetSticky :: "stickyConfig \<Rightarrow> proxy \<Rightarrow> proxy" where
  "SetSticky cfg p = p\<lparr>pc_sticky := cfg\<rparr>"

definition SetTripOn :: "string list \<Rightarrow> proxy \<Rightarrow> proxy" where
  "SetTripOn classes p = (if classes = [] then p else p\<lparr>pc_tripOn := classes\<rparr>)"

definition SetRetryOn :: "string list \<Rightarrow> proxy \<Rightarrow> proxy" where
  "SetRetryOn classes p = (if classes = [] then p else p\<lparr>pc_retryOn := classes\<rparr>)"

section \<open>Transports\<close>

datatype transport =
    HTTPTransport upstreamConfig bool
  | H2CTransport duration

definition firstDuration :: "duration \<Rightarrow> duration \<Rightarrow> duration" where
  "firstDuration v d = (if v > 0 then v else d)"

definition firstInt :: "int \<Rightarrow> int \<Rightarrow> int" where
  "firstInt v d = (if v > 0 then v else d)"

text \<open>The tuning of a transport: the effective values, and whether HTTP/2 is attempted over TLS.\<close>

definition buildTransport :: "upstreamConfig \<Rightarrow> string \<Rightarrow> transport" where
  "buildTransport u scheme = HTTPTransport
     \<lparr>up_DialTimeout = firstDuration (up_DialTimeout u) (5 * Second),
      up_TLSHandshakeTimeout = firstDuration (up_TLSHandshakeTimeout u) (5 * Second),
      up_ResponseHeaderTimeout = firstDuration (up_ResponseHeaderTimeout u) (30 * Second),
      up_ExpectContinueTimeout = firstDuration (up_ExpectContinueTimeout u) (1 * Second),
      up_IdleConnTimeout = firstDuration (up_IdleConnTimeout u) (90 * Second),
      up_MaxIdleConns = firstInt (up_MaxIdleConns u) 100,
      up_MaxIdleConnsPerHost = firstInt (up_MaxIdleConnsPerHost u) 100,
      up_MaxConnsPerHost = up_MaxConnsPerHost u, up_HTTP2 = up_HTTP2 u\<rparr>
     (up_HTTP2 u \<and> scheme = ''https'')"

definition buildH2CTransport :: "upstreamConfig \<Rightarrow> transport" where
  "buildH2CTransport u = H2CTransport (firstDuration (up_DialTimeout u) (5 * Second))"

definition transportFor :: "upstreamConfig \<Rightarrow> string \<Rightarrow> transport" where
  "transportFor u scheme =
     (if up_HTTP2 u \<and> scheme = ''http'' then buildH2CTransport u else buildTransport u scheme)"

section \<open>The state a request works on\<close>

datatype metric =
    IncrError | IncrCanaryRequest | IncrCanaryError | IncrRetry
  | RecordBackendRequest string | RecordBackendError string | RecordBackendLatency string duration

datatype wcall = CallWriteHeader int | CallWrite string | CallFlush

text \<open>\<open>x_abort\<close>: copying the response failed after its header was sent, and the reverse proxy of the library ended with
  the panic \<open>http.ErrAbortHandler\<close>, as it does for requests of a server.  \<open>x_retryDate\<close> is the time until the date a \<open>Retry-After\<close> header names, when it is one.\<close>

record exchange =
  x_header :: header
  x_calls :: "wcall list"
  x_err :: "uerr option"
  x_ctxDeadline :: bool
  x_retryDate :: "duration option"
  x_elapsed :: duration
  x_abort :: bool

text \<open>\<open>ps_panic\<close>: such a panic is unwinding the stack of the request.\<close>

record pstate =
  ps_lb :: lb_heap
  ps_cb :: "breaker option"
  ps_w :: writer
  ps_proxies :: "string \<rightharpoonup> transport"
  ps_retryReqs :: nat
  ps_retryCount :: nat
  ps_budgetDenied :: nat
  ps_rejections :: nat
  ps_hedged :: nat
  ps_hedgeWins :: nat
  ps_rng :: "nat strm"
  ps_net :: "exchange strm"
  ps_sleeps :: "duration list"
  ps_log :: "metric list"
  ps_panic :: bool

definition emit :: "metric \<Rightarrow> pstate \<Rightarrow> pstate" where
  "emit m ps = ps\<lparr>ps_log := ps_log ps @ [m]\<rparr>"

definition on_lb :: "(lb_heap \<Rightarrow> lb_heap) \<Rightarrow> pstate \<Rightarrow> pstate" where
  "on_lb f ps = ps\<lparr>ps_lb := f (ps_lb ps)\<rparr>"

definition on_w :: "(writer \<Rightarrow> writer) \<Rightarrow> pstate \<Rightarrow> pstate" where
  "on_w f ps = ps\<lparr>ps_w := f (ps_w ps)\<rparr>"

section \<open>The capturing writer\<close>

record captureWriter =
  cw_wrote :: bool
  cw_statusCode :: int
  cw_retryAfter :: string

fun capture_call :: "wcall \<Rightarrow> captureWriter \<times> writer \<Rightarrow> captureWriter \<times> writer" where
  "capture_call (CallWriteHeader code) (c, w) =
     ((if \<not> cw_wrote c then c\<lparr>cw_statusCode := code, cw_retryAfter := hdr_Get (w_Header w) ''Retry-After''\<rparr> else c)
        \<lparr>cw_wrote := True\<rparr>, WriteHeader code w)"
| "capture_call (CallWrite bs) (c, w) =
     ((if \<not> cw_wrote c then c\<lparr>cw_statusCode := 200, cw_retryAfter := hdr_Get (w_Header w) ''Retry-After''\<rparr> else c)
        \<lparr>cw_wrote := True\<rparr>, Write bs w)"
| "capture_call CallFlush (c, w) =
     ((if \<not> cw_wrote c then c\<lparr>cw_statusCode := 200\<rparr> else c)\<lparr>cw_wrote := True\<rparr>,
      (if w_sent w = None then WriteHeader 200 w else w))"

definition copy_header :: "header \<Rightarrow> writer \<Rightarrow> writer" where
  "copy_header h w = fold (\<lambda>(k, vs) w. fold (add_header k) vs w) h w"

text \<open>The reverse proxy serving into the capturing writer.\<close>

definition rp_serve :: "exchange \<Rightarrow> writer \<Rightarrow> captureWriter \<times> writer" where
  "rp_serve x w = fold capture_call (x_calls x)
     (\<lparr>cw_wrote = False, cw_statusCode = 0, cw_retryAfter = []\<rparr>, copy_header (x_header x) w)"

section \<open>The outgoing request\<close>

definition SetXForwarded :: "request \<Rightarrow> header \<Rightarrow> header" where
  "SetXForwarded r out =
     (let prior = (case map_of out ''X-Forwarded-For'' of Some vs \<Rightarrow> vs | None \<Rightarrow> []);
          out1 = (case SplitHost (r_RemoteAddr r) of
                    Some a \<Rightarrow> hdr_Set ''X-Forwarded-For'' (concat (map (\<lambda>v. v @ '', '') prior) @ a) out
                  | None \<Rightarrow> hdr_Del ''X-Forwarded-For'' out)
      in hdr_Set ''X-Forwarded-Proto'' (if r_TLS r then ''https'' else ''http'') (hdr_Set ''X-Forwarded-Host'' (r_Host r) out1))"

text \<open>The \<open>Rewrite\<close> hook on the headers and the host; \<open>out\<close> are the headers after the reverse proxy has
  removed the forwarding ones.\<close>

definition rewrite_request :: "proxy \<Rightarrow> string \<Rightarrow> request \<Rightarrow> header \<Rightarrow> request" where
  "rewrite_request p target r out =
     (let out1 = hdr_Set ''X-Real-IP'' (ClientIP r (pc_trusted p)) out;
          out2 = (case map_of (r_Header r) ''X-Forwarded-For'' of
                    Some (x # xs) \<Rightarrow> AList.update ''X-Forwarded-For'' (x # xs) out1
                  | _ \<Rightarrow> out1);
          out3 = SetXForwarded r out2;
          out4 = (if map_of out3 ''User-Agent'' = None then hdr_Set ''User-Agent'' [] out3 else out3)
      in r\<lparr>r_Host := target, r_URLHost := target, r_Header := out4\<rparr>)"

section \<open>One round trip\<close>

type_synonym url_parser = "string \<Rightarrow> uerr + string"

definition proxyFor :: "url_parser \<Rightarrow> proxy \<Rightarrow> bid \<Rightarrow> pstate \<Rightarrow> uerr option \<times> pstate" where
  "proxyFor urlParse p b ps =
     (let url = be_URL (h_be (ps_lb ps) b) in
      case ps_proxies ps url of
        Some rp \<Rightarrow> (None, ps)
      | None \<Rightarrow> (case urlParse url of
          Inl e \<Rightarrow> (Some e, ps)
        | Inr scheme \<Rightarrow> (None, ps\<lparr>ps_proxies := (ps_proxies ps)(url \<mapsto> transportFor (pc_upstream p) scheme)\<rparr>)))"

definition parseRetryAfter :: "duration option \<Rightarrow> string \<Rightarrow> duration" where
  "parseRetryAfter date v =
     (if v = [] then 0
      else case ParseInt64 v of
             Some secs \<Rightarrow> if secs \<ge> 0 then wrap64 (secs * Second)
                          else (case date of Some d \<Rightarrow> if d > 0 then d else 0 | None \<Rightarrow> 0)
           | None \<Rightarrow> (case date of Some d \<Rightarrow> if d > 0 then d else 0 | None \<Rightarrow> 0))"

definition observeLatency :: "lb_heap balancer \<Rightarrow> bid \<Rightarrow> duration \<Rightarrow> pstate \<Rightarrow> pstate" where
  "observeLatency B b d ps = (case m_ObserveLatency B of Some f \<Rightarrow> on_lb (f b d) ps | None \<Rightarrow> ps)"

definition observeOutcome :: "lb_heap balancer \<Rightarrow> bid \<Rightarrow> bool \<Rightarrow> pstate \<Rightarrow> pstate" where
  "observeOutcome B b ok ps = (case m_ObserveOutcome B of Some f \<Rightarrow> on_lb (f b ok) ps | None \<Rightarrow> ps)"

definition response_class :: "int \<Rightarrow> string" where
  "response_class code = (if code \<ge> 500 \<and> code \<le> 599 then ''5xx'' else ''ok'')"

text \<open>A panic of the reverse proxy passes through, with what is returned then of no meaning.\<close>

definition doRequest :: "url_parser \<Rightarrow> proxy \<Rightarrow> lb_heap balancer \<Rightarrow> bid \<Rightarrow> pstate \<Rightarrow>
    (uerr option \<times> string \<times> bool \<times> duration) \<times> pstate" where
  "doRequest urlParse p B b ps =
     (let url = be_URL (h_be (ps_lb ps) b); (perr, ps1) = proxyFor urlParse p b (emit (RecordBackendRequest url) ps) in
      case perr of
        Some e \<Rightarrow> ((Some e, ''connect'', False, 0), ps1)
      | None \<Rightarrow>
          let x = shd' (ps_net ps1); (cw, w) = rp_serve x (ps_w ps1); ps1' = ps1\<lparr>ps_net := stl' (ps_net ps1), ps_w := w\<rparr>;
              ps2 = emit (RecordBackendLatency url (x_elapsed x)) ps1'
          in if x_abort x then ((x_err x, [], cw_wrote cw, 0), ps1'\<lparr>ps_panic := True\<rparr>)
             else case x_err x of
               Some e \<Rightarrow> ((Some e, classifyError (x_ctxDeadline x) e, cw_wrote cw, 0), ps2)
             | None \<Rightarrow>
                 let class' = response_class (cw_statusCode cw);
                     retryAfter = (if rc_HonorRetryAfter (pc_retry p)
                                   then parseRetryAfter (x_retryDate x) (cw_retryAfter cw) else 0)
                 in ((None, class', cw_wrote cw, retryAfter),
                     if class' = ''ok'' then observeLatency B b (x_elapsed x) ps2 else ps2))"

section \<open>Retries on one backend\<close>

definition isIdempotent :: "request \<Rightarrow> bool" where
  "isIdempotent r \<longleftrightarrow> r_Method r \<in> {''GET'', ''HEAD'', ''PUT'', ''DELETE'', ''OPTIONS'', ''TRACE''} \<or>
     hdr_Get (r_Header r) ''Idempotency-Key'' \<noteq> []"

definition allowRetry :: "proxy \<Rightarrow> pstate \<Rightarrow> bool" where
  "allowRetry p ps =
     (let budget = rc_Budget (pc_retry p) in
      if budget \<le> 0 then True
      else if ps_retryCount ps < 10 then True
      else if ps_retryReqs ps = 0 then True
      else f64_div (f64_of_int (int (ps_retryCount ps))) (f64_of_int (int (ps_retryReqs ps))) < budget)"

text \<open>The ceiling after the remaining doublings, with the guard against overflow.\<close>

fun backoff_ceiling :: "nat \<Rightarrow> duration \<Rightarrow> duration" where
  "backoff_ceiling 0 c0 = c0"
| "backoff_ceiling (Suc n) c0 =
     (let c = wrap64 (c0 * 2) in if c \<le> 0 then 2 ^ 62 else backoff_ceiling n c)"

definition calculateBackoff :: "proxy \<Rightarrow> nat \<Rightarrow> pstate \<Rightarrow> duration \<times> pstate" where
  "calculateBackoff p attempt ps =
     (if attempt < 1 then (0, ps)
      else let c0 = backoff_ceiling (attempt - 1) Second; maxBackoff = rc_MaxBackoff (pc_retry p);
               c = (if maxBackoff > 0 \<and> c0 > maxBackoff then maxBackoff else c0)
           in if c \<le> 0 then (0, ps)
              else (int (shd' (ps_rng ps)) mod (c + 1), ps\<lparr>ps_rng := stl' (ps_rng ps)\<rparr>))"

definition sleepBackoff :: "proxy \<Rightarrow> nat \<Rightarrow> duration \<Rightarrow> pstate \<Rightarrow> pstate" where
  "sleepBackoff p attempt retryAfter ps =
     (let (d0, ps1) = calculateBackoff p attempt ps; cap = rc_MaxBackoff (pc_retry p);
          d = (if retryAfter > 0 then (if cap > 0 \<and> retryAfter > cap then cap else retryAfter) else d0)
      in if d > 0 then ps1\<lparr>ps_sleeps := ps_sleeps ps1 @ [d]\<rparr> else ps1)"

text \<open>The loop of \<open>attemptBackend\<close>: the iterations left, the number of the next one, the error and class of
  the last one and the delay its response asked for.\<close>

fun attempt_loop :: "url_parser \<Rightarrow> proxy \<Rightarrow> lb_heap balancer \<Rightarrow> bid \<Rightarrow> nat \<Rightarrow> nat \<Rightarrow> uerr option \<times> string \<Rightarrow> duration \<Rightarrow>
    pstate \<Rightarrow> (uerr option \<times> string \<times> bool) \<times> pstate" where
  "attempt_loop urlParse p B b 0 attempt lst ra ps = ((fst lst, snd lst, False), ps)"
| "attempt_loop urlParse p B b (Suc n) attempt lst ra ps =
     (if attempt > 0 \<and> \<not> allowRetry p ps
      then ((fst lst, snd lst, False), ps\<lparr>ps_budgetDenied := ps_budgetDenied ps + 1\<rparr>)
      else let ps1 = (if attempt > 0
                      then sleepBackoff p attempt ra (emit IncrRetry (ps\<lparr>ps_retryCount := ps_retryCount ps + 1\<rparr>))
                      else ps);
               ((err, class', written, ra'), ps2) = doRequest urlParse p B b ps1
           in if ps_panic ps2 then ((err, class', written), ps2)
              else case err of
                None \<Rightarrow> ((None, class', written), ps2)
              | Some e \<Rightarrow>
                  let ps3 = emit (RecordBackendError (be_URL (h_be (ps_lb ps2) b))) ps2 in
                  if written then ((Some e, class', True), ps3)
                  else if class' \<notin> set (pc_retryOn p) then ((Some e, class', False), ps3)
                  else attempt_loop urlParse p B b n (Suc attempt) (Some e, class') ra' ps3)"

definition attemptBackend :: "url_parser \<Rightarrow> proxy \<Rightarrow> lb_heap balancer \<Rightarrow> request \<Rightarrow> bid \<Rightarrow> pstate \<Rightarrow>
    (uerr option \<times> string \<times> bool) \<times> pstate" where
  "attemptBackend urlParse p B r b ps =
     (let maxRetries = (if isIdempotent r then rc_MaxAttempts (pc_retry p) else 0);
          (res, ps1) = attempt_loop urlParse p B b (nat (maxRetries + 1)) 0 (None, []) 0
                         (ps\<lparr>ps_retryReqs := ps_retryReqs ps + 1\<rparr>)
      in (res, on_lb (DecrConn b) ps1))"

section \<open>Failover\<close>

definition recordCircuit :: "proxy \<Rightarrow> bid \<Rightarrow> string \<Rightarrow> pstate \<Rightarrow> pstate" where
  "recordCircuit p b class' ps =
     (case ps_cb ps of
        None \<Rightarrow> ps
      | Some c \<Rightarrow>
          let (c', s') = (if class' \<noteq> [] \<and> class' \<in> set (pc_tripOn p) then CB_RecordFailure b (c, ps_lb ps)
                          else CB_RecordSuccess b (c, ps_lb ps))
          in ps\<lparr>ps_cb := Some c', ps_lb := s'\<rparr>)"

definition atCapacity :: "lb_heap \<Rightarrow> bid \<Rightarrow> bool" where
  "atCapacity s b \<longleftrightarrow> be_MaxConns (h_be s b) > 0 \<and> GetActiveConns s b > be_MaxConns (h_be s b)"

definition allow_circuit :: "bid \<Rightarrow> pstate \<Rightarrow> bool \<times> pstate" where
  "allow_circuit b ps =
     (case ps_cb ps of
        None \<Rightarrow> (True, ps)
      | Some c \<Rightarrow> let (e, c') = Allow b c in (e = None, ps\<lparr>ps_cb := Some c'\<rparr>))"

definition available :: "bid \<Rightarrow> pstate \<Rightarrow> bool \<times> pstate" where
  "available b ps = (if atCapacity (ps_lb ps) b then (False, ps) else allow_circuit b ps)"

definition full :: "lb_heap \<Rightarrow> bid \<Rightarrow> bool" where
  "full s b \<longleftrightarrow> be_MaxConns (h_be s b) > 0 \<and> GetActiveConns s b \<ge> be_MaxConns (h_be s b)"

definition reserveAlternate :: "lb_heap balancer \<Rightarrow> bid list \<Rightarrow> pstate \<Rightarrow> bid option \<times> pstate" where
  "reserveAlternate B tried ps =
     (let (healthy, s) = m_GetHealthy B (ps_lb ps) in
      case find (\<lambda>b. b \<notin> set tried \<and> \<not> full s b) healthy of
        Some b \<Rightarrow> (Some b, ps\<lparr>ps_lb := IncrConn b s\<rparr>)
      | None \<Rightarrow> (None, ps\<lparr>ps_lb := s\<rparr>))"

record failover_state =
  fo_tried :: "bid list"
  fo_lastErr :: "uerr option"
  fo_bulkhead :: bool
  fo_ps :: pstate

datatype fo_result = Finished failover_state | GiveUp failover_state | Continue failover_state

text \<open>One pass of the loop body of \<open>proxyRequest\<close>, up to the choice of the next backend.  A panic ends the request
  after the deferred release in \<open>attemptBackend\<close>.\<close>

definition try_backend :: "url_parser \<Rightarrow> proxy \<Rightarrow> lb_heap balancer \<Rightarrow> request \<Rightarrow> bool \<Rightarrow> bid \<Rightarrow> failover_state \<Rightarrow> fo_result" where
  "try_backend urlParse p B r canary b fo =
     (let fo0 = fo\<lparr>fo_tried := b # fo_tried fo\<rparr>; (ok, ps) = available b (fo_ps fo) in
      if \<not> ok then
        Continue (fo0\<lparr>fo_bulkhead := (if atCapacity (ps_lb ps) b then True else fo_bulkhead fo),
                      fo_ps := on_lb (DecrConn b) ps\<rparr>)
      else let ((err, class', written), ps1) = attemptBackend urlParse p B r b ps;
               ps2 = recordCircuit p b class' (observeOutcome B b (err = None) ps1)
           in if ps_panic ps1 then Finished (fo0\<lparr>fo_ps := ps1\<rparr>)
              else case err of
                None \<Rightarrow> Finished (fo0\<lparr>fo_ps := ps2\<rparr>)
              | Some e \<Rightarrow>
                  if written
                  then Finished (fo0\<lparr>fo_lastErr := Some e,
                         fo_ps := (if canary then emit IncrCanaryError (emit IncrError ps2) else emit IncrError ps2)\<rparr>)
                  else if \<not> isIdempotent r \<and> \<not> isConnectError e
                  then GiveUp (fo0\<lparr>fo_lastErr := Some e, fo_ps := ps2\<rparr>)
                  else Continue (fo0\<lparr>fo_lastErr := Some e, fo_ps := ps2\<rparr>))"

text \<open>The end of \<open>proxyRequest\<close>, when no backend has answered.\<close>

definition give_up :: "bool \<Rightarrow> failover_state \<Rightarrow> pstate" where
  "give_up canary fo =
     (let ps = (if canary then emit IncrCanaryError (emit IncrError (fo_ps fo)) else emit IncrError (fo_ps fo)) in
      if fo_lastErr fo \<noteq> None then on_w (http_Error ''Bad Gateway'' 502) ps
      else if fo_bulkhead fo
      then on_w (http_Error ''Service Unavailable'' 503) (ps\<lparr>ps_rejections := ps_rejections ps + 1\<rparr>)
      else on_w (http_Error ''No available backends'' 503) ps)"

partial_function (option) failover :: "url_parser \<Rightarrow> proxy \<Rightarrow> lb_heap balancer \<Rightarrow> request \<Rightarrow> bool \<Rightarrow> bid \<Rightarrow> failover_state \<Rightarrow>
    pstate option" where
  "failover urlParse p B r canary b fo =
     (case try_backend urlParse p B r canary b fo of
        Finished fo' \<Rightarrow> Some (fo_ps fo')
      | GiveUp fo' \<Rightarrow> Some (give_up canary fo')
      | Continue fo' \<Rightarrow>
          (case reserveAlternate B (fo_tried fo') (fo_ps fo') of
             (None, ps) \<Rightarrow> Some (give_up canary (fo'\<lparr>fo_ps := ps\<rparr>))
           | (Some b', ps) \<Rightarrow> failover urlParse p B r canary b' (fo'\<lparr>fo_ps := ps\<rparr>)))"

definition start_failover :: "pstate \<Rightarrow> failover_state" where
  "start_failover ps = \<lparr>fo_tried = [], fo_lastErr = None, fo_bulkhead = False, fo_ps = ps\<rparr>"

end
