(* ===== verification/Sticky.thy ===== *)
theory Sticky
  imports Proxy
begin

text \<open>
  Session affinity in \<open>internal/proxy/proxy.go\<close>: the affinity cookie, selection with it, and the entry point
  of the proxy up to the backend it hands the request to.
\<close>

section \<open>Cookies\<close>

text \<open>What \<open>net/http\<close> reads from the \<open>Cookie\<close> lines of a request (\<open>readCookies\<close>).\<close>

definition cookie_byte :: "char \<Rightarrow> bool" where
  "cookie_byte c \<longleftrightarrow> (let n = of_char c :: nat in 32 \<le> n \<and> n < 127 \<and> n \<noteq> 34 \<and> n \<noteq> 59 \<and> n \<noteq> 92)"

definition is_token :: "string \<Rightarrow> bool" where
  "is_token s \<longleftrightarrow> s \<noteq> [] \<and> list_all token_char s"

definition unquote :: "string \<Rightarrow> string" where
  "unquote v = (if length v > 1 \<and> hd v = CHR 0x22 \<and> last v = CHR 0x22 then butlast (tl v) else v)"

definition cookie_of_part :: "string \<Rightarrow> (string \<times> string) option" where
  "cookie_of_part part0 =
     (let part = TrimSpace part0 in
      if part = [] then None
      else let (name0, val) = (case split_first CHR ''='' part of Some nv \<Rightarrow> nv | None \<Rightarrow> (part, []));
               name = TrimSpace name0
           in if \<not> is_token name then None
              else if \<not> list_all cookie_byte (unquote val) then None
              else Some (name, unquote val))"

definition readCookies :: "header \<Rightarrow> (string \<times> string) list" where
  "readCookies h = concat (map (\<lambda>line. List.map_filter cookie_of_part (SplitChar CHR '';'' line)) (hdr_Values h ''Cookie''))"

definition stickyToken :: "proxy \<Rightarrow> request \<Rightarrow> string" where
  "stickyToken p r =
     (if st_Cookie (pc_sticky p) = [] then []
      else case find (\<lambda>nv. fst nv = st_Cookie (pc_sticky p)) (readCookies (r_Header r)) of
             Some nv \<Rightarrow> snd nv
           | None \<Rightarrow> [])"

section \<open>Tokens\<close>

text \<open>FNV-1a on 64 bits, and its eight bytes in hexadecimal.\<close>

unbundle bit_operations_syntax

definition fnv64a :: "string \<Rightarrow> 64 word" where
  "fnv64a key = fold (\<lambda>c h. (h XOR word_of_nat (of_char c)) * 1099511628211) key 14695981039346656037"

definition hex_digit :: "nat \<Rightarrow> char" where
  "hex_digit d = char_of (if d < 10 then 48 + d else 87 + d)"

fun hex_digits :: "nat \<Rightarrow> nat \<Rightarrow> string" where
  "hex_digits 0 n = []"
| "hex_digits (Suc k) n = hex_digits k (n div 16) @ [hex_digit (n mod 16)]"

definition backendToken :: "lb_heap \<Rightarrow> bid \<Rightarrow> string" where
  "backendToken s b = hex_digits 16 (unat (fnv64a (be_URL (h_be s b))))"

definition backendForToken :: "lb_heap balancer \<Rightarrow> string \<Rightarrow> lb_heap \<Rightarrow> bid option \<times> lb_heap" where
  "backendForToken B token s =
     (let (healthy, s1) = m_GetHealthy B s in (find (\<lambda>b. backendToken s1 b = token) healthy, s1))"

text \<open>\<open>http.SetCookie\<close> writes nothing for a name that is no token.\<close>

definition setStickyCookie :: "proxy \<Rightarrow> lb_heap \<Rightarrow> bid \<Rightarrow> writer \<Rightarrow> writer" where
  "setStickyCookie p s b w =
     (let name = st_Cookie (pc_sticky p); ttl = st_TTL (pc_sticky p); maxAge = (if ttl > 0 then ttl div Second else 0) in
      if \<not> is_token name then w
      else add_header ''Set-Cookie''
             (name @ ''='' @ backendToken s b @ ''; Path=/'' @
              (if maxAge > 0 then ''; Max-Age='' @ FormatInt maxAge else []) @ ''; HttpOnly; SameSite=Lax'') w)"

section \<open>Selection\<close>

definition selectBackend :: "proxy \<Rightarrow> lb_heap balancer \<Rightarrow> request \<Rightarrow> lb_heap pick" where
  "selectBackend p B r s =
     (let clientIP = ClientIP r (pc_trusted p) in
      if st_Enabled (pc_sticky p) then
        let token = stickyToken p r;
            (pin, s1) = (if token \<noteq> [] then backendForToken B token s else (None, s))
        in case pin of
             Some be \<Rightarrow> (Inr be, IncrConn be s1)
           | None \<Rightarrow> keyed_next B (if token = [] then clientIP else token) s1
      else keyed_next B clientIP s)"

definition rollCanary :: "proxy \<Rightarrow> pstate \<Rightarrow> bool \<times> pstate" where
  "rollCanary p ps =
     (int (shd' (ps_rng ps)) mod 100 < pc_canaryWeight p, ps\<lparr>ps_rng := stl' (ps_rng ps)\<rparr>)"

text \<open>The balancer a request is pinned to, and whether it is the canary's.\<close>

definition routed :: "proxy \<Rightarrow> request \<Rightarrow> lb_heap balancer" where
  "routed p r =
     (case pc_router p of
        Some route \<Rightarrow> (case route r of Some b \<Rightarrow> b | None \<Rightarrow> pc_balancer p)
      | None \<Rightarrow> pc_balancer p)"

definition pin_balancer :: "proxy \<Rightarrow> request \<Rightarrow> pstate \<Rightarrow> (lb_heap balancer \<times> bool) \<times> pstate" where
  "pin_balancer p r ps =
     (case pc_canary p of
        Some c \<Rightarrow>
          if pc_canaryWeight p > 0 then
            let (hit, ps1) = rollCanary p ps
            in if hit then ((c, True), emit IncrCanaryRequest ps1) else ((routed p r, False), ps1)
          else ((routed p r, False), ps)
      | None \<Rightarrow> ((routed p r, False), ps))"

end
