(* ===== verification/Failover.thy ===== *)
theory Failover
  imports Sticky
begin

text \<open>
  What the proxy promises around the loops of \<open>internal/proxy/proxy.go\<close>: the failover loop returns and
  gives every reservation back, and a request that must not be applied twice is not replayed.
\<close>

section \<open>What the proxy asks of a balancer\<close>

text \<open>The observers keep the invariant, the members and the connection counts.\<close>

definition kept :: "(lb_heap \<Rightarrow> bool) \<Rightarrow> lb_heap \<Rightarrow> lb_heap \<Rightarrow> bool" where
  "kept I s s' \<longleftrightarrow> (I s \<longrightarrow> I s') \<and> members s' = members s \<and> conns s' = conns s"

lemma find_SomeD: "find P xs = Some x \<Longrightarrow> x \<in> set xs \<and> P x"
  by (induction xs) (auto split: if_splits)

lemma kept_refl [simp]: "kept I s s"
  by (simp add: kept_def)

lemma kept_trans: "kept I s t \<Longrightarrow> kept I t u \<Longrightarrow> kept I s u"
  by (simp add: kept_def)

locale observed_balancer = balancer_contract +
  assumes ObserveLatency_keeps: "m_ObserveLatency B = Some f \<Longrightarrow> kept hinv s (f b d s)"
    and ObserveOutcome_keeps: "m_ObserveOutcome B = Some g \<Longrightarrow> kept hinv s (g b ok s)"

lemma ps_lb_simps [simp]:
  "ps_lb (emit m ps) = ps_lb ps" "ps_lb (on_w g ps) = ps_lb ps" "ps_lb (on_lb f ps) = f (ps_lb ps)"
  "ps_net (emit m ps) = ps_net ps" "ps_net (on_w g ps) = ps_net ps" "ps_net (on_lb f ps) = ps_net ps"
  by (simp_all add: emit_def on_w_def on_lb_def)

lemma sleepBackoff_frame [simp]:
  "ps_lb (sleepBackoff p n ra ps) = ps_lb ps" "ps_net (sleepBackoff p n ra ps) = ps_net ps"
  by (simp_all add: sleepBackoff_def calculateBackoff_def Let_def)

lemma proxyFor_frame [simp]:
  "ps_lb (snd (proxyFor urlParse p b ps)) = ps_lb ps" "ps_net (snd (proxyFor urlParse p b ps)) = ps_net ps"
  by (simp_all add: proxyFor_def Let_def split: option.split sum.split)

lemma proxyFor_cb: "ps_cb (snd (proxyFor urlParse p b ps)) = ps_cb ps"
  by (simp add: proxyFor_def Let_def split: option.split sum.split)

lemma available_frame [simp]: "ps_lb (snd (available b ps)) = ps_lb ps" "ps_net (snd (available b ps)) = ps_net ps"
  by (simp_all add: available_def allow_circuit_def case_prod_beta Let_def split: option.split)

lemma CB_record_heap:
  "snd (CB_RecordFailure b (c, s)) \<in> {s, SetHealthy b False s}" "snd (CB_RecordSuccess b (c, s)) \<in> {s, SetHealthy b True s}"
  by (simp_all add: CB_RecordFailure_def CB_RecordSuccess_def Let_def case_prod_beta split: cstate.split)

lemma recordCircuit_heap: "\<exists>v. ps_lb (recordCircuit p b c ps) \<in> {ps_lb ps, SetHealthy b v (ps_lb ps)}"
  using CB_record_heap[of b _ "ps_lb ps"]
  by (fastforce simp: recordCircuit_def case_prod_beta Let_def split: option.split)

lemma recordCircuit_net [simp]: "ps_net (recordCircuit p b c ps) = ps_net ps"
  by (simp add: recordCircuit_def case_prod_beta Let_def split: option.split)

lemma observe_net [simp]: "ps_net (observeLatency B b d ps) = ps_net ps" "ps_net (observeOutcome B b ok ps) = ps_net ps"
  by (simp_all add: observeLatency_def observeOutcome_def split: option.split)

lemma doRequest_heap:
  obtains ps2 d where "ps_lb ps2 = ps_lb ps"
    "ps_lb (snd (doRequest urlParse p B b ps)) \<in> {ps_lb ps2, ps_lb (observeLatency B b d ps2)}"
proof -
  let ?url = "be_URL (h_be (ps_lb ps) b)"
  define ps1 where "ps1 = snd (proxyFor urlParse p b (emit (RecordBackendRequest ?url) ps))"
  define x where "x = shd' (ps_net ps1)"
  define ps2 where "ps2 = emit (RecordBackendLatency ?url (x_elapsed x))
    (ps1\<lparr>ps_net := stl' (ps_net ps1), ps_w := snd (rp_serve x (ps_w ps1))\<rparr>)"
  define ps3 where "ps3 = ps1\<lparr>ps_net := stl' (ps_net ps1), ps_w := snd (rp_serve x (ps_w ps1)), ps_panic := True\<rparr>"
  have lb: "ps_lb ps1 = ps_lb ps" "ps_lb ps2 = ps_lb ps" "ps_lb ps3 = ps_lb ps" by (simp_all add: ps1_def ps2_def ps3_def)
  have "snd (doRequest urlParse p B b ps) \<in> {ps1, ps2, ps3, observeLatency B b (x_elapsed x) ps2}"
    unfolding doRequest_def Let_def case_prod_beta ps1_def[symmetric] x_def[symmetric] ps2_def[symmetric] ps3_def
    by (simp split: option.split)
  then have "ps_lb (snd (doRequest urlParse p B b ps)) \<in> {ps_lb ps2, ps_lb (observeLatency B b (x_elapsed x) ps2)}"
    using lb by auto
  with lb(2) show ?thesis by (rule that)
qed

definition released :: "(lb_heap \<Rightarrow> bool) \<Rightarrow> bid \<Rightarrow> lb_heap \<Rightarrow> lb_heap \<Rightarrow> bool" where
  "released I b s s' \<longleftrightarrow> (I s \<longrightarrow> I s') \<and> members s' = members s \<and> conns s' = (conns s)(b := conns s b - 1)"

lemma released_kept: "released I b s t \<Longrightarrow> kept I t u \<Longrightarrow> released I b s u"
  by (simp add: released_def kept_def)

fun outcome :: "fo_result \<Rightarrow> failover_state" where
  "outcome (Finished fo) = fo"
| "outcome (GiveUp fo) = fo"
| "outcome (Continue fo) = fo"

lemma give_up_lb: "ps_lb (give_up canary fo) = ps_lb (fo_ps fo)" "ps_net (give_up canary fo) = ps_net (fo_ps fo)"
  by (simp_all add: give_up_def Let_def)

lemma try_backend_tried: "fo_tried (outcome (try_backend urlParse p B r canary b fo)) = b # fo_tried fo"
  by (simp add: try_backend_def Let_def case_prod_beta split: option.split)

context observed_balancer
begin

lemma kept_SetHealthy: "kept hinv s (SetHealthy b v s)"
  using inv_frame[of s "SetHealthy b v s"] inv_wf[of s]
  by (simp add: kept_def frame_simps SetHealthy_wf config_frame_SetHealthy)

lemma inv_DecrConn: "hinv s \<Longrightarrow> hinv (DecrConn b s)"
  using inv_frame[of s "DecrConn b s"] inv_wf[of s] by (simp add: DecrConn_wf config_frame_DecrConn)

lemma inv_IncrConn: "hinv s \<Longrightarrow> hinv (IncrConn b s)"
  using inv_frame[of s "IncrConn b s"] inv_wf[of s] by (simp add: IncrConn_wf config_frame_IncrConn)

lemma recordCircuit_keeps: "kept hinv (ps_lb ps) (ps_lb (recordCircuit p b c ps))"
  using recordCircuit_heap[of p b c ps] kept_SetHealthy by auto

lemma observeLatency_keeps: "kept hinv (ps_lb ps) (ps_lb (observeLatency B b d ps))"
  by (simp add: observeLatency_def ObserveLatency_keeps split: option.split)

lemma observeOutcome_keeps: "kept hinv (ps_lb ps) (ps_lb (observeOutcome B b ok ps))"
  by (simp add: observeOutcome_def ObserveOutcome_keeps split: option.split)

lemma doRequest_keeps: "kept hinv (ps_lb ps) (ps_lb (snd (doRequest urlParse p B b ps)))"
proof -
  obtain ps2 d where "ps_lb ps2 = ps_lb ps"
    "ps_lb (snd (doRequest urlParse p B b ps)) \<in> {ps_lb ps2, ps_lb (observeLatency B b d ps2)}"
    by (rule doRequest_heap)
  then show ?thesis using observeLatency_keeps[of ps2 b d] by auto
qed

lemma attempt_loop_keeps: "kept hinv (ps_lb ps) (ps_lb (snd (attempt_loop urlParse p B b n i lst ra ps)))"
proof (induction n arbitrary: i lst ra ps)
  case (Suc n)
  define ps1 where "ps1 = (if i > 0 then sleepBackoff p i ra (emit IncrRetry (ps\<lparr>ps_retryCount := ps_retryCount ps + 1\<rparr>)) else ps)"
  obtain err c written ra' ps2 where d: "doRequest urlParse p B b ps1 = ((err, c, written, ra'), ps2)"
    by (metis prod.collapse)
  have "ps_lb ps1 = ps_lb ps" by (simp add: ps1_def)
  then have k: "kept hinv (ps_lb ps) (ps_lb ps2)" using doRequest_keeps[of ps1 urlParse p b] d by simp
  define ps3 where "ps3 = emit (RecordBackendError (be_URL (h_be (ps_lb ps2) b))) ps2"
  have k3: "kept hinv (ps_lb ps) (ps_lb (snd (attempt_loop urlParse p B b n (Suc i) l ra' ps3)))" for l
    using kept_trans[OF k, of "ps_lb (snd (attempt_loop urlParse p B b n (Suc i) l ra' ps3))"] Suc[of ps3 "Suc i" l ra']
    by (simp add: ps3_def)
  have eq: "attempt_loop urlParse p B b (Suc n) i lst ra ps =
      (if i > 0 \<and> \<not> allowRetry p ps then ((fst lst, snd lst, False), ps\<lparr>ps_budgetDenied := ps_budgetDenied ps + 1\<rparr>)
       else if ps_panic ps2 then ((err, c, written), ps2)
       else case err of None \<Rightarrow> ((None, c, written), ps2)
         | Some e \<Rightarrow> if written then ((Some e, c, True), ps3) else if c \<notin> set (pc_retryOn p) then ((Some e, c, False), ps3)
             else attempt_loop urlParse p B b n (Suc i) (Some e, c) ra' ps3)"
    by (simp only: attempt_loop.simps Let_def ps1_def[symmetric] d ps3_def[symmetric] prod.case)
  have "ps_lb ps3 = ps_lb ps2" by (simp add: ps3_def)
  then show ?case unfolding eq using k k3 by (auto split: option.split)
qed simp

lemma attemptBackend_releases: "released hinv b (ps_lb ps) (ps_lb (snd (attemptBackend urlParse p B r b ps)))"
  using attempt_loop_keeps[of "ps\<lparr>ps_retryReqs := ps_retryReqs ps + 1\<rparr>" urlParse p b
      "nat ((if isIdempotent r then rc_MaxAttempts (pc_retry p) else 0) + 1)" 0 "(None, [])" 0]
  by (simp add: attemptBackend_def Let_def case_prod_beta kept_def released_def inv_DecrConn frame_simps)

lemma released_DecrConn: "released hinv b s (DecrConn b s)"
  by (simp add: released_def inv_DecrConn frame_simps)

lemma try_backend_releases:
  "released hinv b (ps_lb (fo_ps fo)) (ps_lb (fo_ps (outcome (try_backend urlParse p B r canary b fo))))"
proof -
  obtain ok ps where av: "available b (fo_ps fo) = (ok, ps)" by fastforce
  have lb: "ps_lb ps = ps_lb (fo_ps fo)" using available_frame(1)[of b "fo_ps fo"] av by simp
  obtain err c written ps1 where at: "attemptBackend urlParse p B r b ps = ((err, c, written), ps1)"
    by (metis prod.collapse)
  define ps2 where "ps2 = recordCircuit p b c (observeOutcome B b (err = None) ps1)"
  have rel1: "released hinv b (ps_lb ps) (ps_lb ps1)" using attemptBackend_releases[of b ps urlParse p r] at by simp
  then have rel: "released hinv b (ps_lb ps) (ps_lb ps2)"
    unfolding ps2_def
    by (intro released_kept[OF released_kept[OF _ observeOutcome_keeps] recordCircuit_keeps])
  have "ps_lb (fo_ps (outcome (try_backend urlParse p B r canary b fo))) \<in> {DecrConn b (ps_lb ps), ps_lb ps1, ps_lb ps2}"
    unfolding try_backend_def Let_def av at prod.case ps2_def[symmetric]
    by (simp split: option.split)
  then show ?thesis using rel rel1 released_DecrConn[of b "ps_lb ps"] lb by auto
qed

lemma reserveAlternate_Some:
  assumes "reserveAlternate B tried ps = (Some b, ps')" "hinv (ps_lb ps)"
  shows "b \<in> set (m_All B (ps_lb ps)) - set tried" and "hinv (ps_lb ps')" and "members (ps_lb ps') = members (ps_lb ps)"
    and "conns (ps_lb ps') = (conns (ps_lb ps))(b := conns (ps_lb ps) b + 1)"
proof -
  obtain hs s where g: "m_GetHealthy B (ps_lb ps) = (hs, s)" by fastforce
  have s: "hinv s" "members s = members (ps_lb ps)" "conns s = conns (ps_lb ps)" "hs = filter (IsHealthy (ps_lb ps)) (m_All B (ps_lb ps))"
    using GetHealthy_wf[OF assms(2)] GetHealthy_members[of "ps_lb ps"] GetHealthy_conns[of "ps_lb ps"] GetHealthy_fst[OF assms(2)] g
    by simp_all
  obtain f: "find (\<lambda>b. b \<notin> set tried \<and> \<not> full s b) hs = Some b" and ps': "ps' = ps\<lparr>ps_lb := IncrConn b s\<rparr>"
    using assms(1) by (auto simp: reserveAlternate_def g split: option.splits)
  show "b \<in> set (m_All B (ps_lb ps)) - set tried" using find_SomeD[OF f] s(4) by auto
  show "hinv (ps_lb ps')" "members (ps_lb ps') = members (ps_lb ps)"
    "conns (ps_lb ps') = (conns (ps_lb ps))(b := conns (ps_lb ps) b + 1)"
    using s by (simp_all add: ps' inv_IncrConn frame_simps)
qed

lemma reserveAlternate_None:
  "reserveAlternate B tried ps = (None, ps') \<Longrightarrow> kept hinv (ps_lb ps) (ps_lb ps')"
  using GetHealthy_wf[of "ps_lb ps"] GetHealthy_members[of "ps_lb ps"] GetHealthy_conns[of "ps_lb ps"]
  by (auto simp: reserveAlternate_def kept_def case_prod_beta split: option.splits)

text \<open>The loop returns, and the only reservation it was entered with is given back.\<close>

lemma failover_returns:
  "hinv (ps_lb (fo_ps fo)) \<Longrightarrow>
   \<exists>ps'. failover urlParse p B r canary b fo = Some ps' \<and> released hinv b (ps_lb (fo_ps fo)) (ps_lb ps')"
proof (induction "card (set (m_All B (ps_lb (fo_ps fo))) - set (b # fo_tried fo))" arbitrary: b fo rule: less_induct)
  case less
  let ?s = "ps_lb (fo_ps fo)"
  define res where "res = try_backend urlParse p B r canary b fo"
  define fo' where "fo' = outcome res"
  have rel: "released hinv b ?s (ps_lb (fo_ps fo'))" unfolding fo'_def res_def by (rule try_backend_releases)
  have unf: "failover urlParse p B r canary b fo = (case res of Finished fo' \<Rightarrow> Some (fo_ps fo') | GiveUp fo' \<Rightarrow> Some (give_up canary fo')
     | Continue fo' \<Rightarrow> (case reserveAlternate B (fo_tried fo') (fo_ps fo') of
             (None, ps) \<Rightarrow> Some (give_up canary (fo'\<lparr>fo_ps := ps\<rparr>))
           | (Some b', ps) \<Rightarrow> failover urlParse p B r canary b' (fo'\<lparr>fo_ps := ps\<rparr>)))"
    unfolding res_def by (rule failover.simps)
  show ?case
  proof (cases res)
    case (Continue fo1)
    then have fo': "fo' = fo1" by (simp add: fo'_def)
    obtain nb ps where alt: "reserveAlternate B (fo_tried fo1) (fo_ps fo1) = (nb, ps)" by fastforce
    have inv: "hinv (ps_lb (fo_ps fo1))" using rel less.prems by (simp add: released_def fo')
    show ?thesis
    proof (cases nb)
      case None
      then show ?thesis using rel reserveAlternate_None[of "fo_tried fo1" "fo_ps fo1" ps] alt
        by (auto simp: unf Continue fo' give_up_lb intro: released_kept)
    next
      case (Some b')
      note alt' = reserveAlternate_Some[OF alt[unfolded Some] inv]
      have tried: "fo_tried fo1 = b # fo_tried fo"
        using try_backend_tried[of urlParse p B r canary b fo] fo' by (simp add: fo'_def res_def)
      let ?fo2 = "fo1\<lparr>fo_ps := ps\<rparr>"
      have all: "m_All B (ps_lb ps) = m_All B ?s" "m_All B (ps_lb (fo_ps fo1)) = m_All B ?s"
        using rel alt'(3) by (auto intro!: All_members simp: released_def fo')
      have "card (set (m_All B (ps_lb ps)) - set (b' # fo_tried fo1)) < card (set (m_All B ?s) - set (b # fo_tried fo))"
        using alt'(1) by (intro psubset_card_mono) (auto simp: all tried)
      then obtain ps' where "failover urlParse p B r canary b' ?fo2 = Some ps'" "released hinv b' (ps_lb ps) (ps_lb ps')"
        using less.hyps[of ?fo2 b'] alt'(2) by auto
      then show ?thesis using rel alt' by (auto simp: unf Continue alt Some released_def fo' fun_eq_iff)
    qed
  qed (use rel in \<open>auto simp: unf fo'_def give_up_lb\<close>)
qed

end

section \<open>Every configured stack\<close>

lemma EWMA_observe_kept: "kept heap_wf s (EWMA_ObserveLatency mexp a b d s)"
proof -
  have "obs (EWMA_ObserveLatency mexp a b d s) = obs s"
    unfolding EWMA_ObserveLatency_def case_prod_beta Let_def by (cases "h_ewma (snd (Now s)) a b") simp_all
  then show ?thesis
    using obs_members obs_conns obs_heap_wf unfolding kept_def by blast
qed

lemma base_of_observers:
  "m_ObserveOutcome (base_of mexp a lb s) = None"
  "m_ObserveLatency (base_of mexp a lb s) = Some f \<Longrightarrow> f = EWMA_ObserveLatency mexp a \<and> stack_inv a lb = heap_wf"
proof -
  note defs = RoundRobin_def LeastConnections_def WeightedRoundRobin_def SWRR_def
      WeightedLeastConn_def WeightedRandom_def P2C_def ConsistentHash_def EWMA_def IPHash_def base_methods_def
  show "m_ObserveOutcome (base_of mexp a lb s) = None"
    by (simp add: base_of_def NewByAlgorithm_def defs)
  assume "m_ObserveLatency (base_of mexp a lb s) = Some f"
  moreover have "m_ObserveLatency (base_of mexp a lb s) =
      (if lb_Algorithm lb = ''ewma'' then Some (EWMA_ObserveLatency mexp a) else None)"
    by (simp add: base_of_def NewByAlgorithm_def defs)
  ultimately show "f = EWMA_ObserveLatency mexp a \<and> stack_inv a lb = heap_wf"
    by (simp add: stack_inv_def split: if_split_asm)
qed

lemma compose_observers:
  "m_ObserveOutcome C = None \<Longrightarrow> m_ObserveOutcome (compose a lb tiers C) = Some g \<Longrightarrow> \<exists>inner. g = OD_ObserveOutcome a inner"
  "m_ObserveLatency (compose a lb tiers C) = Some f \<Longrightarrow> m_ObserveLatency C = Some f"
  by (auto simp: compose_def Let_def PriorityTiers_def ZoneAware_def narrowing_wrapper_def SlowStart_def OutlierDetection_def
      forwarding_def split: if_splits)

lemma config_frame_kept:
  "balancer_contract B I \<Longrightarrow> heap_wf s' \<or> \<not> heap_wf s \<Longrightarrow> config_frame s s' \<Longrightarrow> conns s' = conns s \<Longrightarrow> kept I s s'"
  using balancer_contract.inv_frame[of B I s s'] balancer_contract.inv_wf[of B I s] by (auto simp: kept_def config_frame_def)

lemma OD_observe_kept:
  assumes "balancer_contract B I"
  shows "kept I s (OD_ObserveOutcome a inner b ok s)"
proof -
  define s1 where "s1 = snd (Now s)"
  have o: "obs s1 = obs s" "h_ch s1 = h_ch s" by (simp_all add: s1_def) (simp add: Now_def)
  have m: "kept I s (s1\<lparr>h_od := od\<rparr>)" for od
  proof (rule config_frame_kept[OF assms])
    have t: "obs (s1\<lparr>h_od := od\<rparr>) = obs s" using o by simp
    show "heap_wf (s1\<lparr>h_od := od\<rparr>) \<or> \<not> heap_wf s" by (simp add: obs_heap_wf[OF t])
    show "config_frame s (s1\<lparr>h_od := od\<rparr>)" by (rule config_frame_obs[OF t]) (simp add: o)
    show "conns (s1\<lparr>h_od := od\<rparr>) = conns s" by (rule obs_conns[OF t])
  qed
  have h: "kept I t (SetHealthy b False t)" for t
    by (rule config_frame_kept[OF assms])
      (use SetHealthy_wf[of t b False] in \<open>auto simp: config_frame_SetHealthy frame_simps\<close>)
  show ?thesis
    unfolding OD_ObserveOutcome_def case_prod_beta Let_def s1_def[symmetric]
    by (simp add: m kept_trans[OF m h] fun_upd_def)
qed

lemma setup_observed: "observed_balancer (fst (setupBalancer mexp a lb backends s0)) (stack_inv a lb)"
proof -
  let ?C = "base_of mexp a lb s0"
  have bc: "balancer_contract (compose a lb (backendsUseTiers backends) ?C) (stack_inv a lb)"
    by (rule compose_contract[OF base_of_passive])
  show ?thesis
    unfolding setupBalancer_fst
  proof (intro observed_balancer.intro observed_balancer_axioms.intro bc)
    fix f s b d assume "m_ObserveLatency (compose a lb (backendsUseTiers backends) ?C) = Some f"
    then show "kept (stack_inv a lb) s (f b d s)"
      using compose_observers(2) base_of_observers(2) EWMA_observe_kept by metis
  next
    fix g s b ok assume "m_ObserveOutcome (compose a lb (backendsUseTiers backends) ?C) = Some g"
    then show "kept (stack_inv a lb) s (g b ok s)"
      using compose_observers(1)[OF base_of_observers(1)] OD_observe_kept[OF bc] by metis
  qed
qed

interpretation stack: observed_balancer "fst (setupBalancer mexp a lb backends s0)" "stack_inv a lb"
  for mexp a lb backends s0
  by (rule setup_observed)

text \<open>C4. For every balancer the configuration can ask for, the failover loop returns, whatever the backends
  answer, and gives back exactly the reservation it was entered with: every other connection count, the
  members and the invariant of the balancer are as before.\<close>

theorem failover_terminates:
  assumes "B = fst (setupBalancer mexp a lb backends s0)" and "stack_inv a lb (ps_lb ps)"
  shows "\<exists>ps'. failover urlParse p B r canary b (start_failover ps) = Some ps' \<and>
    released (stack_inv a lb) b (ps_lb ps) (ps_lb ps')"
  using stack.failover_returns[of a lb "start_failover ps" urlParse p mexp backends s0 r canary b] assms
  by (simp add: start_failover_def)

section \<open>No request is applied twice\<close>

text \<open>The backend never saw the request of an exchange that ended with a connection error.\<close>

definition refused :: "exchange \<Rightarrow> bool" where
  "refused x \<longleftrightarrow> (\<exists>e. x_err x = Some e \<and> isConnectError e)"

lemma doRequest_net:
  fixes res :: "(uerr option \<times> string \<times> bool \<times> duration) \<times> pstate"
  assumes "res = doRequest urlParse p B b ps"
  shows "ps_net (snd res) = ps_net ps \<or> ps_net (snd res) = stl' (ps_net ps) \<and> fst (fst res) = x_err (shd' (ps_net ps))"
proof -
  let ?url = "be_URL (h_be (ps_lb ps) b)"
  define ps1 where "ps1 = snd (proxyFor urlParse p b (emit (RecordBackendRequest ?url) ps))"
  have n: "ps_net ps1 = ps_net ps" by (simp add: ps1_def)
  show ?thesis
    unfolding assms doRequest_def Let_def case_prod_beta ps1_def[symmetric] using n
    by (simp split: option.split)
qed

lemma attemptBackend_once:
  assumes "\<not> isIdempotent r" and "attemptBackend urlParse p B r b ps = ((err, c, written), ps')"
  shows "ps_net ps' = ps_net ps \<or> ps_net ps' = stl' (ps_net ps) \<and> err = x_err (shd' (ps_net ps))"
proof -
  let ?ps = "ps\<lparr>ps_retryReqs := Suc (ps_retryReqs ps)\<rparr>"
  obtain err1 c1 w1 ra1 ps1 where d: "doRequest urlParse p B b ?ps = ((err1, c1, w1, ra1), ps1)" by (metis prod.collapse)
  have "err = err1" "ps_net ps' = ps_net ps1"
    using assms by (auto simp: attemptBackend_def Let_def case_prod_beta d split: option.splits if_splits)
  then show ?thesis using doRequest_net[OF d[symmetric]] by simp
qed

lemma try_backend_net:
  assumes "\<not> isIdempotent r"
  shows "ps_net (fo_ps (outcome (try_backend urlParse p B r canary b fo))) = ps_net (fo_ps fo) \<or>
    ps_net (fo_ps (outcome (try_backend urlParse p B r canary b fo))) = stl' (ps_net (fo_ps fo)) \<and>
    (\<forall>fo'. try_backend urlParse p B r canary b fo = Continue fo' \<longrightarrow> refused (shd' (ps_net (fo_ps fo))))"
proof -
  obtain ok ps where av: "available b (fo_ps fo) = (ok, ps)" by fastforce
  have n: "ps_net ps = ps_net (fo_ps fo)" using available_frame(2)[of b "fo_ps fo"] av by simp
  obtain err c written ps1 where at: "attemptBackend urlParse p B r b ps = ((err, c, written), ps1)"
    by (metis prod.collapse)
  define ps2 where "ps2 = recordCircuit p b c (observeOutcome B b (err = None) ps1)"
  have n2: "ps_net ps2 = ps_net ps1" by (simp add: ps2_def)
  show ?thesis
    using attemptBackend_once[OF assms at] assms n n2
    unfolding try_backend_def Let_def av at prod.case ps2_def[symmetric]
    by (auto simp: refused_def split: option.split)
qed

text \<open>The exchanges a run consumes: a prefix of the stream, all but the last of which were refused.\<close>

definition replays_refused :: "exchange strm \<Rightarrow> exchange strm \<Rightarrow> bool" where
  "replays_refused net net' \<longleftrightarrow> (\<exists>n. net' = (\<lambda>i. net (n + i)) \<and> (\<forall>i. Suc i < n \<longrightarrow> refused (net i)))"

lemma replays_none: "replays_refused net net"
  unfolding replays_refused_def by (rule exI[of _ 0]) simp

lemma replays_one: "replays_refused net (stl' net)"
  unfolding replays_refused_def by (rule exI[of _ 1]) (simp add: stl'_def fun_eq_iff)

lemma replays_step:
  assumes "refused (shd' net)" and "replays_refused (stl' net) net'"
  shows "replays_refused net net'"
proof -
  obtain n where n: "net' = (\<lambda>i. stl' net (n + i))" "\<forall>i. Suc i < n \<longrightarrow> refused (stl' net i)"
    using assms(2) unfolding replays_refused_def by blast
  have "refused (net i)" if "Suc i < Suc n" for i
    using that n(2) assms(1) by (cases i) (auto simp: stl'_def shd'_def)
  then show ?thesis
    unfolding replays_refused_def using n(1) by (intro exI[of _ "Suc n"]) (simp add: stl'_def fun_eq_iff)
qed

lemma reserveAlternate_net: "ps_net (snd (reserveAlternate B tried ps)) = ps_net ps"
  by (simp add: reserveAlternate_def case_prod_beta Let_def split: option.split)

lemma failover_replays:
  assumes ret: "failover urlParse p B r canary b fo = Some ps'" and r: "\<not> isIdempotent r"
  shows "replays_refused (ps_net (fo_ps fo)) (ps_net ps')"
proof -
  have "\<not> isIdempotent r \<longrightarrow> replays_refused (ps_net (fo_ps fo)) (ps_net ps')"
  proof (rule failover.raw_induct[where P = "\<lambda>urlParse p B r canary b fo ps'. \<not> isIdempotent r \<longrightarrow>
      replays_refused (ps_net (fo_ps fo)) (ps_net ps')", OF _ ret])
    fix rec urlParse p B r canary b fo ps'
    assume IH: "\<And>urlParse p B r canary b fo ps'. rec urlParse p B r canary b fo = Some ps' \<Longrightarrow>
        \<not> isIdempotent r \<longrightarrow> replays_refused (ps_net (fo_ps fo)) (ps_net ps')"
      and ret: "(case try_backend urlParse p B r canary b fo of Finished fo' \<Rightarrow> Some (fo_ps fo') | GiveUp fo' \<Rightarrow> Some (give_up canary fo')
         | Continue fo' \<Rightarrow> (case reserveAlternate B (fo_tried fo') (fo_ps fo') of
             (None, ps) \<Rightarrow> Some (give_up canary (fo'\<lparr>fo_ps := ps\<rparr>))
           | (Some b', ps) \<Rightarrow> rec urlParse p B r canary b' (fo'\<lparr>fo_ps := ps\<rparr>))) = Some ps'"
    show "\<not> isIdempotent r \<longrightarrow> replays_refused (ps_net (fo_ps fo)) (ps_net ps')"
    proof
      assume r: "\<not> isIdempotent r"
      define res where "res = try_backend urlParse p B r canary b fo"
      note net = try_backend_net[OF r, of urlParse p B canary b fo, folded res_def]
      show "replays_refused (ps_net (fo_ps fo)) (ps_net ps')"
      proof (cases res)
        case (Continue fo1)
        obtain nb ps where alt: "reserveAlternate B (fo_tried fo1) (fo_ps fo1) = (nb, ps)" by fastforce
        have n1: "ps_net ps = ps_net (fo_ps fo1)" using reserveAlternate_net[of B "fo_tried fo1" "fo_ps fo1"] alt by simp
        have "replays_refused (ps_net (fo_ps fo1)) (ps_net ps')"
        proof (cases nb)
          case None
          then show ?thesis using ret n1 by (auto simp: res_def[symmetric] Continue alt give_up_lb replays_none)
        next
          case (Some b')
          then show ?thesis using ret IH[of urlParse p B r canary b' "fo1\<lparr>fo_ps := ps\<rparr>" ps'] r n1
            by (simp add: res_def[symmetric] Continue alt)
        qed
        then show ?thesis using net by (auto simp: Continue intro: replays_step)
      qed (use ret net in \<open>auto simp: res_def[symmetric] give_up_lb replays_none replays_one\<close>)
    qed
  qed
  then show ?thesis using r by blast
qed

text \<open>
  A response that breaks off leaves the circuit uninformed: the panic of the reverse proxy passes the line that
  reports the outcome, so that the trial request of a half-open circuit stays counted as in flight.
\<close>

lemma abort_skips_circuit:
  assumes "available b (fo_ps fo) = (True, ps)" "proxyFor urlParse p b (emit (RecordBackendRequest (be_URL (h_be (ps_lb ps) b)))
      (ps\<lparr>ps_retryReqs := ps_retryReqs ps + 1\<rparr>)) = (None, ps1)"
    and "x_abort (shd' (ps_net ps))" "rc_MaxAttempts (pc_retry p) \<ge> 0"
  shows "\<exists>fo'. try_backend urlParse p B r canary b fo = Finished fo' \<and> ps_panic (fo_ps fo') \<and> ps_cb (fo_ps fo') = ps_cb ps"
proof -
  let ?ps = "ps\<lparr>ps_retryReqs := ps_retryReqs ps + 1\<rparr>"
  have p1: "ps_net ps1 = ps_net ps" "ps_cb ps1 = ps_cb ps"
    using proxyFor_frame(2)[of urlParse p b "emit (RecordBackendRequest (be_URL (h_be (ps_lb ps) b))) ?ps"]
      proxyFor_cb[of urlParse p b "emit (RecordBackendRequest (be_URL (h_be (ps_lb ps) b))) ?ps"]
    unfolding assms(2) by (simp_all add: emit_def)
  have n: "nat ((if isIdempotent r then rc_MaxAttempts (pc_retry p) else 0) + 1) =
      Suc (nat (if isIdempotent r then rc_MaxAttempts (pc_retry p) else 0))"
    using assms(4) by (auto simp: nat_add_distrib)
  have u: "be_URL (h_be (ps_lb ?ps) b) = be_URL (h_be (ps_lb ps) b)" by simp
  have x: "x_abort (shd' (ps_net ps1))" using assms(3) p1(1) by simp
  have d: "snd (doRequest urlParse p B b ?ps) = ps1\<lparr>ps_net := stl' (ps_net ps1), ps_w := snd (rp_serve (shd' (ps_net ps1)) (ps_w ps1)), ps_panic := True\<rparr>"
    unfolding doRequest_def Let_def u assms(2) prod.case option.case case_prod_beta using x by simp
  obtain err c written ra ps2 where d2: "doRequest urlParse p B b ?ps = ((err, c, written, ra), ps2)" by (metis prod.collapse)
  then have ps2: "ps_panic ps2" "ps_cb ps2 = ps_cb ps" using d p1(2) by simp_all
  have "attemptBackend urlParse p B r b ps = ((err, c, written), on_lb (DecrConn b) ps2)"
    unfolding attemptBackend_def Let_def n attempt_loop.simps using ps2(1) d2 by simp
  then show ?thesis using assms(1) ps2 by (simp add: try_backend_def on_lb_def)
qed

text \<open>C5. A request that is not idempotent is replayed on another backend only when every earlier exchange
  ended with a connection error, so at most the last backend has received it.\<close>

theorem no_double_apply:
  assumes "failover urlParse p B r canary b (start_failover ps) = Some ps'" and "\<not> isIdempotent r"
  shows "replays_refused (ps_net ps) (ps_net ps')"
  using failover_replays[OF assms] by (simp add: start_failover_def)

end
