(* ===== verification/Hedge.thy ===== *)
theory Hedge
  imports Failover "HOL-Library.Multiset"
begin

text \<open>
  Hedged requests in \<open>internal/proxy/proxy.go\<close> and the entry point \<open>ServeHTTP\<close>.  A hedged request races
  goroutines; a schedule is the list of what happens next: an attempt finishing, the timer firing, the
  collector receiving a result, the function returning.  An attempt takes effect in one piece when it finishes.
\<close>

section \<open>Attempts\<close>

definition hedgeEnabled :: "proxy \<Rightarrow> bool" where
  "hedgeEnabled p \<longleftrightarrow> rc_HedgeEnabled (pc_retry p) \<and> rc_HedgeMaxExtra (pc_retry p) > 0"

fun hedge_scan :: "int \<Rightarrow> bid \<Rightarrow> bid list \<Rightarrow> bid list \<Rightarrow> pstate \<Rightarrow> bid list \<times> pstate" where
  "hedge_scan n primary [] out ps = (out, ps)"
| "hedge_scan n primary (b # bs) out ps =
     (if int (length out) \<ge> n then (out, ps)
      else if b = primary then hedge_scan n primary bs out ps
      else if full (ps_lb ps) b then hedge_scan n primary bs out ps
      else let (ok, ps1) = allow_circuit b ps in
           if \<not> ok then hedge_scan n primary bs out ps1
           else hedge_scan n primary bs (out @ [b]) (on_lb (IncrConn b) ps1))"

definition reserveHedgeBackends :: "lb_heap balancer \<Rightarrow> bid \<Rightarrow> int \<Rightarrow> pstate \<Rightarrow> bid list \<times> pstate" where
  "reserveHedgeBackends B primary n ps =
     (let (healthy, s) = m_GetHealthy B (ps_lb ps) in hedge_scan n primary healthy [] (ps\<lparr>ps_lb := s\<rparr>))"

text \<open>An attempt writes into a recorder of its own.  A panic of the reverse proxy passes through.\<close>

definition doHedgeAttempt :: "url_parser \<Rightarrow> proxy \<Rightarrow> lb_heap balancer \<Rightarrow> bid \<Rightarrow> pstate \<Rightarrow>
    (uerr option \<times> string \<times> writer) \<times> pstate" where
  "doHedgeAttempt urlParse p B b ps =
     (let url = be_URL (h_be (ps_lb ps) b); (perr, ps1) = proxyFor urlParse p b (emit (RecordBackendRequest url) ps) in
      case perr of
        Some e \<Rightarrow> ((Some e, ''connect'', new_writer), ps1)
      | None \<Rightarrow>
          let x = shd' (ps_net ps1); (cw, rec) = rp_serve x new_writer; ps1' = ps1\<lparr>ps_net := stl' (ps_net ps1)\<rparr>;
              ps2 = emit (RecordBackendLatency url (x_elapsed x)) ps1'
          in if x_abort x then ((x_err x, [], rec), ps1'\<lparr>ps_panic := True\<rparr>)
             else case x_err x of
               Some e \<Rightarrow> ((Some e, classifyError (x_ctxDeadline x) e, rec), ps2)
             | None \<Rightarrow>
                 let class' = response_class (cw_statusCode cw)
                 in ((None, class', rec), if class' = ''ok'' then observeLatency B b (x_elapsed x) ps2 else ps2))"

definition copyRecorded :: "writer \<Rightarrow> writer \<Rightarrow> writer" where
  "copyRecorded rec w =
     (let code = (case w_sent rec of Some (c, _) \<Rightarrow> c | None \<Rightarrow> 200)
      in Write (w_body rec) (WriteHeader code (copy_header (w_Header rec) w)))"

section \<open>The race\<close>

text \<open>The goroutines do not recover: a panic in one of them ends the process.\<close>

datatype hedge_phase = Collecting | Draining | Returned | Crashed

record hedge =
  hg_ps :: pstate
  hg_flight :: "bid list"
  hg_results :: "(bid \<times> uerr option \<times> writer) list"
  hg_pending :: nat
  hg_extrasLaunched :: bool
  hg_winner :: "(bid \<times> writer) option"
  hg_phase :: hedge_phase

text \<open>The goroutine of one attempt, up to its send on the channel.\<close>

definition finish_attempt :: "url_parser \<Rightarrow> proxy \<Rightarrow> lb_heap balancer \<Rightarrow> bid \<Rightarrow> hedge \<Rightarrow> hedge" where
  "finish_attempt urlParse p B b h =
     (let ((err, class', rec), ps1) = doHedgeAttempt urlParse p B b (hg_ps h);
          ps2 = recordCircuit p b class' (observeOutcome B b (err = None) ps1)
      in if ps_panic ps1 then h\<lparr>hg_ps := ps1, hg_phase := Crashed\<rparr>
         else h\<lparr>hg_ps := on_lb (DecrConn b) ps2, hg_flight := remove1 b (hg_flight h),
           hg_results := hg_results h @ [(b, err, rec)]\<rparr>)"

definition launchExtras :: "bid list \<Rightarrow> hedge \<Rightarrow> hedge" where
  "launchExtras extras h =
     (if hg_extrasLaunched h then h
      else h\<lparr>hg_extrasLaunched := True, hg_flight := hg_flight h @ extras, hg_pending := hg_pending h + length extras,
             hg_ps := (hg_ps h)\<lparr>ps_hedged := ps_hedged (hg_ps h) + length extras\<rparr>\<rparr>)"

definition receive_result :: "bid list \<Rightarrow> bid \<times> uerr option \<times> writer \<Rightarrow> hedge \<Rightarrow> hedge" where
  "receive_result extras hr h =
     (let (b, err, rec) = hr; wins = (hg_winner h = None \<and> err = None); h1 = h\<lparr>hg_pending := hg_pending h - 1\<rparr> in
      if hg_phase h = Draining \<or> hg_extrasLaunched h then (if wins then h1\<lparr>hg_winner := Some (b, rec)\<rparr> else h1)
      else if wins then h1\<lparr>hg_winner := Some (b, rec), hg_phase := Draining\<rparr>
      else launchExtras extras h1)"

definition hedge_return :: "bid \<Rightarrow> bid list \<Rightarrow> hedge \<Rightarrow> hedge" where
  "hedge_return primary extras h =
     (let ps1 = (if hg_extrasLaunched h then hg_ps h else on_lb (fold DecrConn extras) (hg_ps h)) in
      case hg_winner h of
        Some (b, rec) \<Rightarrow>
          h\<lparr>hg_phase := Returned, hg_ps := on_w (copyRecorded rec)
             (if b \<noteq> primary then ps1\<lparr>ps_hedgeWins := ps_hedgeWins ps1 + 1\<rparr> else ps1)\<rparr>
      | None \<Rightarrow> h\<lparr>hg_phase := Returned, hg_ps := on_w (http_Error ''Bad Gateway'' 502) (emit IncrError ps1)\<rparr>)"

datatype hedge_event = FinishEv bid | TimerEv | ReceiveEv | ReturnEv

text \<open>\<open>None\<close> marks an event that cannot happen in the state.\<close>

fun hedge_step :: "url_parser \<Rightarrow> proxy \<Rightarrow> lb_heap balancer \<Rightarrow> bid \<Rightarrow> bid list \<Rightarrow> hedge_event \<Rightarrow> hedge \<Rightarrow> hedge option" where
  "hedge_step urlParse p B primary extras (FinishEv b) h =
     (if b \<in> set (hg_flight h) \<and> hg_phase h \<noteq> Crashed then Some (finish_attempt urlParse p B b h) else None)"
| "hedge_step urlParse p B primary extras TimerEv h =
     (if hg_phase h = Collecting \<and> hg_pending h > 0 \<and> \<not> hg_extrasLaunched h then Some (launchExtras extras h) else None)"
| "hedge_step urlParse p B primary extras ReceiveEv h =
     (if hg_phase h \<in> {Returned, Crashed} \<or> hg_pending h = 0 then None
      else case hg_results h of
             [] \<Rightarrow> None
           | hr # rest \<Rightarrow> Some (receive_result extras hr (h\<lparr>hg_results := rest\<rparr>)))"
| "hedge_step urlParse p B primary extras ReturnEv h =
     (if hg_phase h \<notin> {Returned, Crashed} \<and> hg_pending h = 0 then Some (hedge_return primary extras h) else None)"

fun hedge_run :: "url_parser \<Rightarrow> proxy \<Rightarrow> lb_heap balancer \<Rightarrow> bid \<Rightarrow> bid list \<Rightarrow> hedge_event list \<Rightarrow> hedge \<Rightarrow> hedge option" where
  "hedge_run urlParse p B primary extras [] h = Some h"
| "hedge_run urlParse p B primary extras (e # es) h =
     (case hedge_step urlParse p B primary extras e h of
        None \<Rightarrow> None
      | Some h' \<Rightarrow> hedge_run urlParse p B primary extras es h')"

text \<open>Before the race: \<open>None\<close> is the return value false, with the primary still reserved.\<close>

definition hedge_begin :: "proxy \<Rightarrow> lb_heap balancer \<Rightarrow> bid \<Rightarrow> pstate \<Rightarrow> (bid list \<times> hedge) option \<times> pstate" where
  "hedge_begin p B primary ps =
     (let (ok, ps1) = available primary ps in
      if \<not> ok then (None, ps1)
      else let (extras, ps2) = reserveHedgeBackends B primary (rc_HedgeMaxExtra (pc_retry p)) ps1 in
           if extras = [] then (None, ps2)
           else (Some (extras, \<lparr>hg_ps = ps2, hg_flight = [primary], hg_results = [], hg_pending = 1,
                    hg_extrasLaunched = False, hg_winner = None, hg_phase = Collecting\<rparr>), ps2))"

section \<open>The whole request\<close>

text \<open>\<open>evs\<close> is the schedule of the race, when there is one; \<open>None\<close> is a schedule that does not run to the end, or
  ends with the process.\<close>

definition proxyRequest :: "url_parser \<Rightarrow> proxy \<Rightarrow> lb_heap balancer \<Rightarrow> request \<Rightarrow> bool \<Rightarrow> hedge_event list \<Rightarrow> bid \<Rightarrow> pstate \<Rightarrow>
    pstate option" where
  "proxyRequest urlParse p B r canary evs primary ps =
     (if hedgeEnabled p \<and> isIdempotent r then
        (case hedge_begin p B primary ps of
           (Some (extras, h), _) \<Rightarrow>
             (case hedge_run urlParse p B primary extras evs h of
                Some h' \<Rightarrow> if hg_phase h' = Returned then Some (hg_ps h') else None
              | None \<Rightarrow> None)
         | (None, ps1) \<Rightarrow> failover urlParse p B r canary primary (start_failover ps1))
      else failover urlParse p B r canary primary (start_failover ps))"

definition ServeHTTP :: "url_parser \<Rightarrow> proxy \<Rightarrow> request \<Rightarrow> hedge_event list \<Rightarrow> pstate \<Rightarrow> pstate option" where
  "ServeHTTP urlParse p r evs ps =
     (let ((B, canary), ps1) = pin_balancer p r ps; (res, s) = selectBackend p B r (ps_lb ps1); ps2 = ps1\<lparr>ps_lb := s\<rparr> in
      case res of
        Inl e \<Rightarrow> Some (on_w (http_Error ''No available backends'' 503) (emit IncrError ps2))
      | Inr b \<Rightarrow> proxyRequest urlParse p B r canary evs b
                   (if st_Enabled (pc_sticky p) then on_w (setStickyCookie p s b) ps2 else ps2))"

section \<open>Upgraded connections\<close>

text \<open>The byte count of \<open>wsConn\<close> after a read of \<open>n\<close> bytes, and whether the read closes the connection.\<close>

definition ws_Read :: "int \<Rightarrow> nat \<Rightarrow> int \<Rightarrow> bool \<times> int" where
  "ws_Read maxBytes n rd = (if n > 0 \<and> maxBytes > 0 then (let rd' = rd + int n in (rd' > maxBytes, rd')) else (False, rd))"

section \<open>Every reservation is given back\<close>

text \<open>The reservations a race still holds: those of the attempts in flight, and those of the extras that are
  reserved and not launched.\<close>

definition owed :: "bid list \<Rightarrow> hedge \<Rightarrow> bid list" where
  "owed extras h = hg_flight h @ (if hg_extrasLaunched h \<or> hg_phase h = Returned then [] else extras)"

text \<open>\<open>holds I s0 bs s\<close>: the heap is \<open>s0\<close> up to one more connection per element of \<open>bs\<close>.\<close>

definition holds :: "(lb_heap \<Rightarrow> bool) \<Rightarrow> lb_heap \<Rightarrow> bid list \<Rightarrow> lb_heap \<Rightarrow> bool" where
  "holds I s0 bs s \<longleftrightarrow> (I s0 \<longrightarrow> I s) \<and> members s = members s0 \<and> (\<forall>b. conns s b = conns s0 b + of_nat (count (mset bs) b))"

definition hedge_inv :: "(lb_heap \<Rightarrow> bool) \<Rightarrow> lb_heap \<Rightarrow> bid list \<Rightarrow> hedge \<Rightarrow> bool" where
  "hedge_inv I s0 extras h \<longleftrightarrow> holds I s0 (owed extras h) (ps_lb (hg_ps h)) \<and>
     hg_pending h = length (hg_flight h) + length (hg_results h) \<and> (hg_phase h = Returned \<longrightarrow> hg_pending h = 0)"

lemma holds_kept: "holds I s0 bs s \<Longrightarrow> kept I s t \<Longrightarrow> holds I s0 bs t"
  by (simp add: holds_def kept_def)

lemma holds_mset: "holds I s0 bs s \<Longrightarrow> mset bs = mset cs \<Longrightarrow> holds I s0 cs s"
  by (simp add: holds_def)

lemma doHedgeAttempt_heap:
  obtains ps2 d where "ps_lb ps2 = ps_lb ps"
    "ps_lb (snd (doHedgeAttempt urlParse p B b ps)) \<in> {ps_lb ps2, ps_lb (observeLatency B b d ps2)}"
proof -
  let ?url = "be_URL (h_be (ps_lb ps) b)"
  define ps1 where "ps1 = snd (proxyFor urlParse p b (emit (RecordBackendRequest ?url) ps))"
  define x where "x = shd' (ps_net ps1)"
  define ps2 where "ps2 = emit (RecordBackendLatency ?url (x_elapsed x)) (ps1\<lparr>ps_net := stl' (ps_net ps1)\<rparr>)"
  define ps3 where "ps3 = ps1\<lparr>ps_net := stl' (ps_net ps1), ps_panic := True\<rparr>"
  have lb: "ps_lb ps1 = ps_lb ps" "ps_lb ps2 = ps_lb ps" "ps_lb ps3 = ps_lb ps" by (simp_all add: ps1_def ps2_def ps3_def)
  have "snd (doHedgeAttempt urlParse p B b ps) \<in> {ps1, ps2, ps3, observeLatency B b (x_elapsed x) ps2}"
    unfolding doHedgeAttempt_def Let_def case_prod_beta ps1_def[symmetric] x_def[symmetric] ps2_def[symmetric] ps3_def
    by (simp split: option.split)
  then have "ps_lb (snd (doHedgeAttempt urlParse p B b ps)) \<in> {ps_lb ps2, ps_lb (observeLatency B b (x_elapsed x) ps2)}"
    using lb by auto
  with lb(2) show ?thesis by (rule that)
qed

lemma finish_attempt_crash:
  "ps_panic (snd (doHedgeAttempt urlParse p B b (hg_ps h))) \<Longrightarrow>
   finish_attempt urlParse p B b h = h\<lparr>hg_ps := snd (doHedgeAttempt urlParse p B b (hg_ps h)), hg_phase := Crashed\<rparr>"
  by (simp add: finish_attempt_def Let_def case_prod_beta)

lemma finish_attempt_frame:
  "\<not> ps_panic (snd (doHedgeAttempt urlParse p B b (hg_ps h))) \<Longrightarrow>
   hg_flight (finish_attempt urlParse p B b h) = remove1 b (hg_flight h) \<and>
   length (hg_results (finish_attempt urlParse p B b h)) = Suc (length (hg_results h)) \<and>
   hg_pending (finish_attempt urlParse p B b h) = hg_pending h \<and> hg_phase (finish_attempt urlParse p B b h) = hg_phase h \<and>
   hg_extrasLaunched (finish_attempt urlParse p B b h) = hg_extrasLaunched h"
  by (simp add: finish_attempt_def Let_def case_prod_beta)

lemma pin_balancer_lb: "pin_balancer p r ps = (Bc, ps1) \<Longrightarrow> ps_lb ps1 = ps_lb ps"
  by (auto simp: pin_balancer_def rollCanary_def Let_def split: option.splits if_splits)

lemma allow_circuit_lb [simp]: "ps_lb (snd (allow_circuit b ps)) = ps_lb ps"
  by (simp add: allow_circuit_def case_prod_beta Let_def split: option.split)

context observed_balancer
begin

lemma holds_DecrConn:
  assumes "holds hinv s0 bs s" "b \<in> set bs" shows "holds hinv s0 (remove1 b bs) (DecrConn b s)"
proof -
  have "0 < count (mset bs) b" using assms(2) by simp
  then have "of_nat (count (mset bs) b) - 1 = (of_nat (count (mset bs) b - 1) :: int32)"
    by (cases "count (mset bs) b") auto
  then show ?thesis using assms by (auto simp: holds_def inv_DecrConn frame_simps algebra_simps)
qed

lemma holds_IncrConn: "holds hinv s0 bs s \<Longrightarrow> holds hinv s0 (bs @ [b]) (IncrConn b s)"
  by (auto simp: holds_def inv_IncrConn frame_simps algebra_simps)

lemma holds_fold_DecrConn: "holds hinv s0 (xs @ bs) s \<Longrightarrow> holds hinv s0 bs (fold DecrConn xs s)"
proof (induction xs arbitrary: s)
  case (Cons x xs)
  then show ?case using holds_DecrConn[OF Cons.prems, of x] by simp
qed simp

lemma hedge_scan_holds:
  "holds hinv s0 (bs0 @ out) (ps_lb ps) \<Longrightarrow>
   holds hinv s0 (bs0 @ fst (hedge_scan n primary bs out ps)) (ps_lb (snd (hedge_scan n primary bs out ps)))"
proof (induction bs arbitrary: out ps)
  case (Cons b bs)
  obtain ok ps1 where a: "allow_circuit b ps = (ok, ps1)" by fastforce
  have "ps_lb ps1 = ps_lb ps" using allow_circuit_lb[of b ps] a by simp
  then show ?case using Cons.IH[of out ps] Cons.IH[of out ps1] Cons.IH[of "out @ [b]" "on_lb (IncrConn b) ps1"]
      Cons.prems holds_IncrConn[OF Cons.prems, of b] by (simp add: a)
qed simp

lemma doHedgeAttempt_keeps: "kept hinv (ps_lb ps) (ps_lb (snd (doHedgeAttempt urlParse p B b ps)))"
proof -
  obtain ps2 e where "ps_lb ps2 = ps_lb ps"
    "ps_lb (snd (doHedgeAttempt urlParse p B b ps)) \<in> {ps_lb ps2, ps_lb (observeLatency B b e ps2)}"
    by (rule doHedgeAttempt_heap)
  then show ?thesis using observeLatency_keeps[of ps2 b e] by auto
qed

lemma finish_attempt_holds:
  assumes "holds hinv s0 bs (ps_lb (hg_ps h))" "b \<in> set bs" "\<not> ps_panic (snd (doHedgeAttempt urlParse p B b (hg_ps h)))"
  shows "holds hinv s0 (remove1 b bs) (ps_lb (hg_ps (finish_attempt urlParse p B b h)))"
proof -
  obtain err c rec ps1 where d: "doHedgeAttempt urlParse p B b (hg_ps h) = ((err, c, rec), ps1)" by (metis prod.collapse)
  have "kept hinv (ps_lb (hg_ps h)) (ps_lb ps1)" using doHedgeAttempt_keeps[of "hg_ps h" urlParse p b] d by simp
  then have "kept hinv (ps_lb (hg_ps h)) (ps_lb (recordCircuit p b c (observeOutcome B b (err = None) ps1)))"
    by (rule kept_trans[OF kept_trans[OF _ observeOutcome_keeps] recordCircuit_keeps])
  then show ?thesis
    using holds_DecrConn[OF holds_kept[OF assms(1)] assms(2)] assms(3) by (simp add: finish_attempt_def d)
qed

lemma launchExtras_inv:
  assumes "holds hinv s0 (owed extras h) (ps_lb (hg_ps h))" "hg_phase h \<noteq> Returned"
  shows "holds hinv s0 (owed extras (launchExtras extras h)) (ps_lb (hg_ps (launchExtras extras h)))"
  using assms by (cases "hg_extrasLaunched h") (simp_all add: launchExtras_def owed_def)

lemma hedge_step_inv:
  assumes "hedge_inv hinv s0 extras h" "hedge_step urlParse p B primary extras e h = Some h'"
  shows "hedge_inv hinv s0 extras h'"
proof (cases e)
  case (FinishEv b)
  then have b: "b \<in> set (hg_flight h)" "hg_phase h \<noteq> Crashed" and h': "h' = finish_attempt urlParse p B b h"
    using assms(2) by (auto split: if_splits)
  have l: "0 < length (hg_flight h)" using b by (cases "hg_flight h") auto
  show ?thesis
  proof (cases "ps_panic (snd (doHedgeAttempt urlParse p B b (hg_ps h)))")
    case True
    have "holds hinv s0 (owed extras h) (ps_lb (snd (doHedgeAttempt urlParse p B b (hg_ps h))))"
      using holds_kept[OF _ doHedgeAttempt_keeps] assms(1) by (simp add: hedge_inv_def)
    moreover have "hg_phase h \<noteq> Returned" using assms(1) l by (auto simp: hedge_inv_def)
    ultimately show ?thesis using assms(1) by (simp add: h' finish_attempt_crash[OF True] hedge_inv_def owed_def)
  next
    case False
    have "holds hinv s0 (remove1 b (owed extras h)) (ps_lb (hg_ps h'))"
      unfolding h' using assms(1) b False by (intro finish_attempt_holds) (simp_all add: hedge_inv_def owed_def)
    then show ?thesis using assms(1) b(1) l finish_attempt_frame[OF False]
      by (auto simp: hedge_inv_def h' owed_def remove1_append length_remove1)
  qed
next
  case TimerEv
  then show ?thesis using assms launchExtras_inv[of s0 extras h]
    by (auto simp: hedge_inv_def launchExtras_def split: if_splits)
next
  case ReceiveEv
  then obtain b err rec rest where r: "hg_results h = (b, err, rec) # rest" "hg_phase h \<noteq> Returned"
      and h': "h' = receive_result extras (b, err, rec) (h\<lparr>hg_results := rest\<rparr>)"
    using assms(2) by (auto split: if_splits list.splits)
  then show ?thesis using assms(1)
    by (auto simp: hedge_inv_def h' receive_result_def Let_def launchExtras_def owed_def split: if_splits)
next
  case ReturnEv
  then have "hg_phase h \<noteq> Returned" "hg_pending h = 0" and h': "h' = hedge_return primary extras h"
    using assms(2) by (auto split: if_splits)
  moreover have "hg_flight h = []" "hg_results h = []" using assms(1) calculation(2) by (auto simp: hedge_inv_def)
  ultimately show ?thesis using assms(1) holds_fold_DecrConn[of s0 extras "[]" "ps_lb (hg_ps h)"]
    by (auto simp: hedge_inv_def owed_def hedge_return_def Let_def split: option.split)
qed

lemma hedge_run_inv:
  "hedge_inv hinv s0 extras h \<Longrightarrow> hedge_run urlParse p B primary extras es h = Some h' \<Longrightarrow> hedge_inv hinv s0 extras h'"
  by (induction es arbitrary: h) (auto split: option.splits dest: hedge_step_inv)

lemma GetHealthy_kept: "kept hinv s (snd (m_GetHealthy B s))"
  by (simp add: kept_def GetHealthy_wf GetHealthy_members GetHealthy_conns)

lemma reserveHedge_holds:
  assumes "holds hinv s0 bs (ps_lb ps)" "reserveHedgeBackends B primary n ps = (extras, ps')"
  shows "holds hinv s0 (bs @ extras) (ps_lb ps')"
proof -
  obtain hs s where g: "m_GetHealthy B (ps_lb ps) = (hs, s)" by fastforce
  have "holds hinv s0 (bs @ []) (ps_lb (ps\<lparr>ps_lb := s\<rparr>))"
    using holds_kept[OF assms(1) GetHealthy_kept] g by simp
  from hedge_scan_holds[OF this, of n primary hs] show ?thesis
    using assms(2) by (simp add: reserveHedgeBackends_def g)
qed

lemma hedge_begin_holds:
  assumes "hinv (ps_lb ps)" "hedge_begin p B primary ps = (res, ps')"
  shows "case res of Some (extras, h) \<Rightarrow> hedge_inv hinv (DecrConn primary (ps_lb ps)) extras h
    | None \<Rightarrow> hinv (ps_lb ps') \<and> members (ps_lb ps') = members (ps_lb ps) \<and> conns (ps_lb ps') = conns (ps_lb ps)"
proof -
  let ?s0 = "DecrConn primary (ps_lb ps)"
  obtain ok ps1 where av: "available primary ps = (ok, ps1)" by fastforce
  have lb: "ps_lb ps1 = ps_lb ps" using available_frame(1)[of primary ps] av by simp
  obtain extras ps2 where rs: "reserveHedgeBackends B primary (rc_HedgeMaxExtra (pc_retry p)) ps1 = (extras, ps2)" by fastforce
  have "holds hinv ?s0 [primary] (ps_lb ps1)"
    using assms(1) by (auto simp: holds_def lb frame_simps)
  from reserveHedge_holds[OF this rs] have h: "holds hinv ?s0 (primary # extras) (ps_lb ps2)" by simp
  show ?thesis
  proof (cases "ok \<and> extras \<noteq> []")
    case True
    then show ?thesis using assms(2) h by (auto simp: hedge_begin_def av rs hedge_inv_def owed_def)
  next
    case False
    have "extras = [] \<Longrightarrow> hinv (ps_lb ps2) \<and> members (ps_lb ps2) = members (ps_lb ps) \<and> conns (ps_lb ps2) = conns (ps_lb ps)"
      using h assms(1) by (auto simp: holds_def inv_DecrConn frame_simps fun_eq_iff)
    then show ?thesis using False assms lb by (auto simp: hedge_begin_def av rs split: if_splits)
  qed
qed

lemma released_holds: "hinv s \<Longrightarrow> holds hinv (DecrConn b s) [] t \<Longrightarrow> released hinv b s t"
  by (auto simp: holds_def released_def inv_DecrConn frame_simps fun_eq_iff)

lemma failover_releases:
  assumes "failover urlParse p B r canary b (start_failover ps) = Some ps'" "hinv (ps_lb ps)"
  shows "released hinv b (ps_lb ps) (ps_lb ps')"
  using failover_returns[of "start_failover ps" urlParse p r canary b] assms by (auto simp: start_failover_def)

lemma proxyRequest_releases:
  assumes "proxyRequest urlParse p B r canary evs b ps = Some ps'" "hinv (ps_lb ps)"
  shows "released hinv b (ps_lb ps) (ps_lb ps')"
proof (cases "hedgeEnabled p \<and> isIdempotent r")
  case True
  obtain res ps1 where hb: "hedge_begin p B b ps = (res, ps1)" by fastforce
  note beg = hedge_begin_holds[OF assms(2) hb]
  show ?thesis
  proof (cases res)
    case None
    then have "failover urlParse p B r canary b (start_failover ps1) = Some ps'"
      using assms(1) True hb by (simp add: proxyRequest_def)
    then show ?thesis using failover_releases[of urlParse p r canary b ps1 ps'] beg None by (simp add: released_def)
  next
    case (Some eh)
    then obtain extras h where eh: "res = Some (extras, h)" by (cases eh) auto
    then obtain h' where run: "hedge_run urlParse p B b extras evs h = Some h'" "hg_phase h' = Returned" "ps' = hg_ps h'"
      using assms(1) True hb by (auto simp: proxyRequest_def split: option.splits if_splits)
    have "hedge_inv hinv (DecrConn b (ps_lb ps)) extras h'" using hedge_run_inv[OF _ run(1)] beg eh by simp
    then show ?thesis using run(2,3) assms(2) by (auto simp: hedge_inv_def owed_def intro: released_holds)
  qed
next
  case False
  then have "failover urlParse p B r canary b (start_failover ps) = Some ps'"
    using assms(1) unfolding proxyRequest_def by (simp only: if_False)
  then show ?thesis using assms(2) by (rule failover_releases)
qed

lemma selectBackend_picks:
  assumes "hinv s" shows "picks_ok hinv s (set (m_All B s)) (selectBackend p B r s)"
proof -
  have kn: "picks_ok hinv t (set (m_All B t)) (keyed_next B key t)" if "hinv t" for t key
    using Next_ok[OF that] NextForKey_ok[OF _ that] by (auto simp: keyed_next_def split: option.split)
  show ?thesis
  proof (cases "st_Enabled (pc_sticky p) \<and> stickyToken p r \<noteq> []")
    case True
    obtain hs s1 where g: "m_GetHealthy B s = (hs, s1)" by fastforce
    have s1: "hinv s1" "members s1 = members s" "conns s1 = conns s" "IsHealthy s1 = IsHealthy s" "m_All B s1 = m_All B s"
      using GetHealthy_wf[OF assms] GetHealthy_members[of s] GetHealthy_conns[of s] GetHealthy_health[of s] GetHealthy_All[of s] g
      by simp_all
    have hs: "hs = filter (IsHealthy s) (m_All B s)" using GetHealthy_fst[OF assms] g by simp
    show ?thesis
    proof (cases "find (\<lambda>b. backendToken s1 b = stickyToken p r) hs")
      case None
      then show ?thesis using True picks_ok_from[OF kn[OF s1(1), of "stickyToken p r"] s1(3,2)]
        by (simp add: selectBackend_def backendForToken_def g Let_def s1(5))
    next
      case (Some b)
      then have "b \<in> set hs" using find_SomeD[OF Some] by simp
      then show ?thesis using True Some s1 hs
        by (simp add: selectBackend_def backendForToken_def g Let_def picks_ok_def inv_IncrConn frame_simps)
    qed
  next
    case False
    then show ?thesis using kn[OF assms] by (auto simp: selectBackend_def Let_def)
  qed
qed

lemma ServeHTTP_conns:
  assumes "ServeHTTP urlParse p r evs ps = Some ps'" "fst (fst (pin_balancer p r ps)) = B" "hinv (ps_lb ps)"
  shows "conns (ps_lb ps') = conns (ps_lb ps) \<and> members (ps_lb ps') = members (ps_lb ps) \<and> hinv (ps_lb ps')"
proof -
  obtain canary ps1 where pin: "pin_balancer p r ps = ((B, canary), ps1)" using assms(2) by (metis prod.collapse)
  note lb = pin_balancer_lb[OF pin]
  obtain res s where sel: "selectBackend p B r (ps_lb ps1) = (res, s)" by fastforce
  have picks: "picks_ok hinv (ps_lb ps) (set (m_All B (ps_lb ps))) (res, s)"
    using selectBackend_picks[of "ps_lb ps1" p r] assms(3) lb sel by simp
  show ?thesis
  proof (cases res)
    case (Inl e)
    then show ?thesis using assms(1) picks by (auto simp: ServeHTTP_def pin sel picks_ok_def)
  next
    case (Inr b)
    define ps2 where "ps2 = (if st_Enabled (pc_sticky p) then on_w (setStickyCookie p s b) (ps1\<lparr>ps_lb := s\<rparr>) else ps1\<lparr>ps_lb := s\<rparr>)"
    have lb2: "ps_lb ps2 = s" by (simp add: ps2_def)
    have "proxyRequest urlParse p B r canary evs b ps2 = Some ps'"
      using assms(1) Inr by (simp add: ServeHTTP_def pin sel Let_def ps2_def)
    from proxyRequest_releases[OF this] show ?thesis
      using picks Inr lb2 by (auto simp: picks_ok_def released_def)
  qed
qed

lemma ServeHTTP_returns:
  assumes "fst (fst (pin_balancer p r ps)) = B" "hinv (ps_lb ps)" "\<not> (hedgeEnabled p \<and> isIdempotent r)"
  obtains ps' where "ServeHTTP urlParse p r evs ps = Some ps'"
proof -
  obtain canary ps1 where pin: "pin_balancer p r ps = ((B, canary), ps1)" using assms(1) by (metis prod.collapse)
  obtain res s where sel: "selectBackend p B r (ps_lb ps1) = (res, s)" by fastforce
  have "hinv s" using selectBackend_picks[of "ps_lb ps1" p r] assms(2) sel pin
    by (auto simp: pin_balancer_lb[OF pin] picks_ok_def)
  then have "\<exists>ps'. failover urlParse p B r canary b (start_failover ps2) = Some ps'" if "ps_lb ps2 = s" for b ps2
    using failover_returns[of "start_failover ps2" urlParse p r canary b] that by (auto simp: start_failover_def)
  then have "\<exists>ps'. proxyRequest urlParse p B r canary evs b ps2 = Some ps'" if "ps_lb ps2 = s" for b ps2
    using assms(3) that unfolding proxyRequest_def by (simp only: if_False)
  then have "\<exists>ps'. ServeHTTP urlParse p r evs ps = Some ps'"
    by (simp add: ServeHTTP_def pin sel Let_def split: sum.split)
  then show ?thesis using that by blast
qed

end

text \<open>C3. Serving a request leaks no connection slot: for every balancer the configuration can ask for, with
  or without sticky sessions, canary, hedging and failover, and whatever the backends answer, responses that break off
  with the panic \<open>http.ErrAbortHandler\<close> included, and however
  the hedged attempts are scheduled, when the handler is left, by returning or by that panic, every connection count, the members and
  the invariant of the balancer are what they were before.  Only a panic in a hedged attempt is not such an end:
  it ends the process.\<close>

theorem serve_no_leak:
  assumes "ServeHTTP urlParse p r evs ps = Some ps'"
    and "fst (fst (pin_balancer p r ps)) = fst (setupBalancer mexp a lb backends s0)"
    and "stack_inv a lb (ps_lb ps)"
  shows "conns (ps_lb ps') = conns (ps_lb ps) \<and> members (ps_lb ps') = members (ps_lb ps) \<and> stack_inv a lb (ps_lb ps')"
  by (rule stack.ServeHTTP_conns[OF assms])

section \<open>The race ends\<close>

text \<open>What is left to do in a race; every event makes it smaller.\<close>

definition race_left :: "bid list \<Rightarrow> hedge \<Rightarrow> nat" where
  "race_left extras h = 2 * length (hg_flight h) + length (hg_results h) +
     (if hg_extrasLaunched h then 0 else 2 * length extras + 1) + (if hg_phase h \<in> {Returned, Crashed} then 0 else 1)"

lemma hedge_step_decreases:
  assumes "hedge_inv I s0 extras h" "hedge_step urlParse p B primary extras e h = Some h'"
  shows "race_left extras h' < race_left extras h"
proof (cases e)
  case (FinishEv b)
  then have b: "b \<in> set (hg_flight h)" "hg_phase h \<noteq> Crashed" and h': "h' = finish_attempt urlParse p B b h"
    using assms(2) by (auto split: if_splits)
  obtain n where n: "length (hg_flight h) = Suc n" using b by (cases "hg_flight h") auto
  then have "hg_phase h \<noteq> Returned" using assms(1) by (auto simp: hedge_inv_def)
  then show ?thesis using b n finish_attempt_crash[of urlParse p B b h] finish_attempt_frame[of urlParse p B b h]
    by (cases "ps_panic (snd (doHedgeAttempt urlParse p B b (hg_ps h)))") (auto simp: h' race_left_def length_remove1)
next
  case ReceiveEv
  then show ?thesis using assms(2)
    by (auto simp: receive_result_def race_left_def Let_def launchExtras_def split: if_splits list.splits)
next
  case ReturnEv
  then show ?thesis using assms(2)
    by (auto simp: hedge_return_def race_left_def Let_def split: if_splits option.splits)
next
  case TimerEv
  then show ?thesis using assms(2) by (auto simp: race_left_def launchExtras_def split: if_splits)
qed

lemma hedge_progress:
  assumes "hedge_inv I s0 extras h" "hg_phase h \<notin> {Returned, Crashed}"
  obtains e h' where "hedge_step urlParse p B primary extras e h = Some h'"
proof (cases "hg_pending h = 0")
  case True
  then show ?thesis using that[of ReturnEv] assms(2) by simp
next
  case False
  show ?thesis
  proof (cases "hg_results h")
    case Nil
    then obtain b where "b \<in> set (hg_flight h)" using False assms(1) by (cases "hg_flight h") (auto simp: hedge_inv_def)
    then show ?thesis using that[of "FinishEv b"] assms(2) by simp
  next
    case (Cons hr rest)
    then show ?thesis using that[of ReceiveEv] False assms(2) by simp
  qed
qed

context observed_balancer
begin

text \<open>Every schedule can be completed, unless the process ends, and none is longer than what is left at the start.\<close>

lemma hedge_completes:
  "hedge_inv hinv s0 extras h \<Longrightarrow> \<exists>es h'. hedge_run urlParse p B primary extras es h = Some h' \<and> hg_phase h' \<in> {Returned, Crashed}"
proof (induction "race_left extras h" arbitrary: h rule: less_induct)
  case less
  show ?case
  proof (cases "hg_phase h \<in> {Returned, Crashed}")
    case True
    then show ?thesis by (intro exI[of _ "[]"]) simp
  next
    case False
    obtain e h1 where e: "hedge_step urlParse p B primary extras e h = Some h1"
      by (rule hedge_progress[OF less.prems False])
    obtain es h' where "hedge_run urlParse p B primary extras es h1 = Some h'" "hg_phase h' \<in> {Returned, Crashed}"
      using less.hyps[OF hedge_step_decreases[OF less.prems e] hedge_step_inv[OF less.prems e]] by blast
    then show ?thesis using e by (intro exI[of _ "e # es"]) simp
  qed
qed

lemma hedge_run_bounded:
  "hedge_inv hinv s0 extras h \<Longrightarrow> hedge_run urlParse p B primary extras es h = Some h' \<Longrightarrow> length es \<le> race_left extras h"
proof (induction es arbitrary: h)
  case (Cons e es)
  then obtain h1 where e: "hedge_step urlParse p B primary extras e h = Some h1"
    and r: "hedge_run urlParse p B primary extras es h1 = Some h'" by (auto split: option.splits)
  show ?case using Cons.IH[OF hedge_step_inv[OF Cons.prems(1) e] r] hedge_step_decreases[OF Cons.prems(1) e] by simp
qed simp

end

text \<open>Without an exchange that breaks off there is no panic.\<close>

definition calm :: "pstate \<Rightarrow> bool" where
  "calm ps \<longleftrightarrow> \<not> ps_panic ps \<and> (\<forall>i. \<not> x_abort (ps_net ps i))"

lemma panic_frame [simp]:
  "ps_panic (emit m ps) = ps_panic ps" "ps_panic (on_w g ps) = ps_panic ps" "ps_panic (on_lb f ps) = ps_panic ps"
  "ps_panic (snd (proxyFor urlParse p b ps)) = ps_panic ps" "ps_panic (snd (allow_circuit b ps)) = ps_panic ps"
  "ps_net (snd (allow_circuit b ps)) = ps_net ps" "ps_panic (snd (available b ps)) = ps_panic ps"
  "ps_panic (recordCircuit p b c ps) = ps_panic ps" "ps_panic (observeLatency B b d ps) = ps_panic ps"
  "ps_panic (observeOutcome B b ok ps) = ps_panic ps"
  by (simp_all add: emit_def on_w_def on_lb_def proxyFor_def available_def allow_circuit_def recordCircuit_def observeLatency_def
      observeOutcome_def case_prod_beta Let_def split: option.split sum.split)

lemma calm_doHedgeAttempt:
  assumes "calm ps" shows "calm (snd (doHedgeAttempt urlParse p B b ps))"
proof -
  define ps1 where "ps1 = snd (proxyFor urlParse p b (emit (RecordBackendRequest (be_URL (h_be (ps_lb ps) b))) ps))"
  have c: "calm ps1" using assms by (simp add: ps1_def calm_def)
  then have "\<not> x_abort (shd' (ps_net ps1))" "calm (ps1\<lparr>ps_net := stl' (ps_net ps1)\<rparr>)" by (simp_all add: calm_def shd'_def stl'_def)
  then show ?thesis
    unfolding doHedgeAttempt_def Let_def case_prod_beta ps1_def[symmetric] using c by (simp add: calm_def split: option.split)
qed

lemma calm_hedge_scan: "calm ps \<Longrightarrow> calm (snd (hedge_scan n primary bs out ps))"
proof (induction bs arbitrary: out ps)
  case (Cons b bs)
  obtain ok ps1 where a: "allow_circuit b ps = (ok, ps1)" by fastforce
  have "calm ps1" using panic_frame(5,6)[of b ps] a Cons.prems by (simp add: calm_def)
  moreover have "calm (on_lb (IncrConn b) ps1)" using calculation by (simp add: calm_def)
  ultimately show ?case using Cons by (simp add: a)
qed simp

lemma calm_hedge_begin: "calm ps \<Longrightarrow> hedge_begin p B primary ps = (Some (extras, h), ps1) \<Longrightarrow> calm (hg_ps h) \<and> hg_phase h = Collecting"
  using calm_hedge_scan[of "(snd (available primary ps))\<lparr>ps_lb := snd (m_GetHealthy B (ps_lb (snd (available primary ps))))\<rparr>"
      "rc_HedgeMaxExtra (pc_retry p)" primary "fst (m_GetHealthy B (ps_lb (snd (available primary ps))))" "[]"]
  by (auto simp: hedge_begin_def reserveHedgeBackends_def case_prod_beta Let_def calm_def split: if_splits)

lemma calm_hedge_step:
  assumes "hedge_step urlParse p B primary extras e h = Some h'" "calm (hg_ps h)" "hg_phase h \<noteq> Crashed"
  shows "calm (hg_ps h') \<and> hg_phase h' \<noteq> Crashed"
proof (cases e)
  case (FinishEv b)
  then have h': "h' = finish_attempt urlParse p B b h" using assms(1) by (auto split: if_splits)
  obtain err c rec ps1 where d: "doHedgeAttempt urlParse p B b (hg_ps h) = ((err, c, rec), ps1)" by (metis prod.collapse)
  have "calm ps1" using calm_doHedgeAttempt[OF assms(2), of urlParse p B b] d by simp
  then show ?thesis using assms(3) by (simp add: h' finish_attempt_def d calm_def)
qed (use assms in \<open>auto simp: launchExtras_def receive_result_def hedge_return_def calm_def Let_def split: if_splits list.splits option.splits\<close>)

lemma calm_hedge_run:
  "hedge_run urlParse p B primary extras es h = Some h' \<Longrightarrow> calm (hg_ps h) \<Longrightarrow> hg_phase h \<noteq> Crashed \<Longrightarrow> hg_phase h' \<noteq> Crashed \<and> calm (hg_ps h')"
  by (induction es arbitrary: h) (auto split: option.splits dest: calm_hedge_step)

text \<open>C32. A hedged request comes to an end: whatever has happened so far in its race, the race can go on
  until the function returns or a panic in an attempt ends the process, which takes an exchange whose response broke off,
  and no schedule of it is longer than two events per extra attempt and four more.\<close>

theorem hedge_race_ends:
  assumes "B = fst (setupBalancer mexp a lb backends s0)" and "stack_inv a lb (ps_lb ps)" and "\<not> ps_panic ps"
    and "hedge_begin p B primary ps = (Some (extras, h), ps1)"
    and "hedge_run urlParse p B primary extras es h = Some h'"
  shows "length es \<le> 2 * length extras + 4 \<and>
    (\<exists>es2 h2. hedge_run urlParse p B primary extras es2 h' = Some h2 \<and>
      (hg_phase h2 = Returned \<or> hg_phase h2 = Crashed \<and> (\<exists>i. x_abort (ps_net ps i))))"
proof -
  have inv: "hedge_inv (stack_inv a lb) (DecrConn primary (ps_lb ps)) extras h"
    using stack.hedge_begin_holds[OF assms(2) assms(4)[unfolded assms(1)]] by simp
  have "race_left extras h = 2 * length extras + 4"
    using assms(4) by (auto simp: hedge_begin_def race_left_def Let_def split: prod.splits if_splits)
  then have len: "length es \<le> 2 * length extras + 4"
    using stack.hedge_run_bounded[OF inv assms(5)[unfolded assms(1)]] by simp
  obtain es2 h2 where r: "hedge_run urlParse p B primary extras es2 h' = Some h2" "hg_phase h2 \<in> {Returned, Crashed}"
    using stack.hedge_completes[OF stack.hedge_run_inv[OF inv assms(5)[unfolded assms(1)]]] assms(1) by blast
  have "hg_phase h2 \<noteq> Crashed" if "\<forall>i. \<not> x_abort (ps_net ps i)"
  proof -
    have "calm ps" using that assms(3) by (simp add: calm_def)
    from calm_hedge_begin[OF this assms(4)] show ?thesis using calm_hedge_run[OF assms(5)] calm_hedge_run[OF r(1)] by auto
  qed
  then show ?thesis using len r by blast
qed

text \<open>
  A response that breaks off in a hedged attempt ends the process: the panic is raised in a goroutine of the attempt,
  which nothing recovers.
\<close>

lemma hedge_abort_kills:
  assumes "b \<in> set (hg_flight h)" "hg_phase h \<noteq> Crashed" "x_abort (shd' (ps_net (hg_ps h)))"
    and "fst (proxyFor urlParse p b (emit (RecordBackendRequest (be_URL (h_be (ps_lb (hg_ps h)) b))) (hg_ps h))) = None"
  shows "\<exists>h'. hedge_step urlParse p B primary extras (FinishEv b) h = Some h' \<and> hg_phase h' = Crashed \<and>
    (\<forall>e. hedge_step urlParse p B primary extras e h' = None)"
proof -
  let ?u = "be_URL (h_be (ps_lb (hg_ps h)) b)"
  obtain ps1 where u: "proxyFor urlParse p b (emit (RecordBackendRequest ?u) (hg_ps h)) = (None, ps1)" using assms(4) by (metis prod.collapse)
  have "ps_net ps1 = ps_net (hg_ps h)" using proxyFor_frame(2)[of urlParse p b "emit (RecordBackendRequest ?u) (hg_ps h)"] u by simp
  then have "ps_panic (snd (doHedgeAttempt urlParse p B b (hg_ps h)))"
    using assms(3) by (simp add: doHedgeAttempt_def u case_prod_beta Let_def)
  from finish_attempt_crash[OF this] have c: "hg_phase (finish_attempt urlParse p B b h) = Crashed" by simp
  have "hedge_step urlParse p B primary extras e (finish_attempt urlParse p B b h) = None" for e
    using c by (cases e) simp_all
  then show ?thesis using assms(1,2) c by auto
qed

end
