(* ===== verification/ProxyDemo.thy ===== *)
theory ProxyDemo
  imports Hedge
begin

text \<open>
  A proxy with a configured balancer stack, on which the hypotheses of the theorems about serving hold, and
  a run in which hedging uses up the trial request of a half-open circuit.
\<close>

section \<open>A concrete proxy\<close>

definition demo_retry :: retryConfig where
  "demo_retry = \<lparr>rc_MaxAttempts = 0, rc_Backoff = [], rc_MaxBackoff = 0, rc_Budget = 0, rc_PerTryTimeout = 0, rc_HonorRetryAfter = True,
     rc_RetryOn = [], rc_HedgeEnabled = True, rc_HedgeDelay = 1, rc_HedgeMaxExtra = 1\<rparr>"

definition demo_upstream :: upstreamConfig where
  "demo_upstream = \<lparr>up_DialTimeout = 0, up_TLSHandshakeTimeout = 0, up_ResponseHeaderTimeout = 0, up_ExpectContinueTimeout = 0,
     up_IdleConnTimeout = 0, up_MaxIdleConns = 0, up_MaxIdleConnsPerHost = 0, up_MaxConnsPerHost = 0, up_HTTP2 = False\<rparr>"

definition demo_proxy :: "lb_heap balancer \<Rightarrow> proxy" where
  "demo_proxy B = NewProxy B demo_retry [] demo_upstream"

definition ok_exchange :: exchange where
  "ok_exchange = \<lparr>x_header = [], x_calls = [CallWriteHeader 200], x_err = None, x_ctxDeadline = False, x_retryDate = None,
     x_elapsed = 1, x_abort = False\<rparr>"

definition demo_state :: "lb_heap \<Rightarrow> breaker option \<Rightarrow> pstate" where
  "demo_state s cb = \<lparr>ps_lb = s, ps_cb = cb, ps_w = new_writer, ps_proxies = (\<lambda>_. None), ps_retryReqs = 0, ps_retryCount = 0,
     ps_budgetDenied = 0, ps_rejections = 0, ps_hedged = 0, ps_hedgeWins = 0, ps_rng = (\<lambda>_. 0), ps_net = (\<lambda>_. ok_exchange),
     ps_sleeps = [], ps_log = [], ps_panic = False\<rparr>"

definition get_req :: request where
  "get_req = demo_req []"

definition post_req :: request where
  "post_req = get_req\<lparr>r_Method := ''POST''\<rparr>"

definition plain_urls :: url_parser where
  "plain_urls u = Inr ''http''"

definition demo_B :: "lb_heap balancer" where
  "demo_B = fst (setupBalancer id 0 demo_lb [duo_cfg 0, duo_cfg 1] duo)"

interpretation demo: observed_balancer demo_B "stack_inv 0 demo_lb"
  unfolding demo_B_def by (rule setup_observed)

lemma demo_inv: "stack_inv 0 demo_lb duo"
  by (simp add: stack_inv_def demo_lb_def duo_wf)

lemma demo_pin: "fst (fst (pin_balancer (demo_proxy B) r ps)) = B"
  by (simp add: pin_balancer_def demo_proxy_def NewProxy_def routed_def)

lemma post_not_idempotent: "\<not> isIdempotent post_req"
  by (simp add: isIdempotent_def post_req_def get_req_def demo_req_def hdr_Get_def hdr_Values_def)

theorem failover_terminates_witness:
  "\<exists>ps'. failover plain_urls (demo_proxy demo_B) demo_B get_req False 0 (start_failover (demo_state duo None)) = Some ps' \<and>
    released (stack_inv 0 demo_lb) 0 duo (ps_lb ps')"
  using failover_terminates[OF demo_B_def, of "demo_state duo None"] demo_inv by (simp add: demo_state_def)

theorem no_double_apply_witness:
  "\<exists>ps'. failover plain_urls (demo_proxy demo_B) demo_B post_req False 0 (start_failover (demo_state duo None)) = Some ps' \<and>
    replays_refused (ps_net (demo_state duo None)) (ps_net ps')"
proof -
  obtain ps' where "failover plain_urls (demo_proxy demo_B) demo_B post_req False 0 (start_failover (demo_state duo None)) = Some ps'"
    using demo.failover_returns[of "start_failover (demo_state duo None)" plain_urls "demo_proxy demo_B" post_req False 0] demo_inv
    by (auto simp: start_failover_def demo_state_def)
  then show ?thesis using no_double_apply[OF _ post_not_idempotent] by blast
qed

text \<open>A round robin over the two backends, through which a hedged request is served.\<close>

definition rr_lb :: lb_config where
  "rr_lb = demo_lb\<lparr>lb_Algorithm := ''round_robin'', lb_PreferSameZone := False, lb_SlowStart := 0, lb_OutlierEnabled := False\<rparr>"

definition rr_B :: "lb_heap balancer" where
  "rr_B = fst (setupBalancer id 0 rr_lb [] duo)"

lemma rr_B_eq: "rr_B = RoundRobin 0"
  by (simp add: rr_B_def setupBalancer_fst compose_def rr_lb_def demo_lb_def base_of_def NewByAlgorithm_def backendsUseTiers_def)

interpretation rr: observed_balancer rr_B "stack_inv 0 rr_lb"
  unfolding rr_B_def by (rule setup_observed)

lemma rr_inv: "stack_inv 0 rr_lb s = heap_wf s"
  by (simp add: stack_inv_def rr_lb_def)

lemma rr_select:
  obtains s where "selectBackend (demo_proxy rr_B) rr_B get_req duo = (Inr 0, s)" "h_be s = h_be (IncrConn 0 duo)" "heap_wf s" "BB_All 0 s = [0, 1]"
proof -
  let ?t = "snd (BB_GetHealthy 0 duo)"
  let ?u = "?t\<lparr>h_current := (h_current ?t)(0 := h_current ?t 0 + 1)\<rparr>"
  have h: "healthy_of 0 duo = [0, 1]" by (simp add: healthy_of_def)
  have c: "h_current ?t 0 = 0" by (simp add: BB_GetHealthy_def Let_def)
  have "m_Next rr_B duo = rr_choose 0 [0, 1] ?t"
    using with_healthy_eq[OF duo_wf, of 0 "rr_choose 0"] h by (simp add: rr_B_eq RoundRobin_def base_methods_def)
  then have n: "m_Next rr_B duo = (Inr 0, IncrConn 0 ?u)" by (simp add: rr_choose_def index_mod_def reserve_res_def reserve_def c Let_def)
  have sel: "selectBackend (demo_proxy rr_B) rr_B get_req duo = (Inr 0, IncrConn 0 ?u)"
    using n by (simp add: selectBackend_def demo_proxy_def NewProxy_def keyed_next_def rr_B_eq RoundRobin_def base_methods_def)
  have "picks_ok (stack_inv 0 rr_lb) duo (set (m_All rr_B duo)) (m_Next rr_B duo)" by (rule rr.Next_ok) (simp add: rr_inv duo_wf)
  then have "heap_wf (IncrConn 0 ?u)" "members (IncrConn 0 ?u) = members duo" using n by (simp_all add: picks_ok_def rr_inv)
  moreover have "BB_All 0 (IncrConn 0 ?u) = BB_All 0 duo" using fun_cong[OF calculation(2), of 0] by (simp add: members_def)
  moreover have "h_be (IncrConn 0 ?u) = h_be (IncrConn 0 duo)" by (simp add: IncrConn_def upd_be_def frame_simps)
  ultimately show ?thesis using that[OF sel] by simp
qed

theorem serve_no_leak_witness:
  "\<exists>evs ps'. evs \<noteq> [] \<and> hedgeEnabled (demo_proxy rr_B) \<and> isIdempotent get_req \<and>
     ServeHTTP plain_urls (demo_proxy rr_B) get_req evs (demo_state duo None) = Some ps' \<and> conns (ps_lb ps') = conns duo"
proof -
  let ?p = "demo_proxy rr_B" and ?ps = "demo_state duo None"
  obtain s where s: "selectBackend ?p rr_B get_req duo = (Inr 0, s)" "h_be s = h_be (IncrConn 0 duo)" "heap_wf s" "BB_All 0 s = [0, 1]"
    by (rule rr_select)
  let ?ps2 = "?ps\<lparr>ps_lb := s\<rparr>"
  have e: "hedgeEnabled ?p" "isIdempotent get_req" "pin_balancer ?p get_req ?ps = ((rr_B, False), ?ps)" "ps_lb ?ps = duo"
    "\<not> st_Enabled (pc_sticky ?p)" "rc_HedgeMaxExtra (pc_retry ?p) = 1"
    by (simp_all add: hedgeEnabled_def demo_proxy_def NewProxy_def demo_retry_def isIdempotent_def get_req_def demo_req_def
        pin_balancer_def routed_def demo_state_def)
  have m: "be_MaxConns (h_be s b) = 0" "IsHealthy s b" for b
    by (simp_all add: IsHealthy_def s(2) IncrConn_def upd_be_def duo_def BB_Add_def start_heap_def NewBackend_def duo_cfg_def)
  obtain hs s1 where g: "m_GetHealthy rr_B s = (hs, s1)" by fastforce
  have hs: "hs = [0, 1]" "h_be s1 = h_be s"
    using rr.GetHealthy_fst[of s] rr.GetHealthy_be[of s] s(3,4) m(2) g by (simp_all add: rr_inv) (simp_all add: rr_B_eq RoundRobin_def base_methods_def)
  have mi: "be_MaxConns (h_be s1 b) = 0" for b using m(1) hs(2) by simp
  obtain h ps1 where b: "hedge_begin ?p rr_B 0 ?ps2 = (Some ([1], h), ps1)"
    using m(1) mi by (simp add: hedge_begin_def available_def atCapacity_def allow_circuit_def demo_state_def reserveHedgeBackends_def g hs(1) full_def e(6))
  have i2: "stack_inv 0 rr_lb (ps_lb ?ps2)" using s(3) by (simp add: rr_inv)
  have "calm ?ps2" by (simp add: calm_def demo_state_def ok_exchange_def)
  note c = calm_hedge_begin[OF this b]
  have hi: "hedge_inv (stack_inv 0 rr_lb) (DecrConn 0 (ps_lb ?ps2)) [1] h" using rr.hedge_begin_holds[OF i2 b] by simp
  obtain evs h2 where r: "hedge_run plain_urls ?p rr_B 0 [1] evs h = Some h2" "hg_phase h2 \<in> {Returned, Crashed}"
    using rr.hedge_completes[OF hi, of plain_urls ?p 0] by blast
  have ret: "hg_phase h2 = Returned" using calm_hedge_run[OF r(1)] c r(2) by auto
  have ne: "evs \<noteq> []" using r(1) ret c by auto
  have sv: "ServeHTTP plain_urls ?p get_req evs ?ps = Some (hg_ps h2)"
    using r(1) ret b by (simp add: ServeHTTP_def e s(1) proxyRequest_def)
  have "fst (fst (pin_balancer ?p get_req ?ps)) = fst (setupBalancer id 0 rr_lb [] duo)" unfolding e(3) by (simp add: rr_B_def)
  from serve_no_leak[OF sv this] have "conns (ps_lb (hg_ps h2)) = conns duo" by (simp add: rr_inv e(4) duo_wf)
  then show ?thesis using ne sv e(1,2) by blast
qed

lemma demo_GetHealthy: "fst (m_GetHealthy demo_B duo) = [0, 1]"
  using demo.GetHealthy_fst[OF demo_inv] demo_stack_All[of id "[duo_cfg 0, duo_cfg 1]" duo] by (simp add: demo_B_def)

lemma demo_begin: "\<exists>h ps1. hedge_begin (demo_proxy demo_B) demo_B 0 (demo_state duo None) = (Some ([1], h), ps1)"
proof -
  obtain s1 where g: "m_GetHealthy demo_B duo = ([0, 1], s1)" using demo_GetHealthy by (metis prod.collapse)
  have "h_be s1 = h_be duo" using demo.GetHealthy_be[of duo] g by simp
  then have "be_MaxConns (h_be s1 b) = 0" "be_MaxConns (h_be duo b) = 0" for b
    by (simp_all add: duo_def BB_Add_def start_heap_def NewBackend_def duo_cfg_def)
  then show ?thesis
    by (simp add: hedge_begin_def available_def atCapacity_def allow_circuit_def demo_state_def reserveHedgeBackends_def g full_def
        demo_proxy_def NewProxy_def demo_retry_def)
qed

theorem hedge_race_ends_witness:
  "\<exists>h ps1. hedge_begin (demo_proxy demo_B) demo_B 0 (demo_state duo None) = (Some ([1], h), ps1) \<and>
    (\<exists>es2 h2. hedge_run plain_urls (demo_proxy demo_B) demo_B 0 [1] es2 h = Some h2 \<and> hg_phase h2 = Returned)"
proof -
  have i: "stack_inv 0 demo_lb (ps_lb (demo_state duo None))" using demo_inv by (simp add: demo_state_def)
  obtain h ps1 where b: "hedge_begin (demo_proxy demo_B) demo_B 0 (demo_state duo None) = (Some ([1], h), ps1)"
    using demo_begin by blast
  have "\<not> ps_panic (demo_state duo None)" "\<not> x_abort (ps_net (demo_state duo None) i)" for i
    by (simp_all add: demo_state_def ok_exchange_def)
  then show ?thesis using b hedge_race_ends[OF demo_B_def i _ b, of plain_urls "[]" h] by auto
qed

section \<open>A trial request that is never made\<close>

definition last_trial :: "breaker \<Rightarrow> bid \<Rightarrow> bool" where
  "last_trial c b \<longleftrightarrow> bs_state (stateFor c b) = StateHalfOpen \<and> bs_halfOpenInFlight (stateFor c b) + 1 = maxProbes c"

definition take_trial :: "breaker \<Rightarrow> bid \<Rightarrow> breaker" where
  "take_trial c b = put_state b ((stateFor c b)\<lparr>bs_halfOpenInFlight := bs_halfOpenInFlight (stateFor c b) + 1\<rparr>) c"

lemma Allow_last: "last_trial c b \<Longrightarrow> Allow b c = (None, take_trial c b)"
  by (simp add: Allow_def last_trial_def take_trial_def Let_def)

lemma Allow_locked: "last_trial c b \<Longrightarrow> Allow b (take_trial c b) = (Some ErrProbeLimit, take_trial c b)"
  by (simp add: Allow_def last_trial_def take_trial_def Let_def maxProbes_def) (simp add: put_state_def)

lemma give_up_none:
  "fo_lastErr fo = None \<Longrightarrow> \<not> fo_bulkhead fo \<Longrightarrow> give_up False fo = on_w (http_Error ''No available backends'' 503) (emit IncrError (fo_ps fo))"
  by (simp add: give_up_def Let_def)

context observed_balancer
begin

lemma solo_hedge_begin:
  assumes "hinv (ps_lb ps)" "ps_cb ps = Some c" "last_trial c b" "be_MaxConns (h_be (ps_lb ps) b) = 0"
    and "filter (IsHealthy (ps_lb ps)) (m_All B (ps_lb ps)) = [b]"
  shows "hedge_begin p B b ps = (None, ps\<lparr>ps_cb := Some (take_trial c b), ps_lb := snd (m_GetHealthy B (ps_lb ps))\<rparr>)"
proof -
  obtain s1 where g: "m_GetHealthy B (ps_lb ps) = ([b], s1)" using GetHealthy_fst[OF assms(1)] assms(5) by (metis prod.collapse)
  show ?thesis
    using assms by (simp add: hedge_begin_def available_def atCapacity_def allow_circuit_def Allow_last reserveHedgeBackends_def g)
qed

lemma solo_failover:
  assumes "hinv (ps_lb ps)" "ps_cb ps = Some (take_trial c b)" "last_trial c b" "be_MaxConns (h_be (ps_lb ps) b) = 0"
    and "filter (IsHealthy (ps_lb ps)) (m_All B (ps_lb ps)) = [b]"
  obtains s' where "failover urlParse p B r False b (start_failover ps) =
    Some (on_w (http_Error ''No available backends'' 503) (emit IncrError (ps\<lparr>ps_lb := s'\<rparr>)))"
proof -
  let ?d = "DecrConn b (ps_lb ps)" and ?c = "Some (take_trial c b)"
  have ps: "ps\<lparr>ps_cb := ?c\<rparr> = ps" using assms(2) by simp
  have t: "try_backend urlParse p B r False b (start_failover ps) =
      Continue \<lparr>fo_tried = [b], fo_lastErr = None, fo_bulkhead = False, fo_ps = ps\<lparr>ps_lb := ?d\<rparr>\<rparr>"
    using assms(2,3,4)
    by (simp add: try_backend_def start_failover_def available_def atCapacity_def allow_circuit_def Allow_locked ps on_lb_def)
  have "filter (IsHealthy ?d) (m_All B ?d) = [b]"
    using assms(5) All_members[of ?d "ps_lb ps"] by (simp add: frame_simps fun_eq_iff cong: filter_cong)
  then have h: "fst (m_GetHealthy B ?d) = [b]" using GetHealthy_fst[OF inv_DecrConn[OF assms(1), of b]] by simp
  then have "reserveAlternate B [b] (ps\<lparr>ps_lb := ?d\<rparr>) = (None, ps\<lparr>ps_lb := snd (m_GetHealthy B ?d)\<rparr>)"
    by (simp add: reserveAlternate_def case_prod_beta)
  then show ?thesis
    by (intro that[of "snd (m_GetHealthy B ?d)"]) (simp add: failover.simps[of urlParse p B r False b] t give_up_none)
qed

lemma solo_lockout:
  assumes "hinv (ps_lb ps)" "ps_cb ps = Some c" "last_trial c b" "be_MaxConns (h_be (ps_lb ps) b) = 0"
    and "filter (IsHealthy (ps_lb ps)) (m_All B (ps_lb ps)) = [b]" and "hedgeEnabled p" "isIdempotent r"
  shows "\<exists>s'. proxyRequest urlParse p B r False evs b ps =
    Some (on_w (http_Error ''No available backends'' 503) (emit IncrError (ps\<lparr>ps_cb := Some (take_trial c b), ps_lb := s'\<rparr>)))"
proof -
  let ?s1 = "snd (m_GetHealthy B (ps_lb ps))"
  let ?ps = "ps\<lparr>ps_cb := Some (take_trial c b), ps_lb := ?s1\<rparr>"
  have "filter (IsHealthy ?s1) (m_All B ?s1) = [b]" using assms(5) GetHealthy_health GetHealthy_All by simp
  then obtain s' where "failover urlParse p B r False b (start_failover ?ps) =
      Some (on_w (http_Error ''No available backends'' 503) (emit IncrError (?ps\<lparr>ps_lb := s'\<rparr>)))"
    using solo_failover[of ?ps c b urlParse p r] assms GetHealthy_wf[OF assms(1)] GetHealthy_be[of "ps_lb ps"] by auto
  then show ?thesis using assms(6,7) solo_hedge_begin[OF assms(1-5)] by (auto simp: proxyRequest_def)
qed

end

text \<open>With hedging on and one healthy backend, the last free trial of its half-open circuit is used up
  without a request: the hedged path takes it, finds nothing to hedge with and falls back to the
  sequential path, which asks for another.  The client gets 503, no exchange takes place, and the
  circuit refuses every later request.\<close>

lemma hedge_wastes_trial:
  assumes "B = fst (setupBalancer mexp a lb backends s0)" and "stack_inv a lb (ps_lb ps)"
    and "ps_cb ps = Some c" "last_trial c b" and "be_MaxConns (h_be (ps_lb ps) b) = 0"
    and "filter (IsHealthy (ps_lb ps)) (m_All B (ps_lb ps)) = [b]"
    and "hedgeEnabled p" "isIdempotent r" "w_sent (ps_w ps) = None"
  shows "\<exists>ps' c' hd. proxyRequest urlParse p B r False evs b ps = Some ps' \<and> ps_net ps' = ps_net ps \<and>
    w_sent (ps_w ps') = Some (503, hd) \<and> ps_cb ps' = Some c' \<and> Allow b c' = (Some ErrProbeLimit, c')"
proof -
  obtain s' where p: "proxyRequest urlParse p B r False evs b ps =
      Some (on_w (http_Error ''No available backends'' 503) (emit IncrError (ps\<lparr>ps_cb := Some (take_trial c b), ps_lb := s'\<rparr>)))"
    using stack.solo_lockout[OF assms(2,3,4,5) assms(6)[unfolded assms(1)] assms(7,8)] unfolding assms(1) by blast
  obtain hd where "w_sent (http_Error ''No available backends'' 503 (ps_w ps)) = Some (503, hd)"
    using http_Error_status[OF assms(9)] by fastforce
  then show ?thesis using p Allow_locked[OF assms(4)] by (intro exI) (auto simp: on_w_def emit_def)
qed

definition solo :: lb_heap where
  "solo = SetHealthy 1 False duo"

definition probing :: breaker where
  "probing = put_state 0 (fresh_state\<lparr>bs_state := StateHalfOpen\<rparr>) (NewCircuitBreaker 1 1 0 (\<lambda>_. 1))"

lemma hedge_wastes_trial_witness:
  "\<exists>ps' c'. proxyRequest plain_urls (demo_proxy demo_B) demo_B get_req False [] 0 (demo_state solo (Some probing)) = Some ps' \<and>
    ps_cb ps' = Some c' \<and> Allow 0 c' = (Some ErrProbeLimit, c')"
proof -
  have i: "stack_inv 0 demo_lb (ps_lb (demo_state solo (Some probing)))"
    using SetHealthy_wf[OF duo_wf, of 1 False] by (simp add: demo_state_def stack_inv_def demo_lb_def solo_def)
  have l: "last_trial probing 0"
    by (simp add: last_trial_def probing_def fresh_state_def maxProbes_def NewCircuitBreaker_def NewCircuitBreakerWithConfig_def)
  have "m_All demo_B solo = m_All demo_B duo" by (rule demo.All_members) (simp add: solo_def frame_simps)
  then have f: "filter (IsHealthy (ps_lb (demo_state solo (Some probing)))) (m_All demo_B (ps_lb (demo_state solo (Some probing)))) = [0]"
    using demo_stack_All[of id "[duo_cfg 0, duo_cfg 1]" duo] by (simp add: demo_state_def demo_B_def solo_def frame_simps)
  have m: "be_MaxConns (h_be (ps_lb (demo_state solo (Some probing))) 0) = 0"
    by (simp add: demo_state_def solo_def SetHealthy_def upd_be_def duo_def BB_Add_def start_heap_def NewBackend_def duo_cfg_def Let_def)
  have e: "hedgeEnabled (demo_proxy demo_B)" "isIdempotent get_req" "w_sent (ps_w (demo_state solo (Some probing))) = None"
    by (simp_all add: hedgeEnabled_def demo_proxy_def NewProxy_def demo_retry_def isIdempotent_def get_req_def demo_req_def
        demo_state_def new_writer_def)
  have c: "ps_cb (demo_state solo (Some probing)) = Some probing" by (simp add: demo_state_def)
  show ?thesis using hedge_wastes_trial[OF demo_B_def i c l m f e, of plain_urls "[]"] by blast
qed

end
