(* ===== verification/Secrets.thy ===== *)
theory Secrets
  imports GoStrings
begin

text \<open>
  \<open>internal/secrets/secrets.go\<close>: expansion of environment variables in configuration values.  The
  environment is the lookup of a name; the regular expressions are recognisers of a prefix.
\<close>

definition name_start :: "char \<Rightarrow> bool" where
  "name_start c \<longleftrightarrow> (let n = of_char c :: nat in 65 \<le> n \<and> n \<le> 90 \<or> 97 \<le> n \<and> n \<le> 122 \<or> n = 95)"

definition name_char :: "char \<Rightarrow> bool" where
  "name_char c \<longleftrightarrow> name_start c \<or> (let n = of_char c :: nat in 48 \<le> n \<and> n \<le> 57)"

text \<open>The longest variable name at the front of a string, and what follows it.\<close>

definition take_name :: "string \<Rightarrow> (string \<times> string) option" where
  "take_name s = (case s of
      [] \<Rightarrow> None
    | c # cs \<Rightarrow> if name_start c then Some (c # takeWhile name_char cs, dropWhile name_char cs) else None)"

definition braced_at :: "string \<Rightarrow> (string \<times> string) option" where
  "braced_at s = (case s of
      d # b # rest \<Rightarrow>
        if d = CHR ''$'' \<and> b = CHR 0x7B then
          (case take_name rest of
             Some (name, e # rest') \<Rightarrow> if e = CHR 0x7D then Some (name, rest') else None
           | _ \<Rightarrow> None)
        else None
    | _ \<Rightarrow> None)"

definition unbraced_at :: "string \<Rightarrow> (string \<times> string) option" where
  "unbraced_at s = (case s of d # rest \<Rightarrow> if d = CHR ''$'' then take_name rest else None | [] \<Rightarrow> None)"

lemma take_name_length: "take_name s = Some (n, rest) \<Longrightarrow> length rest < length s"
  by (auto simp: take_name_def length_dropWhile_le less_Suc_eq_le split: list.splits if_splits)

lemma braced_at_length: "braced_at s = Some (n, rest) \<Longrightarrow> length rest < length s"
  by (auto simp: braced_at_def split: list.splits if_splits option.splits dest!: take_name_length)

lemma unbraced_at_length: "unbraced_at s = Some (n, rest) \<Longrightarrow> length rest < length s"
  by (auto simp: unbraced_at_def split: list.splits if_splits dest!: take_name_length)

text \<open>\<open>ReplaceAllStringFunc\<close>: leftmost matches, left to right, each replaced by its value or by itself.\<close>

function replace_braced :: "(string \<Rightarrow> string option) \<Rightarrow> string \<Rightarrow> string" where
  "replace_braced env s = (case s of
      [] \<Rightarrow> []
    | c # cs \<Rightarrow> (case braced_at s of
        Some (name, rest) \<Rightarrow>
          (case env name of Some v \<Rightarrow> v | None \<Rightarrow> ''$'' @ [CHR 0x7B] @ name @ [CHR 0x7D]) @ replace_braced env rest
      | None \<Rightarrow> c # replace_braced env cs))"
  by pat_completeness auto
termination
  by (relation "measure (\<lambda>(env, s). length s)") (auto dest: braced_at_length)

function replace_unbraced :: "(string \<Rightarrow> string option) \<Rightarrow> string \<Rightarrow> string" where
  "replace_unbraced env s = (case s of
      [] \<Rightarrow> []
    | c # cs \<Rightarrow> (case unbraced_at s of
        Some (name, rest) \<Rightarrow> (case env name of Some v \<Rightarrow> v | None \<Rightarrow> ''$'' @ name) @ replace_unbraced env rest
      | None \<Rightarrow> c # replace_unbraced env cs))"
  by pat_completeness auto
termination
  by (relation "measure (\<lambda>(env, s). length s)") (auto dest: unbraced_at_length)

declare replace_braced.simps [simp del]
declare replace_unbraced.simps [simp del]

definition Expand :: "(string \<Rightarrow> string option) \<Rightarrow> string \<Rightarrow> string" where
  "Expand env s = replace_unbraced env (replace_braced env s)"

section \<open>Values without placeholders\<close>

lemma no_braced: "CHR ''$'' \<notin> set s \<Longrightarrow> replace_braced env s = s"
proof (induction s)
  case (Cons c cs)
  then have "braced_at (c # cs) = None" by (auto simp: braced_at_def split: list.splits)
  then show ?case using Cons by (simp add: replace_braced.simps[of env "c # cs"])
qed (simp add: replace_braced.simps)

lemma no_unbraced: "CHR ''$'' \<notin> set s \<Longrightarrow> replace_unbraced env s = s"
proof (induction s)
  case (Cons c cs)
  then have "unbraced_at (c # cs) = None" by (auto simp: unbraced_at_def)
  then show ?case using Cons by (simp add: replace_unbraced.simps[of env "c # cs"])
qed (simp add: replace_unbraced.simps)

lemma Expand_plain: "CHR ''$'' \<notin> set s \<Longrightarrow> Expand env s = s"
  by (simp add: Expand_def no_braced no_unbraced)

lemma take_name_app:
  assumes "name_start c" "list_all name_char cs" "rest = [] \<or> \<not> name_char (hd rest)"
  shows "take_name (c # cs @ rest) = Some (c # cs, rest)"
proof -
  have "\<forall>x\<in>set cs. name_char x" using assms(2) by (simp add: list_all_iff)
  moreover have "takeWhile name_char rest = []" "dropWhile name_char rest = rest" using assms(3) by (cases rest; simp)+
  ultimately show ?thesis using assms(1) by (simp add: take_name_def takeWhile_append2 dropWhile_append2)
qed

text \<open>A value that is a single braced placeholder expands to the value of the variable, expanded once more.\<close>

lemma Expand_braced:
  assumes "name_start c" "list_all name_char cs" "env (c # cs) = Some v"
  shows "Expand env (''$'' @ [CHR 0x7B] @ (c # cs) @ [CHR 0x7D]) = replace_unbraced env v"
proof -
  have "\<not> name_char (CHR 0x7D)" by (simp add: name_char_def name_start_def)
  then have "take_name (c # cs @ [CHR 0x7D]) = Some (c # cs, [CHR 0x7D])" using take_name_app[OF assms(1,2), of "[CHR 0x7D]"] by simp
  then have "braced_at (''$'' @ [CHR 0x7B] @ (c # cs) @ [CHR 0x7D]) = Some (c # cs, [])" by (simp add: braced_at_def)
  then show ?thesis
    using assms(3) replace_braced.simps[of env "''$'' @ [CHR 0x7B] @ (c # cs) @ [CHR 0x7D]"]
    by (simp add: Expand_def replace_braced.simps[of env "[]"])
qed

end
