(* ===== verification/Config.thy ===== *)
theory Config
  imports Hedge Access HealthCheck Secrets
begin

text \<open>
  \<open>internal/config/config.go\<close>: the configuration as the loader sees it, without the fields that neither its
  defaults nor its validation read.  Reading and decoding the file come before; the environment is the lookup of
  a variable.  Nested structs whose fields are few are flattened into the record around them.
\<close>

section \<open>Structs\<close>

record backendConfig =
  bkc_URL :: string
  bkc_Weight :: int
  bkc_MaxConns :: int
  bkc_Zone :: string
  bkc_Tier :: int
  bkc_HealthCheck :: "hc_config option"

record consistentHashConfig =
  chc_Replicas :: int
  chc_LoadFactor :: f64

record outlierConfig =
  odc_Enabled :: bool
  odc_ErrorRateThreshold :: f64
  odc_MinRequests :: int
  odc_BaseEjection :: duration
  odc_MaxEjectionPercent :: int

record grpcHealthConfig =
  ghc_Enabled :: bool
  ghc_Port :: int
  ghc_Reflection :: bool

record loadBalancerConfig =
  lbc_Algorithm :: string
  lbc_HealthCheck :: hc_config
  lbc_GRPCHealth :: grpcHealthConfig
  lbc_ConsistentHash :: consistentHashConfig
  lbc_Sticky :: stickyConfig
  lbc_SlowStart :: duration
  lbc_OutlierDetection :: outlierConfig
  lbc_PreferSameZone :: bool

record l4Config =
  l4_Enabled :: bool
  l4_Port :: int
  l4_DialTimeout :: duration

record webSocketConfig =
  wsc_IdleTimeout :: duration
  wsc_MaxMessageBytes :: int

record http3Config =
  h3_Enabled :: bool
  h3_Port :: int

record serverConfig =
  svc_Host :: string
  svc_Port :: int
  svc_ReadHeaderTimeout :: duration
  svc_MaxHeaderBytes :: int
  svc_MaxInflightQueue :: int
  svc_QueueTimeout :: duration
  svc_ShutdownTimeout :: duration
  svc_TrustedProxies :: "string list"
  svc_Zone :: string
  svc_Upstream :: upstreamConfig
  svc_L4 :: l4Config
  svc_WebSocket :: webSocketConfig
  svc_WatchConfig :: bool
  svc_WatchInterval :: duration
  svc_HTTP3 :: http3Config

record acmeConfig =
  acm_Enabled :: bool
  acm_Domains :: "string list"
  acm_CacheDir :: string
  acm_DirectoryURL :: string
  acm_HTTPChallengePort :: int

record tlsConfig =
  tls_Enabled :: bool
  tls_CertFile :: string
  tls_KeyFile :: string
  tls_MinVersion :: string
  tls_CipherSuites :: "string list"
  tls_ClientAuth :: string
  tls_ClientCAFile :: string
  tls_ACME :: acmeConfig

record circuitSharedState =
  css_SyncInterval :: duration
  css_KeyPrefix :: string
  css_KeyTTL :: duration

record circuitBreakerConfig =
  cbc_FailureThreshold :: int
  cbc_SuccessThreshold :: int
  cbc_Timeout :: duration
  cbc_Mode :: string
  cbc_RollingWindow :: duration
  cbc_ErrorRateThreshold :: f64
  cbc_MinRequests :: int
  cbc_TripOn :: "string list"
  cbc_SharedState :: circuitSharedState

record oidcConfig =
  oic_Enabled :: bool
  oic_IntrospectionURL :: string
  oic_ClientID :: string
  oic_ClientSecret :: string
  oic_CacheTTL :: duration
  oic_CacheSize :: int

record authConfig =
  auc_Type :: string
  auc_Users :: "(string \<times> string) list"
  auc_APIKeys :: "string list"
  auc_Header :: string
  auc_JWTSecret :: string
  auc_JWTAlg :: string
  auc_JWTPublicKey :: string
  auc_JWKSURL :: string
  auc_OIDC :: oidcConfig

record securityConfig =
  sec_Headers :: headersConfig
  sec_CORS :: corsConfig
  sec_ACL :: aclConfig
  sec_Auth :: authConfig

record routeConfig =
  rtc_Name :: string
  rtc_Host :: string
  rtc_PathPrefix :: string
  rtc_Methods :: "string list"
  rtc_Headers :: "(string \<times> string) list"
  rtc_Algorithm :: string
  rtc_ConsistentHash :: consistentHashConfig
  rtc_Backends :: "backendConfig list"

record autoPromoteConfig =
  apc_StepPercent :: int
  apc_StepInterval :: duration
  apc_MaxWeightPercent :: int
  apc_ErrorRateThreshold :: f64
  apc_MinRequests :: int

record canaryConfig =
  cac_Enabled :: bool
  cac_WeightPercent :: int
  cac_Algorithm :: string
  cac_ConsistentHash :: consistentHashConfig
  cac_Backends :: "backendConfig list"
  cac_AutoPromote :: autoPromoteConfig

record mirrorConfig =
  mic_Enabled :: bool
  mic_URL :: string
  mic_SamplePercent :: int
  mic_Timeout :: duration

record faultConfig =
  fac_Enabled :: bool
  fac_DelayPercent :: int
  fac_Delay :: duration
  fac_AbortPercent :: int
  fac_AbortStatus :: int

record cacheConfig =
  cfc_Enabled :: bool
  cfc_DefaultTTL :: duration
  cfc_MaxEntries :: int
  cfc_MaxBodyBytes :: int
  cfc_Methods :: "string list"

record dnsTarget =
  dnt_Name :: string
  dnt_Type :: string
  dnt_Scheme :: string
  dnt_Port :: int
  dnt_Interval :: duration
  dnt_Weight :: int
  dnt_MaxConns :: int

record tracingConfig =
  trc_Exporter :: string
  trc_Endpoint :: string
  trc_SampleRate :: f64
  trc_ServiceName :: string

record metricsConfig =
  mec_Enabled :: bool
  mec_Port :: int
  mec_Host :: string

record vaultConfig =
  vac_Addr :: string
  vac_Token :: string
  vac_MountPath :: string
  vac_AuthMethod :: string

record config =
  c_Server :: serverConfig
  c_TLS :: tlsConfig
  c_Backends :: "backendConfig list"
  c_LoadBalancer :: loadBalancerConfig
  c_CircuitBreaker :: circuitBreakerConfig
  c_RateLimiter :: rateLimiterConfig
  c_Retry :: retryConfig
  c_LogLevel :: string
  c_Metrics :: metricsConfig
  c_Tracing :: tracingConfig
  c_Security :: securityConfig
  c_Routes :: "routeConfig list"
  c_Canary :: canaryConfig
  c_Mirror :: mirrorConfig
  c_FaultInjection :: faultConfig
  c_Cache :: cacheConfig
  c_DNS :: "dnsTarget list"
  c_Vault :: vaultConfig

section \<open>Defaults\<close>

definition dflt :: "bool \<Rightarrow> 'a \<Rightarrow> 'a \<Rightarrow> 'a" where
  "dflt unset d v = (if unset then d else v)"

definition applyUpstreamDefaults :: "upstreamConfig \<Rightarrow> upstreamConfig" where
  "applyUpstreamDefaults u = u
     \<lparr>up_DialTimeout := dflt (up_DialTimeout u = 0) (5 * Second) (up_DialTimeout u),
      up_TLSHandshakeTimeout := dflt (up_TLSHandshakeTimeout u = 0) (5 * Second) (up_TLSHandshakeTimeout u),
      up_ResponseHeaderTimeout := dflt (up_ResponseHeaderTimeout u = 0) (30 * Second) (up_ResponseHeaderTimeout u),
      up_ExpectContinueTimeout := dflt (up_ExpectContinueTimeout u = 0) (1 * Second) (up_ExpectContinueTimeout u),
      up_IdleConnTimeout := dflt (up_IdleConnTimeout u = 0) (90 * Second) (up_IdleConnTimeout u),
      up_MaxIdleConns := dflt (up_MaxIdleConns u = 0) 100 (up_MaxIdleConns u),
      up_MaxIdleConnsPerHost := dflt (up_MaxIdleConnsPerHost u = 0) 100 (up_MaxIdleConnsPerHost u)\<rparr>"

definition applyL4Defaults :: "l4Config \<Rightarrow> l4Config" where
  "applyL4Defaults l = l\<lparr>l4_DialTimeout := dflt (l4_DialTimeout l = 0) (5 * Second) (l4_DialTimeout l)\<rparr>"

text \<open>The float constants are the nearest doubles.\<close>

definition applyHealthCheckDefaults :: "hc_config \<Rightarrow> hc_config" where
  "applyHealthCheckDefaults hc = hc
     \<lparr>hk_Type := dflt (hk_Type hc = []) ''http'' (hk_Type hc), hk_Method := dflt (hk_Method hc = []) ''GET'' (hk_Method hc),
      hk_HealthyThreshold := dflt (hk_HealthyThreshold hc \<le> 0) 2 (hk_HealthyThreshold hc),
      hk_UnhealthyThreshold := dflt (hk_UnhealthyThreshold hc \<le> 0) 3 (hk_UnhealthyThreshold hc),
      hk_Jitter := dflt (hk_Jitter hc = 0) (round64 (1 / 10)) (hk_Jitter hc)\<rparr>"

definition applyGRPCHealthDefaults :: "grpcHealthConfig \<Rightarrow> grpcHealthConfig" where
  "applyGRPCHealthDefaults g =
     (let g1 = g\<lparr>ghc_Port := dflt (ghc_Port g = 0) 9091 (ghc_Port g)\<rparr>
      in if \<not> ghc_Enabled g1 then g1 else g1\<lparr>ghc_Reflection := True\<rparr>)"

definition backend_defaults :: "backendConfig \<Rightarrow> backendConfig" where
  "backend_defaults b = b
     \<lparr>bkc_Weight := dflt (bkc_Weight b = 0) 1 (bkc_Weight b), bkc_MaxConns := dflt (bkc_MaxConns b = 0) 100 (bkc_MaxConns b),
      bkc_HealthCheck := map_option applyHealthCheckDefaults (bkc_HealthCheck b)\<rparr>"

definition hash_defaults :: "consistentHashConfig \<Rightarrow> consistentHashConfig" where
  "hash_defaults h = h
     \<lparr>chc_Replicas := dflt (chc_Replicas h = 0) 100 (chc_Replicas h), chc_LoadFactor := dflt (chc_LoadFactor h = 0) (5 / 4) (chc_LoadFactor h)\<rparr>"

definition applyAutoPromoteDefaults :: "autoPromoteConfig \<Rightarrow> autoPromoteConfig" where
  "applyAutoPromoteDefaults a = a
     \<lparr>apc_StepPercent := dflt (apc_StepPercent a \<le> 0) 10 (apc_StepPercent a),
      apc_StepInterval := dflt (apc_StepInterval a \<le> 0) (60 * Second) (apc_StepInterval a),
      apc_MaxWeightPercent := dflt (apc_MaxWeightPercent a \<le> 0) 100 (apc_MaxWeightPercent a),
      apc_ErrorRateThreshold := dflt (apc_ErrorRateThreshold a \<le> 0) (round64 (1 / 100)) (apc_ErrorRateThreshold a),
      apc_MinRequests := dflt (apc_MinRequests a \<le> 0) 100 (apc_MinRequests a)\<rparr>"

definition applyCanaryDefaults :: "canaryConfig \<Rightarrow> canaryConfig" where
  "applyCanaryDefaults c = c
     \<lparr>cac_Algorithm := dflt (cac_Algorithm c = []) ''round_robin'' (cac_Algorithm c),
      cac_ConsistentHash := hash_defaults (cac_ConsistentHash c), cac_Backends := map backend_defaults (cac_Backends c),
      cac_AutoPromote := applyAutoPromoteDefaults (cac_AutoPromote c)\<rparr>"

definition applyCacheDefaults :: "cacheConfig \<Rightarrow> cacheConfig" where
  "applyCacheDefaults c = c
     \<lparr>cfc_DefaultTTL := dflt (cfc_DefaultTTL c \<le> 0) (60 * Second) (cfc_DefaultTTL c),
      cfc_MaxEntries := dflt (cfc_MaxEntries c \<le> 0) 1000 (cfc_MaxEntries c),
      cfc_MaxBodyBytes := dflt (cfc_MaxBodyBytes c \<le> 0) (2 ^ 20) (cfc_MaxBodyBytes c),
      cfc_Methods := dflt (cfc_Methods c = []) [''GET'', ''HEAD''] (cfc_Methods c)\<rparr>"

definition dns_defaults :: "dnsTarget \<Rightarrow> dnsTarget" where
  "dns_defaults t = t
     \<lparr>dnt_Type := dflt (dnt_Type t = []) ''a'' (dnt_Type t), dnt_Scheme := dflt (dnt_Scheme t = []) ''http'' (dnt_Scheme t),
      dnt_Interval := dflt (dnt_Interval t \<le> 0) (30 * Second) (dnt_Interval t), dnt_Weight := dflt (dnt_Weight t = 0) 1 (dnt_Weight t),
      dnt_MaxConns := dflt (dnt_MaxConns t = 0) 100 (dnt_MaxConns t)\<rparr>"

definition applyTracingDefaults :: "tracingConfig \<Rightarrow> tracingConfig" where
  "applyTracingDefaults t = t
     \<lparr>trc_Exporter := dflt (trc_Exporter t = []) ''otlp'' (trc_Exporter t),
      trc_Endpoint := dflt (trc_Endpoint t = []) ''localhost:4317'' (trc_Endpoint t),
      trc_SampleRate := dflt (trc_SampleRate t = 0) 1 (trc_SampleRate t),
      trc_ServiceName := dflt (trc_ServiceName t = []) ''rplb'' (trc_ServiceName t)\<rparr>"

definition applyOIDCIntrospectionDefaults :: "oidcConfig \<Rightarrow> oidcConfig" where
  "applyOIDCIntrospectionDefaults o' = o'
     \<lparr>oic_CacheTTL := dflt (oic_CacheTTL o' \<le> 0) (30 * Second) (oic_CacheTTL o'),
      oic_CacheSize := dflt (oic_CacheSize o' \<le> 0) 1000 (oic_CacheSize o')\<rparr>"

definition applyFaultDefaults :: "faultConfig \<Rightarrow> faultConfig" where
  "applyFaultDefaults f = f\<lparr>fac_AbortStatus := dflt (fac_Enabled f \<and> fac_AbortStatus f \<le> 0) 503 (fac_AbortStatus f)\<rparr>"

definition applyCircuitBreakerDefaults :: "circuitBreakerConfig \<Rightarrow> circuitBreakerConfig" where
  "applyCircuitBreakerDefaults cb = cb
     \<lparr>cbc_Mode := dflt (cbc_Mode cb = []) ''consecutive'' (cbc_Mode cb),
      cbc_RollingWindow := dflt (cbc_RollingWindow cb \<le> 0) (10 * Second) (cbc_RollingWindow cb),
      cbc_ErrorRateThreshold := dflt (cbc_ErrorRateThreshold cb \<le> 0) (1 / 2) (cbc_ErrorRateThreshold cb),
      cbc_MinRequests := dflt (cbc_MinRequests cb \<le> 0) 20 (cbc_MinRequests cb),
      cbc_TripOn := dflt (cbc_TripOn cb = []) [''connect'', ''timeout''] (cbc_TripOn cb),
      cbc_SharedState := (cbc_SharedState cb)
        \<lparr>css_SyncInterval := dflt (css_SyncInterval (cbc_SharedState cb) \<le> 0) (1 * Second) (css_SyncInterval (cbc_SharedState cb)),
         css_KeyPrefix := dflt (css_KeyPrefix (cbc_SharedState cb) = []) ''rplb:cb'' (css_KeyPrefix (cbc_SharedState cb)),
         css_KeyTTL := dflt (css_KeyTTL (cbc_SharedState cb) \<le> 0) (30 * Second) (css_KeyTTL (cbc_SharedState cb))\<rparr>\<rparr>"

definition retryBlockIsZero :: "retryConfig \<Rightarrow> bool" where
  "retryBlockIsZero r \<longleftrightarrow> rc_MaxAttempts r = 0 \<and> rc_Backoff r = [] \<and> rc_MaxBackoff r = 0 \<and> rc_Budget r = 0 \<and>
     rc_PerTryTimeout r = 0 \<and> rc_RetryOn r = [] \<and> \<not> rc_HedgeEnabled r \<and> rc_HedgeDelay r = 0 \<and> rc_HedgeMaxExtra r = 0"

definition applyRetryDefaults :: "retryConfig \<Rightarrow> retryConfig" where
  "applyRetryDefaults r = r
     \<lparr>rc_HonorRetryAfter := dflt (retryBlockIsZero r) True (rc_HonorRetryAfter r),
      rc_RetryOn := dflt (rc_RetryOn r = []) [''connect'', ''timeout''] (rc_RetryOn r),
      rc_HedgeMaxExtra := dflt (rc_HedgeEnabled r \<and> rc_HedgeMaxExtra r \<le> 0) 1 (rc_HedgeMaxExtra r)\<rparr>"

definition applyRateLimiterDefaults :: "rateLimiterConfig \<Rightarrow> rateLimiterConfig" where
  "applyRateLimiterDefaults rl = rl
     \<lparr>rlc_Algorithm := dflt (rlc_Algorithm rl = []) ''token_bucket'' (rlc_Algorithm rl), rlc_Key := dflt (rlc_Key rl = []) ''ip'' (rlc_Key rl),
      rlc_RetryAfterSeconds := dflt (rlc_RetryAfterSeconds rl \<le> 0) 1 (rlc_RetryAfterSeconds rl),
      rlc_Message := dflt (rlc_Message rl = []) ''Rate limit exceeded'' (rlc_Message rl),
      rlc_GlobalRPS := dflt (rlc_GlobalRPS rl \<le> 0) (rlc_RequestsPerSecond rl) (rlc_GlobalRPS rl),
      rlc_GlobalBurst := dflt (rlc_GlobalBurst rl \<le> 0) (rlc_Burst rl) (rlc_GlobalBurst rl),
      rlc_StoreBackend := dflt (rlc_StoreBackend rl = []) ''memory'' (rlc_StoreBackend rl),
      rlc_StoreKey := dflt (rlc_StoreKey rl = []) ''__global__'' (rlc_StoreKey rl),
      rlc_RedisPrefix := dflt (rlc_RedisPrefix rl = []) ''rplb:rl'' (rlc_RedisPrefix rl)\<rparr>"

definition route_defaults :: "routeConfig \<Rightarrow> routeConfig" where
  "route_defaults r = r
     \<lparr>rtc_Algorithm := dflt (rtc_Algorithm r = []) ''round_robin'' (rtc_Algorithm r),
      rtc_ConsistentHash := hash_defaults (rtc_ConsistentHash r), rtc_Backends := map backend_defaults (rtc_Backends r)\<rparr>"

definition server_defaults :: "serverConfig \<Rightarrow> serverConfig" where
  "server_defaults s =
     (let s1 = s
        \<lparr>svc_Port := dflt (svc_Port s = 0) 8080 (svc_Port s),
         svc_ShutdownTimeout := dflt (svc_ShutdownTimeout s \<le> 0) (30 * Second) (svc_ShutdownTimeout s),
         svc_ReadHeaderTimeout := dflt (svc_ReadHeaderTimeout s \<le> 0) (10 * Second) (svc_ReadHeaderTimeout s),
         svc_MaxHeaderBytes := dflt (svc_MaxHeaderBytes s \<le> 0) (64 * 1024) (svc_MaxHeaderBytes s),
         svc_WatchInterval := dflt (svc_WatchConfig s \<and> svc_WatchInterval s \<le> 0) (5 * Second) (svc_WatchInterval s),
         svc_QueueTimeout := dflt (svc_MaxInflightQueue s > 0 \<and> svc_QueueTimeout s \<le> 0) (5 * Second) (svc_QueueTimeout s),
         svc_Upstream := applyUpstreamDefaults (svc_Upstream s), svc_L4 := applyL4Defaults (svc_L4 s)\<rparr>
      in s1\<lparr>svc_HTTP3 := (svc_HTTP3 s1)\<lparr>h3_Port := dflt (h3_Port (svc_HTTP3 s1) = 0) (svc_Port s1) (h3_Port (svc_HTTP3 s1))\<rparr>\<rparr>)"

definition lb_defaults :: "loadBalancerConfig \<Rightarrow> loadBalancerConfig" where
  "lb_defaults l = l
     \<lparr>lbc_Algorithm := dflt (lbc_Algorithm l = []) ''round_robin'' (lbc_Algorithm l),
      lbc_ConsistentHash := hash_defaults (lbc_ConsistentHash l),
      lbc_Sticky := (lbc_Sticky l)\<lparr>st_Cookie := dflt (st_Cookie (lbc_Sticky l) = []) ''rplb_affinity'' (st_Cookie (lbc_Sticky l))\<rparr>,
      lbc_HealthCheck := applyHealthCheckDefaults (lbc_HealthCheck l), lbc_GRPCHealth := applyGRPCHealthDefaults (lbc_GRPCHealth l)\<rparr>"

definition tls_defaults :: "tlsConfig \<Rightarrow> tlsConfig" where
  "tls_defaults t = t
     \<lparr>tls_MinVersion := dflt (tls_MinVersion t = []) ''1.2'' (tls_MinVersion t),
      tls_ClientAuth := dflt (tls_ClientAuth t = []) ''none'' (tls_ClientAuth t),
      tls_ACME := (tls_ACME t)\<lparr>acm_HTTPChallengePort :=
        dflt (acm_HTTPChallengePort (tls_ACME t) = 0) 80 (acm_HTTPChallengePort (tls_ACME t))\<rparr>\<rparr>"

definition auth_defaults :: "authConfig \<Rightarrow> authConfig" where
  "auth_defaults a = a
     \<lparr>auc_Header := dflt (auc_Header a = []) ''X-API-Key'' (auc_Header a), auc_JWTAlg := dflt (auc_JWTAlg a = []) ''HS256'' (auc_JWTAlg a),
      auc_OIDC := applyOIDCIntrospectionDefaults (auc_OIDC a)\<rparr>"

definition on_auth :: "(authConfig \<Rightarrow> authConfig) \<Rightarrow> config \<Rightarrow> config" where
  "on_auth f c = c\<lparr>c_Security := (c_Security c)\<lparr>sec_Auth := f (sec_Auth (c_Security c))\<rparr>\<rparr>"

text \<open>The part of \<open>Load\<close> between the expansion of placeholders and the overrides of the environment.\<close>

definition apply_defaults :: "config \<Rightarrow> config" where
  "apply_defaults c = on_auth auth_defaults (c
     \<lparr>c_Server := server_defaults (c_Server c), c_LoadBalancer := lb_defaults (c_LoadBalancer c),
      c_Backends := map backend_defaults (c_Backends c), c_Routes := map route_defaults (c_Routes c),
      c_Canary := applyCanaryDefaults (c_Canary c), c_FaultInjection := applyFaultDefaults (c_FaultInjection c),
      c_Cache := applyCacheDefaults (c_Cache c), c_DNS := map dns_defaults (c_DNS c),
      c_Metrics := (c_Metrics c)\<lparr>mec_Host := dflt (mec_Host (c_Metrics c) = []) ''127.0.0.1'' (mec_Host (c_Metrics c))\<rparr>,
      c_TLS := tls_defaults (c_TLS c), c_CircuitBreaker := applyCircuitBreakerDefaults (c_CircuitBreaker c),
      c_Retry := applyRetryDefaults (c_Retry c), c_Tracing := applyTracingDefaults (c_Tracing c)\<rparr>)"

section \<open>The environment\<close>

definition vault_defaults :: "(string \<Rightarrow> string option) \<Rightarrow> vaultConfig \<Rightarrow> vaultConfig" where
  "vault_defaults env v =
     (let get = (\<lambda>n. case env n of Some x \<Rightarrow> x | None \<Rightarrow> []) in v
       \<lparr>vac_MountPath := dflt (vac_MountPath v = []) ''secret'' (vac_MountPath v),
        vac_AuthMethod := dflt (vac_AuthMethod v = []) ''token'' (vac_AuthMethod v),
        vac_Addr := dflt (vac_Addr v = []) (get ''VAULT_ADDR'') (vac_Addr v),
        vac_Token := dflt (vac_Token v = []) (get ''VAULT_TOKEN'') (vac_Token v)\<rparr>)"

definition expand_config :: "(string \<Rightarrow> string option) \<Rightarrow> config \<Rightarrow> config" where
  "expand_config env c =
     on_auth (\<lambda>a. a\<lparr>auc_OIDC := (auc_OIDC a)\<lparr>oic_ClientID := Expand env (oic_ClientID (auc_OIDC a)),
                                            oic_ClientSecret := Expand env (oic_ClientSecret (auc_OIDC a))\<rparr>\<rparr>) (c
       \<lparr>c_TLS := (c_TLS c)\<lparr>tls_CertFile := Expand env (tls_CertFile (c_TLS c)), tls_KeyFile := Expand env (tls_KeyFile (c_TLS c)),
                           tls_ClientCAFile := Expand env (tls_ClientCAFile (c_TLS c))\<rparr>,
        c_RateLimiter := (c_RateLimiter c)\<lparr>rlc_RedisPassword := Expand env (rlc_RedisPassword (c_RateLimiter c))\<rparr>,
        c_Vault := (c_Vault c)\<lparr>vac_Addr := Expand env (vac_Addr (c_Vault c)), vac_Token := Expand env (vac_Token (c_Vault c))\<rparr>,
        c_Backends := map (\<lambda>b. b\<lparr>bkc_URL := Expand env (bkc_URL b)\<rparr>) (c_Backends c)\<rparr>)"

definition ParseBool :: "string \<Rightarrow> bool option" where
  "ParseBool s = (if s \<in> {''1'', ''t'', ''T'', ''TRUE'', ''true'', ''True''} then Some True
                  else if s \<in> {''0'', ''f'', ''F'', ''FALSE'', ''false'', ''False''} then Some False else None)"

definition override :: "(string \<Rightarrow> string option) \<Rightarrow> string \<Rightarrow> (string \<Rightarrow> 'a option) \<Rightarrow> 'a \<Rightarrow> 'a" where
  "override env name parse old =
     (case env name of
        Some v \<Rightarrow> if v = [] then old else (case parse v of Some x \<Rightarrow> x | None \<Rightarrow> old)
      | None \<Rightarrow> old)"

definition env_backends :: "string \<Rightarrow> backendConfig list option" where
  "env_backends v =
     (let urls = filter (\<lambda>u. u \<noteq> []) (map TrimSpace (SplitChar CHR '','' v));
          bs = map (\<lambda>u. \<lparr>bkc_URL = u, bkc_Weight = 1, bkc_MaxConns = 100, bkc_Zone = [], bkc_Tier = 0, bkc_HealthCheck = None\<rparr>) urls
      in if bs = [] then None else Some bs)"

definition applyEnvOverrides :: "(string \<Rightarrow> string option) \<Rightarrow> config \<Rightarrow> config" where
  "applyEnvOverrides env c = c
     \<lparr>c_Server := (c_Server c)\<lparr>svc_Host := override env ''RPLB_SERVER_HOST'' Some (svc_Host (c_Server c)),
                               svc_Port := override env ''RPLB_SERVER_PORT'' ParseInt64 (svc_Port (c_Server c))\<rparr>,
      c_LogLevel := override env ''RPLB_LOG_LEVEL'' Some (c_LogLevel c),
      c_Metrics := (c_Metrics c)\<lparr>mec_Enabled := override env ''RPLB_METRICS_ENABLED'' ParseBool (mec_Enabled (c_Metrics c)),
                                 mec_Port := override env ''RPLB_METRICS_PORT'' ParseInt64 (mec_Port (c_Metrics c))\<rparr>,
      c_RateLimiter := (c_RateLimiter c)
        \<lparr>rlc_Enabled := override env ''RPLB_RATE_LIMIT_ENABLED'' ParseBool (rlc_Enabled (c_RateLimiter c)),
         rlc_RequestsPerSecond := override env ''RPLB_RATE_LIMIT_RPS'' ParseInt64 (rlc_RequestsPerSecond (c_RateLimiter c)),
         rlc_Burst := override env ''RPLB_RATE_LIMIT_BURST'' ParseInt64 (rlc_Burst (c_RateLimiter c))\<rparr>,
      c_Backends := override env ''RPLB_BACKENDS'' env_backends (c_Backends c),
      c_TLS := (c_TLS c)\<lparr>tls_ACME := (tls_ACME (c_TLS c))
        \<lparr>acm_CacheDir := override env ''ACME_CACHE_DIR'' Some (acm_CacheDir (tls_ACME (c_TLS c)))\<rparr>\<rparr>\<rparr>"

section \<open>Validation\<close>

text \<open>
  A rejected configuration is an error whose text is the field the message of the code names, without the
  rejected value.  \<open>first_err\<close> is the sequence of checks with their early returns and \<open>each\<close> the same over the
  elements of a slice.  The parser of URLs gives the scheme and the host of a URL, or no result on an error.
\<close>

type_synonym check = "string option"
type_synonym url_parts = "string \<Rightarrow> (string \<times> string) option"

definition chk :: "bool \<Rightarrow> string \<Rightarrow> check" where
  "chk bad field = (if bad then Some field else None)"

fun first_err :: "check list \<Rightarrow> check" where
  "first_err [] = None"
| "first_err (c # cs) = (case c of Some e \<Rightarrow> Some e | None \<Rightarrow> first_err cs)"

definition each :: "(nat \<Rightarrow> 'a \<Rightarrow> check) \<Rightarrow> 'a list \<Rightarrow> check" where
  "each f xs = first_err (map (\<lambda>(i, x). f i x) (enumerate 0 xs))"

definition at_index :: "string \<Rightarrow> nat \<Rightarrow> string" where
  "at_index label i = label @ ''['' @ Itoa i @ '']''"

definition port_bad :: "int \<Rightarrow> bool" where
  "port_bad p \<longleftrightarrow> p < 1 \<or> p > 65535"

definition validAlgorithms :: "string list" where
  "validAlgorithms = [''round_robin'', ''least_conn'', ''weighted'', ''ip_hash'', ''swrr'', ''p2c'', ''weighted_least_conn'',
     ''weighted_random'', ''consistent_hash'', ''ewma'']"

definition validClientAuth :: "string list" where
  "validClientAuth = [''none'', ''request'', ''require_and_verify'']"

definition validAuthTypes :: "string list" where
  "validAuthTypes = [''none'', ''basic'', ''apikey'', ''jwt'']"

definition validFailureClasses :: "string list" where
  "validFailureClasses = [''connect'', ''timeout'', ''5xx'']"

definition validRetryClasses :: "string list" where
  "validRetryClasses = [''connect'', ''timeout'']"

definition validRateLimitAlgorithms :: "string list" where
  "validRateLimitAlgorithms = [''token_bucket'', ''gcra'']"

definition validateHealthCheck :: "hc_config \<Rightarrow> string \<Rightarrow> check" where
  "validateHealthCheck hc label = first_err
     [chk (hk_Jitter hc < 0 \<or> hk_Jitter hc > 1) (label @ ''.jitter''),
      chk (hk_Type hc \<noteq> ''http'' \<and> hk_Type hc \<noteq> ''tcp'') (label @ ''.type''),
      chk (hk_HealthyThreshold hc < 1) (label @ ''.healthy_threshold''),
      chk (hk_UnhealthyThreshold hc < 1) (label @ ''.unhealthy_threshold''),
      each (\<lambda>i s. chk (s < 100 \<or> s > 599) (label @ ''.expected_statuses'')) (hk_ExpectedStatuses hc)]"

definition validateUpstream :: "upstreamConfig \<Rightarrow> check" where
  "validateUpstream u = first_err
     [chk (up_DialTimeout u < 0) ''server.upstream.dial_timeout'',
      chk (up_TLSHandshakeTimeout u < 0) ''server.upstream.tls_handshake_timeout'',
      chk (up_ResponseHeaderTimeout u < 0) ''server.upstream.response_header_timeout'',
      chk (up_ExpectContinueTimeout u < 0) ''server.upstream.expect_continue_timeout'',
      chk (up_IdleConnTimeout u < 0) ''server.upstream.idle_conn_timeout'',
      chk (up_MaxIdleConns u < 0) ''server.upstream.max_idle_conns'',
      chk (up_MaxIdleConnsPerHost u < 0) ''server.upstream.max_idle_conns_per_host'',
      chk (up_MaxConnsPerHost u < 0) ''server.upstream.max_conns_per_host'']"

definition validateL4 :: "l4Config \<Rightarrow> check" where
  "validateL4 l = first_err
     [chk (l4_DialTimeout l < 0) ''server.l4.dial_timeout'', chk (l4_Enabled l \<and> port_bad (l4_Port l)) ''server.l4.port'']"

definition validateWebSocket :: "webSocketConfig \<Rightarrow> check" where
  "validateWebSocket w = first_err
     [chk (wsc_IdleTimeout w < 0) ''server.websocket.idle_timeout'',
      chk (wsc_MaxMessageBytes w < 0) ''server.websocket.max_message_bytes'']"

definition validatePercent :: "int \<Rightarrow> string \<Rightarrow> check" where
  "validatePercent v label = chk (v < 0 \<or> v > 100) label"

definition validateHTTPURL :: "url_parts \<Rightarrow> string \<Rightarrow> string \<Rightarrow> check" where
  "validateHTTPURL parse raw label =
     (case parse raw of
        None \<Rightarrow> Some (label @ '' has invalid url'')
      | Some (scheme, host) \<Rightarrow>
          if scheme = [] \<or> host = [] then Some (label @ '' has invalid url'')
          else chk (scheme \<noteq> ''http'' \<and> scheme \<noteq> ''https'') (label @ '' url must be http or https''))"

definition hash_check :: "consistentHashConfig \<Rightarrow> string \<Rightarrow> check" where
  "hash_check h label = first_err
     [chk (chc_LoadFactor h \<noteq> 0 \<and> chc_LoadFactor h < 1) (label @ ''consistent_hash.load_factor''),
      chk (chc_Replicas h < 0) (label @ ''consistent_hash.replicas'')]"

definition backend_base_check :: "url_parts \<Rightarrow> string \<Rightarrow> backendConfig \<Rightarrow> check" where
  "backend_base_check parse label b = first_err
     [validateHTTPURL parse (bkc_URL b) label,
      chk (bkc_Weight b < 0) (label @ '' weight''), chk (bkc_MaxConns b < 0) (label @ '' max_conns'')]"

definition backend_tier_check :: "string \<Rightarrow> backendConfig \<Rightarrow> check" where
  "backend_tier_check label b = first_err
     [chk (bkc_Tier b < 0) (label @ '' tier''),
      (case bkc_HealthCheck b of None \<Rightarrow> None | Some hc \<Rightarrow> validateHealthCheck hc (label @ ''.health_check''))]"

definition ip_entry_bad :: "string \<Rightarrow> bool" where
  "ip_entry_bad e \<longleftrightarrow> ParseCIDR e = None \<and> ParseIP e = None"

definition validateRateLimiter :: "rateLimiterConfig \<Rightarrow> check" where
  "validateRateLimiter rl = first_err
     [chk (rlc_Enabled rl \<and> rlc_RequestsPerSecond rl \<le> 0) ''rate_limiter.requests_per_second'',
      chk (rlc_Algorithm rl \<notin> set validRateLimitAlgorithms) ''rate_limiter.algorithm'',
      chk (rlc_Key rl \<noteq> ''ip'' \<and> (\<not> HasPrefix (rlc_Key rl) ''header:'' \<or> TrimPrefix (rlc_Key rl) ''header:'' = [])) ''rate_limiter.key'',
      chk (rlc_RetryAfterSeconds rl < 0) ''rate_limiter.retry_after_seconds'',
      each (\<lambda>i e. chk (ip_entry_bad e) (at_index ''rate_limiter.allowlist'' i)) (rlc_Allowlist rl),
      (if rlc_Enabled rl then
         each (\<lambda>i rule. first_err
           [chk (rule_RPS rule \<le> 0) (at_index ''rate_limiter.rules'' i @ ''.rps''),
            chk (rule_Burst rule \<le> 0) (at_index ''rate_limiter.rules'' i @ ''.burst'')]) (rlc_Rules rl)
       else None),
      (if rlc_StoreEnabled rl then first_err
         [chk (rlc_StoreBackend rl \<noteq> ''memory'' \<and> rlc_StoreBackend rl \<noteq> ''redis'') ''rate_limiter.shared_store.backend'',
          chk (rlc_StoreBackend rl = ''redis'' \<and> rlc_RedisAddr rl = []) ''rate_limiter.shared_store.redis.addr'']
       else None)]"

definition validateOutlier :: "outlierConfig \<Rightarrow> check" where
  "validateOutlier od =
     (if odc_Enabled od then first_err
        [chk (odc_MaxEjectionPercent od < 0 \<or> odc_MaxEjectionPercent od > 100) ''load_balancer.outlier_detection.max_ejection_percent'',
         chk (odc_ErrorRateThreshold od < 0 \<or> odc_ErrorRateThreshold od > 1) ''load_balancer.outlier_detection.error_rate_threshold'',
         chk (odc_MinRequests od < 0) ''load_balancer.outlier_detection.min_requests'']
      else None)"

definition validateCircuitBreaker :: "circuitBreakerConfig \<Rightarrow> check" where
  "validateCircuitBreaker cb = first_err
     [chk (cbc_Mode cb \<noteq> ''consecutive'' \<and> cbc_Mode cb \<noteq> ''rolling'') ''circuit_breaker.mode'',
      chk (cbc_ErrorRateThreshold cb < 0 \<or> cbc_ErrorRateThreshold cb > 1) ''circuit_breaker.error_rate_threshold'',
      each (\<lambda>i cl. chk (cl \<notin> set validFailureClasses) ''circuit_breaker.trip_on'') (cbc_TripOn cb)]"

definition validateRetry :: "retryConfig \<Rightarrow> check" where
  "validateRetry r = first_err
     [chk (rc_Budget r < 0) ''retry.budget'',
      each (\<lambda>i cl. chk (cl \<notin> set validRetryClasses) ''retry.retry_on'') (rc_RetryOn r),
      chk (rc_HedgeDelay r < 0) ''retry.hedge.delay'']"

definition validateCache :: "cacheConfig \<Rightarrow> check" where
  "validateCache c =
     (if \<not> cfc_Enabled c then None
      else first_err
        [chk (cfc_DefaultTTL c \<le> 0) ''cache.default_ttl'', chk (cfc_MaxEntries c \<le> 0) ''cache.max_entries'',
         chk (cfc_MaxBodyBytes c \<le> 0) ''cache.max_body_bytes'', chk (cfc_Methods c = []) ''cache.methods''])"

definition validateDiscovery :: "dnsTarget list \<Rightarrow> check" where
  "validateDiscovery ts = each (\<lambda>i t.
     let label = at_index ''discovery.dns'' i in first_err
       [chk (dnt_Name t = []) (label @ ''.name''),
        chk (dnt_Type t \<noteq> ''a'' \<and> dnt_Type t \<noteq> ''srv'') (label @ ''.type''),
        chk (dnt_Scheme t \<noteq> ''http'' \<and> dnt_Scheme t \<noteq> ''https'') (label @ ''.scheme''),
        chk (dnt_Interval t \<le> 0) (label @ ''.interval''),
        chk (dnt_Type t = ''a'' \<and> port_bad (dnt_Port t)) (label @ ''.port''),
        chk (dnt_Weight t < 0) (label @ ''.weight''), chk (dnt_MaxConns t < 0) (label @ ''.max_conns'')]) ts"

definition validateCanary :: "url_parts \<Rightarrow> canaryConfig \<Rightarrow> check" where
  "validateCanary parse c = first_err
     [validatePercent (cac_WeightPercent c) ''canary.weight_percent'',
      chk (cac_Algorithm c \<notin> set validAlgorithms) ''canary.algorithm'',
      hash_check (cac_ConsistentHash c) ''canary.'',
      chk (cac_Enabled c \<and> cac_Backends c = []) ''canary.backends'',
      each (\<lambda>i b. let label = at_index ''canary.backend'' i in
        first_err [backend_base_check parse label b, backend_tier_check label b]) (cac_Backends c)]"

definition validateMirror :: "url_parts \<Rightarrow> mirrorConfig \<Rightarrow> check" where
  "validateMirror parse m = first_err
     [validatePercent (mic_SamplePercent m) ''mirror.sample_percent'', chk (mic_Timeout m < 0) ''mirror.timeout'',
      (if mic_Enabled m then validateHTTPURL parse (mic_URL m) ''mirror'' else None)]"

definition validateFaultInjection :: "faultConfig \<Rightarrow> check" where
  "validateFaultInjection f = first_err
     [validatePercent (fac_DelayPercent f) ''fault_injection.delay_percent'',
      validatePercent (fac_AbortPercent f) ''fault_injection.abort_percent'',
      chk (fac_Delay f < 0) ''fault_injection.delay'',
      (if fac_Enabled f then chk (fac_AbortStatus f < 100 \<or> fac_AbortStatus f > 599) ''fault_injection.abort_status'' else None)]"

text \<open>The names of \<open>tls.CipherSuites\<close> and \<open>tls.InsecureCipherSuites\<close>.\<close>

definition knownCipherSuites :: "string list" where
  "knownCipherSuites =
     [''TLS_AES_128_GCM_SHA256'', ''TLS_AES_256_GCM_SHA384'', ''TLS_CHACHA20_POLY1305_SHA256'',
      ''TLS_ECDHE_ECDSA_WITH_AES_128_CBC_SHA'', ''TLS_ECDHE_ECDSA_WITH_AES_256_CBC_SHA'',
      ''TLS_ECDHE_RSA_WITH_AES_128_CBC_SHA'', ''TLS_ECDHE_RSA_WITH_AES_256_CBC_SHA'',
      ''TLS_ECDHE_ECDSA_WITH_AES_128_GCM_SHA256'', ''TLS_ECDHE_ECDSA_WITH_AES_256_GCM_SHA384'',
      ''TLS_ECDHE_RSA_WITH_AES_128_GCM_SHA256'', ''TLS_ECDHE_RSA_WITH_AES_256_GCM_SHA384'',
      ''TLS_ECDHE_RSA_WITH_CHACHA20_POLY1305_SHA256'', ''TLS_ECDHE_ECDSA_WITH_CHACHA20_POLY1305_SHA256'',
      ''TLS_RSA_WITH_RC4_128_SHA'', ''TLS_RSA_WITH_3DES_EDE_CBC_SHA'', ''TLS_RSA_WITH_AES_128_CBC_SHA'',
      ''TLS_RSA_WITH_AES_256_CBC_SHA'', ''TLS_RSA_WITH_AES_128_CBC_SHA256'', ''TLS_RSA_WITH_AES_128_GCM_SHA256'',
      ''TLS_RSA_WITH_AES_256_GCM_SHA384'', ''TLS_ECDHE_ECDSA_WITH_RC4_128_SHA'', ''TLS_ECDHE_RSA_WITH_RC4_128_SHA'',
      ''TLS_ECDHE_RSA_WITH_3DES_EDE_CBC_SHA'', ''TLS_ECDHE_ECDSA_WITH_AES_128_CBC_SHA256'',
      ''TLS_ECDHE_RSA_WITH_AES_128_CBC_SHA256'']"

definition validateTLS :: "url_parts \<Rightarrow> tlsConfig \<Rightarrow> check" where
  "validateTLS parse t = first_err
     [chk (tls_MinVersion t \<noteq> ''1.2'' \<and> tls_MinVersion t \<noteq> ''1.3'') ''tls.min_version'',
      chk (tls_ClientAuth t \<notin> set validClientAuth) ''tls.client_auth'',
      each (\<lambda>i name. chk (name \<notin> set knownCipherSuites) ''tls.cipher_suites'') (tls_CipherSuites t),
      chk (tls_ClientAuth t = ''require_and_verify'' \<and> tls_ClientCAFile t = []) ''tls.client_ca_file'',
      (let a = tls_ACME t in if acm_Enabled a then first_err
         [chk (acm_Domains a = []) ''tls.acme.domains'',
          each (\<lambda>i d. chk (TrimSpace d = []) (at_index ''tls.acme.domains'' i)) (acm_Domains a),
          chk (port_bad (acm_HTTPChallengePort a)) ''tls.acme.http_challenge_port'',
          (if acm_DirectoryURL a \<noteq> [] then validateHTTPURL parse (acm_DirectoryURL a) ''tls.acme.directory_url'' else None)]
       else None)]"

definition validateHTTP3 :: "http3Config \<Rightarrow> bool \<Rightarrow> check" where
  "validateHTTP3 h tlsEnabled =
     (if \<not> h3_Enabled h then None
      else first_err [chk (\<not> tlsEnabled) ''http3 requires tls'', chk (port_bad (h3_Port h)) ''server.http3.port''])"

definition jwt_check :: "url_parts \<Rightarrow> authConfig \<Rightarrow> check" where
  "jwt_check parse a =
     (if auc_JWTAlg a = ''HS256'' then chk (auc_JWTSecret a = []) ''security.auth.jwt_secret''
      else if auc_JWTAlg a = ''RS256'' then first_err
        [chk ((auc_JWTPublicKey a \<noteq> []) = (auc_JWKSURL a \<noteq> [])) ''security.auth requires exactly one of jwt_public_key or jwks_url'',
         (if auc_JWKSURL a \<noteq> [] then validateHTTPURL parse (auc_JWKSURL a) ''security.auth.jwks_url'' else None)]
      else Some ''security.auth.jwt_alg'')"

definition introspection_check :: "url_parts \<Rightarrow> oidcConfig \<Rightarrow> check" where
  "introspection_check parse o' =
     (let field = ''security.auth.oidc_introspection.introspection_url'' in
      if oic_IntrospectionURL o' = [] then Some (field @ '' is required'')
      else case parse (oic_IntrospectionURL o') of
             None \<Rightarrow> Some (field @ '' is not a valid URL'')
           | Some (scheme, host) \<Rightarrow> first_err
               [chk (host = []) (field @ '' is not a valid URL''), chk (scheme \<noteq> ''https'') (field @ '' must use https'')])"

definition validateSecurity :: "url_parts \<Rightarrow> securityConfig \<Rightarrow> check" where
  "validateSecurity parse s =
     (let a = sec_Auth s in first_err
       [chk (auc_Type a \<notin> set validAuthTypes \<and> auc_Type a \<noteq> []) ''security.auth.type'',
        (if auc_Type a = ''jwt'' then jwt_check parse a else None),
        (if oic_Enabled (auc_OIDC a) then introspection_check parse (auc_OIDC a) else None),
        each (\<lambda>i e. chk (ip_entry_bad e) (at_index ''security.acl.allow'' i)) (acl_Allow (sec_ACL s)),
        each (\<lambda>i e. chk (ip_entry_bad e) (at_index ''security.acl.deny'' i)) (acl_Deny (sec_ACL s))])"

definition route_check :: "url_parts \<Rightarrow> string \<Rightarrow> routeConfig \<Rightarrow> check" where
  "route_check parse label r = first_err
     [chk (rtc_Algorithm r \<notin> set validAlgorithms) (label @ '' unknown algorithm''),
      chk (rtc_Backends r = []) (label @ '' must have at least one backend''),
      each (\<lambda>j b. let l = at_index (label @ '' backend'') j in
        first_err [backend_base_check parse l b, backend_tier_check l b]) (rtc_Backends r),
      hash_check (rtc_ConsistentHash r) (label @ '' '')]"

fun routes_from :: "url_parts \<Rightarrow> nat \<Rightarrow> string list \<Rightarrow> routeConfig list \<Rightarrow> check" where
  "routes_from parse i seen [] = None"
| "routes_from parse i seen (r # rs) =
     (if rtc_Name r \<noteq> [] \<and> rtc_Name r \<in> set seen then Some (at_index ''routes'' i @ '' duplicate name'')
      else case route_check parse (if rtc_Name r \<noteq> [] then ''route '' @ rtc_Name r else at_index ''routes'' i) r of
             Some e \<Rightarrow> Some e
           | None \<Rightarrow> routes_from parse (Suc i) (if rtc_Name r \<noteq> [] then rtc_Name r # seen else seen) rs)"

definition validateRoutes :: "url_parts \<Rightarrow> routeConfig list \<Rightarrow> check" where
  "validateRoutes parse rs = routes_from parse 0 [] rs"

definition validateTracing :: "tracingConfig \<Rightarrow> check" where
  "validateTracing t = chk (trc_SampleRate t < 0 \<or> trc_SampleRate t > 1) ''tracing.sample_rate''"

text \<open>The checks of the server, backends and load balancer, then of the rest, in the order of \<open>validate\<close>.\<close>

definition validate_front :: "url_parts \<Rightarrow> config \<Rightarrow> check" where
  "validate_front parse c =
     (let s = c_Server c; lb = c_LoadBalancer c in first_err
       [chk (c_Backends c = []) ''at least one backend is required'',
        chk (port_bad (svc_Port s)) ''server.port'', chk (svc_WatchInterval s < 0) ''server.watch_interval'',
        validateUpstream (svc_Upstream s), validateL4 (svc_L4 s), validateWebSocket (svc_WebSocket s),
        chk (lbc_Algorithm lb \<notin> set validAlgorithms) ''load_balancer.algorithm'',
        each (\<lambda>i b. backend_base_check parse (at_index ''backend'' i) b) (c_Backends c),
        validateRateLimiter (c_RateLimiter c),
        chk (mec_Enabled (c_Metrics c) \<and> port_bad (mec_Port (c_Metrics c))) ''metrics.port'',
        chk (ghc_Enabled (lbc_GRPCHealth lb) \<and> port_bad (ghc_Port (lbc_GRPCHealth lb))) ''load_balancer.grpc_health.port'',
        hash_check (lbc_ConsistentHash lb) ''load_balancer.'',
        chk (st_TTL (lbc_Sticky lb) < 0) ''load_balancer.sticky.ttl'',
        chk (lbc_SlowStart lb < 0) ''load_balancer.slow_start'',
        validateOutlier (lbc_OutlierDetection lb)])"

definition validate :: "url_parts \<Rightarrow> config \<Rightarrow> check" where
  "validate parse c = first_err
     [validate_front parse c,
      each (\<lambda>i b. backend_tier_check (at_index ''backend'' i) b) (c_Backends c),
      validateHealthCheck (lbc_HealthCheck (c_LoadBalancer c)) ''load_balancer.health_check'',
      validateCircuitBreaker (c_CircuitBreaker c), validateRetry (c_Retry c),
      validateTLS parse (c_TLS c), validateHTTP3 (svc_HTTP3 (c_Server c)) (tls_Enabled (c_TLS c)),
      validateSecurity parse (c_Security c), validateRoutes parse (c_Routes c), validateCanary parse (c_Canary c),
      validateMirror parse (c_Mirror c), validateFaultInjection (c_FaultInjection c), validateCache (c_Cache c),
      validateDiscovery (c_DNS c), validateTracing (c_Tracing c)]"

text \<open>What \<open>Load\<close> makes of the decoded file, and the check of the result.\<close>

definition loaded :: "(string \<Rightarrow> string option) \<Rightarrow> config \<Rightarrow> config" where
  "loaded env raw =
     (let c1 = expand_config env (raw\<lparr>c_Vault := vault_defaults env (c_Vault raw)\<rparr>);
          c2 = applyEnvOverrides env (apply_defaults c1)
      in c2\<lparr>c_RateLimiter := applyRateLimiterDefaults (c_RateLimiter c2)\<rparr>)"

definition Load :: "url_parts \<Rightarrow> (string \<Rightarrow> string option) \<Rightarrow> config \<Rightarrow> string + config" where
  "Load parse env raw =
     (case validate parse (loaded env raw) of Some e \<Rightarrow> Inl e | None \<Rightarrow> Inr (loaded env raw))"

section \<open>What a loaded configuration satisfies\<close>

lemma first_err_None [simp]: "first_err cs = None \<longleftrightarrow> (\<forall>c \<in> set cs. c = None)"
  by (induction cs) (auto split: option.splits)

declare first_err.simps [simp del]

lemma chk_None [simp]: "chk bad e = None \<longleftrightarrow> \<not> bad"
  by (simp add: chk_def)

lemma each_None: "each f xs = None \<longleftrightarrow> (\<forall>i < length xs. f i (xs ! i) = None)"
  unfolding each_def first_err_None all_set_conv_all_nth by (simp add: nth_enumerate_eq)

lemma each_const: "each (\<lambda>i. f) xs = None \<longleftrightarrow> (\<forall>x \<in> set xs. f x = None)"
  by (simp add: each_None all_set_conv_all_nth)

lemma each_each:
  assumes "each f xs = None" and "\<And>i x. x \<in> set xs \<Longrightarrow> f i x = None \<Longrightarrow> P x"
  shows "\<forall>x \<in> set xs. P x"
proof
  fix x assume x: "x \<in> set xs"
  then obtain i where "i < length xs" "xs ! i = x" by (auto simp: in_set_conv_nth)
  then show "P x" using assms(1) assms(2)[OF x, of i] by (auto simp: each_None)
qed

text \<open>
  The values the components are built from.  The defaults matter as much as the checks: a weight, a capacity, a
  jitter or a number of ring replicas of zero passes the check but cannot be left after the defaults.
\<close>

definition port_ok :: "int \<Rightarrow> bool" where
  "port_ok p \<longleftrightarrow> 1 \<le> p \<and> p \<le> 65535"

definition web_url :: "url_parts \<Rightarrow> string \<Rightarrow> bool" where
  "web_url parse u = (case parse u of None \<Rightarrow> False | Some (scheme, host) \<Rightarrow> scheme \<in> {''http'', ''https''} \<and> host \<noteq> [])"

definition health_ok :: "hc_config \<Rightarrow> bool" where
  "health_ok h \<longleftrightarrow> 0 < hk_Jitter h \<and> hk_Jitter h \<le> 1 \<and> hk_Type h \<in> {''http'', ''tcp''} \<and> hk_Method h \<noteq> [] \<and>
     1 \<le> hk_HealthyThreshold h \<and> 1 \<le> hk_UnhealthyThreshold h \<and> (\<forall>s \<in> set (hk_ExpectedStatuses h). 100 \<le> s \<and> s \<le> 599)"

definition backend_ok :: "url_parts \<Rightarrow> backendConfig \<Rightarrow> bool" where
  "backend_ok parse b \<longleftrightarrow> web_url parse (bkc_URL b) \<and> 1 \<le> bkc_Weight b \<and> 1 \<le> bkc_MaxConns b \<and> 0 \<le> bkc_Tier b \<and>
     pred_option health_ok (bkc_HealthCheck b)"

definition pool_ok :: "url_parts \<Rightarrow> string \<Rightarrow> consistentHashConfig \<Rightarrow> backendConfig list \<Rightarrow> bool" where
  "pool_ok parse alg h bs \<longleftrightarrow> alg \<in> set validAlgorithms \<and> 1 \<le> chc_Replicas h \<and> 1 \<le> chc_LoadFactor h \<and>
     (\<forall>b \<in> set bs. backend_ok parse b)"

definition breaker_ok :: "circuitBreakerConfig \<Rightarrow> bool" where
  "breaker_ok cb \<longleftrightarrow> cbc_Mode cb \<in> {''consecutive'', ''rolling''} \<and> 0 < cbc_RollingWindow cb \<and> 0 < cbc_ErrorRateThreshold cb \<and>
     cbc_ErrorRateThreshold cb \<le> 1 \<and> 0 < cbc_MinRequests cb \<and> cbc_TripOn cb \<noteq> [] \<and>
     set (cbc_TripOn cb) \<subseteq> {''connect'', ''timeout'', ''5xx''}"

definition retry_ok :: "retryConfig \<Rightarrow> bool" where
  "retry_ok r \<longleftrightarrow> 0 \<le> rc_Budget r \<and> 0 \<le> rc_HedgeDelay r \<and> rc_RetryOn r \<noteq> [] \<and> set (rc_RetryOn r) \<subseteq> {''connect'', ''timeout''} \<and>
     (rc_HedgeEnabled r \<longrightarrow> 1 \<le> rc_HedgeMaxExtra r)"

definition limits_ok :: "rateLimiterConfig \<Rightarrow> bool" where
  "limits_ok rl \<longleftrightarrow> rlc_Algorithm rl \<in> {''token_bucket'', ''gcra''} \<and> 1 \<le> rlc_RetryAfterSeconds rl \<and>
     (rlc_Key rl = ''ip'' \<or> (\<exists>n. n \<noteq> [] \<and> rlc_Key rl = ''header:'' @ n)) \<and>
     (\<forall>e \<in> set (rlc_Allowlist rl). \<not> ip_entry_bad e) \<and>
     (rlc_Enabled rl \<longrightarrow> 0 < rlc_RequestsPerSecond rl \<and> 0 < rlc_GlobalRPS rl \<and>
        (\<forall>x \<in> set (rlc_Rules rl). 0 < rule_RPS x \<and> 0 < rule_Burst x))"

definition server_ok :: "serverConfig \<Rightarrow> bool" where
  "server_ok s \<longleftrightarrow> port_ok (svc_Port s) \<and> 0 < svc_ShutdownTimeout s \<and> 0 < svc_ReadHeaderTimeout s \<and> 0 < svc_MaxHeaderBytes s \<and>
     0 \<le> svc_WatchInterval s \<and> (svc_WatchConfig s \<longrightarrow> 0 < svc_WatchInterval s) \<and>
     (0 < svc_MaxInflightQueue s \<longrightarrow> 0 < svc_QueueTimeout s) \<and> 0 < up_DialTimeout (svc_Upstream s) \<and>
     0 < up_ResponseHeaderTimeout (svc_Upstream s) \<and> 0 < up_MaxIdleConns (svc_Upstream s) \<and>
     0 < l4_DialTimeout (svc_L4 s) \<and> (l4_Enabled (svc_L4 s) \<longrightarrow> port_ok (l4_Port (svc_L4 s))) \<and>
     (h3_Enabled (svc_HTTP3 s) \<longrightarrow> port_ok (h3_Port (svc_HTTP3 s)))"

definition security_ok :: "url_parts \<Rightarrow> securityConfig \<Rightarrow> bool" where
  "security_ok parse s \<longleftrightarrow> (\<forall>e \<in> set (acl_Allow (sec_ACL s)) \<union> set (acl_Deny (sec_ACL s)). \<not> ip_entry_bad e) \<and>
     (auc_Type (sec_Auth s) = ''jwt'' \<longrightarrow> auc_JWTAlg (sec_Auth s) = ''HS256'' \<and> auc_JWTSecret (sec_Auth s) \<noteq> [] \<or>
        auc_JWTAlg (sec_Auth s) = ''RS256'' \<and> (auc_JWTPublicKey (sec_Auth s) = []) \<noteq> (auc_JWKSURL (sec_Auth s) = []))"

definition config_ok :: "url_parts \<Rightarrow> config \<Rightarrow> bool" where
  "config_ok parse c \<longleftrightarrow>
     server_ok (c_Server c) \<and> c_Backends c \<noteq> [] \<and>
     pool_ok parse (lbc_Algorithm (c_LoadBalancer c)) (lbc_ConsistentHash (c_LoadBalancer c)) (c_Backends c) \<and>
     health_ok (lbc_HealthCheck (c_LoadBalancer c)) \<and>
     (\<forall>r \<in> set (c_Routes c). rtc_Backends r \<noteq> [] \<and> pool_ok parse (rtc_Algorithm r) (rtc_ConsistentHash r) (rtc_Backends r)) \<and>
     distinct (filter (\<lambda>n. n \<noteq> []) (map rtc_Name (c_Routes c))) \<and>
     pool_ok parse (cac_Algorithm (c_Canary c)) (cac_ConsistentHash (c_Canary c)) (cac_Backends (c_Canary c)) \<and>
     (cac_Enabled (c_Canary c) \<longrightarrow> cac_Backends (c_Canary c) \<noteq> []) \<and>
     breaker_ok (c_CircuitBreaker c) \<and> retry_ok (c_Retry c) \<and> limits_ok (c_RateLimiter c) \<and> security_ok parse (c_Security c) \<and>
     (h3_Enabled (svc_HTTP3 (c_Server c)) \<longrightarrow> tls_Enabled (c_TLS c))"

lemma port_ok_iff [simp]: "\<not> port_bad p \<longleftrightarrow> port_ok p"
  by (auto simp: port_bad_def port_ok_def)

lemma web_url_iff [simp]: "validateHTTPURL parse u l = None \<longleftrightarrow> web_url parse u"
  by (auto simp: validateHTTPURL_def web_url_def split: option.splits)

lemma Second_pos [simp]: "0 < Second" "Second \<noteq> 0" "0 \<le> Second"
  by (simp_all add: Second_def)

lemma dflt_pos: "0 < d \<Longrightarrow> 0 < dflt (v \<le> 0) d (v :: int)" "0 < d \<Longrightarrow> 0 \<le> dflt (v = 0) d v \<Longrightarrow> 0 < dflt (v = 0) d v"
  by (auto simp: dflt_def)

lemma tenth_pos: "0 < round64 (1 / 10)"
  using round64_error[of "1 / 10"] ratio_ge_powi[of 1 10] by (simp add: abs_if split: if_splits)

lemma health_defaults_ok:
  assumes "validateHealthCheck (applyHealthCheckDefaults h) l = None"
  shows "health_ok (applyHealthCheckDefaults h)"
  using assms tenth_pos
  by (auto simp: validateHealthCheck_def health_ok_def each_const applyHealthCheckDefaults_def dflt_def split: if_splits)

definition backend_set :: "backendConfig \<Rightarrow> bool" where
  "backend_set b \<longleftrightarrow> bkc_Weight b \<noteq> 0 \<and> bkc_MaxConns b \<noteq> 0 \<and>
     (\<forall>h. bkc_HealthCheck b = Some h \<longrightarrow> h \<in> range applyHealthCheckDefaults)"

lemma backend_defaults_set [simp]: "backend_set (backend_defaults b)"
  by (auto simp: backend_set_def backend_defaults_def dflt_def)

lemma backend_checks_ok:
  assumes "backend_set b" and "backend_base_check parse l b = None" and "backend_tier_check l' b = None"
  shows "backend_ok parse b"
  using assms health_defaults_ok
  by (auto simp: backend_set_def backend_ok_def backend_base_check_def backend_tier_check_def pred_option_def split: option.splits)

lemma hash_defaults_ok:
  "hash_check (hash_defaults h) l = None \<Longrightarrow> 1 \<le> chc_Replicas (hash_defaults h) \<and> 1 \<le> chc_LoadFactor (hash_defaults h)"
  by (auto simp: hash_check_def hash_defaults_def dflt_def split: if_splits)

lemma pool_checks_ok:
  assumes "alg \<in> set validAlgorithms" and "hash_check (hash_defaults h) l = None"
    and "each (\<lambda>i b. let l = L i in first_err [backend_base_check parse l b, backend_tier_check l b]) (map backend_defaults bs) = None"
  shows "pool_ok parse alg (hash_defaults h) (map backend_defaults bs)"
proof -
  have "\<forall>b \<in> set (map backend_defaults bs). backend_ok parse b"
    by (rule each_each[OF assms(3)]) (auto simp: Let_def intro: backend_checks_ok)
  then show ?thesis using assms(1) hash_defaults_ok[OF assms(2)] by (simp add: pool_ok_def)
qed

lemma route_defaults_ok:
  assumes "route_check parse l (route_defaults r) = None"
  shows "rtc_Backends (route_defaults r) \<noteq> [] \<and>
    pool_ok parse (rtc_Algorithm (route_defaults r)) (rtc_ConsistentHash (route_defaults r)) (rtc_Backends (route_defaults r))"
  using assms pool_checks_ok[where parse = parse and bs = "rtc_Backends r" and h = "rtc_ConsistentHash r" and l = "l @ '' ''"
      and L = "at_index (l @ '' backend'')" and alg = "rtc_Algorithm (route_defaults r)"]
  by (simp add: route_check_def route_defaults_def)

lemma routes_from_ok:
  "routes_from parse i seen rs = None \<Longrightarrow>
     (\<forall>r \<in> set rs. \<exists>l. route_check parse l r = None) \<and> distinct (filter (\<lambda>n. n \<noteq> []) (map rtc_Name rs)) \<and>
     set (filter (\<lambda>n. n \<noteq> []) (map rtc_Name rs)) \<inter> set seen = {}"
proof (induction parse i seen rs rule: routes_from.induct)
  case (2 parse i seen r rs)
  let ?l = "if rtc_Name r \<noteq> [] then ''route '' @ rtc_Name r else at_index ''routes'' i"
  have c: "route_check parse ?l r = None" and n: "rtc_Name r = [] \<or> rtc_Name r \<notin> set seen"
    and rest: "routes_from parse (Suc i) (if rtc_Name r \<noteq> [] then rtc_Name r # seen else seen) rs = None"
    using "2.prems" by (auto split: if_splits option.splits)
  have ih: "(\<forall>r \<in> set rs. \<exists>l. route_check parse l r = None) \<and> distinct (filter (\<lambda>n. n \<noteq> []) (map rtc_Name rs)) \<and>
     set (filter (\<lambda>n. n \<noteq> []) (map rtc_Name rs)) \<inter> set (if rtc_Name r \<noteq> [] then rtc_Name r # seen else seen) = {}"
    using "2.IH" n c rest by auto
  show ?case using ih c n by (auto split: if_splits)
qed simp

lemma canary_defaults_ok:
  assumes "validateCanary parse (applyCanaryDefaults c) = None"
  shows "pool_ok parse (cac_Algorithm (applyCanaryDefaults c)) (cac_ConsistentHash (applyCanaryDefaults c))
           (cac_Backends (applyCanaryDefaults c)) \<and>
         (cac_Enabled (applyCanaryDefaults c) \<longrightarrow> cac_Backends (applyCanaryDefaults c) \<noteq> [])"
  using assms pool_checks_ok[where parse = parse and bs = "cac_Backends c" and h = "cac_ConsistentHash c" and l = "''canary.''"
      and L = "at_index ''canary.backend''" and alg = "cac_Algorithm (applyCanaryDefaults c)"]
  by (simp add: validateCanary_def applyCanaryDefaults_def)

lemma breaker_defaults_ok:
  "validateCircuitBreaker (applyCircuitBreakerDefaults cb) = None \<Longrightarrow> breaker_ok (applyCircuitBreakerDefaults cb)"
  by (auto simp: validateCircuitBreaker_def applyCircuitBreakerDefaults_def breaker_ok_def dflt_def each_const
        validFailureClasses_def split: if_splits)

lemma retry_defaults_ok: "validateRetry (applyRetryDefaults r) = None \<Longrightarrow> retry_ok (applyRetryDefaults r)"
  by (auto simp: validateRetry_def applyRetryDefaults_def retry_ok_def dflt_def each_const validRetryClasses_def split: if_splits)

lemma HasPrefix_split: "HasPrefix k p \<Longrightarrow> k = p @ TrimPrefix k p"
  unfolding TrimPrefix_def HasPrefix_def by (metis append_take_drop_id)

lemma header_key: "HasPrefix k ''header:'' \<Longrightarrow> TrimPrefix k ''header:'' \<noteq> [] \<Longrightarrow> \<exists>n. n \<noteq> [] \<and> k = ''header:'' @ n"
  using HasPrefix_split by blast

lemma limits_defaults_ok:
  assumes "validateRateLimiter (applyRateLimiterDefaults rl) = None"
  shows "limits_ok (applyRateLimiterDefaults rl)"
proof -
  let ?r = "applyRateLimiterDefaults rl"
  have key: "rlc_Key ?r = ''ip'' \<or> (\<exists>n. n \<noteq> [] \<and> rlc_Key ?r = ''header:'' @ n)"
    using assms header_key[of "rlc_Key ?r"] by (auto simp: validateRateLimiter_def)
  have allow: "\<forall>e \<in> set (rlc_Allowlist ?r). \<not> ip_entry_bad e"
    by (rule each_each[where f = "\<lambda>i e. chk (ip_entry_bad e) (at_index ''rate_limiter.allowlist'' i)"])
      (use assms in \<open>auto simp: validateRateLimiter_def\<close>)
  have rules: "\<forall>x \<in> set (rlc_Rules ?r). 0 < rule_RPS x \<and> 0 < rule_Burst x" if "rlc_Enabled ?r"
    by (rule each_each[where f = "\<lambda>i x. first_err [chk (rule_RPS x \<le> 0) (at_index ''rate_limiter.rules'' i @ ''.rps''),
          chk (rule_Burst x \<le> 0) (at_index ''rate_limiter.rules'' i @ ''.burst'')]"])
      (use assms that in \<open>auto simp: validateRateLimiter_def\<close>)
  have rps: "rlc_Enabled ?r \<Longrightarrow> 0 < rlc_RequestsPerSecond ?r" "rlc_Algorithm ?r \<in> {''token_bucket'', ''gcra''}"
    using assms by (auto simp: validateRateLimiter_def validRateLimitAlgorithms_def)
  have "1 \<le> rlc_RetryAfterSeconds ?r" "rlc_Enabled ?r \<Longrightarrow> 0 < rlc_GlobalRPS ?r"
    using rps(1) by (auto simp: applyRateLimiterDefaults_def dflt_def)
  then show ?thesis using key allow rules rps by (simp add: limits_ok_def)
qed

lemma security_checks_ok:
  assumes "validateSecurity parse s = None"
  shows "security_ok parse s"
proof -
  have "\<forall>e \<in> set (acl_Allow (sec_ACL s)). \<not> ip_entry_bad e"
    by (rule each_each[where f = "\<lambda>i e. chk (ip_entry_bad e) (at_index ''security.acl.allow'' i)"])
      (use assms in \<open>auto simp: validateSecurity_def Let_def\<close>)
  moreover have "\<forall>e \<in> set (acl_Deny (sec_ACL s)). \<not> ip_entry_bad e"
    by (rule each_each[where f = "\<lambda>i e. chk (ip_entry_bad e) (at_index ''security.acl.deny'' i)"])
      (use assms in \<open>auto simp: validateSecurity_def Let_def\<close>)
  moreover have "auc_Type (sec_Auth s) = ''jwt'' \<Longrightarrow> jwt_check parse (sec_Auth s) = None"
    using assms by (simp add: validateSecurity_def Let_def)
  ultimately show ?thesis by (auto simp: security_ok_def jwt_check_def split: if_splits)
qed

lemmas load_defs = loaded_def Let_def applyEnvOverrides_def apply_defaults_def expand_config_def on_auth_def

lemma loaded_sections:
  "c_LoadBalancer (loaded env raw) = lb_defaults (c_LoadBalancer raw)"
  "c_Routes (loaded env raw) = map route_defaults (c_Routes raw)"
  "c_Canary (loaded env raw) = applyCanaryDefaults (c_Canary raw)"
  "c_CircuitBreaker (loaded env raw) = applyCircuitBreakerDefaults (c_CircuitBreaker raw)"
  "c_Retry (loaded env raw) = applyRetryDefaults (c_Retry raw)"
  by (simp_all add: load_defs)

lemma loaded_limits: "\<exists>rl. c_RateLimiter (loaded env raw) = applyRateLimiterDefaults rl"
  by (auto simp: load_defs)

lemma loaded_backends: "b \<in> set (c_Backends (loaded env raw)) \<Longrightarrow> backend_set b"
  by (auto simp: load_defs override_def env_backends_def backend_set_def backend_defaults_def dflt_def
      split: option.splits if_splits)

lemma loaded_server:
  "\<exists>host port. c_Server (loaded env raw) = (server_defaults (c_Server raw))\<lparr>svc_Host := host, svc_Port := port\<rparr>"
  by (auto simp: load_defs)

lemma server_checks_ok:
  assumes "validate_front parse c = None" and "validateHTTP3 (svc_HTTP3 (c_Server c)) tls = None"
    and "c_Server c = (server_defaults s)\<lparr>svc_Host := host, svc_Port := port\<rparr>"
  shows "server_ok (c_Server c)"
proof -
  have chk: "port_ok (svc_Port (c_Server c))" "0 \<le> svc_WatchInterval (c_Server c)" "validateUpstream (svc_Upstream (c_Server c)) = None"
    "validateL4 (svc_L4 (c_Server c)) = None" "h3_Enabled (svc_HTTP3 (c_Server c)) \<Longrightarrow> port_ok (h3_Port (svc_HTTP3 (c_Server c)))"
    using assms(1, 2) by (auto simp: validate_front_def Let_def validateHTTP3_def split: if_splits)
  have up: "0 < up_DialTimeout (svc_Upstream (c_Server c))" "0 < up_ResponseHeaderTimeout (svc_Upstream (c_Server c))"
    "0 < up_MaxIdleConns (svc_Upstream (c_Server c))"
    using chk(3) by (simp_all add: assms(3) validateUpstream_def server_defaults_def Let_def applyUpstreamDefaults_def dflt_pos not_less)
  have l4: "0 < l4_DialTimeout (svc_L4 (c_Server c))" "l4_Enabled (svc_L4 (c_Server c)) \<Longrightarrow> port_ok (l4_Port (svc_L4 (c_Server c)))"
    using chk(4) by (simp_all add: assms(3) validateL4_def server_defaults_def Let_def applyL4Defaults_def dflt_pos not_less)
  have "0 < svc_ShutdownTimeout (c_Server c) \<and> 0 < svc_ReadHeaderTimeout (c_Server c) \<and> 0 < svc_MaxHeaderBytes (c_Server c) \<and>
     (svc_WatchConfig (c_Server c) \<longrightarrow> 0 < svc_WatchInterval (c_Server c)) \<and>
     (0 < svc_MaxInflightQueue (c_Server c) \<longrightarrow> 0 < svc_QueueTimeout (c_Server c))"
    by (simp add: assms(3) server_defaults_def Let_def dflt_pos)
  then show ?thesis using chk up l4 by (simp add: server_ok_def)
qed

lemma algorithms_known: "name \<in> set validAlgorithms \<longleftrightarrow> fst (NewByAlgorithm mexp a name n f s) \<noteq> None"
  by (auto simp: validAlgorithms_def NewByAlgorithm_def)

lemma validate_parts:
  assumes "validate parse c = None"
  shows "validate_front parse c = None" "each (\<lambda>i b. backend_tier_check (at_index ''backend'' i) b) (c_Backends c) = None"
    "validateHealthCheck (lbc_HealthCheck (c_LoadBalancer c)) ''load_balancer.health_check'' = None"
    "validateCircuitBreaker (c_CircuitBreaker c) = None" "validateRetry (c_Retry c) = None"
    "validateHTTP3 (svc_HTTP3 (c_Server c)) (tls_Enabled (c_TLS c)) = None"
    "validateSecurity parse (c_Security c) = None" "validateRoutes parse (c_Routes c) = None" "validateCanary parse (c_Canary c) = None"
  using assms by (simp_all add: validate_def)

lemma front_parts:
  assumes "validate_front parse c = None"
  shows "c_Backends c \<noteq> []" "lbc_Algorithm (c_LoadBalancer c) \<in> set validAlgorithms" "validateRateLimiter (c_RateLimiter c) = None"
    "hash_check (lbc_ConsistentHash (c_LoadBalancer c)) ''load_balancer.'' = None"
    "each (\<lambda>i b. backend_base_check parse (at_index ''backend'' i) b) (c_Backends c) = None"
  using assms by (simp_all add: validate_front_def Let_def)

lemma top_pool_ok:
  assumes "validate parse (loaded env raw) = None"
  shows "pool_ok parse (lbc_Algorithm (c_LoadBalancer (loaded env raw))) (lbc_ConsistentHash (c_LoadBalancer (loaded env raw)))
    (c_Backends (loaded env raw))"
proof -
  note v = validate_parts[OF assms] and f = front_parts[OF validate_parts(1)[OF assms]]
  have "backend_ok parse b" if "b \<in> set (c_Backends (loaded env raw))" for b
  proof -
    obtain i where "i < length (c_Backends (loaded env raw))" "c_Backends (loaded env raw) ! i = b"
      using \<open>b \<in> _\<close> by (auto simp: in_set_conv_nth)
    then show ?thesis using f(5) v(2) backend_checks_ok[OF loaded_backends[OF that]] unfolding each_None by blast
  qed
  moreover have "lbc_ConsistentHash (c_LoadBalancer (loaded env raw)) = hash_defaults (lbc_ConsistentHash (c_LoadBalancer raw))"
    by (simp add: loaded_sections lb_defaults_def)
  ultimately show ?thesis using f(2, 4) hash_defaults_ok by (simp add: pool_ok_def)
qed

lemma loaded_ok:
  assumes v: "validate parse (loaded env raw) = None"
  shows "config_ok parse (loaded env raw)"
proof -
  let ?c = "loaded env raw"
  note parts = validate_parts[OF v] and f = front_parts[OF validate_parts(1)[OF v]]
  have server: "server_ok (c_Server ?c)"
    using loaded_server[of env raw] server_checks_ok[OF parts(1) parts(6)] by blast
  have health: "health_ok (lbc_HealthCheck (c_LoadBalancer ?c))"
    using parts(3) health_defaults_ok by (simp add: loaded_sections lb_defaults_def)
  have routes: "\<forall>r \<in> set (c_Routes ?c). rtc_Backends r \<noteq> [] \<and> pool_ok parse (rtc_Algorithm r) (rtc_ConsistentHash r) (rtc_Backends r)"
    "distinct (filter (\<lambda>n. n \<noteq> []) (map rtc_Name (c_Routes ?c)))"
    using routes_from_ok[OF parts(8)[unfolded validateRoutes_def]] route_defaults_ok by (auto simp: loaded_sections)
  have canary: "pool_ok parse (cac_Algorithm (c_Canary ?c)) (cac_ConsistentHash (c_Canary ?c)) (cac_Backends (c_Canary ?c)) \<and>
     (cac_Enabled (c_Canary ?c) \<longrightarrow> cac_Backends (c_Canary ?c) \<noteq> [])"
    using parts(9) canary_defaults_ok unfolding loaded_sections by blast
  have rest: "breaker_ok (c_CircuitBreaker ?c)" "retry_ok (c_Retry ?c)" "limits_ok (c_RateLimiter ?c)" "security_ok parse (c_Security ?c)"
    using parts(4, 5) breaker_defaults_ok retry_defaults_ok security_checks_ok[OF parts(7)] f(3) loaded_limits[of env raw]
      limits_defaults_ok by (auto simp: loaded_sections)
  have "h3_Enabled (svc_HTTP3 (c_Server ?c)) \<longrightarrow> tls_Enabled (c_TLS ?c)"
    using parts(6) by (auto simp: validateHTTP3_def)
  then show ?thesis using server health routes canary rest f(1) top_pool_ok[OF v] by (simp add: config_ok_def)
qed

lemma Load_Inr: "Load parse env raw = Inr c \<longleftrightarrow> validate parse (loaded env raw) = None \<and> c = loaded env raw"
  by (auto simp: Load_def split: option.splits)


section \<open>The number of attempts is not checked\<close>

definition set_attempts :: "int \<Rightarrow> config \<Rightarrow> config" where
  "set_attempts n c = c\<lparr>c_Retry := (c_Retry c)\<lparr>rc_MaxAttempts := n\<rparr>\<rparr>"

lemma validate_retry_only:
  "validateRetry r = validateRetry (c_Retry c) \<Longrightarrow> validate parse (c\<lparr>c_Retry := r\<rparr>) = validate parse c"
  by (simp add: validate_def validate_front_def)

lemma loaded_set_attempts: "\<exists>h. loaded env (set_attempts n raw) =
    (loaded env raw)\<lparr>c_Retry := (c_Retry (loaded env raw))\<lparr>rc_MaxAttempts := n, rc_HonorRetryAfter := h\<rparr>\<rparr>"
  by (rule exI[of _ "rc_HonorRetryAfter (applyRetryDefaults ((c_Retry raw)\<lparr>rc_MaxAttempts := n\<rparr>))"])
    (simp add: load_defs set_attempts_def applyRetryDefaults_def)

lemma Load_set_attempts:
  assumes "Load parse env raw = Inr c"
  obtains c' where "Load parse env (set_attempts n raw) = Inr c'" "rc_MaxAttempts (c_Retry c') = n"
proof -
  obtain h where h: "loaded env (set_attempts n raw) =
      (loaded env raw)\<lparr>c_Retry := (c_Retry (loaded env raw))\<lparr>rc_MaxAttempts := n, rc_HonorRetryAfter := h\<rparr>\<rparr>"
    using loaded_set_attempts by blast
  have "validate parse (loaded env (set_attempts n raw)) = None"
    using assms unfolding h Load_Inr by (subst validate_retry_only) (auto simp: validateRetry_def)
  then show thesis by (intro that[of "loaded env (set_attempts n raw)"]) (auto simp: Load_Inr h)
qed

lemma attemptBackend_no_attempt:
  assumes "isIdempotent r" "rc_MaxAttempts (pc_retry p) < 0"
  shows "attemptBackend urlParse p B r b ps = ((None, [], False), on_lb (DecrConn b) (ps\<lparr>ps_retryReqs := ps_retryReqs ps + 1\<rparr>))"
  using assms by (simp add: attemptBackend_def)

lemma proxyRequest_no_attempt:
  assumes "isIdempotent r" "rc_MaxAttempts (pc_retry p) < 0" "\<not> hedgeEnabled p" "fst (available b ps)"
  shows "\<exists>ps'. proxyRequest urlParse p B r canary evs b ps = Some ps' \<and> ps_net ps' = ps_net ps \<and> ps_w ps' = ps_w ps"
proof -
  obtain ps1 where av: "available b ps = (True, ps1)" using assms(4) by (cases "available b ps") auto
  have keep: "ps_net ps1 = ps_net ps" "ps_w ps1 = ps_w ps"
    using av by (auto simp: available_def allow_circuit_def Let_def split: if_splits option.splits prod.splits)
  let ?ps2 = "recordCircuit p b [] (observeOutcome B b True (on_lb (DecrConn b) (ps1\<lparr>ps_retryReqs := ps_retryReqs ps1 + 1\<rparr>)))"
  let ?ps3 = "on_lb (DecrConn b) (ps1\<lparr>ps_retryReqs := ps_retryReqs ps1 + 1\<rparr>)"
  have "proxyRequest urlParse p B r canary evs b ps = Some (if ps_panic ps1 then ?ps3 else ?ps2)"
    unfolding proxyRequest_def failover.simps[of urlParse p B r canary b "start_failover ps"]
    using assms(3) by (simp add: try_backend_def start_failover_def av attemptBackend_no_attempt[OF assms(1, 2)] Let_def)
  moreover have "ps_net ?ps2 = ps_net ps" "ps_w ?ps2 = ps_w ps" "ps_net ?ps3 = ps_net ps" "ps_w ?ps3 = ps_w ps"
    by (auto simp: recordCircuit_def observeOutcome_def on_lb_def keep split: option.splits prod.splits)
  ultimately show ?thesis by (cases "ps_panic ps1") auto
qed

text \<open>The check of the configuration does not read \<open>retry.max_attempts\<close>: a file that loads still loads with a negative
  number there, and a proxy built with it, without hedging, answers every idempotent request for an available backend
  without contacting a backend and without writing a response, which the client sees as an empty success.\<close>

lemma negative_attempts_blank:
  assumes "Load parse env raw = Inr c" and "n < 0" and "isIdempotent r"
  shows "\<exists>c'. Load parse env (set_attempts n raw) = Inr c' \<and>
    (\<forall>p ps. pc_retry p = c_Retry c' \<and> \<not> hedgeEnabled p \<and> fst (available b ps) \<longrightarrow>
       (\<exists>ps'. proxyRequest urlParse p B r canary evs b ps = Some ps' \<and> ps_net ps' = ps_net ps \<and> ps_w ps' = ps_w ps))"
proof -
  obtain c' where "Load parse env (set_attempts n raw) = Inr c'" "rc_MaxAttempts (c_Retry c') = n"
    using Load_set_attempts[OF assms(1)] .
  then show ?thesis using proxyRequest_no_attempt[OF assms(3)] assms(2) by metis
qed

end
