(* ===== verification/ConfigDemo.thy ===== *)
theory ConfigDemo
  imports Config ProxyDemo
begin

text \<open>A small configuration that loads, and the properties of the loader at it.\<close>

section \<open>A configuration that loads\<close>

definition demo_health :: hc_config where
  "demo_health = \<lparr>hk_Interval = 0, hk_Timeout = 0, hk_Path = [], hk_Type = [], hk_Method = [], hk_ExpectedStatuses = [],
     hk_ExpectedBody = [], hk_Host = [], hk_Headers = [], hk_HealthyThreshold = 0, hk_UnhealthyThreshold = 0, hk_Jitter = 1 / 2,
     hk_StartupGracePeriod = 0\<rparr>"

definition no_hash :: consistentHashConfig where
  "no_hash = \<lparr>chc_Replicas = 0, chc_LoadFactor = 0\<rparr>"

definition demo_backend :: backendConfig where
  "demo_backend = \<lparr>bkc_URL = ''http://a'', bkc_Weight = 0, bkc_MaxConns = 0, bkc_Zone = [], bkc_Tier = 0, bkc_HealthCheck = None\<rparr>"

definition demo_parts :: url_parts where
  "demo_parts u = (if HasPrefix u ''http://'' then Some (''http'', TrimPrefix u ''http://'') else None)"

definition demo_balancing :: loadBalancerConfig where
  "demo_balancing = \<lparr>lbc_Algorithm = [], lbc_HealthCheck = demo_health, lbc_GRPCHealth = \<lparr>ghc_Enabled = False, ghc_Port = 0, ghc_Reflection = False\<rparr>,
     lbc_ConsistentHash = no_hash, lbc_Sticky = \<lparr>st_Enabled = False, st_Cookie = [], st_TTL = 0\<rparr>, lbc_SlowStart = 0,
     lbc_OutlierDetection = \<lparr>odc_Enabled = False, odc_ErrorRateThreshold = 0, odc_MinRequests = 0, odc_BaseEjection = 0,
       odc_MaxEjectionPercent = 0\<rparr>, lbc_PreferSameZone = False\<rparr>"

definition demo_server :: serverConfig where
  "demo_server = \<lparr>svc_Host = [], svc_Port = 0, svc_ReadHeaderTimeout = 0, svc_MaxHeaderBytes = 0, svc_MaxInflightQueue = 0, svc_QueueTimeout = 0,
     svc_ShutdownTimeout = 0, svc_TrustedProxies = [], svc_Zone = [],
     svc_Upstream = \<lparr>up_DialTimeout = 0, up_TLSHandshakeTimeout = 0, up_ResponseHeaderTimeout = 0, up_ExpectContinueTimeout = 0,
       up_IdleConnTimeout = 0, up_MaxIdleConns = 0, up_MaxIdleConnsPerHost = 0, up_MaxConnsPerHost = 0, up_HTTP2 = False\<rparr>,
     svc_L4 = \<lparr>l4_Enabled = False, l4_Port = 0, l4_DialTimeout = 0\<rparr>, svc_WebSocket = \<lparr>wsc_IdleTimeout = 0, wsc_MaxMessageBytes = 0\<rparr>,
     svc_WatchConfig = False, svc_WatchInterval = 0, svc_HTTP3 = \<lparr>h3_Enabled = False, h3_Port = 0\<rparr>\<rparr>"

definition demo_tls :: tlsConfig where
  "demo_tls = \<lparr>tls_Enabled = False, tls_CertFile = [], tls_KeyFile = [], tls_MinVersion = [], tls_CipherSuites = [], tls_ClientAuth = [],
     tls_ClientCAFile = [], tls_ACME = \<lparr>acm_Enabled = False, acm_Domains = [], acm_CacheDir = [], acm_DirectoryURL = [],
       acm_HTTPChallengePort = 0\<rparr>\<rparr>"

definition demo_breaker :: circuitBreakerConfig where
  "demo_breaker = \<lparr>cbc_FailureThreshold = 0, cbc_SuccessThreshold = 0, cbc_Timeout = 0, cbc_Mode = [], cbc_RollingWindow = 0,
     cbc_ErrorRateThreshold = 0, cbc_MinRequests = 0, cbc_TripOn = [],
     cbc_SharedState = \<lparr>css_SyncInterval = 0, css_KeyPrefix = [], css_KeyTTL = 0\<rparr>\<rparr>"

definition demo_limits :: rateLimiterConfig where
  "demo_limits = \<lparr>rlc_Enabled = False, rlc_RequestsPerSecond = 0, rlc_Burst = 0, rlc_Algorithm = [], rlc_GlobalRPS = 0, rlc_GlobalBurst = 0,
     rlc_Key = [], rlc_RetryAfterSeconds = 0, rlc_Message = [], rlc_Allowlist = [], rlc_Rules = [], rlc_StoreEnabled = False,
     rlc_StoreBackend = [], rlc_StoreKey = [], rlc_RedisAddr = [], rlc_RedisPassword = [], rlc_RedisPrefix = []\<rparr>"

definition demo_attempts :: retryConfig where
  "demo_attempts = \<lparr>rc_MaxAttempts = 0, rc_Backoff = [], rc_MaxBackoff = 0, rc_Budget = 0, rc_PerTryTimeout = 0, rc_HonorRetryAfter = False,
     rc_RetryOn = [], rc_HedgeEnabled = False, rc_HedgeDelay = 0, rc_HedgeMaxExtra = 0\<rparr>"

definition demo_auth :: authConfig where
  "demo_auth = \<lparr>auc_Type = [], auc_Users = [], auc_APIKeys = [], auc_Header = [], auc_JWTSecret = [], auc_JWTAlg = [], auc_JWTPublicKey = [],
     auc_JWKSURL = [], auc_OIDC = \<lparr>oic_Enabled = False, oic_IntrospectionURL = [], oic_ClientID = [], oic_ClientSecret = [],
       oic_CacheTTL = 0, oic_CacheSize = 0\<rparr>\<rparr>"

definition demo_canary :: canaryConfig where
  "demo_canary = \<lparr>cac_Enabled = False, cac_WeightPercent = 0, cac_Algorithm = [], cac_ConsistentHash = no_hash, cac_Backends = [],
     cac_AutoPromote = \<lparr>apc_StepPercent = 0, apc_StepInterval = 0, apc_MaxWeightPercent = 0, apc_ErrorRateThreshold = 0,
       apc_MinRequests = 0\<rparr>\<rparr>"

definition demo_config :: "headersConfig \<Rightarrow> corsConfig \<Rightarrow> config" where
  "demo_config h0 co = \<lparr>c_Server = demo_server, c_TLS = demo_tls, c_Backends = [demo_backend], c_LoadBalancer = demo_balancing,
     c_CircuitBreaker = demo_breaker, c_RateLimiter = demo_limits, c_Retry = demo_attempts, c_LogLevel = [],
     c_Metrics = \<lparr>mec_Enabled = False, mec_Port = 0, mec_Host = []\<rparr>,
     c_Tracing = \<lparr>trc_Exporter = [], trc_Endpoint = [], trc_SampleRate = 0, trc_ServiceName = []\<rparr>,
     c_Security = \<lparr>sec_Headers = h0, sec_CORS = co,
       sec_ACL = \<lparr>acl_Allow = [], acl_Deny = [], acl_Methods = [], acl_BlockedPaths = []\<rparr>, sec_Auth = demo_auth\<rparr>,
     c_Routes = [\<lparr>rtc_Name = ''api'', rtc_Host = [], rtc_PathPrefix = ''/api'', rtc_Methods = [], rtc_Headers = [],
       rtc_Algorithm = ''p2c'', rtc_ConsistentHash = no_hash, rtc_Backends = [demo_backend]\<rparr>],
     c_Canary = demo_canary, c_Mirror = \<lparr>mic_Enabled = False, mic_URL = [], mic_SamplePercent = 0, mic_Timeout = 0\<rparr>,
     c_FaultInjection = \<lparr>fac_Enabled = False, fac_DelayPercent = 0, fac_Delay = 0, fac_AbortPercent = 0, fac_AbortStatus = 0\<rparr>,
     c_Cache = \<lparr>cfc_Enabled = False, cfc_DefaultTTL = 0, cfc_MaxEntries = 0, cfc_MaxBodyBytes = 0, cfc_Methods = []\<rparr>,
     c_DNS = [], c_Vault = \<lparr>vac_Addr = [], vac_Token = [], vac_MountPath = [], vac_AuthMethod = []\<rparr>\<rparr>"

lemmas demo_defs = demo_config_def demo_server_def demo_tls_def demo_backend_def demo_balancing_def demo_breaker_def demo_limits_def
  demo_attempts_def demo_auth_def demo_canary_def no_hash_def demo_health_def

lemmas default_defs = dflt_def server_defaults_def applyUpstreamDefaults_def applyL4Defaults_def lb_defaults_def hash_defaults_def
  applyHealthCheckDefaults_def applyGRPCHealthDefaults_def backend_defaults_def route_defaults_def applyCanaryDefaults_def
  applyFaultDefaults_def tls_defaults_def auth_defaults_def applyCircuitBreakerDefaults_def applyRetryDefaults_def
  applyTracingDefaults_def applyRateLimiterDefaults_def applyCacheDefaults_def override_def

lemma demo_expand: "Expand Map.empty ''http://a'' = ''http://a''" "Expand Map.empty [] = []"
  by (rule Expand_plain, simp)+

lemma demo_url: "web_url demo_parts ''http://a''"
  by (simp add: web_url_def demo_parts_def HasPrefix_def TrimPrefix_def)

lemma demo_front: "validate_front demo_parts (loaded Map.empty (demo_config h0 co)) = None"
  by (simp add: validate_front_def Let_def load_defs demo_defs not_less default_defs demo_expand demo_url each_None backend_base_check_def
      validateUpstream_def validateL4_def validateWebSocket_def validateRateLimiter_def validAlgorithms_def
      validRateLimitAlgorithms_def port_ok_def hash_check_def validateOutlier_def)

lemma routes_one: "rtc_Name r \<noteq> [] \<Longrightarrow> routes_from parse i [] [r] = route_check parse (''route '' @ rtc_Name r) r"
  by (simp split: option.splits)

lemma demo_route: "validateRoutes demo_parts (c_Routes (loaded Map.empty (demo_config h0 co))) = None"
  unfolding validateRoutes_def loaded_sections
  by (simp add: demo_defs route_defaults_def dflt_def routes_one del: routes_from.simps)
    (simp add: Let_def default_defs demo_url each_None route_check_def backend_tier_check_def backend_base_check_def hash_check_def
      validAlgorithms_def)

lemma demo_security: "validateSecurity demo_parts (c_Security (loaded Map.empty (demo_config h0 co))) = None"
  by (simp add: validateSecurity_def Let_def load_defs demo_defs default_defs each_None applyOIDCIntrospectionDefaults_def)

lemma demo_valid: "validate demo_parts (loaded Map.empty (demo_config h0 co)) = None"
  unfolding validate_def
  by (simp add: demo_front demo_route demo_security)
    (simp add: Let_def load_defs demo_defs default_defs demo_expand each_None backend_tier_check_def validateHealthCheck_def
      validateCircuitBreaker_def validateRetry_def validateTLS_def validateHTTP3_def validateCanary_def validateMirror_def
      validateFaultInjection_def validateCache_def validateDiscovery_def validateTracing_def validatePercent_def hash_check_def
      validAlgorithms_def validFailureClasses_def validRetryClasses_def validClientAuth_def All_less_Suc)

definition demo_headers :: headersConfig where
  "demo_headers = \<lparr>hc_Enabled = False, hc_HSTS = [], hc_FrameOptions = [], hc_ContentTypeOptions = False, hc_CSP = [], hc_ReferrerPolicy = []\<rparr>"

definition demo_cors :: corsConfig where
  "demo_cors = \<lparr>cors_Enabled = False, cors_AllowOrigins = [], cors_AllowMethods = [], cors_AllowHeaders = [], cors_AllowCredentials = False,
     cors_MaxAge = 0\<rparr>"

lemma demo_Load: "Load demo_parts Map.empty (demo_config demo_headers demo_cors) = Inr (loaded Map.empty (demo_config demo_headers demo_cors))"
  by (simp add: Load_Inr demo_valid)


lemma negative_attempts_blank_witness:
  "\<exists>c p ps'. Load demo_parts Map.empty (set_attempts (- 1) (demo_config demo_headers demo_cors)) = Inr c \<and> pc_retry p = c_Retry c \<and>
    proxyRequest plain_urls p demo_B get_req False [] 0 (demo_state duo None) = Some ps' \<and>
    ps_w ps' = ps_w (demo_state duo None)"
proof -
  have idem: "isIdempotent get_req" by (simp add: isIdempotent_def get_req_def demo_req_def)
  obtain c where c: "Load demo_parts Map.empty (set_attempts (- 1) (demo_config demo_headers demo_cors)) = Inr c"
    and run: "\<And>p ps. pc_retry p = c_Retry c \<and> \<not> hedgeEnabled p \<and> fst (available 0 ps) \<Longrightarrow>
       \<exists>ps'. proxyRequest plain_urls p demo_B get_req False [] 0 ps = Some ps' \<and> ps_net ps' = ps_net ps \<and> ps_w ps' = ps_w ps"
    using negative_attempts_blank[OF demo_Load, of "- 1" get_req 0 plain_urls demo_B False "[]"] idem by auto
  let ?p = "NewProxy demo_B (c_Retry c) [] demo_upstream"
  have "c_Retry c = applyRetryDefaults (demo_attempts\<lparr>rc_MaxAttempts := - 1\<rparr>)"
    using c by (simp add: Load_Inr loaded_sections set_attempts_def demo_config_def)
  then have "\<not> hedgeEnabled ?p" "pc_retry ?p = c_Retry c"
    by (simp_all add: hedgeEnabled_def NewProxy_def applyRetryDefaults_def dflt_def demo_attempts_def)
  moreover have "fst (available 0 (demo_state duo None))"
    by (simp add: available_def allow_circuit_def atCapacity_def demo_state_def duo_def BB_Add_def start_heap_def NewBackend_def
        duo_cfg_def)
  ultimately show ?thesis using run[of ?p "demo_state duo None"] c by blast
qed

end
