(* ===== verification/Admission.thy ===== *)
theory Admission
  imports GoTime
begin

text \<open>
  \<open>internal/middleware/admission.go\<close>: the limit on requests in flight.  Requests run concurrently, so the handler
  is a transition relation: a step is one operation on the semaphore channel or on the queue counter by one
  request.  The timer and the client may end a wait at any moment.  (With \<open>maxRequests\<close>
  not positive the middleware is the handler itself.)
\<close>

section \<open>Steps\<close>

datatype answer = Served | Rejected string | Gone

text \<open>\<open>Serving True\<close> and \<open>Leaving\<close> are the points where the deferred decrement of the queue counter is still to come.\<close>

datatype phase = Arriving | Enqueuing | Waiting | Serving bool | Leaving answer | Returned answer

record admission =
  ad_sem :: int
  ad_queued :: int
  ad_limited :: nat
  ad_phase :: "nat \<Rightarrow> phase"

record admission_config =
  ac_maxRequests :: int
  ac_maxQueue :: int
  ac_queueTimeout :: duration
  ac_metrics :: bool

definition NewAdmission :: admission where
  "NewAdmission = \<lparr>ad_sem = 0, ad_queued = 0, ad_limited = 0, ad_phase = (\<lambda>_. Arriving)\<rparr>"

definition go_to :: "nat \<Rightarrow> phase \<Rightarrow> admission \<Rightarrow> admission" where
  "go_to r p s = s\<lparr>ad_phase := (ad_phase s)(r := p)\<rparr>"

definition acquire :: "admission \<Rightarrow> admission" where
  "acquire s = s\<lparr>ad_sem := ad_sem s + 1\<rparr>"

definition release :: "admission \<Rightarrow> admission" where
  "release s = s\<lparr>ad_sem := ad_sem s - 1\<rparr>"

definition add_queued :: "int \<Rightarrow> admission \<Rightarrow> admission" where
  "add_queued d s = s\<lparr>ad_queued := ad_queued s + d\<rparr>"

definition count_limited :: "admission_config \<Rightarrow> admission \<Rightarrow> admission" where
  "count_limited cfg s = (if ac_metrics cfg then s\<lparr>ad_limited := ad_limited s + 1\<rparr> else s)"

inductive adm_step :: "admission_config \<Rightarrow> admission \<Rightarrow> admission \<Rightarrow> bool" for cfg where
  fast: "ad_phase s r = Arriving \<Longrightarrow> ad_sem s < ac_maxRequests cfg \<Longrightarrow> adm_step cfg s (go_to r (Serving False) (acquire s))"
| busy: "ad_phase s r = Arriving \<Longrightarrow> \<not> ad_sem s < ac_maxRequests cfg \<Longrightarrow> ac_maxQueue cfg \<le> 0 \<or> ac_queueTimeout cfg \<le> 0 \<Longrightarrow>
    adm_step cfg s (go_to r (Returned (Rejected ''service unavailable: too many requests in flight'')) (count_limited cfg s))"
| slow: "ad_phase s r = Arriving \<Longrightarrow> \<not> ad_sem s < ac_maxRequests cfg \<Longrightarrow> \<not> (ac_maxQueue cfg \<le> 0 \<or> ac_queueTimeout cfg \<le> 0) \<Longrightarrow>
    adm_step cfg s (go_to r Enqueuing s)"
| queue_full: "ad_phase s r = Enqueuing \<Longrightarrow> ad_queued s + 1 > ac_maxQueue cfg \<Longrightarrow>
    adm_step cfg s (go_to r (Leaving (Rejected ''service unavailable: request queue full'')) (count_limited cfg (add_queued 1 s)))"
| enqueue: "ad_phase s r = Enqueuing \<Longrightarrow> \<not> ad_queued s + 1 > ac_maxQueue cfg \<Longrightarrow> adm_step cfg s (go_to r Waiting (add_queued 1 s))"
| slot: "ad_phase s r = Waiting \<Longrightarrow> ad_sem s < ac_maxRequests cfg \<Longrightarrow> adm_step cfg s (go_to r (Serving True) (acquire s))"
| timed_out: "ad_phase s r = Waiting \<Longrightarrow>
    adm_step cfg s (go_to r (Leaving (Rejected ''service unavailable: timed out waiting for slot'')) (count_limited cfg s))"
| gone: "ad_phase s r = Waiting \<Longrightarrow> adm_step cfg s (go_to r (Leaving Gone) s)"
| finished: "ad_phase s r = Serving False \<Longrightarrow> adm_step cfg s (go_to r (Returned Served) (release s))"
| finished_queued: "ad_phase s r = Serving True \<Longrightarrow> adm_step cfg s (go_to r (Leaving Served) (release s))"
| leave: "ad_phase s r = Leaving a \<Longrightarrow> adm_step cfg s (go_to r (Returned a) (add_queued (- 1) s))"

inductive adm_reachable :: "admission_config \<Rightarrow> admission \<Rightarrow> bool" for cfg where
  start: "adm_reachable cfg NewAdmission"
| more: "adm_reachable cfg s \<Longrightarrow> adm_step cfg s s' \<Longrightarrow> adm_reachable cfg s'"

section \<open>Counting requests by phase\<close>

definition serving :: "phase \<Rightarrow> bool" where
  "serving p \<longleftrightarrow> (\<exists>q. p = Serving q)"

text \<open>The requests the queue counter counts.\<close>

definition counted :: "phase \<Rightarrow> bool" where
  "counted p \<longleftrightarrow> p = Waiting \<or> p = Serving True \<or> (\<exists>a. p = Leaving a)"

text \<open>Those of them that have been let into the queue.\<close>

definition queued :: "phase \<Rightarrow> bool" where
  "queued p \<longleftrightarrow> p = Waiting \<or> p = Serving True"

definition number :: "(phase \<Rightarrow> bool) \<Rightarrow> admission \<Rightarrow> nat" where
  "number P s = card {r. P (ad_phase s r)}"

definition few :: "(phase \<Rightarrow> bool) \<Rightarrow> admission \<Rightarrow> bool" where
  "few P s \<longleftrightarrow> finite {r. P (ad_phase s r)}"

lemma phase_go: "{x. P (ad_phase (go_to r p s) x)} = (if P p then insert r {x. P (ad_phase s x)} else {x. P (ad_phase s x)} - {r})"
  by (auto simp: go_to_def)

lemma go_to_few: "few P s \<Longrightarrow> few P (go_to r p s)"
  unfolding few_def phase_go by simp

lemma go_to_number:
  assumes "few P s"
  shows "int (number P (go_to r p s)) = int (number P s) + of_bool (P p) - of_bool (P (ad_phase s r))"
proof -
  let ?A = "{x. P (ad_phase s x)}"
  have fin: "finite ?A" using assms by (simp add: few_def)
  have "card (insert r ?A) = card ?A + of_bool (\<not> P (ad_phase s r))" using fin by (simp add: card_insert_if)
  moreover have "int (card (?A - {r})) = int (card ?A) - of_bool (P (ad_phase s r))"
  proof (cases "P (ad_phase s r)")
    case True
    then have "0 < card ?A" using fin by (auto simp: card_gt_0_iff)
    with True show ?thesis using fin by (simp add: card_Diff_singleton of_nat_diff)
  qed (simp add: card_Diff_singleton_if)
  ultimately show ?thesis unfolding number_def phase_go by simp
qed

lemma same_phase [simp]:
  "number P (acquire s) = number P s" "number P (release s) = number P s" "number P (add_queued d s) = number P s"
  "number P (count_limited cfg s) = number P s" "few P (acquire s) = few P s" "few P (release s) = few P s"
  "few P (add_queued d s) = few P s" "few P (count_limited cfg s) = few P s" "ad_phase (acquire s) = ad_phase s"
  "ad_phase (release s) = ad_phase s" "ad_phase (add_queued d s) = ad_phase s" "ad_phase (count_limited cfg s) = ad_phase s"
  by (simp_all add: number_def few_def acquire_def release_def add_queued_def count_limited_def)

lemma counters [simp]:
  "ad_sem (acquire s) = ad_sem s + 1" "ad_sem (release s) = ad_sem s - 1" "ad_sem (add_queued d s) = ad_sem s"
  "ad_sem (count_limited cfg s) = ad_sem s" "ad_sem (go_to r p s) = ad_sem s" "ad_queued (acquire s) = ad_queued s"
  "ad_queued (release s) = ad_queued s" "ad_queued (add_queued d s) = ad_queued s + d"
  "ad_queued (count_limited cfg s) = ad_queued s" "ad_queued (go_to r p s) = ad_queued s"
  by (simp_all add: acquire_def release_def add_queued_def count_limited_def go_to_def)

lemmas phase_classes = serving_def counted_def queued_def

section \<open>The invariant\<close>

definition adm_inv :: "admission_config \<Rightarrow> admission \<Rightarrow> bool" where
  "adm_inv cfg s \<longleftrightarrow> few serving s \<and> few counted s \<and> few queued s \<and> ad_sem s = int (number serving s) \<and>
     ad_queued s = int (number counted s) \<and> (number serving s = 0 \<or> int (number serving s) \<le> ac_maxRequests cfg) \<and>
     (number queued s = 0 \<or> int (number queued s) \<le> ac_maxQueue cfg)"

lemma queued_le_counted:
  assumes "few counted s" shows "number queued s \<le> number counted s"
  unfolding number_def using assms by (intro card_mono) (auto simp: few_def queued_def counted_def)

lemma inv_move:
  assumes inv: "adm_inv cfg s" and p: "ad_phase s r = p" and t: "ad_phase t = ad_phase s"
    and sem: "ad_sem t = ad_sem s + of_bool (serving p') - of_bool (serving p)"
    and que: "ad_queued t = ad_queued s + of_bool (counted p') - of_bool (counted p)"
    and room: "serving p' \<Longrightarrow> \<not> serving p \<Longrightarrow> ad_sem s < ac_maxRequests cfg"
    and place: "queued p' \<Longrightarrow> \<not> queued p \<Longrightarrow> ad_queued s + 1 \<le> ac_maxQueue cfg"
  shows "adm_inv cfg (go_to r p' t)"
proof -
  have few: "few P t \<longleftrightarrow> few P s" and num: "number P t = number P s" for P by (simp_all add: few_def number_def t)
  have fin: "few serving s" "few counted s" "few queued s" using inv by (simp_all add: adm_inv_def)
  have n: "int (number P (go_to r p' t)) = int (number P s) + of_bool (P p') - of_bool (P p)" if "few P s" for P
    using go_to_number[of P t r p'] that by (simp add: few num t p)
  have "number serving (go_to r p' t) = 0 \<or> int (number serving (go_to r p' t)) \<le> ac_maxRequests cfg"
    using n[OF fin(1)] inv room by (cases "serving p"; cases "serving p'") (auto simp: adm_inv_def)
  moreover have "number queued (go_to r p' t) = 0 \<or> int (number queued (go_to r p' t)) \<le> ac_maxQueue cfg"
    using n[OF fin(3)] inv place queued_le_counted[OF fin(2)] by (cases "queued p"; cases "queued p'") (auto simp: adm_inv_def)
  ultimately show ?thesis
    using inv sem que n[OF fin(1)] n[OF fin(2)] by (simp add: adm_inv_def go_to_few few)
qed

lemma adm_step_inv:
  assumes "adm_step cfg s s'" and "adm_inv cfg s"
  shows "adm_inv cfg s'"
  using assms(1)
proof cases
  case (fast r)
  show ?thesis unfolding fast(1) by (rule inv_move[OF assms(2) fast(2)]) (use fast in \<open>auto simp: phase_classes\<close>)
next
  case (busy r)
  show ?thesis unfolding busy(1) by (rule inv_move[OF assms(2) busy(2)]) (use busy in \<open>auto simp: phase_classes\<close>)
next
  case (slow r)
  show ?thesis unfolding slow(1) by (rule inv_move[OF assms(2) slow(2)]) (use slow in \<open>auto simp: phase_classes\<close>)
next
  case (queue_full r)
  show ?thesis unfolding queue_full(1) by (rule inv_move[OF assms(2) queue_full(2)]) (use queue_full in \<open>auto simp: phase_classes\<close>)
next
  case (enqueue r)
  show ?thesis unfolding enqueue(1) by (rule inv_move[OF assms(2) enqueue(2)]) (use enqueue in \<open>auto simp: phase_classes\<close>)
next
  case (slot r)
  show ?thesis unfolding slot(1) by (rule inv_move[OF assms(2) slot(2)]) (use slot in \<open>auto simp: phase_classes\<close>)
next
  case (timed_out r)
  show ?thesis unfolding timed_out(1) by (rule inv_move[OF assms(2) timed_out(2)]) (use timed_out in \<open>auto simp: phase_classes\<close>)
next
  case (gone r)
  show ?thesis unfolding gone(1) by (rule inv_move[OF assms(2) gone(2)]) (use gone in \<open>auto simp: phase_classes\<close>)
next
  case (finished r)
  show ?thesis unfolding finished(1) by (rule inv_move[OF assms(2) finished(2)]) (use finished in \<open>auto simp: phase_classes\<close>)
next
  case (finished_queued r)
  show ?thesis unfolding finished_queued(1) by (rule inv_move[OF assms(2) finished_queued(2)]) (use finished_queued in \<open>auto simp: phase_classes\<close>)
next
  case (leave r a)
  show ?thesis unfolding leave(1) by (rule inv_move[OF assms(2) leave(2)]) (use leave in \<open>auto simp: phase_classes\<close>)
qed

lemma adm_reachable_inv: "adm_reachable cfg s \<Longrightarrow> adm_inv cfg s"
proof (induction rule: adm_reachable.induct)
  case start
  show ?case by (simp add: adm_inv_def NewAdmission_def few_def number_def phase_classes)
qed (rule adm_step_inv)

text \<open>C8. However the requests are interleaved, at most \<open>maxRequests\<close> are being served and at most \<open>maxQueue\<close> wait, a
  waiting request can take a slot as soon as fewer are being served, and once every request that arrived has
  returned the semaphore and the queue counter are back at zero.\<close>

theorem admission_limits:
  assumes "adm_reachable cfg s" and "0 < ac_maxRequests cfg" and "0 < ac_maxQueue cfg"
  shows "int (card {r. serving (ad_phase s r)}) \<le> ac_maxRequests cfg \<and> int (card {r. ad_phase s r = Waiting}) \<le> ac_maxQueue cfg \<and>
    (\<forall>r. ad_phase s r = Waiting \<and> int (card {r. serving (ad_phase s r)}) < ac_maxRequests cfg \<longrightarrow>
       adm_step cfg s (go_to r (Serving True) (acquire s))) \<and>
    ((\<forall>r. ad_phase s r = Arriving \<or> (\<exists>a. ad_phase s r = Returned a)) \<longrightarrow> ad_sem s = 0 \<and> ad_queued s = 0)"
proof -
  have inv: "adm_inv cfg s" using adm_reachable_inv[OF assms(1)] .
  have "card {r. ad_phase s r = Waiting} \<le> number queued s"
    unfolding number_def using inv by (intro card_mono) (auto simp: adm_inv_def few_def queued_def)
  then have "int (card {r. ad_phase s r = Waiting}) \<le> ac_maxQueue cfg" using inv assms(3) by (auto simp: adm_inv_def)
  moreover have "int (card {r. serving (ad_phase s r)}) \<le> ac_maxRequests cfg" and sem: "ad_sem s = int (card {r. serving (ad_phase s r)})"
    using inv assms(2) by (auto simp: adm_inv_def number_def)
  moreover have "ad_sem s = 0 \<and> ad_queued s = 0" if "\<forall>r. ad_phase s r = Arriving \<or> (\<exists>a. ad_phase s r = Returned a)"
  proof -
    have "\<not> serving (ad_phase s r)" "\<not> counted (ad_phase s r)" for r using that[rule_format, of r] by (auto simp: phase_classes)
    then show ?thesis using inv by (simp add: adm_inv_def number_def)
  qed
  ultimately show ?thesis using adm_step.slot[of s] by auto
qed

definition demo_limit :: admission_config where
  "demo_limit = \<lparr>ac_maxRequests = 1, ac_maxQueue = 1, ac_queueTimeout = 1, ac_metrics = True\<rparr>"

text \<open>One request is served, a second one waits, the first returns, the second takes its slot.\<close>

definition drained :: admission where
  "drained = \<lparr>ad_sem = 1, ad_queued = 1, ad_limited = 0, ad_phase = (\<lambda>_. Arriving)(0 := Returned Served, 1 := Serving True)\<rparr>"

lemmas step_defs = go_to_def acquire_def release_def add_queued_def count_limited_def

lemma drained_reachable: "adm_reachable demo_limit drained"
proof -
  let ?c = demo_limit
  define s1 where "s1 = go_to 0 (Serving False) (acquire NewAdmission)"
  define s2 where "s2 = go_to 1 Enqueuing s1"
  define s3 where "s3 = go_to 1 Waiting (add_queued 1 s2)"
  define s4 where "s4 = go_to 0 (Returned Served) (release s3)"
  define s5 where "s5 = go_to 1 (Serving True) (acquire s4)"
  note defs = s1_def s2_def s3_def s4_def s5_def step_defs NewAdmission_def demo_limit_def
  have "adm_step ?c NewAdmission s1" unfolding s1_def by (rule adm_step.fast) (simp_all add: defs)
  moreover have "adm_step ?c s1 s2" unfolding s2_def by (rule adm_step.slow) (simp_all add: defs)
  moreover have "adm_step ?c s2 s3" unfolding s3_def by (rule adm_step.enqueue) (simp_all add: defs)
  moreover have "adm_step ?c s3 s4" unfolding s4_def by (rule adm_step.finished) (simp add: defs)
  moreover have "adm_step ?c s4 s5" unfolding s5_def by (rule adm_step.slot) (simp_all add: defs)
  ultimately have "adm_reachable ?c s5" by (meson adm_reachable.intros)
  moreover have "s5 = drained" by (simp add: defs drained_def fun_eq_iff)
  ultimately show ?thesis by simp
qed

theorem admission_limits_witness:
  "int (card {r. serving (ad_phase drained r)}) \<le> 1"
  using admission_limits[OF drained_reachable] by (simp add: demo_limit_def)

text \<open>A request that was let in from the queue stays in the queue counter until it has been served.  With one slot and
  one place in the queue, a state is reachable in which no request waits and the next request is turned away because
  the queue is full.\<close>

lemma admission_queue_overcount:
  "\<exists>s s1 s2. adm_reachable demo_limit s \<and> (\<forall>r. ad_phase s r \<noteq> Waiting) \<and> ad_phase s 2 = Arriving \<and>
    adm_step demo_limit s s1 \<and> adm_step demo_limit s1 s2 \<and> (\<forall>r. ad_phase s1 r \<noteq> Waiting) \<and>
    ad_phase s2 2 = Leaving (Rejected ''service unavailable: request queue full'')"
proof -
  let ?s1 = "go_to 2 Enqueuing drained"
  let ?s2 = "go_to 2 (Leaving (Rejected ''service unavailable: request queue full'')) (count_limited demo_limit (add_queued 1 ?s1))"
  have "adm_step demo_limit drained ?s1" by (rule adm_step.slow) (simp_all add: drained_def demo_limit_def)
  moreover have "adm_step demo_limit ?s1 ?s2"
    by (rule adm_step.queue_full) (simp_all add: drained_def demo_limit_def go_to_def)
  moreover have "ad_phase drained r \<noteq> Waiting" "ad_phase ?s1 r \<noteq> Waiting" "ad_phase drained 2 = Arriving" for r
    by (simp_all add: drained_def go_to_def)
  ultimately show ?thesis using drained_reachable by (intro exI[of _ drained] exI[of _ ?s1] exI[of _ ?s2]) (simp add: go_to_def)
qed

end
