(* ===== verification/Jwt.thy ===== *)
theory Jwt
  imports Handlers GoTime "HOL-Library.AList"
begin

text \<open>
  \<open>internal/middleware/security.go\<close>: verification of bearer tokens, with the keys of a key set endpoint.  The
  cryptographic primitives and the decoders of base64, JSON and PEM are parameters; the clock and the answers of the
  endpoint are streams.  An answer is no document when the request cannot be built or sent, its status is not 200, or its
  body is not decoded.
\<close>

section \<open>The verifier\<close>

record 'k jwt_lib =
  jl_b64 :: "string \<Rightarrow> string option"
  jl_header :: "string \<Rightarrow> (string \<times> string) option"
  jl_claims :: "string \<Rightarrow> (int option \<times> int option) option"
  jl_hmac :: "string \<Rightarrow> string \<Rightarrow> string"
  jl_rsa :: "'k \<Rightarrow> string \<Rightarrow> string \<Rightarrow> bool"
  jl_pem :: "string \<Rightarrow> 'k option"
  jl_jwk :: "string \<Rightarrow> string \<Rightarrow> 'k option"

record jwk =
  jk_Kty :: string
  jk_Kid :: string
  jk_N :: string
  jk_E :: string

record 'k jwtVerifier =
  jv_alg :: string
  jv_secret :: string
  jv_pubKey :: "'k option"
  jv_jwksURL :: string
  jv_minWait :: duration
  jv_keys :: "(string \<times> 'k) list"
  jv_lastFetch :: time
  jv_fetched :: bool
  jv_clock :: "time strm"
  jv_answers :: "jwk list option strm"
  jv_sent :: nat

definition newJWTVerifier :: "'k jwt_lib \<Rightarrow> string \<Rightarrow> string \<Rightarrow> string \<Rightarrow> string \<Rightarrow> time strm \<Rightarrow> jwk list option strm \<Rightarrow> 'k jwtVerifier" where
  "newJWTVerifier lib jwtAlg secret jwksURL publicKey clock answers =
     (let a = ToUpper (TrimSpace jwtAlg); alg = (if a = [] then ''HS256'' else a); pem = TrimSpace publicKey in
      \<lparr>jv_alg = alg, jv_secret = secret, jv_pubKey = (if alg = ''RS256'' \<and> pem \<noteq> [] then jl_pem lib pem else None),
       jv_jwksURL = TrimSpace jwksURL, jv_minWait = Minute, jv_keys = [], jv_lastFetch = 0, jv_fetched = False,
       jv_clock = clock, jv_answers = answers, jv_sent = 0\<rparr>)"

definition jv_now :: "'k jwtVerifier \<Rightarrow> time \<times> 'k jwtVerifier" where
  "jv_now v = (shd' (jv_clock v), v\<lparr>jv_clock := stl' (jv_clock v)\<rparr>)"

definition lookupLocked :: "'k jwtVerifier \<Rightarrow> string \<Rightarrow> 'k option" where
  "lookupLocked v kid =
     (if kid \<noteq> [] then map_of (jv_keys v) kid else case jv_keys v of [(_, k)] \<Rightarrow> Some k | _ \<Rightarrow> None)"

fun collect_keys :: "'k jwt_lib \<Rightarrow> jwk list \<Rightarrow> (string \<times> 'k) list \<Rightarrow> (string \<times> 'k) list" where
  "collect_keys lib [] keys = keys"
| "collect_keys lib (k # ks) keys =
     (if \<not> EqualFold (jk_Kty k) ''RSA'' then collect_keys lib ks keys
      else case jl_jwk lib (jk_N k) (jk_E k) of
             None \<Rightarrow> collect_keys lib ks keys
           | Some pub \<Rightarrow> collect_keys lib ks (AList.update (jk_Kid k) pub keys))"

definition fetchLocked :: "'k jwt_lib \<Rightarrow> 'k jwtVerifier \<Rightarrow> 'k jwtVerifier" where
  "fetchLocked lib v =
     (let (t, v1) = jv_now v;
          v2 = v1\<lparr>jv_lastFetch := t, jv_fetched := True, jv_answers := stl' (jv_answers v1), jv_sent := jv_sent v1 + 1\<rparr>
      in case shd' (jv_answers v1) of
           None \<Rightarrow> v2
         | Some doc \<Rightarrow> let keys = collect_keys lib doc [] in if keys \<noteq> [] then v2\<lparr>jv_keys := keys\<rparr> else v2)"

definition jwksKey :: "'k jwt_lib \<Rightarrow> string \<Rightarrow> bool \<Rightarrow> 'k jwtVerifier \<Rightarrow> 'k option \<times> 'k jwtVerifier" where
  "jwksKey lib kid forceRefresh v =
     (if \<not> forceRefresh \<and> lookupLocked v kid \<noteq> None then (lookupLocked v kid, v)
      else let (needFetch, v1) =
                 (if forceRefresh \<or> \<not> jv_fetched v then (True, v)
                  else let (t, v') = jv_now v in (t - jv_lastFetch v' \<ge> jv_minWait v', v'));
               v2 = (if needFetch then fetchLocked lib v1 else v1)
           in (lookupLocked v2 kid, v2))"

definition rsa_check :: "'k jwt_lib \<Rightarrow> string \<Rightarrow> string \<Rightarrow> 'k option \<Rightarrow> bool" where
  "rsa_check lib input sig key = (case key of None \<Rightarrow> False | Some k \<Rightarrow> jl_rsa lib k input sig)"

definition verifyRS256 :: "'k jwt_lib \<Rightarrow> string \<Rightarrow> string \<Rightarrow> string \<Rightarrow> 'k jwtVerifier \<Rightarrow> bool \<times> 'k jwtVerifier" where
  "verifyRS256 lib input sig kid v =
     (if jv_pubKey v \<noteq> None then (rsa_check lib input sig (jv_pubKey v), v)
      else if jv_jwksURL v = [] then (False, v)
      else let (k, v1) = jwksKey lib kid False v in
           if rsa_check lib input sig k then (True, v1)
           else let (k', v2) = jwksKey lib kid True v1 in (rsa_check lib input sig k', v2))"

definition claimsValid :: "'k jwt_lib \<Rightarrow> string \<Rightarrow> 'k jwtVerifier \<Rightarrow> bool \<times> 'k jwtVerifier" where
  "claimsValid lib payload v =
     (case jl_b64 lib payload of
        None \<Rightarrow> (False, v)
      | Some js \<Rightarrow> (case jl_claims lib js of
          None \<Rightarrow> (False, v)
        | Some (ex, nbf) \<Rightarrow>
            let (t, v1) = jv_now v; now = time_Unix t in
            (if (case ex of Some e \<Rightarrow> now \<ge> e | None \<Rightarrow> False) then (False, v1)
             else if (case nbf of Some n \<Rightarrow> now < n | None \<Rightarrow> False) then (False, v1)
             else (True, v1))))"

definition signature_valid :: "'k jwt_lib \<Rightarrow> string \<Rightarrow> string \<Rightarrow> string \<Rightarrow> 'k jwtVerifier \<Rightarrow> bool \<times> 'k jwtVerifier" where
  "signature_valid lib input sig kid v =
     (if jv_alg v = ''HS256'' then (sig = jl_hmac lib (jv_secret v) input, v)
      else if jv_alg v = ''RS256'' then verifyRS256 lib input sig kid v
      else (False, v))"

definition verify :: "'k jwt_lib \<Rightarrow> string \<Rightarrow> 'k jwtVerifier \<Rightarrow> bool \<times> 'k jwtVerifier" where
  "verify lib token v =
     (case SplitChar CHR ''.'' token of
        [h, p, s] \<Rightarrow>
          (case Option.bind (jl_b64 lib h) (jl_header lib) of
             None \<Rightarrow> (False, v)
           | Some (alg, kid) \<Rightarrow>
               if \<not> EqualFold alg (jv_alg v) then (False, v)
               else case jl_b64 lib s of
                      None \<Rightarrow> (False, v)
                    | Some sig \<Rightarrow>
                        let (ok, v1) = signature_valid lib (h @ ''.'' @ p) sig kid v in
                        if \<not> ok then (False, v1) else claimsValid lib p v1)
      | _ \<Rightarrow> (False, v))"

definition bearerToken :: "request \<Rightarrow> string option" where
  "bearerToken r =
     (let h = hdr_Get (r_Header r) ''Authorization'' in
      if length h \<le> 7 \<or> \<not> EqualFold (take 7 h) ''Bearer '' then None else Some (TrimSpace (drop 7 h)))"

definition jwtAuth :: "'k jwt_lib \<Rightarrow> ('k jwtVerifier \<times> 's) handler \<Rightarrow> ('k jwtVerifier \<times> 's) handler" where
  "jwtAuth lib next' r = (\<lambda>(w, v, s).
     let refuse = (\<lambda>v'. (http_Error ''unauthorized'' 401 (set_header ''WWW-Authenticate'' ''Bearer error=\"invalid_token\"'' w), v', s)) in
     case bearerToken r of
       None \<Rightarrow> refuse v
     | Some token \<Rightarrow> let (ok, v') = verify lib token v in if ok then next' r (w, v', s) else refuse v')"

section \<open>Accepted tokens\<close>

text \<open>The key material a verifier may use: its secret, its static key, or a key of the set it holds.\<close>

definition trusted_signature :: "'k jwt_lib \<Rightarrow> 'k jwtVerifier \<Rightarrow> string \<Rightarrow> string \<Rightarrow> bool" where
  "trusted_signature lib v input sig \<longleftrightarrow>
     jv_alg v = ''HS256'' \<and> sig = jl_hmac lib (jv_secret v) input \<or>
     jv_alg v = ''RS256'' \<and> (\<exists>k. jl_rsa lib k input sig \<and>
       (jv_pubKey v = Some k \<or> jv_pubKey v = None \<and> k \<in> snd ` set (jv_keys v)))"

lemma jv_now_keeps [simp]:
  "jv_alg (snd (jv_now v)) = jv_alg v" "jv_secret (snd (jv_now v)) = jv_secret v" "jv_pubKey (snd (jv_now v)) = jv_pubKey v"
  "jv_keys (snd (jv_now v)) = jv_keys v" "jv_sent (snd (jv_now v)) = jv_sent v" "jv_jwksURL (snd (jv_now v)) = jv_jwksURL v"
  by (simp_all add: jv_now_def)

lemma fetchLocked_keeps [simp]:
  "jv_alg (fetchLocked lib v) = jv_alg v" "jv_secret (fetchLocked lib v) = jv_secret v"
  "jv_pubKey (fetchLocked lib v) = jv_pubKey v" "jv_sent (fetchLocked lib v) = jv_sent v + 1"
  by (simp_all add: fetchLocked_def jv_now_def Let_def split: option.splits)

lemma jwksKey_keeps:
  "jv_alg (snd (jwksKey lib kid f v)) = jv_alg v" "jv_secret (snd (jwksKey lib kid f v)) = jv_secret v"
  "jv_pubKey (snd (jwksKey lib kid f v)) = jv_pubKey v"
  by (simp_all add: jwksKey_def Let_def split_beta)

lemma lookupLocked_mem: "lookupLocked v kid = Some k \<Longrightarrow> k \<in> snd ` set (jv_keys v)"
  by (force simp: lookupLocked_def dest: map_of_SomeD split: if_splits list.splits prod.splits)

lemma jwksKey_mem: "jwksKey lib kid f v = (Some k, v') \<Longrightarrow> k \<in> snd ` set (jv_keys v')"
  by (auto simp: jwksKey_def Let_def split_beta dest!: lookupLocked_mem split: if_splits)

lemma verifyRS256_sound:
  assumes "verifyRS256 lib input sig kid v = (True, v')"
  shows "jv_alg v' = jv_alg v \<and> (\<exists>k. jl_rsa lib k input sig \<and> (jv_pubKey v' = Some k \<or> jv_pubKey v' = None \<and> k \<in> snd ` set (jv_keys v')))"
proof (cases "jv_pubKey v")
  case (Some k)
  then show ?thesis using assms by (auto simp: verifyRS256_def rsa_check_def)
next
  case None
  obtain k1 v1 where k1: "jwksKey lib kid False v = (k1, v1)" by fastforce
  obtain k2 v2 where k2: "jwksKey lib kid True v1 = (k2, v2)" by fastforce
  note keep = jwksKey_keeps[of lib kid False v, unfolded k1] jwksKey_keeps[of lib kid True v1, unfolded k2]
  show ?thesis using assms None keep jwksKey_mem[of lib kid False v _ v1] jwksKey_mem[of lib kid True v1 _ v2]
    by (auto simp: verifyRS256_def k1 k2 rsa_check_def split: if_splits option.splits)
qed

lemma signature_valid_sound:
  "signature_valid lib input sig kid v = (True, v') \<Longrightarrow> jv_alg v' = jv_alg v \<and> trusted_signature lib v' input sig"
  by (auto simp: signature_valid_def trusted_signature_def dest!: verifyRS256_sound split: if_splits)

lemma claimsValid_sound:
  assumes "claimsValid lib p v = (True, v')"
  shows "\<exists>js ex nbf. jl_b64 lib p = Some js \<and> jl_claims lib js = Some (ex, nbf) \<and>
     (\<forall>e. ex = Some e \<longrightarrow> time_Unix (shd' (jv_clock v)) < e) \<and> (\<forall>n. nbf = Some n \<longrightarrow> n \<le> time_Unix (shd' (jv_clock v))) \<and>
     v' = snd (jv_now v)"
  using assms by (auto simp: claimsValid_def jv_now_def Let_def split: option.splits if_splits)

lemma trusted_now [simp]: "trusted_signature lib (snd (jv_now v)) i s = trusted_signature lib v i s"
  by (simp add: trusted_signature_def)

lemma stl_range: "range (stl' f) \<subseteq> range f"
  by (auto simp: stl'_def)

lemma fetchLocked_clock: "range (jv_clock (fetchLocked lib v)) \<subseteq> range (jv_clock v)"
  using stl_range[of "jv_clock v"] by (simp add: fetchLocked_def jv_now_def Let_def split: option.splits)

lemma jwksKey_clock: "range (jv_clock (snd (jwksKey lib kid f v))) \<subseteq> range (jv_clock v)"
  using fetchLocked_clock[of lib v] subset_trans[OF fetchLocked_clock[of lib "snd (jv_now v)"]] stl_range[of "jv_clock v"]
  by (simp add: jwksKey_def jv_now_def Let_def)

lemma signature_clock: "range (jv_clock (snd (signature_valid lib i sg kid v))) \<subseteq> range (jv_clock v)"
  using jwksKey_clock[of lib kid False v] subset_trans[OF jwksKey_clock[of lib kid True "snd (jwksKey lib kid False v)"] jwksKey_clock]
  by (simp add: signature_valid_def verifyRS256_def Let_def split_beta)

text \<open>C7. A token is accepted only if it has three parts, its header names the algorithm of the configuration, its
  signature over the first two parts is that of the secret, of the static key or of a key of the set the verifier holds,
  and its payload has neither expired nor is to be used later, by a reading of the clock taken after the signature was
  checked.\<close>

theorem jwt_sound:
  assumes "verify lib token v = (True, v')"
  shows "\<exists>h p s sig alg kid js ex nbf t. SplitChar CHR ''.'' token = [h, p, s] \<and>
    Option.bind (jl_b64 lib h) (jl_header lib) = Some (alg, kid) \<and> EqualFold alg (jv_alg v) \<and> jv_alg v \<in> {''HS256'', ''RS256''} \<and>
    jl_b64 lib s = Some sig \<and> trusted_signature lib v' (h @ ''.'' @ p) sig \<and>
    jl_b64 lib p = Some js \<and> jl_claims lib js = Some (ex, nbf) \<and> t \<in> range (jv_clock v) \<and>
    (\<forall>e. ex = Some e \<longrightarrow> time_Unix t < e) \<and> (\<forall>n. nbf = Some n \<longrightarrow> n \<le> time_Unix t)"
proof -
  obtain h p s where parts: "SplitChar CHR ''.'' token = [h, p, s]"
    using assms by (auto simp: verify_def split: list.splits)
  obtain alg kid sig v1 where hd: "Option.bind (jl_b64 lib h) (jl_header lib) = Some (alg, kid)" "EqualFold alg (jv_alg v)"
    and sg: "jl_b64 lib s = Some sig" "signature_valid lib (h @ ''.'' @ p) sig kid v = (True, v1)"
    and cl: "claimsValid lib p v1 = (True, v')"
    using assms by (auto simp: verify_def parts Let_def split: option.splits if_splits prod.splits)
  obtain js ex nbf where c: "jl_b64 lib p = Some js" "jl_claims lib js = Some (ex, nbf)"
    "\<forall>e. ex = Some e \<longrightarrow> time_Unix (shd' (jv_clock v1)) < e" "\<forall>n. nbf = Some n \<longrightarrow> n \<le> time_Unix (shd' (jv_clock v1))"
    and v': "v' = snd (jv_now v1)"
    using claimsValid_sound[OF cl] by blast
  have t: "shd' (jv_clock v1) \<in> range (jv_clock v)"
    using signature_clock[of lib "h @ ''.'' @ p" sig kid v] sg(2) by (auto simp: shd'_def)
  have trust: "trusted_signature lib v' (h @ ''.'' @ p) sig" and alg: "jv_alg v1 = jv_alg v"
    using signature_valid_sound[OF sg(2)] by (simp_all add: v')
  then have "jv_alg v \<in> {''HS256'', ''RS256''}" by (auto simp: trusted_signature_def v')
  then show ?thesis using parts hd sg(1) trust c t by blast
qed

definition demo_lib :: "nat jwt_lib" where
  "demo_lib = \<lparr>jl_b64 = Some, jl_header = (\<lambda>x. Some (''HS256'', x)), jl_claims = (\<lambda>x. Some (Some 100, None)), jl_hmac = (\<lambda>k x. k),
     jl_rsa = (\<lambda>k x s. k = length s), jl_pem = (\<lambda>x. None), jl_jwk = (\<lambda>n e. Some (length n))\<rparr>"

definition demo_verifier :: "string \<Rightarrow> nat jwtVerifier" where
  "demo_verifier alg = \<lparr>jv_alg = alg, jv_secret = ''k'', jv_pubKey = None, jv_jwksURL = ''https://keys'', jv_minWait = Minute,
     jv_keys = [(''key'', 7)], jv_lastFetch = unix_epoch, jv_fetched = True, jv_clock = (\<lambda>_. unix_epoch), jv_answers = (\<lambda>_. None), jv_sent = 0\<rparr>"

lemma demo_accepted: "verify demo_lib ''h.p.k'' (demo_verifier ''HS256'') = (True, snd (jv_now (demo_verifier ''HS256'')))"
  by (simp add: verify_def demo_lib_def demo_verifier_def signature_valid_def claimsValid_def jv_now_def EqualFold_def shd'_def
      time_Unix_def)

theorem jwt_sound_witness:
  "\<exists>v'. verify demo_lib ''h.p.k'' (demo_verifier ''HS256'') = (True, v') \<and> (\<exists>input sig. trusted_signature demo_lib v' input sig)"
  using jwt_sound[OF demo_accepted] demo_accepted by blast

section \<open>Fetching the key set\<close>

text \<open>The minimum interval between two fetches of the key set does not hold back a token with a wrong signature: when the
  key it names is in the set already, checking it sends exactly one request to the endpoint, whatever the time of the
  last one.\<close>

lemma jwks_unthrottled:
  assumes "jv_pubKey v = None" and "jv_jwksURL v \<noteq> []" and "lookupLocked v kid = Some k" and "\<not> jl_rsa lib k input sig"
  shows "jv_sent (snd (verifyRS256 lib input sig kid v)) = jv_sent v + 1"
  using assms by (simp add: verifyRS256_def jwksKey_def rsa_check_def Let_def)

lemma jwks_unthrottled_witness:
  "jv_sent (snd (verifyRS256 demo_lib ''h.p'' ''s'' ''key'' (demo_verifier ''RS256''))) = 1"
  using jwks_unthrottled[of "demo_verifier ''RS256''" "''key''" 7 demo_lib "''h.p''" "''s''"]
  by (simp add: demo_verifier_def lookupLocked_def demo_lib_def)

end
