(* ===== verification/Transforms.thy ===== *)
theory Transforms
  imports Config
begin

text \<open>
  \<open>internal/middleware/transforms.go\<close>: header and path edits, the response writer that applies them, and fault
  injection.  The random source and whether a sleep runs to its end are streams; the text of a status is a parameter.
\<close>

section \<open>Header and path edits\<close>

record rewriteConfig =
  rwc_RequestHeadersSet :: "(string \<times> string) list"
  rwc_RequestHeadersRemove :: "string list"
  rwc_ResponseHeadersSet :: "(string \<times> string) list"
  rwc_ResponseHeadersRemove :: "string list"
  rwc_StripPathPrefix :: string
  rwc_HTTPSRedirect :: bool

definition edit_header :: "string list \<Rightarrow> (string \<times> string) list \<Rightarrow> header \<Rightarrow> header" where
  "edit_header remove set' h = fold (\<lambda>(n, v). hdr_Set n v) set' (fold hdr_Del remove h)"

definition requestIsHTTPS :: "request \<Rightarrow> bool" where
  "requestIsHTTPS r \<longleftrightarrow> r_TLS r \<or> EqualFold (hdr_Get (r_Header r) ''X-Forwarded-Proto'') ''https''"

definition trim_path :: "string \<Rightarrow> string \<Rightarrow> string" where
  "trim_path prefix p =
     (let t = TrimPrefix p prefix in case t of [] \<Rightarrow> ''/'' | c # _ \<Rightarrow> if c \<noteq> CHR ''/'' then CHR ''/'' # t else t)"

text \<open>The path of the request and its raw form.\<close>

definition stripRequestPath :: "string \<Rightarrow> string \<times> string \<Rightarrow> string \<times> string" where
  "stripRequestPath prefix pr =
     (case pr of (p, raw) \<Rightarrow>
        if \<not> HasPrefix p prefix then pr
        else (trim_path prefix p, if raw \<noteq> [] \<and> HasPrefix raw prefix then trim_path prefix raw else raw))"

section \<open>The response writer\<close>

record rewriteResponseWriter =
  rw_ResponseWriter :: writer
  rw_setHeaders :: "(string \<times> string) list"
  rw_removeHeaders :: "string list"
  rw_wroteHeader :: bool

definition applyHeaders :: "rewriteResponseWriter \<Rightarrow> rewriteResponseWriter" where
  "applyHeaders rw = rw\<lparr>rw_ResponseWriter := (rw_ResponseWriter rw)
     \<lparr>w_Header := edit_header (rw_removeHeaders rw) (rw_setHeaders rw) (w_Header (rw_ResponseWriter rw))\<rparr>\<rparr>"

definition apply_once :: "rewriteResponseWriter \<Rightarrow> rewriteResponseWriter" where
  "apply_once rw = (if \<not> rw_wroteHeader rw then applyHeaders (rw\<lparr>rw_wroteHeader := True\<rparr>) else rw)"

definition rw_WriteHeader :: "int \<Rightarrow> rewriteResponseWriter \<Rightarrow> rewriteResponseWriter" where
  "rw_WriteHeader code rw = (let rw1 = apply_once rw in rw1\<lparr>rw_ResponseWriter := WriteHeader code (rw_ResponseWriter rw1)\<rparr>)"

definition rw_Write :: "string \<Rightarrow> rewriteResponseWriter \<Rightarrow> rewriteResponseWriter" where
  "rw_Write bs rw = (let rw1 = apply_once rw in rw1\<lparr>rw_ResponseWriter := Write bs (rw_ResponseWriter rw1)\<rparr>)"

section \<open>Fault injection\<close>

definition sampleHit :: "int \<Rightarrow> nat strm \<Rightarrow> bool \<times> nat strm" where
  "sampleHit percent rng =
     (if percent \<le> 0 then (False, rng) else if percent \<ge> 100 then (True, rng)
      else (int (shd' rng mod 100) < percent, stl' rng))"

record faults =
  ft_rng :: "nat strm"
  ft_elapses :: "bool strm"
  ft_slept :: "duration list"

definition sample :: "int \<Rightarrow> faults \<Rightarrow> bool \<times> faults" where
  "sample percent f = (let (hit, rng) = sampleHit percent (ft_rng f) in (hit, f\<lparr>ft_rng := rng\<rparr>))"

definition sleepCtx :: "duration \<Rightarrow> faults \<Rightarrow> bool \<times> faults" where
  "sleepCtx d f = (shd' (ft_elapses f), f\<lparr>ft_elapses := stl' (ft_elapses f), ft_slept := ft_slept f @ [d]\<rparr>)"

definition FaultInjection :: "(int \<Rightarrow> string) \<Rightarrow> faultConfig \<Rightarrow> (faults \<times> 's) handler \<Rightarrow> (faults \<times> 's) handler" where
  "FaultInjection statusText cfg next' =
     (let abortStatus = (if fac_AbortStatus cfg \<le> 0 then 503 else fac_AbortStatus cfg) in
      if \<not> fac_Enabled cfg then next'
      else (\<lambda>r (w, f, s).
        let (delay, f1) = (if fac_Delay cfg > 0 then sample (fac_DelayPercent cfg) f else (False, f));
            (go, f2) = (if delay then sleepCtx (fac_Delay cfg) f1 else (True, f1))
        in if \<not> go then (w, f2, s)
           else let (abort, f3) = sample (fac_AbortPercent cfg) f2 in
                if abort then (http_Error (statusText abortStatus) abortStatus w, f3, s) else next' r (w, f3, s)))"

section \<open>What the edits and the faults do\<close>

lemma trim_path_absolute: "\<exists>t. trim_path prefix p = CHR ''/'' # t"
  by (auto simp: trim_path_def Let_def split: list.splits)

lemma strip_segment: "HasPrefix (prefix @ rest) prefix \<and> (rest = CHR ''/'' # t \<longrightarrow> trim_path prefix (prefix @ rest) = rest)"
  by (auto simp: trim_path_def TrimPrefix_def HasPrefix_def)

text \<open>The edits are made to the header that is sent, whichever of the two calls comes first, and only once.\<close>

lemma rewrite_sent:
  assumes "\<not> rw_wroteHeader rw" "w_sent (rw_ResponseWriter rw) = None"
  shows "200 \<le> code \<Longrightarrow> w_sent (rw_ResponseWriter (rw_WriteHeader code rw)) =
      Some (code, edit_header (rw_removeHeaders rw) (rw_setHeaders rw) (w_Header (rw_ResponseWriter rw)))"
    and "w_sent (rw_ResponseWriter (rw_Write bs rw)) =
      Some (200, edit_header (rw_removeHeaders rw) (rw_setHeaders rw) (w_Header (rw_ResponseWriter rw)))"
  using assms by (simp_all add: rw_WriteHeader_def rw_Write_def apply_once_def applyHeaders_def WriteHeader_def Write_def Let_def)

text \<open>An informational response uses up the one application of the edits: what the handler sets afterwards is sent unedited.\<close>

lemma rewrite_informational:
  assumes "\<not> rw_wroteHeader rw" "w_sent (rw_ResponseWriter rw) = None" "100 \<le> c1" "c1 \<le> 199" "c1 \<noteq> 101" "200 \<le> code"
    and "rw1 = (rw_WriteHeader c1 rw)\<lparr>rw_ResponseWriter := (rw_ResponseWriter (rw_WriteHeader c1 rw))\<lparr>w_Header := h\<rparr>\<rparr>"
  shows "w_sent (rw_ResponseWriter (rw_WriteHeader code rw1)) = Some (code, h)"
  using assms by (simp add: rw_WriteHeader_def apply_once_def applyHeaders_def WriteHeader_def Let_def)

text \<open>Of a hundred equally likely draws, as many hit as the percentage says.\<close>

lemma sampleHit_share:
  assumes "0 \<le> percent" "percent \<le> 100"
  shows "int (card {d \<in> {..<100}. fst (sampleHit percent (\<lambda>_. d))}) = percent"
proof -
  have "{d \<in> {..<100}. fst (sampleHit percent (\<lambda>_. d))} = {..<nat percent}"
    using assms by (auto simp: sampleHit_def shd'_def split: if_splits)
  then show ?thesis using assms by simp
qed

lemma fault_free: "\<not> fac_Enabled cfg \<Longrightarrow> FaultInjection st cfg next' = next'"
  "fac_DelayPercent cfg \<le> 0 \<Longrightarrow> fac_AbortPercent cfg \<le> 0 \<Longrightarrow> FaultInjection st cfg next' r ws = next' r ws"
  by (cases ws, simp_all add: FaultInjection_def sample_def sampleHit_def Let_def)+

end
