(* ===== verification/Reload.thy ===== *)
theory Reload
  imports ConfigDemo Discovery Routing
begin

text \<open>
  The reload of \<open>internal/server/server.go\<close>: comparing configurations, bringing the default group of
  backends, the route table, the canary weight and the limits in line with a new one, and the
  watch of the file.  New backends and route groups get the next free addresses; what is logged
  is the list of warnings.
\<close>

section \<open>Comparing configurations\<close>

definition backendsEqual :: "backendConfig list \<Rightarrow> backendConfig list \<Rightarrow> bool" where
  "backendsEqual a b = list_all2 (\<lambda>x y. bkc_URL x = bkc_URL y \<and> bkc_Weight x = bkc_Weight y \<and> bkc_MaxConns x = bkc_MaxConns y) a b"

definition canaryEqual :: "canaryConfig \<Rightarrow> canaryConfig \<Rightarrow> bool" where
  "canaryEqual a b \<longleftrightarrow> cac_Enabled a = cac_Enabled b \<and> cac_WeightPercent a = cac_WeightPercent b \<and>
     cac_Algorithm a = cac_Algorithm b \<and> backendsEqual (cac_Backends a) (cac_Backends b)"

definition routeGroupsEqual :: "routeConfig list \<Rightarrow> routeConfig list \<Rightarrow> bool" where
  "routeGroupsEqual a b = list_all2 (\<lambda>x y. rtc_PathPrefix x = rtc_PathPrefix y \<and> rtc_Algorithm x = rtc_Algorithm y \<and>
     backendsEqual (rtc_Backends x) (rtc_Backends y)) a b"

section \<open>The default group\<close>

text \<open>The part of a backend's configuration that \<open>NewBackend\<close> reads, and a route for the router.\<close>

definition be_cfg :: "backendConfig \<Rightarrow> backend_config" where
  "be_cfg bc = \<lparr>cfg_URL = bkc_URL bc, cfg_Weight = bkc_Weight bc, cfg_MaxConns = bkc_MaxConns bc, cfg_Zone = bkc_Zone bc, cfg_Tier = bkc_Tier bc\<rparr>"

definition route_of :: "routeConfig \<Rightarrow> route_config" where
  "route_of r = \<lparr>rc_Host = rtc_Host r, rc_PathPrefix = rtc_PathPrefix r, rc_Methods = rtc_Methods r, rc_Headers = rtc_Headers r,
     rc_Algorithm = rtc_Algorithm r, rc_Replicas = chc_Replicas (rtc_ConsistentHash r), rc_LoadFactor = chc_LoadFactor (rtc_ConsistentHash r),
     rc_Backends = map be_cfg (rtc_Backends r)\<rparr>"

definition existing_index :: "lb_heap \<Rightarrow> bid list \<Rightarrow> (string \<times> bid) list" where
  "existing_index s bs = fold (\<lambda>b m. AList.update (be_URL (h_be s b)) b m) bs []"

definition apply_one :: "lb_heap balancer \<Rightarrow> (string \<times> bid) list \<Rightarrow> backendConfig \<Rightarrow> bid \<times> lb_heap \<Rightarrow> bid \<times> lb_heap" where
  "apply_one B ex bc st =
     (let (n, s) = st in
      case map_of ex (bkc_URL bc) of
        None \<Rightarrow> (n + 1, add_backend B (n, be_cfg bc) s)
      | Some be \<Rightarrow> (n, if GetWeight s be \<noteq> bkc_Weight bc then m_UpdateWeight B be (bkc_Weight bc) s else s))"

definition drop_one :: "lb_heap balancer \<Rightarrow> string set \<Rightarrow> string \<times> bid \<Rightarrow> breaker option \<times> lb_heap \<Rightarrow> breaker option \<times> lb_heap" where
  "drop_one B desired e st =
     (let (url, be) = e; (cb, s) = st in
      if url \<in> desired then st else (map_option (CB_Reset be) cb, m_Remove B be s))"

definition applyBackendChanges ::
  "lb_heap balancer \<Rightarrow> backendConfig list \<Rightarrow> breaker option \<times> bid \<times> lb_heap \<Rightarrow> breaker option \<times> bid \<times> lb_heap" where
  "applyBackendChanges B newBackends st =
     (let (cb, n, s) = st;
          ex = existing_index s (m_All B s);
          (n1, s1) = fold (apply_one B ex) newBackends (n, s);
          (cb2, s2) = fold (drop_one B (bkc_URL ` set newBackends)) ex (cb, s1)
      in (cb2, n1, s2))"

section \<open>Reloading\<close>

record 'tb server =
  sv_cfg :: config
  sv_balancer :: "lb_heap balancer"
  sv_circuitBreaker :: "breaker option"
  sv_limiter :: "'tb rateLimiter option"
  sv_router :: "router option"
  sv_proxy :: proxy
  sv_heap :: lb_heap
  sv_nextBackend :: bid
  sv_nextBalancer :: addr
  sv_warnings :: "string list"

definition sv_warn :: "string \<Rightarrow> 'tb server \<Rightarrow> 'tb server" where
  "sv_warn msg sv = sv\<lparr>sv_warnings := sv_warnings sv @ [msg]\<rparr>"

definition warn_if :: "bool \<Rightarrow> string \<Rightarrow> 'tb server \<Rightarrow> 'tb server" where
  "warn_if c msg sv = (if c then sv_warn msg sv else sv)"

definition reload_limits :: "('tb, 'r) rate_lib \<Rightarrow> config \<Rightarrow> 'tb server \<Rightarrow> 'tb server" where
  "reload_limits lib new sv =
     (let nrl = c_RateLimiter new in
      if rlc_Enabled nrl
      then sv\<lparr>sv_limiter := map_option (UpdateRates lib (f64_of_int (rlc_RequestsPerSecond nrl)) (rlc_Burst nrl)
             (f64_of_int (rlc_GlobalRPS nrl)) (rlc_GlobalBurst nrl)) (sv_limiter sv)\<rparr>
      else sv)"

definition reload_backends :: "config \<Rightarrow> 'tb server \<Rightarrow> 'tb server" where
  "reload_backends new sv =
     (let (cb, n, s) = applyBackendChanges (sv_balancer sv) (c_Backends new) (sv_circuitBreaker sv, sv_nextBackend sv, sv_heap sv)
      in sv\<lparr>sv_circuitBreaker := cb, sv_nextBackend := n, sv_heap := s\<rparr>)"

text \<open>The proxy reaches the table through the router, so it sees the new one.\<close>

definition reload_routes :: "(f64 \<Rightarrow> f64) \<Rightarrow> config \<Rightarrow> 'tb server \<Rightarrow> 'tb server" where
  "reload_routes mexp new sv =
     (if routeGroupsEqual (c_Routes (sv_cfg sv)) (c_Routes new) then sv
      else case sv_router sv of
             None \<Rightarrow> sv_warn ''Route changes require a restart when no router was initially configured'' sv
           | Some r \<Rightarrow>
               let (ok, r', s') = UpdateRoutes mexp (sv_nextBalancer sv) (sv_nextBackend sv) (map route_of (c_Routes new)) (r, sv_heap sv);
                   sv' = sv\<lparr>sv_router := Some r', sv_proxy := SetRouter (\<lambda>req. Some (Route r' req)) (sv_proxy sv), sv_heap := s',
                     sv_nextBalancer := sv_nextBalancer sv + length (c_Routes new),
                     sv_nextBackend := sv_nextBackend sv + sum_list (map (length \<circ> rtc_Backends) (c_Routes new))\<rparr>
               in if ok then sv' else sv_warn ''Failed to apply route changes; existing routes unchanged'' sv')"

definition reload_canary :: "config \<Rightarrow> 'tb server \<Rightarrow> 'tb server" where
  "reload_canary new sv =
     (let old = c_Canary (sv_cfg sv); cn = c_Canary new in
      if canaryEqual old cn then sv
      else if cac_Enabled old = cac_Enabled cn \<and> cac_Algorithm old = cac_Algorithm cn \<and> backendsEqual (cac_Backends old) (cac_Backends cn) \<and>
              cac_WeightPercent old \<noteq> cac_WeightPercent cn
           then sv\<lparr>sv_proxy := UpdateCanaryWeight (cac_WeightPercent cn) (sv_proxy sv)\<rparr>
           else sv_warn ''Canary topology changes require a restart to take effect'' sv)"

definition reloadConfig :: "('tb, 'r) rate_lib \<Rightarrow> (f64 \<Rightarrow> f64) \<Rightarrow> string + config \<Rightarrow> 'tb server \<Rightarrow> 'tb server" where
  "reloadConfig lib mexp load sv =
     (case load of
        Inl e \<Rightarrow> sv_warn ''Failed to reload config'' sv
      | Inr new \<Rightarrow>
          let old = sv_cfg sv;
              sv2 = reload_backends new (reload_limits lib new sv);
              sv3 = warn_if (lbc_Algorithm (c_LoadBalancer old) \<noteq> lbc_Algorithm (c_LoadBalancer new))
                      ''Load-balancing algorithm change requires a restart to take effect'' sv2;
              sv5 = reload_canary new (reload_routes mexp new sv3);
              sv6 = warn_if (c_Mirror old \<noteq> c_Mirror new) ''Mirror config changes require a restart to take effect'' sv5;
              sv7 = warn_if (c_FaultInjection old \<noteq> c_FaultInjection new)
                      ''Fault-injection config changes require a restart to take effect'' sv6
          in sv7\<lparr>sv_cfg := old\<lparr>c_LogLevel := c_LogLevel new, c_RateLimiter := c_RateLimiter new, c_Backends := c_Backends new,
               c_Routes := c_Routes new, c_Canary := c_Canary new\<rparr>\<rparr>)"

text \<open>
  One tick of the watch of the file: its modification time and size, no time when \<open>Stat\<close> fails, against
  the last ones seen.  The result is whether the configuration is reloaded.
\<close>

definition watch_tick :: "time option \<times> int \<Rightarrow> time option \<times> int \<Rightarrow> bool \<times> (time option \<times> int)" where
  "watch_tick stamp seen =
     (case stamp of
        (None, _) \<Rightarrow> (False, seen)
      | (Some m, sz) \<Rightarrow> if seen = (Some m, sz) then (False, seen) else (True, stamp))"

fun watch_run :: "(time option \<times> int) list \<Rightarrow> time option \<times> int \<Rightarrow> bool list" where
  "watch_run [] seen = []"
| "watch_run (st # sts) seen = (let (r, seen') = watch_tick st seen in r # watch_run sts seen')"

section \<open>What the reload relies on\<close>

definition configured :: "backend \<Rightarrow> backendConfig \<Rightarrow> bool" where
  "configured be bc \<longleftrightarrow> be_URL be = bkc_URL bc \<and> be_weight be = word_of_int (bkc_Weight bc)"

text \<open>
  Changing the membership leaves the backends alone, changing a weight leaves the membership alone,
  and the members depend on the balancer's own list only.
\<close>

lemma word_of_sint: "word_of_int (sint w) = (w :: int32)"
  by simp

lemma reweighed_URL: "y = x\<lparr>be_weight := w\<rparr> \<Longrightarrow> be_URL y = be_URL x"
  by simp

lemma reweighed_trans:
  "z = y\<lparr>be_weight := be_weight z\<rparr> \<Longrightarrow> y = x\<lparr>be_weight := be_weight y\<rparr> \<Longrightarrow> z = x\<lparr>be_weight := be_weight z\<rparr>"
  by (cases x; cases y; cases z) simp

lemma fold_remove1: "distinct xs \<Longrightarrow> fold remove1 ys xs = filter (\<lambda>x. x \<notin> set ys) xs"
  by (induction ys arbitrary: xs) (auto simp: distinct_remove1_removeAll removeAll_filter_not_eq intro!: filter_cong)

lemma GetState_Reset: "GetState (CB_Reset x c) b = (if b = x then StateClosed else GetState c b)"
  by (simp add: CB_Reset_def GetState_def)

lemma CB_Reset_closed: "fold (\<lambda>b. map_option (CB_Reset b)) bs cb = Some c \<Longrightarrow> b \<in> set bs \<Longrightarrow> GetState c b = StateClosed"
proof (induction bs arbitrary: c rule: rev_induct)
  case (snoc x bs)
  then obtain c0 where "fold (\<lambda>b. map_option (CB_Reset b)) bs cb = Some c0" "c = CB_Reset x c0" by auto
  then show ?case using snoc.IH[of c0] snoc.prems(2) by (cases "b = x") (simp_all add: GetState_Reset)
qed simp

text \<open>The default group: distinct URLs, and addresses below the next free one.\<close>

definition group_ok :: "lb_heap balancer \<Rightarrow> bid \<Rightarrow> lb_heap \<Rightarrow> bool" where
  "group_ok B n s \<longleftrightarrow> distinct (map (\<lambda>b. be_URL (h_be s b)) (m_All B s)) \<and> (\<forall>b\<in>set (m_All B s). b < n)"

lemma update_nonmem: "x \<notin> fst ` set m \<Longrightarrow> AList.update x y m = m @ [(x, y)]"
  by (induction m) auto

lemma existing_index_distinct:
  "distinct (map (\<lambda>b. be_URL (h_be s b)) bs) \<Longrightarrow> existing_index s bs = map (\<lambda>b. (be_URL (h_be s b), b)) bs"
proof (induction bs rule: rev_induct)
  case (snoc b bs)
  have "existing_index s (bs @ [b]) = AList.update (be_URL (h_be s b)) b (existing_index s bs)" by (simp add: existing_index_def)
  moreover have "be_URL (h_be s b) \<notin> set (map fst (existing_index s bs))" using snoc by auto
  ultimately show ?case using snoc by (simp add: update_nonmem)
qed (simp add: existing_index_def)

locale topology = membership B for B :: "lb_heap balancer" +
  fixes a :: addr
  assumes Weight_All: "m_All B (m_UpdateWeight B b w s) = m_All B s"
    and Weight_be: "b \<in> set (m_All B s) \<Longrightarrow> h_be (m_UpdateWeight B b w s) = h_be (SetWeight b w s)"
    and All_local: "h_base s a = h_base s' a \<Longrightarrow> m_All B s = m_All B s'"
begin

lemma apply_one_known:
  assumes "map_of ex (bkc_URL bc) = Some be" "be \<in> set (m_All B s)" "apply_one B ex bc (n, s) = (n', s')"
  shows "n' = n \<and> m_All B s' = m_All B s \<and> h_be s' = (h_be s)(be := (h_be s be)\<lparr>be_weight := word_of_int (bkc_Weight bc)\<rparr>)"
proof -
  have "GetWeight s be = bkc_Weight bc \<Longrightarrow> word_of_int (bkc_Weight bc) = be_weight (h_be s be)" by (metis GetWeight_def word_of_sint)
  then show ?thesis using assms by (auto simp: apply_one_def Weight_All Weight_be SetWeight_def upd_be_def split: if_splits)
qed

lemma apply_one_new:
  assumes "map_of ex (bkc_URL bc) = None" "apply_one B ex bc (n, s) = (n', s')"
  shows "n' = Suc n \<and> m_All B s' = m_All B s @ [n] \<and> h_be s' = (h_be s)(n := NewBackend (be_cfg bc))"
  using assms by (auto simp: apply_one_def add_backend_def Add_be Add_All All_be)

lemma add_phase:
  assumes "\<forall>(u, b)\<in>set ex. be_URL (h_be s b) = u \<and> b \<in> set (m_All B s)" "\<forall>b\<in>set (m_All B s). b < n"
    and "distinct (map bkc_URL bcs)" "fold (apply_one B ex) bcs (n, s) = (n', s')"
  shows "n \<le> n' \<and> m_All B s' = m_All B s @ [n..<n'] \<and>
    (\<forall>b<n. h_be s' b = (h_be s b)\<lparr>be_weight := be_weight (h_be s' b)\<rparr>) \<and>
    (\<forall>b<n. be_URL (h_be s b) \<notin> bkc_URL ` set bcs \<longrightarrow> h_be s' b = h_be s b) \<and>
    map (\<lambda>b. be_URL (h_be s' b)) [n..<n'] = map bkc_URL (filter (\<lambda>bc. map_of ex (bkc_URL bc) = None) bcs) \<and>
    (\<forall>bc\<in>set bcs. \<exists>b\<in>set (m_All B s'). configured (h_be s' b) bc)"
  using assms
proof (induction bcs arbitrary: n s)
  case Nil
  then show ?case by simp
next
  case (Cons bc bcs)
  obtain n1 s1 where one: "apply_one B ex bc (n, s) = (n1, s1)" by fastforce
  have rest: "fold (apply_one B ex) bcs (n1, s1) = (n', s')" using Cons.prems(4) one by simp
  obtain b where b: "b < n1" "b \<in> set (m_All B s1)" "configured (h_be s1 b) bc"
    and step: "n \<le> n1" "m_All B s1 = m_All B s @ [n..<n1]" "\<forall>x<n. h_be s1 x = (h_be s x)\<lparr>be_weight := be_weight (h_be s1 x)\<rparr>"
      "\<forall>x<n. be_URL (h_be s x) \<noteq> bkc_URL bc \<longrightarrow> h_be s1 x = h_be s x"
      "map (\<lambda>x. be_URL (h_be s1 x)) [n..<n1] = (if map_of ex (bkc_URL bc) = None then [bkc_URL bc] else [])"
  proof (cases "map_of ex (bkc_URL bc)")
    case None
    from apply_one_new[OF None one] show ?thesis
      by (intro that[of n]) (auto simp: None configured_def NewBackend_def be_cfg_def)
  next
    case (Some be)
    then have "(bkc_URL bc, be) \<in> set ex" by (rule map_of_SomeD)
    then have be: "be_URL (h_be s be) = bkc_URL bc" "be \<in> set (m_All B s)" "be < n" using Cons.prems(1,2) by auto
    from apply_one_known[OF Some be(2) one] be show ?thesis
      by (intro that[of be]) (auto simp: Some configured_def)
  qed
  have ex1: "\<forall>(u, b)\<in>set ex. be_URL (h_be s1 b) = u \<and> b \<in> set (m_All B s1)"
  proof -
    have "be_URL (h_be s1 x) = be_URL (h_be s x)" if "x < n" for x
      by (rule reweighed_URL) (use that step(3) in blast)
    then show ?thesis using Cons.prems(1,2) step(2) by fastforce
  qed
  have below: "\<forall>x\<in>set (m_All B s1). x < n1" using Cons.prems(2) step(1,2) by auto
  note ih = Cons.IH[OF ex1 below _ rest]
  have d: "distinct (map bkc_URL bcs)" "bkc_URL bc \<notin> bkc_URL ` set bcs" using Cons.prems(3) by auto
  have IH: "n1 \<le> n'" "m_All B s' = m_All B s1 @ [n1..<n']" "\<forall>x<n1. h_be s' x = (h_be s1 x)\<lparr>be_weight := be_weight (h_be s' x)\<rparr>"
    "\<forall>x<n1. be_URL (h_be s1 x) \<notin> bkc_URL ` set bcs \<longrightarrow> h_be s' x = h_be s1 x"
    "map (\<lambda>x. be_URL (h_be s' x)) [n1..<n'] = map bkc_URL (filter (\<lambda>bc. map_of ex (bkc_URL bc) = None) bcs)"
    "\<forall>bc\<in>set bcs. \<exists>b\<in>set (m_All B s'). configured (h_be s' b) bc" using ih[OF d(1)] by blast+
  have up: "[n..<n'] = [n..<n1] @ [n1..<n']" using step(1) IH(1) by (metis le_Suc_ex upt_add_eq_append)
  have keep: "h_be s' b = h_be s1 b" using IH(4) b d(2) by (simp add: configured_def)
  have url: "be_URL (h_be s' x) = be_URL (h_be s1 x)" if "x < n1" for x
    by (rule reweighed_URL) (use that IH(3) in blast)
  show ?case
  proof (intro conjI)
    show "\<forall>x<n. h_be s' x = (h_be s x)\<lparr>be_weight := be_weight (h_be s' x)\<rparr>"
    proof (intro allI impI)
      fix x assume "x < n"
      then show "h_be s' x = (h_be s x)\<lparr>be_weight := be_weight (h_be s' x)\<rparr>"
        using reweighed_trans[of "h_be s' x" "h_be s1 x" "h_be s x"] IH(3) step(1,3) by fastforce
    qed
    show "\<forall>x<n. be_URL (h_be s x) \<notin> bkc_URL ` set (bc # bcs) \<longrightarrow> h_be s' x = h_be s x" using IH(4) step(1,4) by fastforce
    show "map (\<lambda>x. be_URL (h_be s' x)) [n..<n'] = map bkc_URL (filter (\<lambda>bc. map_of ex (bkc_URL bc) = None) (bc # bcs))"
    proof -
      have "map (\<lambda>x. be_URL (h_be s' x)) [n..<n1] = map (\<lambda>x. be_URL (h_be s1 x)) [n..<n1]" using url by simp
      then show ?thesis using step(5) IH(5) by (simp add: up del: map_eq_conv)
    qed
    show "\<forall>bc'\<in>set (bc # bcs). \<exists>b\<in>set (m_All B s'). configured (h_be s' b) bc'" using IH(2,6) b(2,3) keep by (auto intro!: bexI[of _ b])
  qed (use step(1,2) IH(1,2) up in auto)
qed

lemma drop_phase:
  "fold (drop_one B D) ex (cb, s) = (cb', s') \<Longrightarrow>
    m_All B s' = fold remove1 (map snd (filter (\<lambda>(u, b). u \<notin> D) ex)) (m_All B s) \<and> h_be s' = h_be s \<and>
    cb' = fold (\<lambda>b. map_option (CB_Reset b)) (map snd (filter (\<lambda>(u, b). u \<notin> D) ex)) cb"
  by (induction ex arbitrary: cb s) (auto simp: drop_one_def Remove_All Remove_be split: if_splits)

lemma apply_ok:
  assumes "group_ok B n s" "distinct (map bkc_URL bcs)" "applyBackendChanges B bcs (cb, n, s) = (cb', n', s')"
  shows "m_All B s' = filter (\<lambda>b. be_URL (h_be s b) \<in> bkc_URL ` set bcs) (m_All B s) @ [n..<n'] \<and> n \<le> n' \<and>
    (\<forall>b<n. h_be s' b = (h_be s b)\<lparr>be_weight := be_weight (h_be s' b)\<rparr>) \<and>
    map (\<lambda>b. be_URL (h_be s' b)) [n..<n'] = map bkc_URL (filter (\<lambda>bc. bkc_URL bc \<notin> (\<lambda>b. be_URL (h_be s b)) ` set (m_All B s)) bcs) \<and>
    (\<forall>bc\<in>set bcs. \<exists>b\<in>set (m_All B s'). configured (h_be s' b) bc) \<and>
    (\<forall>c b. cb' = Some c \<and> b \<in> set (m_All B s) - set (m_All B s') \<longrightarrow> GetState c b = StateClosed)"
proof -
  let ?U = "\<lambda>b. be_URL (h_be s b)" and ?D = "bkc_URL ` set bcs"
  let ?ex = "map (\<lambda>b. (?U b, b)) (m_All B s)"
  have g: "distinct (map ?U (m_All B s))" "\<forall>b\<in>set (m_All B s). b < n" using assms(1) by (auto simp: group_ok_def)
  have ex: "existing_index s (m_All B s) = ?ex" using g(1) by (rule existing_index_distinct)
  obtain n1 s1 where add: "fold (apply_one B ?ex) bcs (n, s) = (n1, s1)" by fastforce
  obtain cb2 s2 where drop: "fold (drop_one B ?D) ?ex (cb, s1) = (cb2, s2)" by fastforce
  have res: "cb' = cb2" "n' = n1" "s' = s2" using assms(3) by (simp_all add: applyBackendChanges_def ex add drop)
  have none: "map_of ?ex u = None \<longleftrightarrow> u \<notin> ?U ` set (m_All B s)" for u by (auto simp: map_of_eq_None_iff image_image)
  have A: "n \<le> n1" "m_All B s1 = m_All B s @ [n..<n1]" "\<forall>b<n. h_be s1 b = (h_be s b)\<lparr>be_weight := be_weight (h_be s1 b)\<rparr>"
    "map (\<lambda>b. be_URL (h_be s1 b)) [n..<n1] = map bkc_URL (filter (\<lambda>bc. bkc_URL bc \<notin> ?U ` set (m_All B s)) bcs)"
    "\<forall>bc\<in>set bcs. \<exists>b\<in>set (m_All B s1). configured (h_be s1 b) bc"
    using add_phase[OF _ g(2) assms(2) add] unfolding none by auto
  let ?gone = "filter (\<lambda>b. ?U b \<notin> ?D) (m_All B s)"
  have gone: "map snd (filter (\<lambda>(u, b). u \<notin> ?D) ?ex) = ?gone" by (simp add: filter_map o_def)
  have R: "m_All B s2 = fold remove1 ?gone (m_All B s1)" "h_be s2 = h_be s1" "cb2 = fold (\<lambda>b. map_option (CB_Reset b)) ?gone cb"
    using drop_phase[OF drop] by (simp_all only: gone)
  have dA: "distinct (m_All B s1)" using g A(2) by (auto simp: distinct_map)
  have upn: "filter (\<lambda>b. b \<notin> set ?gone) [n..<n1] = [n..<n1]" using g(2) by (auto simp: filter_id_conv)
  have all: "m_All B s2 = filter (\<lambda>b. ?U b \<in> ?D) (m_All B s) @ [n..<n1]"
    unfolding R(1) fold_remove1[OF dA] unfolding A(2) filter_append upn by (auto intro!: filter_cong)
  have kept: "b \<in> set (m_All B s2)" if "b \<in> set (m_All B s1)" "configured (h_be s1 b) bc" "bc \<in> set bcs" for b bc
  proof (cases "b < n")
    case True
    then have "b \<in> set (m_All B s)" "?U b = bkc_URL bc"
      using that A(2,3) reweighed_URL[of "h_be s1 b" _ "h_be s b"] by (auto simp: configured_def)
    then show ?thesis using that by (auto simp: all)
  qed (use that g(2) A(2) all in auto)
  have "\<forall>bc\<in>set bcs. \<exists>b\<in>set (m_All B s2). configured (h_be s1 b) bc" using A(5) kept by blast
  moreover have "GetState c b = StateClosed" if "cb2 = Some c" "b \<in> set (m_All B s) - set (m_All B s2)" for c b
    using that CB_Reset_closed[of ?gone cb c b] by (auto simp: R(3) all)
  ultimately show ?thesis unfolding res R(2) using A(1,3,4) all by blast
qed

end

context topology
begin

lemma group_after:
  assumes "group_ok B n s" "distinct (map bkc_URL bcs)" "applyBackendChanges B bcs (cb, n, s) = (cb', n', s')"
  shows "set (map (\<lambda>b. be_URL (h_be s' b)) (m_All B s')) = bkc_URL ` set bcs \<and> group_ok B n' s' \<and>
    (\<forall>bc\<in>set bcs. \<exists>b\<in>set (m_All B s'). configured (h_be s' b) bc) \<and>
    (\<forall>b\<in>set (m_All B s). h_be s' b = (h_be s b)\<lparr>be_weight := be_weight (h_be s' b)\<rparr>) \<and>
    (\<forall>b\<in>set (m_All B s). b \<notin> set (m_All B s') \<longrightarrow> (\<forall>c. cb' = Some c \<longrightarrow> GetState c b = StateClosed))"
proof -
  let ?U = "\<lambda>b. be_URL (h_be s b)" and ?D = "bkc_URL ` set bcs"
  have g: "distinct (map ?U (m_All B s))" "\<forall>b\<in>set (m_All B s). b < n" using assms(1) by (auto simp: group_ok_def)
  note a = apply_ok[OF assms]
  have keep: "be_URL (h_be s' b) = ?U b" if "b < n" for b by (rule reweighed_URL) (use a that in blast)
  let ?K = "filter (\<lambda>b. ?U b \<in> ?D) (m_All B s)"
  have m: "map (\<lambda>b. be_URL (h_be s' b)) (m_All B s') = map ?U ?K @ map bkc_URL (filter (\<lambda>bc. bkc_URL bc \<notin> ?U ` set (m_All B s)) bcs)"
    using a g(2) keep by simp
  have "distinct (map ?U ?K)" using g(1) by (rule distinct_map_filter)
  moreover have "distinct (map bkc_URL (filter (\<lambda>bc. bkc_URL bc \<notin> ?U ` set (m_All B s)) bcs))" using assms(2) by (rule distinct_map_filter)
  ultimately have "distinct (map (\<lambda>b. be_URL (h_be s' b)) (m_All B s'))" unfolding m by (force simp: distinct_append)
  moreover have "\<forall>b\<in>set (m_All B s'). b < n'" using a g(2) by auto
  moreover have "set (map (\<lambda>b. be_URL (h_be s' b)) (m_All B s')) = ?D" unfolding m by (force simp: image_iff)
  ultimately show ?thesis unfolding group_ok_def using a g(2) by (intro conjI) blast+
qed

end

definition base_table :: "addr \<Rightarrow> lb_heap balancer \<Rightarrow> bool" where
  "base_table a B \<longleftrightarrow> m_All B = BB_All a \<and> m_Add B = BB_Add a \<and> m_Remove B = BB_Remove a \<and> m_UpdateWeight B = BB_UpdateWeight a"

lemma topology_base: "base_table a B \<Longrightarrow> topology B a"
  by (intro topology.intro topology_axioms.intro membership_base[of B a])
    (auto simp: base_table_def BB_All_def BB_Add_def BB_Remove_def BB_UpdateWeight_def SetWeight_def upd_be_def)

lemma base_algorithm: "NewByAlgorithm mexp a name reps lf s = (Some B, s') \<Longrightarrow> base_table a B"
  by (auto simp: NewByAlgorithm_def base_table_def vtable_defs split: if_splits)

lemma base_round_robin: "base_table a (RoundRobin a)"
  by (simp add: base_table_def vtable_defs)

interpretation rr_topology: topology "RoundRobin a" a for a
  by (rule topology_base[OF base_round_robin])

lemma base_wrappers:
  assumes "base_table a B"
  shows "base_table a (PriorityTiers B)" "base_table a (ZoneAware z p B)" "base_table a (SlowStart a' B)" "base_table a (OutlierDetection a' B)"
  using assms by (simp_all add: base_table_def wrapper_defs)

lemma base_setup: "setupBalancer mexp a lb backends s = (B, s') \<Longrightarrow> base_table a B"
proof -
  assume st: "setupBalancer mexp a lb backends s = (B, s')"
  obtain r s1 where r: "NewByAlgorithm mexp a (lb_Algorithm lb) (lb_Replicas lb) (lb_LoadFactor lb) s = (r, s1)" by fastforce
  have "base_table a (case r of Some b \<Rightarrow> b | None \<Rightarrow> RoundRobin a)"
    using base_algorithm[of mexp a _ _ _ s _ s1] r base_round_robin by (auto split: option.split)
  then show ?thesis using st by (auto simp: setupBalancer_def r compose_def Let_def intro!: base_wrappers)
qed

section \<open>New route groups leave the other groups alone\<close>

lemma add_backends_frame:
  assumes "base_table a' B" "a \<noteq> a'" "\<forall>e\<in>set es. n \<le> fst e"
  shows "h_base (fold (add_backend B) es s) a = h_base s a \<and> (\<forall>b<n. h_be (fold (add_backend B) es s) b = h_be s b)"
  using assms(3)
proof (induction es arbitrary: s)
  case (Cons e es)
  then show ?case using Cons.IH[of "add_backend B e s"] assms(1,2) by (simp add: add_backend_def base_table_def BB_Add_def)
qed simp

lemma BuildGroup_frame:
  assumes "BuildGroup mexp a' m rc s = (r, s')" "a < a'" "n \<le> m"
  shows "h_base s' a = h_base s a \<and> (\<forall>b<n. h_be s' b = h_be s b)"
proof -
  obtain q s1 where q: "NewByAlgorithm mexp a' (rc_Algorithm rc) (rc_Replicas rc) (rc_LoadFactor rc) s = (q, s1)" by fastforce
  then have s1: "h_base s1 = h_base s" "h_be s1 = h_be s" by (auto simp: NewByAlgorithm_def split: if_splits)
  show ?thesis
  proof (cases q)
    case (Some B)
    have "\<forall>e\<in>set (enumerate m (rc_Backends rc)). n \<le> fst e" using assms(3) by (auto simp: in_set_enumerate_eq)
    moreover have "base_table a' B" using q Some base_algorithm by blast
    ultimately show ?thesis using assms(1,2) add_backends_frame[of a' B a "enumerate m (rc_Backends rc)" n s1] q Some s1
      by (auto simp: BuildGroup_def)
  qed (use assms(1) q s1 in \<open>simp add: BuildGroup_def\<close>)
qed

lemma build_frame:
  "build_matchers mexp a' m rcs s = (r, s') \<Longrightarrow> a < a' \<Longrightarrow> n \<le> m \<Longrightarrow> h_base s' a = h_base s a \<and> (\<forall>b<n. h_be s' b = h_be s b)"
proof (induction mexp a' m rcs s arbitrary: r s' rule: build_matchers.induct)
  case (2 mexp a' m rc rcs s)
  obtain q s1 where q: "BuildGroup mexp a' m rc s = (q, s1)" by fastforce
  note g = BuildGroup_frame[OF q 2(3,4)]
  show ?case
  proof (cases q)
    case (Some B)
    obtain q2 s2 where q2: "build_matchers mexp (a' + 1) (m + length (rc_Backends rc)) rcs s1 = (q2, s2)" by fastforce
    have "h_base s2 a = h_base s1 a \<and> (\<forall>b<n. h_be s2 b = h_be s1 b)"
      using 2(1)[OF q[symmetric] Some q2] 2(3,4) by simp
    moreover have "s' = s2" using 2(2) q Some q2 by (auto split: option.splits)
    ultimately show ?thesis using g by simp
  qed (use 2(2) q g in simp)
qed simp

lemma UpdateRoutes_frame:
  assumes "UpdateRoutes mexp a' m rcs (r, s) = (ok, r', s')" "a < a'"
  shows "h_base s' a = h_base s a \<and> (\<forall>b<m. h_be s' b = h_be s b)"
proof -
  obtain q s1 where "build_matchers mexp a' m rcs s = (q, s1)" by fastforce
  then show ?thesis using assms build_frame[of mexp a' m rcs s q s1 a m] by (auto simp: UpdateRoutes_def split: option.splits)
qed

lemma sv_warn_sel [simp]: "sv_heap (sv_warn m sv) = sv_heap sv" "sv_balancer (sv_warn m sv) = sv_balancer sv"
  "sv_circuitBreaker (sv_warn m sv) = sv_circuitBreaker sv" "sv_nextBackend (sv_warn m sv) = sv_nextBackend sv"
  "sv_nextBalancer (sv_warn m sv) = sv_nextBalancer sv" "sv_cfg (sv_warn m sv) = sv_cfg sv" "sv_router (sv_warn m sv) = sv_router sv"
  "sv_proxy (sv_warn m sv) = sv_proxy sv" "sv_limiter (sv_warn m sv) = sv_limiter sv"
  by (simp_all add: sv_warn_def)

lemma warn_if_sel [simp]: "sv_heap (warn_if c m sv) = sv_heap sv" "sv_balancer (warn_if c m sv) = sv_balancer sv"
  "sv_circuitBreaker (warn_if c m sv) = sv_circuitBreaker sv" "sv_nextBackend (warn_if c m sv) = sv_nextBackend sv"
  "sv_nextBalancer (warn_if c m sv) = sv_nextBalancer sv" "sv_cfg (warn_if c m sv) = sv_cfg sv" "sv_router (warn_if c m sv) = sv_router sv"
  "sv_proxy (warn_if c m sv) = sv_proxy sv" "sv_limiter (warn_if c m sv) = sv_limiter sv" "warn_if False m sv = sv"
  by (simp_all add: warn_if_def)

lemma reload_limits_sel [simp]: "sv_heap (reload_limits lib new sv) = sv_heap sv" "sv_balancer (reload_limits lib new sv) = sv_balancer sv"
  "sv_circuitBreaker (reload_limits lib new sv) = sv_circuitBreaker sv" "sv_nextBackend (reload_limits lib new sv) = sv_nextBackend sv"
  "sv_nextBalancer (reload_limits lib new sv) = sv_nextBalancer sv" "sv_cfg (reload_limits lib new sv) = sv_cfg sv"
  "sv_router (reload_limits lib new sv) = sv_router sv" "sv_proxy (reload_limits lib new sv) = sv_proxy sv"
  "sv_warnings (reload_limits lib new sv) = sv_warnings sv"
  by (simp_all add: reload_limits_def Let_def)

lemma reload_canary_sel [simp]: "sv_heap (reload_canary new sv) = sv_heap sv" "sv_balancer (reload_canary new sv) = sv_balancer sv"
  "sv_circuitBreaker (reload_canary new sv) = sv_circuitBreaker sv" "sv_nextBackend (reload_canary new sv) = sv_nextBackend sv"
  "sv_cfg (reload_canary new sv) = sv_cfg sv" "sv_router (reload_canary new sv) = sv_router sv"
  by (simp_all add: reload_canary_def Let_def)

lemma pc_router_canary: "pc_router (sv_proxy (reload_canary new sv)) = pc_router (sv_proxy sv)"
  by (simp add: reload_canary_def UpdateCanaryWeight_def Let_def)

lemma warn_if_warnings: "set (sv_warnings (warn_if c m sv)) \<subseteq> insert m (set (sv_warnings sv))"
  by (auto simp: warn_if_def sv_warn_def)

lemma reload_canary_warnings:
  "set (sv_warnings (reload_canary new sv)) \<subseteq> insert ''Canary topology changes require a restart to take effect'' (set (sv_warnings sv))"
  by (auto simp: reload_canary_def sv_warn_def Let_def)

lemma reload_backends_sel [simp]: "sv_balancer (reload_backends new sv) = sv_balancer sv" "sv_cfg (reload_backends new sv) = sv_cfg sv"
  "sv_nextBalancer (reload_backends new sv) = sv_nextBalancer sv" "sv_router (reload_backends new sv) = sv_router sv"
  "sv_proxy (reload_backends new sv) = sv_proxy sv" "sv_warnings (reload_backends new sv) = sv_warnings sv"
  by (simp_all add: reload_backends_def split: prod.splits)

lemma reload_routes_sel [simp]: "sv_balancer (reload_routes mexp new sv) = sv_balancer sv" "sv_cfg (reload_routes mexp new sv) = sv_cfg sv"
  "sv_circuitBreaker (reload_routes mexp new sv) = sv_circuitBreaker sv"
  by (simp_all add: reload_routes_def Let_def split: prod.splits option.splits)

lemma reload_routes_frame:
  assumes "base_table a (sv_balancer sv)" "a < sv_nextBalancer sv"
  shows "m_All (sv_balancer sv) (sv_heap (reload_routes mexp new sv)) = m_All (sv_balancer sv) (sv_heap sv) \<and>
    (\<forall>b < sv_nextBackend sv. h_be (sv_heap (reload_routes mexp new sv)) b = h_be (sv_heap sv) b) \<and>
    sv_nextBackend sv \<le> sv_nextBackend (reload_routes mexp new sv)"
proof (cases "routeGroupsEqual (c_Routes (sv_cfg sv)) (c_Routes new)")
  case False
  show ?thesis
  proof (cases "sv_router sv")
    case (Some r)
    obtain ok r' s' where u: "UpdateRoutes mexp (sv_nextBalancer sv) (sv_nextBackend sv) (map route_of (c_Routes new)) (r, sv_heap sv) = (ok, r', s')"
      by (metis surj_pair)
    note f = UpdateRoutes_frame[OF u assms(2)]
    then have "m_All (sv_balancer sv) s' = m_All (sv_balancer sv) (sv_heap sv)" using topology.All_local[OF topology_base[OF assms(1)]] by blast
    then show ?thesis using False Some u f by (simp add: reload_routes_def Let_def)
  qed (use False in \<open>simp add: reload_routes_def\<close>)
qed (simp add: reload_routes_def)

text \<open>The default group after a reload.\<close>

lemma reload_group:
  assumes base: "base_table a (sv_balancer sv)" and fresh: "a < sv_nextBalancer sv"
    and ok: "group_ok (sv_balancer sv) (sv_nextBackend sv) (sv_heap sv)" and new: "distinct (map bkc_URL (c_Backends new))"
    and sv'_def: "sv' = reloadConfig lib mexp (Inr new) sv" and B_def: "B = sv_balancer sv"
  obtains cb n s where "applyBackendChanges B (c_Backends new) (sv_circuitBreaker sv, sv_nextBackend sv, sv_heap sv) = (cb, n, s)"
    "sv_balancer sv' = B" "m_All B (sv_heap sv') = m_All B s" "\<forall>b<n. h_be (sv_heap sv') b = h_be s b"
    "n \<le> sv_nextBackend sv'" "sv_circuitBreaker sv' = cb"
proof -
  obtain cb n s where ap: "applyBackendChanges B (c_Backends new) (sv_circuitBreaker sv, sv_nextBackend sv, sv_heap sv) = (cb, n, s)"
    by (metis surj_pair)
  let ?sv2 = "reload_backends new (reload_limits lib new sv)"
  let ?sv3 = "warn_if (lbc_Algorithm (c_LoadBalancer (sv_cfg sv)) \<noteq> lbc_Algorithm (c_LoadBalancer new))
    ''Load-balancing algorithm change requires a restart to take effect'' ?sv2"
  have s3: "sv_heap ?sv3 = s" "sv_circuitBreaker ?sv3 = cb" "sv_nextBackend ?sv3 = n" "sv_balancer ?sv3 = B" "sv_nextBalancer ?sv3 = sv_nextBalancer sv"
    using ap by (simp_all add: reload_backends_def B_def)
  have fr: "m_All B (sv_heap (reload_routes mexp new ?sv3)) = m_All B s \<and>
    (\<forall>b<n. h_be (sv_heap (reload_routes mexp new ?sv3)) b = h_be s b) \<and> n \<le> sv_nextBackend (reload_routes mexp new ?sv3)"
    using reload_routes_frame[of a ?sv3 mexp new] base fresh unfolding s3 by (simp add: B_def)
  have "sv_balancer sv' = B" "sv_heap sv' = sv_heap (reload_routes mexp new ?sv3)" "sv_circuitBreaker sv' = cb"
    "sv_nextBackend sv' = sv_nextBackend (reload_routes mexp new ?sv3)"
    unfolding sv'_def reloadConfig_def Let_def using s3 by simp_all
  with fr show ?thesis by (intro that[OF ap]) simp_all
qed

definition urls :: "lb_heap balancer \<Rightarrow> lb_heap \<Rightarrow> string list" where
  "urls B s = map (\<lambda>b. be_URL (h_be s b)) (m_All B s)"


section \<open>A reload and discovery\<close>

context topology
begin

lemma add_owned: "set us \<subseteq> fst ` set ow \<Longrightarrow> fold (disc_add B cfg) us (ow, n, s) = (ow, n, s)"
proof (induction us)
  case (Cons u us)
  then obtain b where "map_of ow u = Some b" by (metis list.set_intros(1) map_of_eq_None_iff option.exhaust subset_iff)
  then show ?case using Cons by (simp add: disc_add_def)
qed simp

lemma diff_insert_trans: "X - {k} \<subseteq> Y \<Longrightarrow> Y - K \<subseteq> Z \<Longrightarrow> X - insert k K \<subseteq> Z"
  by auto

lemma remove_shrinks:
  "fold (disc_remove B) ks (ow, n, s) = (ow', n', s') \<Longrightarrow>
    set (m_All B s') \<subseteq> set (m_All B s) \<and> h_be s' = h_be s \<and> fst ` set ow - set ks \<subseteq> fst ` set ow'"
proof (induction ks arbitrary: ow n s)
  case (Cons k ks)
  obtain o1 n1 t1 where d: "disc_remove B k (ow, n, s) = (o1, n1, t1)" by (metis surj_pair)
  then have "set (m_All B t1) \<subseteq> set (m_All B s) \<and> h_be t1 = h_be s \<and> fst ` set ow - {k} \<subseteq> fst ` set o1"
    by (auto simp: disc_remove_def Remove_All Remove_be AList.delete_eq image_iff dest: set_remove1_subset[THEN subsetD] split: option.splits)
  moreover have "set (m_All B s') \<subseteq> set (m_All B t1) \<and> h_be s' = h_be t1 \<and> fst ` set o1 - set ks \<subseteq> fst ` set ow'"
    using Cons.IH[of o1 n1 t1] Cons.prems d by simp
  ultimately show ?case using diff_insert_trans[of "fst ` set ow" k "fst ` set o1" "set ks" "fst ` set ow'"] by auto
qed auto

text \<open>A lookup that names only backends already owned adds none.\<close>

lemma sync_owned:
  assumes "resolve res t = Some us" "set us \<subseteq> fst ` set (owned_of d (dt_Name t))" "dns_sync B res t (d, s) = (d', s')"
  shows "set us \<subseteq> fst ` set (owned_of d' (dt_Name t)) \<and> set (m_All B s') \<subseteq> set (m_All B s) \<and> h_be s' = h_be s"
proof -
  let ?ow = "owned_of d (dt_Name t)"
  obtain ow n s1 where f: "fold (disc_remove B) (sort (filter (\<lambda>k. k \<notin> set us) (map fst ?ow))) (?ow, d_next d, s) = (ow, n, s1)"
    by (metis surj_pair)
  then have "converge_sorted B (dns_backend t) us (?ow, d_next d, s) = (ow, n, s1)"
    by (simp add: converge_sorted_def add_owned[OF assms(2)])
  then have "d' = d\<lparr>d_owned := AList.update (dt_Name t) ow (d_owned d), d_next := n\<rparr>" "s' = s1"
    using assms(1,3) by (simp_all add: dns_sync_def)
  moreover have "owned_of (d\<lparr>d_owned := AList.update (dt_Name t) ow (d_owned d), d_next := n\<rparr>) (dt_Name t) = ow"
    by (simp add: owned_of_def update_conv')
  moreover have "set us \<subseteq> fst ` set ?ow - set (sort (filter (\<lambda>k. k \<notin> set us) (map fst ?ow)))" using assms(2) by auto
  ultimately show ?thesis using remove_shrinks[OF f] by auto
qed

lemma syncs_owned:
  assumes "resolve res t = Some us" "set us \<subseteq> fst ` set (owned_of d (dt_Name t))" "(dns_sync B res t ^^ k) (d, s) = (d', s')"
  shows "set us \<subseteq> fst ` set (owned_of d' (dt_Name t)) \<and> set (m_All B s') \<subseteq> set (m_All B s) \<and> h_be s' = h_be s"
  using assms(3)
proof (induction k arbitrary: d' s')
  case (Suc k)
  obtain d1 t1 where "(dns_sync B res t ^^ k) (d, s) = (d1, t1)" by fastforce
  then show ?case using Suc sync_owned[OF assms(1), of d1 t1 d' s'] by fastforce
qed (use assms(2) in simp)

end

text \<open>
  C37. A reload removes the backends that discovery added, for good: a URL that DNS discovery owns and that the file
  does not list is no member after the reload, and however many lookups follow that resolve to the same
  addresses, it does not come back, since the discoverer still counts it as its own.
\<close>

theorem reload_drops_discovered:
  assumes "setupBalancer mexp a lb backends s0 = (B, s1)" "sv_balancer sv = B" "a < sv_nextBalancer sv"
    and "group_ok B (sv_nextBackend sv) (sv_heap sv)" "distinct (map bkc_URL (c_Backends new))"
    and "u \<notin> bkc_URL ` set (c_Backends new)" "resolve res t = Some us" "u \<in> set us" "set us \<subseteq> fst ` set (owned_of d (dt_Name t))"
    and "sv' = reloadConfig lib mexp (Inr new) sv" "(dns_sync B res t ^^ k) (d, sv_heap sv') = (d', s')"
  shows "u \<notin> set (urls B (sv_heap sv')) \<and> u \<notin> set (urls B s') \<and> u \<in> fst ` set (owned_of d' (dt_Name t))"
proof -
  have base: "base_table a (sv_balancer sv)" using base_setup[OF assms(1)] assms(2) by simp
  have ok: "group_ok (sv_balancer sv) (sv_nextBackend sv) (sv_heap sv)" using assms(2,4) by simp
  obtain cb n s where r: "applyBackendChanges B (c_Backends new) (sv_circuitBreaker sv, sv_nextBackend sv, sv_heap sv) = (cb, n, s)"
    "m_All B (sv_heap sv') = m_All B s" "\<forall>b<n. h_be (sv_heap sv') b = h_be s b"
    by (rule reload_group[OF base assms(3) ok assms(5,10) assms(2)[symmetric]])
  note top = topology_base[OF base_setup[OF assms(1)]]
  note g = topology.group_after[OF top assms(4,5) r(1)]
  have "\<forall>b\<in>set (m_All B s). b < n" using g[THEN conjunct2, THEN conjunct1] by (simp add: group_ok_def)
  then have "map (\<lambda>b. be_URL (h_be (sv_heap sv') b)) (m_All B s) = map (\<lambda>b. be_URL (h_be s b)) (m_All B s)" using r(3) by simp
  then have "set (urls B (sv_heap sv')) = bkc_URL ` set (c_Backends new)" using g[THEN conjunct1] unfolding urls_def r(2) by argo
  moreover have "set (urls B s') \<subseteq> set (urls B (sv_heap sv'))" "set us \<subseteq> fst ` set (owned_of d' (dt_Name t))"
    using topology.syncs_owned[OF top assms(7,9,11)] by (auto simp: urls_def)
  ultimately show ?thesis using assms(6,8) by blast
qed

section \<open>Changes of the route table\<close>

text \<open>Two routes that differ in nothing but their host, methods and headers.\<close>

definition same_but_match :: "routeConfig \<Rightarrow> routeConfig \<Rightarrow> bool" where
  "same_but_match r r' \<longleftrightarrow> r' = r\<lparr>rtc_Host := rtc_Host r', rtc_Methods := rtc_Methods r', rtc_Headers := rtc_Headers r'\<rparr>"

lemma backendsEqual_refl: "backendsEqual bs bs"
  by (simp add: backendsEqual_def list.rel_refl)

lemma routeGroupsEqual_edit: "list_all2 same_but_match rs rs' \<Longrightarrow> routeGroupsEqual rs rs'"
  unfolding routeGroupsEqual_def
proof (rule list_all2_mono)
  fix r r' assume "same_but_match r r'"
  then obtain h m x where "r' = r\<lparr>rtc_Host := h, rtc_Methods := m, rtc_Headers := x\<rparr>" unfolding same_but_match_def by blast
  then show "rtc_PathPrefix r = rtc_PathPrefix r' \<and> rtc_Algorithm r = rtc_Algorithm r' \<and> backendsEqual (rtc_Backends r) (rtc_Backends r')"
    by (simp add: backendsEqual_refl)
qed

text \<open>
  C38. A change of the hosts, methods or headers of routes is lost: a reload with routes of which any number differ in
  these, each in its own way, and in nothing else leaves the router and what the proxy asks it as they were, and the new table is recorded as the current one, so that no
  later reload of the same file sees a difference.  Nothing about routes is logged.
\<close>

theorem reload_ignores_match_rules:
  fixes sv :: "'tb server"
  assumes "list_all2 same_but_match (c_Routes (sv_cfg sv)) (c_Routes new)" "sv' = reloadConfig lib mexp (Inr new) sv"
  shows "sv_router sv' = sv_router sv \<and> pc_router (sv_proxy sv') = pc_router (sv_proxy sv) \<and> c_Routes (sv_cfg sv') = c_Routes new \<and>
    sv_router (reloadConfig lib mexp (Inr new) sv') = sv_router sv \<and>
    set (sv_warnings sv') \<subseteq> set (sv_warnings sv) \<union> {''Load-balancing algorithm change requires a restart to take effect'',
      ''Canary topology changes require a restart to take effect'', ''Mirror config changes require a restart to take effect'',
      ''Fault-injection config changes require a restart to take effect''}"
proof -
  have eq: "routeGroupsEqual (c_Routes (sv_cfg sv)) (c_Routes new)" by (rule routeGroupsEqual_edit[OF assms(1)])
  have skip: "reload_routes mexp new x = x" if "sv_cfg x = sv_cfg sv" for x :: "'tb server" using eq that by (simp add: reload_routes_def)
  have one: "sv_router sv' = sv_router sv" "c_Routes (sv_cfg sv') = c_Routes new" "pc_router (sv_proxy sv') = pc_router (sv_proxy sv)"
    unfolding assms(2) reloadConfig_def Let_def by (simp_all add: skip pc_router_canary)
  have "routeGroupsEqual (c_Routes new) (c_Routes new)"
    by (auto simp: routeGroupsEqual_def backendsEqual_refl intro: list.rel_refl)
  then have "reload_routes mexp new x = x" if "sv_cfg x = sv_cfg sv'" for x :: "'tb server" using one(2) that by (simp add: reload_routes_def)
  then have two: "sv_router (reloadConfig lib mexp (Inr new) sv') = sv_router sv"
    unfolding one(1)[symmetric] reloadConfig_def[of lib mexp "Inr new" sv'] Let_def by simp
  have "set (sv_warnings sv') \<subseteq> set (sv_warnings sv) \<union> {''Load-balancing algorithm change requires a restart to take effect'',
      ''Canary topology changes require a restart to take effect'', ''Mirror config changes require a restart to take effect'',
      ''Fault-injection config changes require a restart to take effect''}"
    unfolding assms(2) reloadConfig_def Let_def sum.case
    by (simp add: skip) (rule order_trans[OF warn_if_warnings] insert_subsetI order_trans[OF reload_canary_warnings] insertI1 insertI2 | simp only: reload_backends_sel reload_limits_sel subset_insertI2 subset_refl)+
  then show ?thesis by (intro conjI one two)
qed

section \<open>Examples\<close>

definition loaded_demo :: config where
  "loaded_demo = loaded Map.empty (demo_config demo_headers demo_cors)"

text \<open>A server over two backends, one of them the only one of the file, with a router.\<close>

definition demo_sv :: "unit server" where
  "demo_sv = \<lparr>sv_cfg = loaded_demo, sv_balancer = RoundRobin 0, sv_circuitBreaker = None, sv_limiter = None,
     sv_router = Some \<lparr>rt_routes = [], rt_def = RoundRobin 0\<rparr>, sv_proxy = demo_proxy (RoundRobin 0),
     sv_heap = duo, sv_nextBackend = 2, sv_nextBalancer = 1, sv_warnings = []\<rparr>"

lemma duo_URL: "be_URL (h_be duo b) = (if b = 0 then ''http://a:80'' else ''http://b:80'')"
  by (simp add: duo_def BB_Add_def start_heap_def NewBackend_def duo_cfg_def)

lemma demo_sv_ok: "sv_balancer demo_sv = RoundRobin 0" "0 < sv_nextBalancer demo_sv" "group_ok (RoundRobin 0) (sv_nextBackend demo_sv) (sv_heap demo_sv)"
  by (simp_all add: demo_sv_def group_ok_def RoundRobin_def base_methods_def duo_URL)

lemma loaded_demo_urls: "map bkc_URL (c_Backends loaded_demo) = [''http://a'']"
  by (simp add: loaded_demo_def load_defs demo_defs default_defs demo_expand env_backends_def)


theorem reload_drops_discovered_witness:
  "let sv' = reloadConfig null_rate id (Inr loaded_demo) demo_sv; u = hostport_url ''http'' ''10.0.0.1'' 80;
       d = \<lparr>d_owned = [(''svc'', [(u, 0), (hostport_url ''http'' ''10.0.0.2'' 80, 1)])], d_next = 2\<rparr>
   in u \<notin> set (urls (RoundRobin 0) (snd ((dns_sync (RoundRobin 0) demo_resolver demo_target ^^ 3) (d, sv_heap sv'))))"
proof -
  let ?u = "hostport_url ''http'' ''10.0.0.1'' 80" and ?v = "hostport_url ''http'' ''10.0.0.2'' 80"
  let ?d = "\<lparr>d_owned = [(''svc'', [(?u, 0), (?v, 1)])], d_next = 2\<rparr> :: discoverer"
  let ?sv' = "reloadConfig null_rate id (Inr loaded_demo) demo_sv"
  have ow: "owned_of ?d (dt_Name demo_target) = [(?u, 0), (?v, 1)]" by (simp add: owned_of_def demo_target_def)
  have sub: "set (remdups [?u, ?v]) \<subseteq> fst ` set (owned_of ?d (dt_Name demo_target))" unfolding ow by simp
  have new: "?u \<notin> bkc_URL ` set (c_Backends loaded_demo)"
    unfolding set_map[symmetric] loaded_demo_urls by (simp add: hostport_url_def)
  have dist: "distinct (map bkc_URL (c_Backends loaded_demo))" unfolding loaded_demo_urls by simp
  obtain d' s' where k: "(dns_sync (RoundRobin 0) demo_resolver demo_target ^^ 3) (?d, sv_heap ?sv') = (d', s')" by fastforce
  have "?u \<in> set (remdups [?u, ?v])" unfolding set_remdups by simp
  from reload_drops_discovered[OF plain_setup demo_sv_ok dist new demo_resolve this sub refl k]
  show ?thesis unfolding Let_def k by simp
qed

theorem reload_ignores_match_rules_witness:
  "let r = hd (c_Routes loaded_demo); sv = demo_sv\<lparr>sv_cfg := loaded_demo\<lparr>c_Routes := [r, r]\<rparr>\<rparr>;
       new = loaded_demo\<lparr>c_Routes := [r\<lparr>rtc_Host := ''internal.example''\<rparr>, r\<lparr>rtc_Methods := [''GET'']\<rparr>]\<rparr>;
       sv' = reloadConfig null_rate id (Inr new) sv
   in sv_router sv' = sv_router sv \<and> c_Routes (sv_cfg sv') = c_Routes new \<and> map rtc_Host (c_Routes new) \<noteq> map rtc_Host (c_Routes (sv_cfg sv))"
proof -
  define r where "r = hd (c_Routes loaded_demo)"
  let ?sv = "demo_sv\<lparr>sv_cfg := loaded_demo\<lparr>c_Routes := [r, r]\<rparr>\<rparr>"
  let ?new = "loaded_demo\<lparr>c_Routes := [r\<lparr>rtc_Host := ''internal.example''\<rparr>, r\<lparr>rtc_Methods := [''GET'']\<rparr>]\<rparr>"
  have "list_all2 same_but_match (c_Routes (sv_cfg ?sv)) (c_Routes ?new)" by (simp add: same_but_match_def)
  note m = reload_ignores_match_rules[OF this refl, where lib = null_rate and mexp = id]
  have "map rtc_Host (c_Routes loaded_demo) = [[]]" by (simp add: loaded_demo_def loaded_sections demo_defs route_defaults_def)
  then have "rtc_Host r = []" by (cases "c_Routes loaded_demo") (simp_all add: r_def)
  then show ?thesis unfolding Let_def r_def[symmetric] using m by simp
qed

end
