(* ===== verification/Admin.thy ===== *)
theory Admin
  imports Reload Canary NetUtil
begin

text \<open>
  The admin listener of \<open>internal/server/server.go\<close>: probes, reload and the live changes of backends, behind
  a bearer token.  The value of a query parameter, the JSON encoder, the metrics handlers and the profiler
  are arguments; the path is the one \<open>ServeMux\<close> has cleaned.
\<close>

section \<open>Groups and backends\<close>

definition balancerGroups :: "'tb server \<Rightarrow> lb_heap balancer list" where
  "balancerGroups sv = [sv_balancer sv] @ (case sv_router sv of None \<Rightarrow> [] | Some r \<Rightarrow> Groups r) @
     (case pc_canary (sv_proxy sv) of None \<Rightarrow> [] | Some c \<Rightarrow> [c])"

fun find_in :: "lb_heap \<Rightarrow> string \<Rightarrow> lb_heap balancer list \<Rightarrow> (bid \<times> lb_heap balancer) option" where
  "find_in s url [] = None"
| "find_in s url (g # gs) = (case find (\<lambda>b. be_URL (h_be s b) = url) (m_All g s) of Some b \<Rightarrow> Some (b, g) | None \<Rightarrow> find_in s url gs)"

definition findBackend :: "'tb server \<Rightarrow> string \<Rightarrow> (bid \<times> lb_heap balancer) option" where
  "findBackend sv url = find_in (sv_heap sv) url (balancerGroups sv)"

fun any_healthy :: "lb_heap balancer list \<Rightarrow> lb_heap \<Rightarrow> bool \<times> lb_heap" where
  "any_healthy [] s = (False, s)"
| "any_healthy (g # gs) s = (case m_GetHealthy g s of (bs, s1) \<Rightarrow> if bs \<noteq> [] then (True, s1) else any_healthy gs s1)"

definition hasHealthyBackend :: "'tb server \<Rightarrow> bool \<times> 'tb server" where
  "hasHealthyBackend sv = (let (ok, s) = any_healthy (balancerGroups sv) (sv_heap sv) in (ok, sv\<lparr>sv_heap := s\<rparr>))"

record adminBackend =
  ab_URL :: string
  ab_Healthy :: bool
  ab_ActiveConns :: int
  ab_Weight :: int
  ab_CircuitState :: string

definition admin_entry :: "'tb server \<Rightarrow> bid \<Rightarrow> adminBackend" where
  "admin_entry sv b = (let s = sv_heap sv in
     \<lparr>ab_URL = be_URL (h_be s b), ab_Healthy = IsHealthy s b, ab_ActiveConns = GetActiveConns s b, ab_Weight = GetWeight s b,
      ab_CircuitState = State_String (case sv_circuitBreaker sv of None \<Rightarrow> StateClosed | Some c \<Rightarrow> GetState c b)\<rparr>)"

fun admin_list :: "'tb server \<Rightarrow> bid list \<Rightarrow> string list \<Rightarrow> adminBackend list" where
  "admin_list sv [] seen = []"
| "admin_list sv (b # bs) seen =
     (let url = be_URL (h_be (sv_heap sv) b) in
      if url \<in> set seen then admin_list sv bs seen else admin_entry sv b # admin_list sv bs (url # seen))"

section \<open>Handlers\<close>

definition adminAuth :: "string \<Rightarrow> 's handler \<Rightarrow> 's handler" where
  "adminAuth token nxt =
     (if token = [] then nxt
      else (\<lambda>req ws. if hdr_Get (r_Header req) ''Authorization'' \<noteq> ''Bearer '' @ token
                     then respond (http_Error ''Unauthorized'' 401 \<circ> set_header ''WWW-Authenticate'' ''Bearer'') ws
                     else nxt req ws))"

definition handleHealthz :: "'s handler" where
  "handleHealthz req = respond (Write ''ok'' \<circ> WriteHeader 200)"

definition handleReadyz :: "'tb server handler" where
  "handleReadyz req ws =
     (let (w, sv) = ws; (ok, sv') = hasHealthyBackend sv in
      (if ok then Write ''ready'' (WriteHeader 200 w) else http_Error ''no healthy backends'' 503 w, sv'))"

definition not_allowed :: "string \<Rightarrow> writer \<times> 's \<Rightarrow> writer \<times> 's" where
  "not_allowed meth = respond (http_Error ''Method Not Allowed'' 405 \<circ> set_header ''Allow'' meth)"

definition handleReload :: "('tb server \<Rightarrow> 'tb server) \<Rightarrow> 'tb server handler" where
  "handleReload reload req ws =
     (if r_Method req \<noteq> ''POST'' then not_allowed ''POST'' ws
      else let (w, sv) = ws in (WriteHeader 200 w, reload sv))"

definition handleAdminBackends :: "(adminBackend list \<Rightarrow> string) \<Rightarrow> 'tb server handler" where
  "handleAdminBackends encode req ws =
     (if r_Method req \<noteq> ''GET'' then not_allowed ''GET'' ws
      else let (w, sv) = ws; out = admin_list sv (concat (map (\<lambda>g. m_All g (sv_heap sv)) (balancerGroups sv))) [] in
           (Write (encode out) (set_header ''Content-Type'' ''application/json'' w), sv))"

definition adminBackendByURL ::
  "(string \<Rightarrow> string \<Rightarrow> string) \<Rightarrow> request \<Rightarrow> writer \<times> 'tb server \<Rightarrow> (writer \<times> 'tb server) + (bid \<times> lb_heap balancer)" where
  "adminBackendByURL query req ws =
     (if r_Method req \<noteq> ''POST'' then Inl (not_allowed ''POST'' ws)
      else let url = query (r_RawQuery req) ''url'' in
           if url = [] then Inl (respond (http_Error ''missing url parameter'' 400) ws)
           else case findBackend (snd ws) url of
                  None \<Rightarrow> Inl (respond (http_Error ''backend not found'' 404) ws)
                | Some bg \<Rightarrow> Inr bg)"

definition handleAdminHealth :: "bool \<Rightarrow> (string \<Rightarrow> string \<Rightarrow> string) \<Rightarrow> 'tb server handler" where
  "handleAdminHealth v query req ws =
     (case adminBackendByURL query req ws of
        Inl ws' \<Rightarrow> ws'
      | Inr (be, _) \<Rightarrow> let (w, sv) = ws in (WriteHeader 200 w, sv\<lparr>sv_heap := SetHealthy be v (sv_heap sv)\<rparr>))"

definition handleAdminDrain :: "(string \<Rightarrow> string \<Rightarrow> string) \<Rightarrow> 'tb server handler" where
  "handleAdminDrain = handleAdminHealth False"

definition handleAdminUndrain :: "(string \<Rightarrow> string \<Rightarrow> string) \<Rightarrow> 'tb server handler" where
  "handleAdminUndrain = handleAdminHealth True"

definition handleAdminWeight :: "(string \<Rightarrow> string \<Rightarrow> string) \<Rightarrow> 'tb server handler" where
  "handleAdminWeight query req ws =
     (case adminBackendByURL query req ws of
        Inl ws' \<Rightarrow> ws'
      | Inr (be, g) \<Rightarrow>
          case ParseInt64 (query (r_RawQuery req) ''weight'') of
            None \<Rightarrow> respond (http_Error ''invalid weight parameter'' 400) ws
          | Some weight \<Rightarrow>
              if weight < 0 then respond (http_Error ''weight must be non-negative'' 400) ws
              else let (w, sv) = ws in (WriteHeader 200 w, sv\<lparr>sv_heap := m_UpdateWeight g be weight (sv_heap sv)\<rparr>))"

definition handleAdminCircuitReset :: "(string \<Rightarrow> string \<Rightarrow> string) \<Rightarrow> 'tb server handler" where
  "handleAdminCircuitReset query req ws =
     (case adminBackendByURL query req ws of
        Inl ws' \<Rightarrow> ws'
      | Inr (be, _) \<Rightarrow> let (w, sv) = ws in (WriteHeader 200 w, sv\<lparr>sv_circuitBreaker := map_option (CB_Reset be) (sv_circuitBreaker sv)\<rparr>))"

definition handleAdminCanaryStatus :: "autoPromoter option \<Rightarrow> (ap_status \<Rightarrow> string) \<Rightarrow> 's handler" where
  "handleAdminCanaryStatus ap encode req =
     (if r_Method req \<noteq> ''GET'' then respond (http_Error ''method not allowed'' 405)
      else case ap of
             None \<Rightarrow> respond (Write ''{\"enabled\":false}'' \<circ> WriteHeader 200 \<circ> set_header ''Content-Type'' ''application/json'')
           | Some p \<Rightarrow> respond (Write (encode (AP_Status p)) \<circ> set_header ''Content-Type'' ''application/json''))"

section \<open>The mux\<close>

record 'tb admin_env =
  ae_query :: "string \<Rightarrow> string \<Rightarrow> string"
  ae_encode :: "adminBackend list \<Rightarrow> string"
  ae_status :: "ap_status \<Rightarrow> string"
  ae_promoter :: "autoPromoter option"
  ae_reload :: "'tb server \<Rightarrow> 'tb server"
  ae_metrics :: "writer \<Rightarrow> writer"
  ae_metrics_json :: "writer \<Rightarrow> writer"
  ae_pprof :: "request \<Rightarrow> writer \<Rightarrow> writer"

definition guarded_handlers :: "'tb admin_env \<Rightarrow> (string \<times> 'tb server handler) list" where
  "guarded_handlers e =
     [(''/metrics'', \<lambda>req. respond (ae_metrics e)), (''/metrics.json'', \<lambda>req. respond (ae_metrics_json e)),
      (''/reload'', handleReload (ae_reload e)), (''/admin/backends'', handleAdminBackends (ae_encode e)),
      (''/admin/drain'', handleAdminDrain (ae_query e)), (''/admin/undrain'', handleAdminUndrain (ae_query e)),
      (''/admin/weight'', handleAdminWeight (ae_query e)), (''/admin/circuit/reset'', handleAdminCircuitReset (ae_query e)),
      (''/admin/canary/status'', handleAdminCanaryStatus (ae_promoter e) (ae_status e))]"

definition metricsMux :: "string \<Rightarrow> 'tb admin_env \<Rightarrow> 'tb server handler" where
  "metricsMux token e req =
     (let auth = adminAuth token in
      case map_of (guarded_handlers e) (r_Path req) of
        Some h \<Rightarrow> auth h req
      | None \<Rightarrow>
          if r_Path req = ''/healthz'' then handleHealthz req
          else if r_Path req = ''/readyz'' then handleReadyz req
          else if HasPrefix (r_Path req) ''/debug/pprof/'' then auth (\<lambda>req. respond (ae_pprof e req)) req
          else respond (http_Error ''404 page not found'' 404))"

section \<open>Only an authorised request changes anything\<close>

text \<open>A group whose membership and list of healthy members are those of a base balancer.\<close>

definition base_group :: "lb_heap balancer \<Rightarrow> bool" where
  "base_group g \<longleftrightarrow> (\<exists>a. base_table a g \<and> m_GetHealthy g = BB_GetHealthy a)"

lemma base_group_algorithm: "NewByAlgorithm mexp a name reps lf s = (Some B, s') \<Longrightarrow> base_group B"
  using base_algorithm[of mexp a name reps lf s B s']
  by (auto simp: NewByAlgorithm_def base_group_def vtable_defs split: if_splits intro!: exI[of _ a])

lemma base_group_wrappers:
  assumes "base_group B"
  shows "base_group (PriorityTiers B)" "base_group (ZoneAware z p B)" "base_group (SlowStart a' B)" "base_group (OutlierDetection a' B)"
  using assms base_wrappers[of _ B] by (fastforce simp: base_group_def wrapper_defs)+

text \<open>Every group the configuration can build, the default one and those of the routes, is one.\<close>

lemma base_group_setup: "setupBalancer mexp a lb backends s = (B, s') \<Longrightarrow> base_group B"
proof -
  assume st: "setupBalancer mexp a lb backends s = (B, s')"
  obtain r s1 where r: "NewByAlgorithm mexp a (lb_Algorithm lb) (lb_Replicas lb) (lb_LoadFactor lb) s = (r, s1)" by fastforce
  have "base_group (RoundRobin a)" using base_round_robin by (auto simp: base_group_def vtable_defs intro!: exI[of _ a])
  then have "base_group (case r of Some b \<Rightarrow> b | None \<Rightarrow> RoundRobin a)"
    using base_group_algorithm[of mexp a _ _ _ s _ s1] r by (auto split: option.split)
  then show ?thesis using st by (auto simp: setupBalancer_def r compose_def Let_def intro!: base_group_wrappers)
qed

lemma base_group_routes:
  "build_matchers mexp a n rcs s = (Some ms, s') \<Longrightarrow> \<forall>m\<in>set ms. base_group (mt_bal m)"
proof (induction mexp a n rcs s arbitrary: ms s' rule: build_matchers.induct)
  case (2 mexp a n rc rcs s)
  obtain B s1 where B: "BuildGroup mexp a n rc s = (Some B, s1)" using 2(2) by (auto split: prod.splits option.splits)
  then obtain ms1 s2 where m: "build_matchers mexp (a + 1) (n + length (rc_Backends rc)) rcs s1 = (Some ms1, s2)" "ms = matcher_of rc B # ms1"
    using 2(2) by (auto split: prod.splits option.splits)
  have "base_group B" using B base_group_algorithm by (fastforce simp: BuildGroup_def split: prod.splits option.splits)
  then show ?case using 2(1)[OF B[symmetric] refl m(1)] m(2) by (simp add: matcher_of_def)
qed simp

definition same_backends :: "'tb server \<Rightarrow> lb_heap \<Rightarrow> lb_heap \<Rightarrow> bool" where
  "same_backends sv s s' \<longleftrightarrow> h_be s' = h_be s \<and> (\<forall>g\<in>set (balancerGroups sv). m_All g s' = m_All g s)"

lemma GetHealthy_frame: "h_be (snd (BB_GetHealthy a s)) = h_be s \<and> BB_All a' (snd (BB_GetHealthy a s)) = BB_All a' s"
  by (simp add: BB_GetHealthy_def BB_All_def Let_def)

lemma any_healthy_frame:
  "\<forall>g\<in>set gs. base_group g \<Longrightarrow> any_healthy gs s = (ok, s') \<Longrightarrow> h_be s' = h_be s \<and> (\<forall>a. BB_All a s' = BB_All a s)"
proof (induction gs arbitrary: s)
  case (Cons g gs)
  obtain bs s1 where g: "m_GetHealthy g s = (bs, s1)" by fastforce
  obtain a where "m_GetHealthy g = BB_GetHealthy a" using Cons.prems(1) by (auto simp: base_group_def)
  then have "h_be s1 = h_be s \<and> (\<forall>a'. BB_All a' s1 = BB_All a' s)" using GetHealthy_frame[of a s] g by simp
  then show ?case using Cons.IH[of s1] Cons.prems g by (cases "bs = []") auto
qed simp

lemma readyz_frame:
  assumes "\<forall>g\<in>set (balancerGroups sv). base_group g" "handleReadyz req (w, sv) = (w', sv')"
  shows "sv' = sv\<lparr>sv_heap := sv_heap sv'\<rparr> \<and> same_backends sv (sv_heap sv) (sv_heap sv')"
proof -
  obtain ok s where a: "any_healthy (balancerGroups sv) (sv_heap sv) = (ok, s)" by fastforce
  then have "sv' = sv\<lparr>sv_heap := s\<rparr>" using assms(2) by (auto simp: handleReadyz_def hasHealthyBackend_def)
  then show ?thesis using any_healthy_frame[OF assms(1) a] assms(1) by (auto simp: same_backends_def base_group_def base_table_def)
qed

lemma respond_state [simp]: "snd (respond f ws) = snd ws"
  by (simp add: respond_def split: prod.splits)

lemma same_backends_refl [simp]: "same_backends sv s s"
  by (simp add: same_backends_def)


section \<open>Draining and weights\<close>

lemma adminBackendByURL_found:
  assumes "adminBackendByURL query req (w, sv) = Inr (b, g)"
  shows "g \<in> set (balancerGroups sv) \<and> b \<in> set (m_All g (sv_heap sv)) \<and> be_URL (h_be (sv_heap sv) b) = query (r_RawQuery req) ''url''"
proof -
  have "find_in s url gs = Some (b, g) \<Longrightarrow> g \<in> set gs \<and> b \<in> set (m_All g s) \<and> be_URL (h_be s b) = url" for s url gs
    by (induction gs) (auto simp: find_Some_iff in_set_conv_nth split: option.splits)
  then show ?thesis using assms by (auto simp: adminBackendByURL_def findBackend_def Let_def split: if_splits option.splits)
qed

text \<open>
  C39. A drained backend comes back with the next successful probe: draining marks it unhealthy but keeps its run of
  successful probes, so that, when that run has reached the healthy threshold but for one, one more success of the
  health checker puts the backend into rotation again.
\<close>

theorem drain_undone_by_probe:
  assumes "adminBackendByURL query req (w, sv) = Inr (b, g)" "handleAdminDrain query req (w, sv) = (w', sv')"
    and "be_Successes (h_be (sv_heap sv) b) = of_nat k" "k + 1 < 2 ^ 31" "hk_HealthyThreshold cfg \<le> int k + 1"
  shows "\<not> IsHealthy (sv_heap sv') b \<and> IsHealthy (markHealthy b cfg (sv_heap sv')) b"
proof -
  have h: "sv_heap sv' = SetHealthy b False (sv_heap sv)"
    using assms(1,2) by (auto simp: handleAdminDrain_def handleAdminHealth_def)
  have "GetSuccesses (RecordSuccess b (sv_heap sv')) b = int (Suc k)"
    using sint_count[of "Suc k"] assms(3,4) by (simp add: GetSuccesses_def h add.commute)
  then show ?thesis using assms(5) by (simp add: h markHealthy_def Let_def)
qed

lemma sint_of_int32: "sint (word_of_int n :: int32) = (n + 2 ^ 31) mod 2 ^ 32 - 2 ^ 31"
  using signed_take_bit_eq_take_bit_shift[of 31 n] by (simp add: signed_of_int take_bit_eq_mod)

lemma wrapped_weight: "0 \<le> n \<Longrightarrow> ((n + 2 ^ 31) mod 2 ^ 32 - 2 ^ 31 = n \<longleftrightarrow> n < 2 ^ 31) \<and> (2 ^ 31 \<le> n \<and> n < 2 ^ 32 \<longrightarrow> (n + 2 ^ 31) mod 2 ^ 32 - 2 ^ 31 < (0 :: int))"
proof -
  assume n: "0 \<le> n"
  let ?m = "(n + 2 ^ 31) mod 2 ^ 32"
  have b: "?m < 2 ^ 32" by simp
  have "?m = n + 2 ^ 31" if "n < 2 ^ 31" using that n by (intro mod_pos_pos_trivial) simp_all
  moreover have "?m = n - 2 ^ 31" if "2 ^ 31 \<le> n" "n < 2 ^ 32"
  proof -
    have "n + 2 ^ 31 = (n - 2 ^ 31) + 2 ^ 32" by simp
    then have "?m = (n - 2 ^ 31) mod 2 ^ 32" by (metis mod_add_self2)
    then show ?thesis using that by (simp add: mod_pos_pos_trivial)
  qed
  ultimately show ?thesis using b by (cases "n < 2 ^ 31") auto
qed

text \<open>
  C40. A weight set through the API is kept up to 31 bits: the check for negative weights comes before the
  conversion to a 32-bit integer, so a weight from \<open>2 ^ 31\<close> on is accepted with status 200 and stored as a
  different one, negative up to \<open>2 ^ 32\<close>.
\<close>

theorem admin_weight_bounds:
  assumes "adminBackendByURL query req (w, sv) = Inr (b, g)" "base_group g" "w_sent w = None"
    and "ParseInt64 (query (r_RawQuery req) ''weight'') = Some n" "0 \<le> n" "handleAdminWeight query req (w, sv) = (w', sv')"
  shows "(\<exists>h. w_sent w' = Some (200, h)) \<and> (GetWeight (sv_heap sv') b = n \<longleftrightarrow> n < 2 ^ 31) \<and>
    (2 ^ 31 \<le> n \<and> n < 2 ^ 32 \<longrightarrow> GetWeight (sv_heap sv') b < 0)"
proof -
  obtain a where "base_table a g" using assms(2) by (auto simp: base_group_def)
  then have "h_be (m_UpdateWeight g b n (sv_heap sv)) = h_be (SetWeight b n (sv_heap sv))"
    using topology.Weight_be[OF topology_base] adminBackendByURL_found[OF assms(1)] by blast
  moreover have r: "w' = WriteHeader 200 w" "sv_heap sv' = m_UpdateWeight g b n (sv_heap sv)"
    using assms(1,4,5,6) by (auto simp: handleAdminWeight_def)
  ultimately have "GetWeight (sv_heap sv') b = (n + 2 ^ 31) mod 2 ^ 32 - 2 ^ 31"
    by (simp add: GetWeight_def SetWeight_def upd_be_def sint_of_int32)
  then show ?thesis using assms(3) wrapped_weight[OF assms(5)] by (simp add: r(1) WriteHeader_def)
qed

section \<open>Examples\<close>

definition demo_admin :: "unit admin_env" where
  "demo_admin = \<lparr>ae_query = (\<lambda>raw name. if name = ''url'' then ''http://a:80'' else ''3000000000''), ae_encode = (\<lambda>_. []), ae_status = (\<lambda>_. []),
     ae_promoter = None, ae_reload = id, ae_metrics = id, ae_metrics_json = id, ae_pprof = (\<lambda>_ w. w)\<rparr>"

definition drain_req :: request where
  "drain_req = (demo_req [])\<lparr>r_Method := ''POST'', r_Path := ''/admin/drain''\<rparr>"

lemma demo_groups: "balancerGroups demo_sv = [RoundRobin 0, RoundRobin 0]"
  by (simp add: balancerGroups_def demo_sv_def Groups_def demo_proxy_def NewProxy_def)

lemma demo_base: "base_group (RoundRobin 0)"
  using base_round_robin by (auto simp: base_group_def vtable_defs intro!: exI[of _ 0])

lemma demo_found: "adminBackendByURL (ae_query demo_admin) drain_req (new_writer, demo_sv) = Inr (0, RoundRobin 0)"
proof -
  have "m_All (RoundRobin 0) duo = [0, 1]" "sv_heap demo_sv = duo" by (simp_all add: RoundRobin_def base_methods_def demo_sv_def)
  then have "findBackend demo_sv ''http://a:80'' = Some (0, RoundRobin 0)"
    unfolding findBackend_def demo_groups by (simp add: duo_URL)
  then show ?thesis by (simp add: adminBackendByURL_def drain_req_def demo_admin_def)
qed


theorem drain_undone_by_probe_witness:
  "let sv' = snd (handleAdminDrain (ae_query demo_admin) drain_req (new_writer, demo_sv)) in
   \<not> IsHealthy (sv_heap sv') 0 \<and> IsHealthy (markHealthy 0 (demo_hc\<lparr>hk_HealthyThreshold := 1\<rparr>) (sv_heap sv')) 0"
proof -
  obtain w' sv' where m: "handleAdminDrain (ae_query demo_admin) drain_req (new_writer, demo_sv) = (w', sv')" by fastforce
  have "be_Successes (h_be (sv_heap demo_sv) 0) = of_nat 0" by (simp add: demo_sv_def duo_def BB_Add_def start_heap_def NewBackend_def)
  from drain_undone_by_probe[OF demo_found m this, of "demo_hc\<lparr>hk_HealthyThreshold := 1\<rparr>"] show ?thesis by (simp add: m)
qed

theorem admin_weight_bounds_witness:
  "GetWeight (sv_heap (snd (handleAdminWeight (ae_query demo_admin) drain_req (new_writer, demo_sv)))) 0 < 0"
proof -
  obtain w' sv' where m: "handleAdminWeight (ae_query demo_admin) drain_req (new_writer, demo_sv) = (w', sv')" by fastforce
  have p: "ParseInt64 (ae_query demo_admin (r_RawQuery drain_req) ''weight'') = Some 3000000000"
    by (simp add: demo_admin_def ParseInt64_def digit_val_def MinInt64_def MaxInt64_def)
  have "w_sent new_writer = None" by (simp add: new_writer_def)
  from admin_weight_bounds[OF demo_found demo_base this p _ m] show ?thesis by (simp add: m)
qed

end
