(* ===== verification/Gzip.thy ===== *)
theory Gzip
  imports Handlers
begin

text \<open>
  \<open>internal/middleware/gzip.go\<close>: the response writer that compresses.  A handler is the sequence of its calls on
  the writer; the compressor of \<open>compress/gzip\<close> is a record of functions, with the bytes each call hands on.
\<close>

section \<open>What decides about compression\<close>

definition normalizeContentTypes :: "string list \<Rightarrow> string list" where
  "normalizeContentTypes types = filter (\<lambda>t. t \<noteq> []) (map (\<lambda>t. ToLower (TrimSpace t)) types)"

definition first_part :: "string \<Rightarrow> string" where
  "first_part s = takeWhile (\<lambda>c. c \<noteq> CHR '';'') s"

definition clientAcceptsGzip :: "request \<Rightarrow> bool" where
  "clientAcceptsGzip r =
     list_ex (\<lambda>enc. EqualFold (TrimSpace (first_part enc)) ''gzip'') (SplitChar CHR '','' (hdr_Get (r_Header r) ''Accept-Encoding''))"

definition isWebSocketUpgrade :: "request \<Rightarrow> bool" where
  "isWebSocketUpgrade r \<longleftrightarrow> ContainsStr (ToLower (hdr_Get (r_Header r) ''Connection'')) ''upgrade'' \<and>
     EqualFold (hdr_Get (r_Header r) ''Upgrade'') ''websocket''"

definition contentTypeAllowed :: "string list \<Rightarrow> header \<Rightarrow> bool" where
  "contentTypeAllowed types h =
     (if types = [] then True
      else let ct = hdr_Get h ''Content-Type'' in
           if ct = [] then False else list_ex (\<lambda>p. HasPrefix (ToLower (TrimSpace (first_part ct))) p) types)"

section \<open>The writer\<close>

record 'z gzip_lib =
  gz_New :: 'z
  gz_Write :: "string \<Rightarrow> 'z \<Rightarrow> string \<times> 'z"
  gz_Flush :: "'z \<Rightarrow> string \<times> 'z"
  gz_Close :: "'z \<Rightarrow> string"

record 'z gzipResponseWriter =
  gw_w :: writer
  gw_gz :: "'z option"
  gw_wroteHeader :: bool
  gw_useGzip :: bool
  gw_allowTypes :: "string list"
  gw_minSize :: int
  gw_deferring :: bool
  gw_pendingCode :: int
  gw_buf :: string

definition new_gzipWriter :: "string list \<Rightarrow> int \<Rightarrow> writer \<Rightarrow> 'z gzipResponseWriter" where
  "new_gzipWriter types minSize w =
     \<lparr>gw_w = w, gw_gz = None, gw_wroteHeader = False, gw_useGzip = False, gw_allowTypes = normalizeContentTypes types,
      gw_minSize = (if minSize < 0 then 0 else minSize), gw_deferring = False, gw_pendingCode = 0, gw_buf = []\<rparr>"

definition decideAndWriteHeader :: "'z gzip_lib \<Rightarrow> int \<Rightarrow> 'z gzipResponseWriter \<Rightarrow> 'z gzipResponseWriter" where
  "decideAndWriteHeader lib code g =
     (if gw_wroteHeader g then g
      else let h = w_Header (gw_w g) in
           if code \<in> {101, 204, 304} \<or> hdr_Get h ''Content-Encoding'' \<noteq> [] \<or> \<not> contentTypeAllowed (gw_allowTypes g) h
           then g\<lparr>gw_wroteHeader := True, gw_useGzip := False, gw_w := WriteHeader code (gw_w g)\<rparr>
           else let h' = hdr_Add ''Vary'' ''Accept-Encoding'' (hdr_Set ''Content-Encoding'' ''gzip'' (hdr_Del ''Content-Length'' h))
                in g\<lparr>gw_wroteHeader := True, gw_useGzip := True, gw_gz := Some (gz_New lib),
                     gw_w := WriteHeader code ((gw_w g)\<lparr>w_Header := h'\<rparr>)\<rparr>)"

definition gzipEligiblePreBody :: "'z gzipResponseWriter \<Rightarrow> bool" where
  "gzipEligiblePreBody g \<longleftrightarrow> hdr_Get (w_Header (gw_w g)) ''Content-Encoding'' = [] \<and> contentTypeAllowed (gw_allowTypes g) (w_Header (gw_w g))"

definition gw_WriteHeader :: "'z gzip_lib \<Rightarrow> int \<Rightarrow> 'z gzipResponseWriter \<Rightarrow> 'z gzipResponseWriter" where
  "gw_WriteHeader lib code g =
     (if gw_minSize g > 0 \<and> \<not> gw_wroteHeader g \<and> gzipEligiblePreBody g
      then g\<lparr>gw_deferring := True, gw_pendingCode := code\<rparr>
      else decideAndWriteHeader lib code g)"

text \<open>Bytes for the body: through the compressor, or as they are.\<close>

definition put_body :: "'z gzip_lib \<Rightarrow> string \<Rightarrow> 'z gzipResponseWriter \<Rightarrow> 'z gzipResponseWriter" where
  "put_body lib bs g =
     (if gw_useGzip g
      then case gw_gz g of
             None \<Rightarrow> g
           | Some z \<Rightarrow> let (out, z') = gz_Write lib bs z in g\<lparr>gw_gz := Some z', gw_w := Write out (gw_w g)\<rparr>
      else g\<lparr>gw_w := Write bs (gw_w g)\<rparr>)"

definition commit :: "'z gzip_lib \<Rightarrow> bool \<Rightarrow> 'z gzipResponseWriter \<Rightarrow> 'z gzipResponseWriter" where
  "commit lib gzipIt g =
     (if \<not> gw_deferring g then g
      else let g1 = g\<lparr>gw_deferring := False\<rparr>;
               g2 = (if gzipIt then decideAndWriteHeader lib (gw_pendingCode g1) g1
                     else g1\<lparr>gw_wroteHeader := True, gw_useGzip := False, gw_w := WriteHeader (gw_pendingCode g1) (gw_w g1)\<rparr>)
           in if gw_buf g2 = [] then g2 else put_body lib (gw_buf g2) (g2\<lparr>gw_buf := []\<rparr>))"

definition writeDeferred :: "'z gzip_lib \<Rightarrow> string \<Rightarrow> 'z gzipResponseWriter \<Rightarrow> 'z gzipResponseWriter" where
  "writeDeferred lib bs g =
     (let g1 = g\<lparr>gw_buf := gw_buf g @ bs\<rparr> in
      if int (length (gw_buf g1)) < gw_minSize g1 then g1 else commit lib True g1)"

definition gw_Write :: "'z gzip_lib \<Rightarrow> string \<Rightarrow> 'z gzipResponseWriter \<Rightarrow> 'z gzipResponseWriter" where
  "gw_Write lib bs g =
     (if gw_deferring g then writeDeferred lib bs g
      else if \<not> gw_wroteHeader g \<and> gw_minSize g > 0 \<and> gzipEligiblePreBody g
           then writeDeferred lib bs (g\<lparr>gw_deferring := True, gw_pendingCode := 200\<rparr>)
           else put_body lib bs (if gw_wroteHeader g then g else decideAndWriteHeader lib 200 g))"

text \<open>Flushing a writer of \<open>net/http\<close> sends the header.\<close>

definition w_Flush :: "writer \<Rightarrow> writer" where
  "w_Flush w = (if w_sent w = None then WriteHeader 200 w else w)"

definition gw_Flush :: "'z gzip_lib \<Rightarrow> 'z gzipResponseWriter \<Rightarrow> 'z gzipResponseWriter" where
  "gw_Flush lib g =
     (let g1 = commit lib True g;
          g2 = (if gw_useGzip g1
                then case gw_gz g1 of
                       None \<Rightarrow> g1
                     | Some z \<Rightarrow> let (out, z') = gz_Flush lib z in g1\<lparr>gw_gz := Some z', gw_w := Write out (gw_w g1)\<rparr>
                else g1)
      in g2\<lparr>gw_w := w_Flush (gw_w g2)\<rparr>)"

definition gw_Close :: "'z gzip_lib \<Rightarrow> 'z gzipResponseWriter \<Rightarrow> 'z gzipResponseWriter" where
  "gw_Close lib g =
     (let g1 = commit lib False g in
      if gw_useGzip g1
      then case gw_gz g1 of None \<Rightarrow> g1 | Some z \<Rightarrow> g1\<lparr>gw_w := Write (gz_Close lib z) (gw_w g1)\<rparr>
      else g1)"

section \<open>Handlers as sequences of calls\<close>

datatype writer_call = CWriteHeader int | CWrite string | CFlush | CHeader "header \<Rightarrow> header"

fun gw_call :: "'z gzip_lib \<Rightarrow> writer_call \<Rightarrow> 'z gzipResponseWriter \<Rightarrow> 'z gzipResponseWriter" where
  "gw_call lib (CWriteHeader code) g = gw_WriteHeader lib code g"
| "gw_call lib (CWrite bs) g = gw_Write lib bs g"
| "gw_call lib CFlush g = gw_Flush lib g"
| "gw_call lib (CHeader f) g = g\<lparr>gw_w := (gw_w g)\<lparr>w_Header := f (w_Header (gw_w g))\<rparr>\<rparr>"

fun plain_call :: "writer_call \<Rightarrow> writer \<Rightarrow> writer" where
  "plain_call (CWriteHeader code) w = WriteHeader code w"
| "plain_call (CWrite bs) w = Write bs w"
| "plain_call CFlush w = w_Flush w"
| "plain_call (CHeader f) w = w\<lparr>w_Header := f (w_Header w)\<rparr>"

definition GzipWithConfig :: "'z gzip_lib \<Rightarrow> string list \<Rightarrow> int \<Rightarrow> request \<Rightarrow> writer_call list \<Rightarrow> writer \<Rightarrow> writer" where
  "GzipWithConfig lib types minSize r calls w =
     (if \<not> clientAcceptsGzip r \<or> isWebSocketUpgrade r then fold plain_call calls w
      else gw_w (gw_Close lib (fold (gw_call lib) calls (new_gzipWriter types minSize w))))"

text \<open>What a handler writes, and what a client makes of a response.\<close>

fun written :: "writer_call list \<Rightarrow> string" where
  "written [] = []"
| "written (CWrite bs # cs) = bs @ written cs"
| "written (_ # cs) = written cs"

definition final_header :: "writer \<Rightarrow> header" where
  "final_header w = (case w_sent w of Some (_, h) \<Rightarrow> h | None \<Rightarrow> w_Header w)"

definition client_body :: "(string \<Rightarrow> string option) \<Rightarrow> writer \<Rightarrow> string option" where
  "client_body gunzip w = (if hdr_Get (final_header w) ''Content-Encoding'' = ''gzip'' then gunzip (w_body w) else Some (w_body w))"

text \<open>What \<open>compress/gzip\<close> promises: after \<open>Close\<close> the output decompresses to what was written.\<close>

datatype gz_op = GWrite string | GFlush

fun gz_run :: "'z gzip_lib \<Rightarrow> gz_op list \<Rightarrow> string \<times> 'z" where
  "gz_run lib [] = ([], gz_New lib)"
| "gz_run lib (GWrite bs # ops) = (let (out, z) = gz_run lib ops; (o', z') = gz_Write lib bs z in (out @ o', z'))"
| "gz_run lib (GFlush # ops) = (let (out, z) = gz_run lib ops; (o', z') = gz_Flush lib z in (out @ o', z'))"

fun gz_written :: "gz_op list \<Rightarrow> string" where
  "gz_written [] = []"
| "gz_written (GWrite bs # ops) = gz_written ops @ bs"
| "gz_written (GFlush # ops) = gz_written ops"

definition gunzips :: "'z gzip_lib \<Rightarrow> (string \<Rightarrow> string option) \<Rightarrow> bool" where
  "gunzips lib gunzip \<longleftrightarrow> (\<forall>ops. gunzip (fst (gz_run lib ops) @ gz_Close lib (snd (gz_run lib ops))) = Some (gz_written ops))"

section \<open>The client reads what the handler wrote\<close>

abbreviation encoding :: "header \<Rightarrow> string" where
  "encoding h \<equiv> hdr_Get h ''Content-Encoding''"

lemma encoding_simps [simp]:
  "encoding (hdr_Add ''Vary'' v h) = encoding h" "encoding (hdr_Set ''Content-Encoding'' v h) = v" "encoding (hdr_Del ''Content-Length'' h) = encoding h"
  by (simp_all add: hdr_Get_def hdr_Values_def hdr_Add_def hdr_Set_def hdr_Del_def CanonicalHeaderKey_def token_char_def update_conv'
      delete_conv' upper_char_def lower_char_def)

definition sends :: "string \<Rightarrow> writer \<Rightarrow> bool" where
  "sends enc w \<longleftrightarrow> encoding (w_Header w) = enc \<and> (\<forall>c h. w_sent w = Some (c, h) \<longrightarrow> encoding h = enc)"

lemma sends_simps [simp]: "sends enc w \<Longrightarrow> sends enc (WriteHeader code w)" "sends enc w \<Longrightarrow> sends enc (Write bs w)" "sends enc w \<Longrightarrow> sends enc (w_Flush w)"
  by (auto simp: sends_def WriteHeader_def Write_def w_Flush_def Let_def)

lemma body_simps [simp]: "w_body (WriteHeader code w) = w_body w" "w_body (Write bs w) = w_body w @ bs" "w_body (w_Flush w) = w_body w"
  by (simp_all add: WriteHeader_def Write_def w_Flush_def Let_def)

definition waiting :: "string \<Rightarrow> 'z gzipResponseWriter \<Rightarrow> bool" where
  "waiting W g \<longleftrightarrow> gw_buf g = W \<and> gw_gz g = None \<and> \<not> gw_useGzip g \<and> w_body (gw_w g) = [] \<and> sends [] (gw_w g) \<and>
     (\<not> gw_wroteHeader g \<longrightarrow> w_sent (gw_w g) = None) \<and> (\<not> gw_deferring g \<longrightarrow> W = [] \<and> \<not> gw_wroteHeader g) \<and>
     (gw_deferring g \<longrightarrow> gw_minSize g > 0)"

definition decided :: "'z gzip_lib \<Rightarrow> string \<Rightarrow> 'z gzipResponseWriter \<Rightarrow> bool" where
  "decided lib W g \<longleftrightarrow> gw_wroteHeader g \<and> \<not> gw_deferring g \<and> gw_buf g = [] \<and>
     (if gw_useGzip g then sends ''gzip'' (gw_w g) \<and> (\<exists>ops. gz_run lib ops = (w_body (gw_w g), the (gw_gz g)) \<and> gz_written ops = W) \<and> gw_gz g \<noteq> None
      else sends [] (gw_w g) \<and> w_body (gw_w g) = W)"

lemma decided_put: "decided lib W g \<Longrightarrow> decided lib (W @ bs) (put_body lib bs g)"
proof (cases "gw_useGzip g")
  case True
  assume d: "decided lib W g"
  then obtain ops z where o: "gz_run lib ops = (w_body (gw_w g), z)" "gz_written ops = W" "gw_gz g = Some z" using True by (auto simp: decided_def)
  obtain out z' where w: "gz_Write lib bs z = (out, z')" by fastforce
  have "gz_run lib (GWrite bs # ops) = (w_body (gw_w g) @ out, z')" "gz_written (GWrite bs # ops) = W @ bs" using o w by simp_all
  then show ?thesis using d True o w by (auto simp: decided_def put_body_def intro!: exI[of _ "GWrite bs # ops"])
qed (auto simp: decided_def put_body_def)

lemma decided_flush:
  assumes d: "decided lib W g"
  shows "decided lib W (gw_Flush lib g)"
proof (cases "gw_useGzip g")
  case True
  then obtain ops z where o: "gz_run lib ops = (w_body (gw_w g), z)" "gz_written ops = W" "gw_gz g = Some z" using d by (auto simp: decided_def)
  obtain out z' where w: "gz_Flush lib z = (out, z')" by fastforce
  have "gz_run lib (GFlush # ops) = (w_body (gw_w g) @ out, z')" "gz_written (GFlush # ops) = W" using o w by simp_all
  then show ?thesis using d True o w by (auto simp: decided_def gw_Flush_def commit_def intro!: exI[of _ "GFlush # ops"])
qed (use d in \<open>auto simp: decided_def gw_Flush_def commit_def\<close>)

text \<open>Deciding about the header with nothing written yet.\<close>

lemma waiting_decide:
  assumes "waiting W g"
  shows "decided lib [] ((decideAndWriteHeader lib code (g\<lparr>gw_deferring := False\<rparr>))\<lparr>gw_buf := []\<rparr>) \<and>
    gw_buf (decideAndWriteHeader lib code (g\<lparr>gw_deferring := False\<rparr>)) = W"
proof -
  have "\<exists>ops. gz_run lib ops = ([], gz_New lib) \<and> gz_written ops = []" by (rule exI[of _ "[]"]) simp
  then show ?thesis using assms
    by (auto simp: waiting_def decided_def decideAndWriteHeader_def Let_def sends_def WriteHeader_def)
qed

lemma waiting_commit:
  assumes "waiting W g" "gw_deferring g"
  shows "decided lib W (commit lib gzipIt g)"
proof -
  define g2 where "g2 = (if gzipIt then decideAndWriteHeader lib (gw_pendingCode g) (g\<lparr>gw_deferring := False\<rparr>)
    else g\<lparr>gw_deferring := False, gw_wroteHeader := True, gw_useGzip := False, gw_w := WriteHeader (gw_pendingCode g) (gw_w g)\<rparr>)"
  have d: "decided lib [] (g2\<lparr>gw_buf := []\<rparr>)" and b: "gw_buf g2 = W"
    using waiting_decide[OF assms(1), of lib "gw_pendingCode g"] assms(1) by (auto simp: g2_def waiting_def decided_def sends_def WriteHeader_def)
  have c: "commit lib gzipIt g = (if gw_buf g2 = [] then g2 else put_body lib (gw_buf g2) (g2\<lparr>gw_buf := []\<rparr>))"
    using assms(2) by (simp add: commit_def g2_def Let_def)
  show ?thesis
  proof (cases "W = []")
    case True
    then have "g2\<lparr>gw_buf := []\<rparr> = g2" using b by (cases g2) simp
    then have "decided lib [] g2" using d by metis
    then show ?thesis using b True by (simp add: c)
  qed (use decided_put[OF d, of W] b c in simp)
qed

lemma deferred_write:
  assumes "waiting W g" "gw_deferring g"
  shows "waiting (W @ bs) (writeDeferred lib bs g) \<and> gw_deferring (writeDeferred lib bs g) \<or> decided lib (W @ bs) (writeDeferred lib bs g)"
proof -
  have "waiting (W @ bs) (g\<lparr>gw_buf := gw_buf g @ bs\<rparr>)" using assms by (auto simp: waiting_def)
  then show ?thesis using assms waiting_commit[of "W @ bs" "g\<lparr>gw_buf := gw_buf g @ bs\<rparr>" lib True] by (simp add: writeDeferred_def Let_def)
qed

text \<open>Calls on a writer that has not decided yet, and on one that has.\<close>

lemma waiting_header: "waiting W g \<Longrightarrow> encoding (f (w_Header (gw_w g))) = encoding (w_Header (gw_w g)) \<Longrightarrow> waiting W (gw_call lib (CHeader f) g)"
  by (auto simp: waiting_def sends_def)

lemma waiting_now: "waiting W g \<Longrightarrow> \<not> gw_deferring g \<Longrightarrow> decided lib [] (decideAndWriteHeader lib code g)"
proof -
  assume w: "waiting W g" "\<not> gw_deferring g"
  then have "g\<lparr>gw_deferring := False\<rparr> = g" "W = []" by (cases g; simp add: waiting_def)+
  then have "gw_buf (decideAndWriteHeader lib code g) = []" "decided lib [] ((decideAndWriteHeader lib code g)\<lparr>gw_buf := []\<rparr>)"
    using waiting_decide[OF w(1), of lib code] by simp_all
  moreover have "x\<lparr>gw_buf := []\<rparr> = x" if "gw_buf x = []" for x :: "'a gzipResponseWriter" using that by (cases x) simp
  ultimately show ?thesis by metis
qed

definition legal :: "writer_call \<Rightarrow> bool" where
  "legal c = (case c of CHeader f \<Rightarrow> (\<forall>h. encoding (f h) = encoding h) | _ \<Rightarrow> True)"

lemma decided_call:
  assumes "decided lib W g" "legal c"
  shows "decided lib (W @ written [c]) (gw_call lib c g)"
proof (cases c)
  case (CWriteHeader code)
  then show ?thesis using assms(1) by (simp add: gw_WriteHeader_def decideAndWriteHeader_def decided_def)
next
  case (CWrite bs)
  then show ?thesis using assms(1) decided_put[OF assms(1), of bs] by (simp add: gw_Write_def decided_def)
next
  case CFlush
  then show ?thesis using decided_flush[OF assms(1)] by simp
next
  case (CHeader f)
  then show ?thesis using assms by (auto simp: legal_def decided_def sends_def)
qed

lemma waiting_call:
  assumes "waiting W g" "legal c" "c = CFlush \<longrightarrow> gw_deferring g"
  shows "waiting (W @ written [c]) (gw_call lib c g) \<and> ((\<forall>f. c \<noteq> CHeader f) \<longrightarrow> gw_deferring (gw_call lib c g)) \<and>
      (gw_deferring g \<longrightarrow> gw_deferring (gw_call lib c g)) \<or>
    decided lib (W @ written [c]) (gw_call lib c g)"
proof (cases c)
  case (CWriteHeader code)
  show ?thesis
  proof (cases "gw_deferring g")
    case True
    then show ?thesis using assms(1) CWriteHeader
      by (auto simp: gw_WriteHeader_def decideAndWriteHeader_def waiting_def gzipEligiblePreBody_def sends_def WriteHeader_def Let_def)
  next
    case False
    then show ?thesis using assms(1) CWriteHeader waiting_now[OF assms(1), of lib code]
      by (auto simp: gw_WriteHeader_def waiting_def)
  qed
next
  case (CWrite bs)
  show ?thesis
  proof (cases "gw_deferring g")
    case True
    then show ?thesis using deferred_write[OF assms(1), of bs lib] CWrite by (auto simp: gw_Write_def)
  next
    case False
    then have W: "W = []" "\<not> gw_wroteHeader g" using assms(1) by (auto simp: waiting_def)
    show ?thesis
    proof (cases "gw_minSize g > 0 \<and> gzipEligiblePreBody g")
      case True
      then have "waiting W (g\<lparr>gw_deferring := True, gw_pendingCode := 200\<rparr>)" using assms(1) by (simp add: waiting_def)
      then show ?thesis using deferred_write[of W "g\<lparr>gw_deferring := True, gw_pendingCode := 200\<rparr>" bs lib] True False W CWrite
        by (auto simp: gw_Write_def)
    next
      case no: False
      then show ?thesis using decided_put[OF waiting_now[OF assms(1) False], of lib bs 200] False W CWrite by (auto simp: gw_Write_def)
    qed
  qed
next
  case CFlush
  have "decided lib W (gw_Flush lib (commit lib True g))" using decided_flush[OF waiting_commit[OF assms(1)]] assms(3) CFlush by blast
  moreover have "gw_Flush lib (commit lib True g) = gw_Flush lib g"
    using waiting_commit[OF assms(1), of lib True] assms(3) CFlush by (simp add: gw_Flush_def commit_def[of lib True "commit lib True g"] decided_def)
  ultimately show ?thesis using CFlush by simp
next
  case (CHeader f)
  then show ?thesis using waiting_header[OF assms(1), of f lib] assms(2) by (simp add: legal_def)
qed

text \<open>A handler that decides about its response before it flushes.\<close>

fun flush_later :: "writer_call list \<Rightarrow> bool" where
  "flush_later [] = True"
| "flush_later (CHeader _ # cs) = flush_later cs"
| "flush_later (CFlush # cs) = False"
| "flush_later (_ # cs) = True"

lemma written_Cons: "written (c # cs) = written [c] @ written cs"
  by (cases c) simp_all

lemma decided_run: "decided lib W g \<Longrightarrow> \<forall>c\<in>set cs. legal c \<Longrightarrow> decided lib (W @ written cs) (fold (gw_call lib) cs g)"
proof (induction cs arbitrary: W g)
  case (Cons c cs)
  then show ?case using Cons.IH[OF decided_call[OF Cons.prems(1), of c]] by (simp add: written_Cons[of c cs] del: written.simps)
qed simp

lemma waiting_run:
  "waiting W g \<Longrightarrow> \<forall>c\<in>set cs. legal c \<Longrightarrow> flush_later cs \<or> gw_deferring g \<Longrightarrow>
    waiting (W @ written cs) (fold (gw_call lib) cs g) \<or> decided lib (W @ written cs) (fold (gw_call lib) cs g)"
proof (induction cs arbitrary: W g)
  case (Cons c cs)
  have l: "legal c" "\<forall>c\<in>set cs. legal c" and f: "c = CFlush \<longrightarrow> gw_deferring g" using Cons.prems(2,3) by (auto split: writer_call.splits)
  have rest: "(\<forall>f. c \<noteq> CHeader f) \<or> flush_later cs \<or> gw_deferring g" using Cons.prems(3) by (cases c) auto
  show ?case using waiting_call[OF Cons.prems(1) l(1) f, of lib]
  proof
    assume "decided lib (W @ written [c]) (gw_call lib c g)"
    then show ?thesis using decided_run[OF _ l(2)] by (simp add: written_Cons[of c cs] del: written.simps) fastforce
  next
    assume w: "waiting (W @ written [c]) (gw_call lib c g) \<and> ((\<forall>f. c \<noteq> CHeader f) \<longrightarrow> gw_deferring (gw_call lib c g)) \<and>
      (gw_deferring g \<longrightarrow> gw_deferring (gw_call lib c g))"
    then have "flush_later cs \<or> gw_deferring (gw_call lib c g)" using rest by blast
    then show ?thesis using Cons.IH[of "W @ written [c]" "gw_call lib c g"] w l(2) by (simp add: written_Cons[of c cs] del: written.simps)
  qed
qed simp

lemma decided_close:
  assumes "decided lib W g" "gunzips lib gunzip"
  shows "client_body gunzip (gw_w (gw_Close lib g)) = Some W"
proof (cases "gw_useGzip g")
  case True
  then obtain ops z where o: "gz_run lib ops = (w_body (gw_w g), z)" "gz_written ops = W" "gw_gz g = Some z" "sends ''gzip'' (gw_w g)" "\<not> gw_deferring g"
    using assms(1) by (auto simp: decided_def)
  have "gw_w (gw_Close lib g) = Write (gz_Close lib z) (gw_w g)" using True o by (simp add: gw_Close_def commit_def)
  moreover have "gunzip (w_body (gw_w g) @ gz_Close lib z) = Some W" using assms(2) o(1,2) unfolding gunzips_def by (metis fst_conv snd_conv)
  moreover have "encoding (final_header (Write (gz_Close lib z) (gw_w g))) = ''gzip''"
    using sends_simps(2)[OF o(4), of "gz_Close lib z"] by (auto simp: sends_def final_header_def split: option.splits)
  ultimately show ?thesis by (simp add: client_body_def)
next
  case False
  then have "gw_w (gw_Close lib g) = gw_w g" "sends [] (gw_w g)" "w_body (gw_w g) = W" using assms(1) by (auto simp: decided_def gw_Close_def commit_def)
  then show ?thesis by (auto simp: client_body_def sends_def final_header_def split: option.splits)
qed

lemma waiting_close:
  assumes "waiting W g" "gunzips lib gunzip"
  shows "client_body gunzip (gw_w (gw_Close lib g)) = Some W"
proof (cases "gw_deferring g")
  case True
  have d: "decided lib W (commit lib False g)" using waiting_commit[OF assms(1) True] .
  have "gw_Close lib (commit lib False g) = gw_Close lib g"
    using d by (simp add: gw_Close_def commit_def[of lib False "commit lib False g"] decided_def)
  then show ?thesis using decided_close[OF d assms(2)] by simp
next
  case False
  then show ?thesis using assms(1) by (auto simp: waiting_def gw_Close_def commit_def client_body_def sends_def final_header_def split: option.splits)
qed


text \<open>The compressor that compresses nothing keeps the promise.\<close>

definition store_lib :: "unit gzip_lib" where
  "store_lib = \<lparr>gz_New = (), gz_Write = (\<lambda>bs z. (bs, z)), gz_Flush = (\<lambda>z. ([], z)), gz_Close = (\<lambda>z. '' end'')\<rparr>"

lemma store_run: "gz_run store_lib ops = (gz_written ops, ())"
  by (induction ops rule: gz_written.induct) (simp_all add: store_lib_def)

lemma store_gunzips: "gunzips store_lib (\<lambda>s. Some (take (length s - 4) s))"
  by (simp add: gunzips_def store_run) (simp add: store_lib_def)


text \<open>
  A handler that flushes before anything else sends a compressed body that is not marked as such: the flush
  sends the header, the middleware then still decides to compress, and the client takes the compressed bytes as they are.
\<close>

lemma gzip_flush_first:
  assumes "gw_w g = w" "\<not> gw_wroteHeader g" "\<not> gw_deferring g" "\<not> gw_useGzip g" "w_sent w = None" "w_body w = []"
    and "encoding (w_Header w) = []" "contentTypeAllowed (gw_allowTypes g) (w_Header w)" "gw_minSize g = 0"
    and "gz_Write lib bs (gz_New lib) = (out, z)"
  shows "client_body gunzip (gw_w (gw_Close lib (fold (gw_call lib) [CFlush, CWrite bs] g))) = Some (out @ gz_Close lib z)"
  using assms by (simp add: gw_Flush_def gw_Write_def gw_Close_def commit_def decideAndWriteHeader_def put_body_def w_Flush_def client_body_def
      final_header_def WriteHeader_def Write_def Let_def)

lemma gzip_flush_first_witness:
  "client_body (\<lambda>s. Some (take (length s - 4) s))
     (gw_w (gw_Close store_lib (fold (gw_call store_lib) [CFlush, CWrite ''data''] (new_gzipWriter [] 0 new_writer)))) = Some ''data end''"
  using gzip_flush_first[of "new_gzipWriter [] 0 new_writer" new_writer store_lib "''data''" "''data''" "()"]
  by (simp add: new_gzipWriter_def new_writer_def contentTypeAllowed_def normalizeContentTypes_def hdr_Get_def hdr_Values_def store_lib_def)

text \<open>
  The status a handler sets is lost after an informational one: the header counts as written.
\<close>

lemma gzip_status_lost:
  assumes "gw_w g = w" "\<not> gw_wroteHeader g" "w_sent w = None" "gw_minSize g = 0" "100 \<le> info" "info \<le> 199" "info \<noteq> 101"
  shows "w_sent (gw_w (fold (gw_call lib) [CWriteHeader info, CWriteHeader status] g)) = None"
  using assms by (auto simp: gw_WriteHeader_def decideAndWriteHeader_def WriteHeader_def Let_def)

end
