(* ===== verification/Oidc.thy ===== *)
theory Oidc
  imports Jwt
begin

text \<open>
  \<open>internal/middleware/oidc_introspect.go\<close>: bearer tokens checked by the introspection endpoint, with a cache of its
  answers.  The digest of a token and the answer of the endpoint, none on a failure, are arguments; the cache is the
  list of its entries from the most to the least recently used.
\<close>

section \<open>The cache\<close>

record introspectResult =
  ir_active :: bool
  ir_expiresAt :: time

type_synonym lru_entries = "(string \<times> introspectResult) list"

record lruCache =
  lc_cap :: int
  lc_eviction :: lru_entries

definition newLRUCache :: "int \<Rightarrow> lruCache" where
  "newLRUCache capacity = \<lparr>lc_cap = (if capacity \<le> 0 then 1000 else capacity), lc_eviction = []\<rparr>"

definition lru_get :: "string \<Rightarrow> time \<Rightarrow> lruCache \<Rightarrow> introspectResult option \<times> lruCache" where
  "lru_get key now c =
     (case map_of (lc_eviction c) key of
        None \<Rightarrow> (None, c)
      | Some v \<Rightarrow>
          let rest = AList.delete key (lc_eviction c) in
          if now > ir_expiresAt v then (None, c\<lparr>lc_eviction := rest\<rparr>)
          else (Some v, c\<lparr>lc_eviction := (key, v) # rest\<rparr>))"

definition lru_set :: "string \<Rightarrow> introspectResult \<Rightarrow> lruCache \<Rightarrow> lruCache" where
  "lru_set key v c =
     (case map_of (lc_eviction c) key of
        Some _ \<Rightarrow> c\<lparr>lc_eviction := (key, v) # AList.delete key (lc_eviction c)\<rparr>
      | None \<Rightarrow>
          let es = (if int (length (lc_eviction c)) \<ge> lc_cap c then butlast (lc_eviction c) else lc_eviction c)
          in c\<lparr>lc_eviction := (key, v) # es\<rparr>)"

section \<open>Validation\<close>

record introspectionResponse =
  in_Active :: bool
  in_Scope :: string
  in_Exp :: int

record oidcIntrospectionConfig =
  oi_CacheTTL :: duration
  oi_CacheSize :: int
  oi_ScopesRequired :: "string list"

fun Fields_from :: "string \<Rightarrow> string \<Rightarrow> string list" where
  "Fields_from acc [] = (if acc = [] then [] else [acc])"
| "Fields_from acc (c # cs) =
     (if is_space c then (if acc = [] then [] else [acc]) @ Fields_from [] cs else Fields_from (acc @ [c]) cs)"

definition hasAllScopes :: "string \<Rightarrow> string list \<Rightarrow> bool" where
  "hasAllScopes scopeStr required = list_all (\<lambda>r. r \<in> set (Fields_from [] scopeStr)) required"

definition token_active :: "oidcIntrospectionConfig \<Rightarrow> time \<Rightarrow> introspectionResponse \<Rightarrow> bool" where
  "token_active cfg now resp \<longleftrightarrow>
     in_Active resp \<and> \<not> (in_Exp resp \<noteq> 0 \<and> time_Unix now \<ge> in_Exp resp) \<and>
     (oi_ScopesRequired cfg \<noteq> [] \<longrightarrow> hasAllScopes (in_Scope resp) (oi_ScopesRequired cfg))"

definition cache_ttl :: "oidcIntrospectionConfig \<Rightarrow> time \<Rightarrow> introspectionResponse \<Rightarrow> duration" where
  "cache_ttl cfg now resp =
     (if token_active cfg now resp
      then let remaining = wrap64 (wrap64 (in_Exp resp - time_Unix now) * Second) in
           if in_Exp resp \<noteq> 0 \<and> remaining < oi_CacheTTL cfg then remaining else oi_CacheTTL cfg
      else let ttl = oi_CacheTTL cfg sdiv 10 in if ttl < 3 * Second then 3 * Second else ttl)"

definition oidc_validate ::
  "oidcIntrospectionConfig \<Rightarrow> (string \<Rightarrow> string) \<Rightarrow> introspectionResponse option \<Rightarrow> time \<Rightarrow> string \<Rightarrow> lruCache \<Rightarrow> bool option \<times> lruCache" where
  "oidc_validate cfg tokenKey answer now token c =
     (let key = tokenKey token; (hit, c1) = lru_get key now c in
      case hit of
        Some res \<Rightarrow> (Some (ir_active res), c1)
      | None \<Rightarrow>
          case answer of
            None \<Rightarrow> (None, c1)
          | Some resp \<Rightarrow>
              let active = token_active cfg now resp; ttl = cache_ttl cfg now resp
              in (Some active, if ttl > 0 then lru_set key \<lparr>ir_active = active, ir_expiresAt = now + ttl\<rparr> c1 else c1))"

definition OIDCIntrospect ::
  "oidcIntrospectionConfig \<Rightarrow> (string \<Rightarrow> string) \<Rightarrow> introspectionResponse option \<Rightarrow> time \<Rightarrow> (lruCache \<times> 's) handler \<Rightarrow> (lruCache \<times> 's) handler" where
  "OIDCIntrospect cfg tokenKey answer now next' r = (\<lambda>(w, c, s).
     let refuse = http_Error ''unauthorized'' 401 (set_header ''WWW-Authenticate'' ''Bearer error=\"invalid_token\"'' w) in
     case bearerToken r of
       None \<Rightarrow> (refuse, c, s)
     | Some token \<Rightarrow>
         (case oidc_validate cfg tokenKey answer now token c of
            (None, c') \<Rightarrow> (http_Error ''service unavailable'' 503 w, c', s)
          | (Some True, c') \<Rightarrow> next' r (w, c', s)
          | (Some False, c') \<Rightarrow> (refuse, c', s)))"

section \<open>Accepted tokens\<close>

text \<open>A check: its time, the token and what the endpoint answers when asked.\<close>

type_synonym check_event = "time \<times> string \<times> introspectionResponse option"

fun oidc_run :: "oidcIntrospectionConfig \<Rightarrow> (string \<Rightarrow> string) \<Rightarrow> check_event list \<Rightarrow> lruCache \<Rightarrow> lruCache" where
  "oidc_run cfg tokenKey [] c = c"
| "oidc_run cfg tokenKey ((now, token, answer) # evs) c = oidc_run cfg tokenKey evs (snd (oidc_validate cfg tokenKey answer now token c))"

text \<open>An answer at \<open>t0\<close> that lets a token with this digest pass at \<open>t\<close>.\<close>

definition vouches :: "oidcIntrospectionConfig \<Rightarrow> (string \<Rightarrow> string) \<Rightarrow> string \<Rightarrow> time \<Rightarrow> check_event \<Rightarrow> bool" where
  "vouches cfg tokenKey key t ev = (case ev of
     (t0, token, Some resp) \<Rightarrow> tokenKey token = key \<and> token_active cfg t0 resp \<and> t \<le> t0 + max 0 (oi_CacheTTL cfg) \<and>
       (in_Exp resp \<noteq> 0 \<longrightarrow> t < unix_epoch + (in_Exp resp + 1) * Second)
   | _ \<Rightarrow> False)"

definition entries_ok :: "oidcIntrospectionConfig \<Rightarrow> (string \<Rightarrow> string) \<Rightarrow> check_event list \<Rightarrow> lru_entries \<Rightarrow> bool" where
  "entries_ok cfg tokenKey hist es \<longleftrightarrow>
     (\<forall>(key, v)\<in>set es. ir_active v \<longrightarrow> (\<exists>ev\<in>set hist. vouches cfg tokenKey key (ir_expiresAt v) ev))"

definition lru_ok :: "oidcIntrospectionConfig \<Rightarrow> (string \<Rightarrow> string) \<Rightarrow> check_event list \<Rightarrow> lruCache \<Rightarrow> bool" where
  "lru_ok cfg tokenKey hist c \<longleftrightarrow> int (length (lc_eviction c)) \<le> lc_cap c \<and> distinct (map fst (lc_eviction c)) \<and> lc_cap c > 0 \<and>
     entries_ok cfg tokenKey hist (lc_eviction c)"

lemma entries_ok_sub: "entries_ok cfg tokenKey hist es \<Longrightarrow> set es' \<subseteq> set es \<Longrightarrow> entries_ok cfg tokenKey hist es'"
  by (auto simp: entries_ok_def)

lemma entries_ok_more: "entries_ok cfg tokenKey hist es \<Longrightarrow> set hist \<subseteq> set hist' \<Longrightarrow> entries_ok cfg tokenKey hist' es"
  unfolding entries_ok_def by blast

lemma entries_ok_Cons: "entries_ok cfg tokenKey hist ((key, v) # es) \<longleftrightarrow>
    (ir_active v \<longrightarrow> (\<exists>ev\<in>set hist. vouches cfg tokenKey key (ir_expiresAt v) ev)) \<and> entries_ok cfg tokenKey hist es"
  by (auto simp: entries_ok_def)

text \<open>An entry taken out of the cache.\<close>

lemma delete_entry:
  assumes "lru_ok cfg tokenKey hist c" "map_of (lc_eviction c) key = Some v"
  shows "length (AList.delete key (lc_eviction c)) < length (lc_eviction c) \<and> key \<notin> fst ` set (AList.delete key (lc_eviction c)) \<and>
    distinct (map fst (AList.delete key (lc_eviction c))) \<and> entries_ok cfg tokenKey hist (AList.delete key (lc_eviction c)) \<and>
    (key, v) \<in> set (lc_eviction c)"
proof -
  have m: "(key, v) \<in> set (lc_eviction c)" using assms(2) by (rule map_of_SomeD)
  have "length (AList.delete key (lc_eviction c)) < length (lc_eviction c)"
    unfolding AList.delete_eq using m by (intro length_filter_less[of "(key, v)"]) auto
  moreover have "entries_ok cfg tokenKey hist (AList.delete key (lc_eviction c))"
    by (rule entries_ok_sub[of _ _ _ "lc_eviction c"]) (use assms(1) in \<open>auto simp: lru_ok_def AList.delete_eq\<close>)
  moreover have "distinct (map fst (AList.delete key (lc_eviction c)))" using assms(1) by (simp add: lru_ok_def AList.delete_eq distinct_map_filter)
  ultimately show ?thesis using m by (simp add: AList.delete_eq image_iff)
qed

lemma vouches_mono: "vouches cfg tokenKey key t ev \<Longrightarrow> t' \<le> t \<Longrightarrow> vouches cfg tokenKey key t' ev"
  by (auto simp: vouches_def split: prod.splits option.splits)

lemma unix_bounds: "unix_epoch + time_Unix t * Second \<le> t" "t < unix_epoch + (time_Unix t + 1) * Second"
proof -
  have e: "time_Unix t * Second + (t - unix_epoch) mod Second = t - unix_epoch" unfolding time_Unix_def by (rule div_mult_mod_eq)
  have "0 \<le> (t - unix_epoch) mod Second" "(t - unix_epoch) mod Second < Second" by (simp_all add: Second_def)
  then show "unix_epoch + time_Unix t * Second \<le> t" "t < unix_epoch + (time_Unix t + 1) * Second"
    using e by (simp_all add: distrib_right)
qed

lemma capped_ttl:
  assumes "token_active cfg now resp" "in_Exp resp \<noteq> 0" "oi_CacheTTL cfg \<le> MaxInt64" "in_Exp resp \<le> MaxInt64" "0 \<le> time_Unix now"
  shows "cache_ttl cfg now resp \<le> (in_Exp resp - time_Unix now) * Second"
proof -
  have pos: "0 < in_Exp resp - time_Unix now" using assms(1,2) by (auto simp: token_active_def)
  have w: "wrap64 (in_Exp resp - time_Unix now) = in_Exp resp - time_Unix now"
    using pos assms(4,5) by (intro wrap64_id) (auto simp: MinInt64_def)
  show ?thesis
  proof (cases "(in_Exp resp - time_Unix now) * Second \<le> MaxInt64")
    case True
    then have "wrap64 ((in_Exp resp - time_Unix now) * Second) = (in_Exp resp - time_Unix now) * Second"
      using pos by (intro wrap64_id) (auto simp: MinInt64_def Second_def)
    then show ?thesis using assms(1,2) w by (auto simp: cache_ttl_def Let_def)
  next
    case False
    moreover have "cache_ttl cfg now resp \<le> oi_CacheTTL cfg" using assms(1) by (auto simp: cache_ttl_def Let_def)
    ultimately show ?thesis using assms(3) by linarith
  qed
qed

lemma ttl_le: "token_active cfg now resp \<Longrightarrow> cache_ttl cfg now resp \<le> max 0 (oi_CacheTTL cfg)"
  by (auto simp: cache_ttl_def Let_def)

definition event_ok :: "check_event \<Rightarrow> bool" where
  "event_ok ev = (case ev of (now, _, answer) \<Rightarrow> 0 \<le> time_Unix now \<and> (\<forall>resp. answer = Some resp \<longrightarrow> in_Exp resp \<le> MaxInt64))"

lemma fresh_vouches:
  assumes "token_active cfg now resp" "oi_CacheTTL cfg \<le> MaxInt64" "event_ok (now, token, Some resp)"
  shows "vouches cfg tokenKey (tokenKey token) (now + cache_ttl cfg now resp) (now, token, Some resp)"
    and "vouches cfg tokenKey (tokenKey token) now (now, token, Some resp)"
proof -
  have e: "in_Exp resp \<le> MaxInt64" "0 \<le> time_Unix now" using assms(3) by (auto simp: event_ok_def)
  have u: "now < unix_epoch + time_Unix now * Second + Second" using unix_bounds(2)[of now] by (simp add: algebra_simps)
  have "now + cache_ttl cfg now resp < unix_epoch + (in_Exp resp + 1) * Second" if "in_Exp resp \<noteq> 0"
    using capped_ttl[OF assms(1) that assms(2) e] u by (simp add: algebra_simps)
  then show "vouches cfg tokenKey (tokenKey token) (now + cache_ttl cfg now resp) (now, token, Some resp)"
    using assms(1) ttl_le[OF assms(1)] by (simp add: vouches_def)
  have "now < unix_epoch + (in_Exp resp + 1) * Second" if "in_Exp resp \<noteq> 0"
  proof -
    have "time_Unix now \<le> in_Exp resp" using assms(1) that by (auto simp: token_active_def)
    then have "time_Unix now * Second \<le> in_Exp resp * Second" by (intro mult_right_mono) (auto simp: Second_def)
    then show ?thesis using u by (simp add: algebra_simps)
  qed
  then show "vouches cfg tokenKey (tokenKey token) now (now, token, Some resp)" using assms(1) by (simp add: vouches_def)
qed

lemma lru_get_ok:
  assumes "lru_ok cfg tokenKey hist c" "lru_get key now c = (r, c')"
  shows "lru_ok cfg tokenKey hist c' \<and> (\<forall>v. r = Some v \<longrightarrow> now \<le> ir_expiresAt v \<and> (key, v) \<in> set (lc_eviction c))"
proof (cases "map_of (lc_eviction c) key")
  case None
  then show ?thesis using assms by (simp add: lru_get_def)
next
  case (Some v)
  note d = delete_entry[OF assms(1) Some]
  have es: "entries_ok cfg tokenKey hist (lc_eviction c)" using assms(1) by (simp add: lru_ok_def)
  have "set ((key, v) # AList.delete key (lc_eviction c)) \<subseteq> set (lc_eviction c)" using d by (auto simp: AList.delete_eq)
  note e = entries_ok_sub[OF es this]
  show ?thesis using assms d e unfolding lru_get_def lru_ok_def Some Let_def by (cases "now > ir_expiresAt v") (simp_all, auto)
qed

lemma lru_set_ok:
  assumes "lru_ok cfg tokenKey hist c" "ir_active v \<longrightarrow> (\<exists>ev\<in>set hist. vouches cfg tokenKey key (ir_expiresAt v) ev)"
  shows "lru_ok cfg tokenKey hist (lru_set key v c)"
proof (cases "map_of (lc_eviction c) key")
  case None
  let ?es = "lc_eviction c" and ?es' = "if int (length (lc_eviction c)) \<ge> lc_cap c then butlast (lc_eviction c) else lc_eviction c"
  have ok: "int (length ?es) \<le> lc_cap c" "distinct (map fst ?es)" "lc_cap c > 0" "entries_ok cfg tokenKey hist ?es" using assms(1) by (simp_all add: lru_ok_def)
  have sub: "set ?es' \<subseteq> set ?es" by (auto dest: in_set_butlastD)
  have "key \<notin> fst ` set ?es" using None by (simp add: map_of_eq_None_iff)
  then have new: "key \<notin> fst ` set ?es'" using sub by (meson image_mono subsetD)
  have "distinct (map fst ?es')" using ok(2) by (simp add: map_butlast distinct_butlast)
  moreover have "int (length ?es') + 1 \<le> lc_cap c" using ok(1,3) by auto
  moreover have "entries_ok cfg tokenKey hist ?es'" by (rule entries_ok_sub[OF ok(4) sub])
  moreover have "lru_set key v c = c\<lparr>lc_eviction := (key, v) # ?es'\<rparr>" using None by (simp add: lru_set_def Let_def)
  ultimately show ?thesis using assms(2) ok(3) new by (simp add: lru_ok_def entries_ok_Cons del: if_image_distrib split del: if_split)
next
  case (Some v')
  note d = delete_entry[OF assms(1) Some]
  have "int (length (lc_eviction c)) \<le> lc_cap c" "lc_cap c > 0" using assms(1) by (simp_all add: lru_ok_def)
  moreover have "lru_set key v c = c\<lparr>lc_eviction := (key, v) # AList.delete key (lc_eviction c)\<rparr>" using Some by (simp add: lru_set_def)
  ultimately show ?thesis using assms(2) d by (simp add: lru_ok_def entries_ok_Cons)
qed

lemma lru_cap [simp]: "lc_cap (snd (lru_get key now c)) = lc_cap c" "lc_cap (lru_set key v c) = lc_cap c"
  by (simp_all add: lru_get_def lru_set_def Let_def split: option.splits)

lemma validate_cap: "lc_cap (snd (oidc_validate cfg tokenKey answer now token c)) = lc_cap c"
proof -
  obtain hit c1 where g: "lru_get (tokenKey token) now c = (hit, c1)" by fastforce
  then have "lc_cap c1 = lc_cap c" by (metis lru_cap(1) snd_conv)
  then show ?thesis by (simp add: oidc_validate_def g Let_def split: option.splits)
qed

lemma run_cap: "lc_cap (oidc_run cfg tokenKey evs c) = lc_cap c"
  by (induction cfg tokenKey evs c rule: oidc_run.induct) (simp_all add: validate_cap)

lemma validate_ok:
  assumes "lru_ok cfg tokenKey hist c" "oi_CacheTTL cfg \<le> MaxInt64" "event_ok (now, token, answer)"
    and "oidc_validate cfg tokenKey answer now token c = (r, c')"
  shows "lru_ok cfg tokenKey (hist @ [(now, token, answer)]) c' \<and>
    (r = Some True \<longrightarrow> (\<exists>ev\<in>set (hist @ [(now, token, answer)]). vouches cfg tokenKey (tokenKey token) now ev))"
proof -
  let ?hist = "hist @ [(now, token, answer)]"
  obtain hit c1 where g: "lru_get (tokenKey token) now c = (hit, c1)" by fastforce
  note g' = lru_get_ok[OF assms(1) g]
  have c1: "lru_ok cfg tokenKey ?hist c1" using g' entries_ok_more[of cfg tokenKey hist _ ?hist] by (auto simp: lru_ok_def)
  show ?thesis
  proof (cases hit)
    case (Some v)
    then have v: "now \<le> ir_expiresAt v" "(tokenKey token, v) \<in> set (lc_eviction c)" using g' by auto
    have r: "r = Some (ir_active v)" "c' = c1" using assms(4) g Some by (auto simp: oidc_validate_def)
    have "ir_active v \<longrightarrow> (\<exists>ev\<in>set hist. vouches cfg tokenKey (tokenKey token) now ev)"
      using assms(1) v vouches_mono unfolding lru_ok_def entries_ok_def by fastforce
    then show ?thesis using r c1 by auto
  next
    case None
    show ?thesis
    proof (cases answer)
      case None
      then show ?thesis using assms(4) g \<open>hit = None\<close> c1 by (simp add: oidc_validate_def)
    next
      case (Some resp)
      let ?v = "\<lparr>ir_active = token_active cfg now resp, ir_expiresAt = now + cache_ttl cfg now resp\<rparr>"
      have fv: "vouches cfg tokenKey (tokenKey token) (now + cache_ttl cfg now resp) (now, token, answer)"
        "vouches cfg tokenKey (tokenKey token) now (now, token, answer)" if "token_active cfg now resp"
        using fresh_vouches[OF that assms(2) assms(3)[unfolded Some], of tokenKey] Some by auto
      have "lru_ok cfg tokenKey ?hist (lru_set (tokenKey token) ?v c1)" using c1 fv by (intro lru_set_ok) auto
      moreover have "r = Some (token_active cfg now resp)" "c' = (if cache_ttl cfg now resp > 0 then lru_set (tokenKey token) ?v c1 else c1)"
        using assms(4) g None Some by (simp_all add: oidc_validate_def Let_def)
      ultimately show ?thesis using c1 fv(2) by auto
    qed
  qed
qed

lemma run_ok:
  assumes "lru_ok cfg tokenKey hist c" "oi_CacheTTL cfg \<le> MaxInt64" "\<forall>ev\<in>set evs. event_ok ev"
  shows "lru_ok cfg tokenKey (hist @ evs) (oidc_run cfg tokenKey evs c)"
  using assms
proof (induction evs arbitrary: hist c)
  case (Cons ev evs)
  obtain now token answer where ev: "ev = (now, token, answer)" by (cases ev)
  obtain r c' where v: "oidc_validate cfg tokenKey answer now token c = (r, c')" by fastforce
  have "lru_ok cfg tokenKey (hist @ [ev]) c'" using validate_ok[OF Cons.prems(1,2) _ v] Cons.prems(3) ev by auto
  then show ?case using Cons.IH[of "hist @ [ev]" c'] Cons.prems ev v by simp
qed simp

text \<open>
  C12. Only a token that the endpoint vouched for passes, and not for long: after any sequence of checks, a token is
  accepted only when at this or an earlier check the endpoint answered, for a token with the same digest, that it is
  active, not expired and of the required scopes; that answer is at most the configured time old, and the token expired
  less than one second ago.  The cache never holds more entries than its capacity.
\<close>

theorem introspection_sound:
  assumes "oi_CacheTTL cfg \<le> MaxInt64" "\<forall>ev\<in>set (evs @ [(now, token, answer)]). event_ok ev"
    and "c = oidc_run cfg tokenKey evs (newLRUCache (oi_CacheSize cfg))" "oidc_validate cfg tokenKey answer now token c = (r, c')"
  shows "int (length (lc_eviction c')) \<le> (if oi_CacheSize cfg \<le> 0 then 1000 else oi_CacheSize cfg) \<and>
    (r = Some True \<longrightarrow> (\<exists>ev\<in>set (evs @ [(now, token, answer)]). vouches cfg tokenKey (tokenKey token) now ev))"
proof -
  have "lru_ok cfg tokenKey [] (newLRUCache (oi_CacheSize cfg))" by (simp add: lru_ok_def entries_ok_def newLRUCache_def)
  then have c: "lru_ok cfg tokenKey evs c" using run_ok[of cfg tokenKey "[]" _ evs] assms(1-3) by simp
  have cap: "lc_cap c' = (if oi_CacheSize cfg \<le> 0 then 1000 else oi_CacheSize cfg)"
    using validate_cap[of cfg tokenKey answer now token c, unfolded assms(4)] run_cap[of cfg tokenKey evs "newLRUCache (oi_CacheSize cfg)"] assms(3) by (simp add: newLRUCache_def)
  show ?thesis using validate_ok[OF c assms(1) _ assms(4)] assms(2) cap by (auto simp: lru_ok_def)
qed

definition demo_oidc :: oidcIntrospectionConfig where
  "demo_oidc = \<lparr>oi_CacheTTL = 30 * Second, oi_CacheSize = 0, oi_ScopesRequired = []\<rparr>"

text \<open>A token that expires ten seconds after the epoch of Unix, checked half a second after that epoch.\<close>

definition demo_answer :: introspectionResponse where
  "demo_answer = \<lparr>in_Active = True, in_Scope = [], in_Exp = 10\<rparr>"

lemma demo_unix: "time_Unix (unix_epoch + 500000000) = 0" "time_Unix (unix_epoch + 10400000000) = 10"
  by (simp_all add: time_Unix_def Second_def)

lemma demo_first: "oidc_run demo_oidc id [(unix_epoch + 500000000, ''tok'', Some demo_answer)] (newLRUCache 0) =
    \<lparr>lc_cap = 1000, lc_eviction = [(''tok'', \<lparr>ir_active = True, ir_expiresAt = unix_epoch + 10500000000\<rparr>)]\<rparr>"
  by (simp add: oidc_validate_def lru_get_def lru_set_def newLRUCache_def token_active_def cache_ttl_def demo_oidc_def demo_answer_def demo_unix
      wrap64_def Second_def)

lemma oidc_hit: "oidc_validate demo_oidc id None (unix_epoch + 10400000000) ''tok''
    \<lparr>lc_cap = 1000, lc_eviction = [(''tok'', \<lparr>ir_active = True, ir_expiresAt = unix_epoch + 10500000000\<rparr>)]\<rparr> =
    (Some True, \<lparr>lc_cap = 1000, lc_eviction = [(''tok'', \<lparr>ir_active = True, ir_expiresAt = unix_epoch + 10500000000\<rparr>)]\<rparr>)"
  by (simp add: oidc_validate_def lru_get_def)

lemma demo_size: "oi_CacheSize demo_oidc = 0"
  by (simp add: demo_oidc_def)

text \<open>
  The cache outlives the expiry of a token: with a cache time of thirty seconds, a token that expires ten seconds after
  the epoch, first checked half a second after it, is accepted 400 ms after its expiry, without asking the
  endpoint.
\<close>

lemma introspection_past_expiry:
  "fst (oidc_validate demo_oidc id None (unix_epoch + 10400000000) ''tok''
     (oidc_run demo_oidc id [(unix_epoch + 500000000, ''tok'', Some demo_answer)] (newLRUCache 0))) = Some True \<and>
   in_Exp demo_answer * Second < (unix_epoch + 10400000000) - unix_epoch"
  unfolding demo_first by (simp add: oidc_hit) (simp add: demo_answer_def Second_def)

theorem introspection_sound_witness:
  "\<exists>ev\<in>set [(unix_epoch + 500000000, ''tok'', Some demo_answer), (unix_epoch + 10400000000, ''tok'', None)].
     vouches demo_oidc id ''tok'' (unix_epoch + 10400000000) ev"
proof -
  let ?c = "oidc_run demo_oidc id [(unix_epoch + 500000000, ''tok'', Some demo_answer)] (newLRUCache (oi_CacheSize demo_oidc))"
  obtain c' where v: "oidc_validate demo_oidc id None (unix_epoch + 10400000000) ''tok'' ?c = (Some True, c')"
    unfolding demo_size demo_first using oidc_hit by blast
  have "\<forall>ev\<in>set ([(unix_epoch + 500000000, ''tok'', Some demo_answer)] @ [(unix_epoch + 10400000000, ''tok'', None)]). event_ok ev"
    by (simp add: event_ok_def demo_unix demo_answer_def MaxInt64_def)
  moreover have "oi_CacheTTL demo_oidc \<le> MaxInt64" by (simp add: demo_oidc_def Second_def MaxInt64_def)
  ultimately show ?thesis using introspection_sound[OF _ _ refl v] by simp
qed

end
