(* ===== verification/TlsUtil.thy ===== *)
theory TlsUtil
  imports Config "HOL-Library.AList"
begin

text \<open>
  \<open>internal/tlsutil/tlsutil.go\<close>: the TLS configuration of the listener, the choice of a certificate by server name,
  its reload from disk and the stapling of OCSP responses.  Certificates are pointers into a store; files, the
  parser of certificates, the cipher suites of the library and the OCSP responder are arguments.
\<close>

section \<open>Versions and suites\<close>

definition minVersionFor :: "string \<Rightarrow> nat" where
  "minVersionFor v = (if v = ''1.3'' then 0x0304 else 0x0303)"

fun cipherSuiteIDs :: "(string \<rightharpoonup> nat) \<Rightarrow> string list \<Rightarrow> nat list option" where
  "cipherSuiteIDs suites [] = Some []"
| "cipherSuiteIDs suites (n # ns) =
     (case suites n of None \<Rightarrow> None | Some i \<Rightarrow> map_option (Cons i) (cipherSuiteIDs suites ns))"

section \<open>Certificates\<close>

type_synonym certEntry = "string \<times> string"

text \<open>What the files hold: modification times, 0 when there is none, and the keypair they parse to.\<close>

record 'c files =
  fs_mtime :: "string \<Rightarrow> int"
  fs_load :: "certEntry \<Rightarrow> 'c option"

record loadedCert =
  ld_cert :: nat
  ld_certMtime :: int
  ld_keyMtime :: int

record 'c certResolver =
  cr_entries :: "certEntry list"
  cr_reload :: bool
  cr_cache :: "string \<rightharpoonup> loadedCert"
  cr_next :: nat
  cr_content :: "nat \<Rightarrow> 'c"
  cr_staple :: "nat \<Rightarrow> string option"

definition newCertResolver :: "certEntry list \<Rightarrow> bool \<Rightarrow> (nat \<Rightarrow> 'c) \<Rightarrow> 'c certResolver" where
  "newCertResolver entries reload content =
     \<lparr>cr_entries = entries, cr_reload = reload, cr_cache = Map.empty, cr_next = 0, cr_content = content, cr_staple = (\<lambda>_. None)\<rparr>"

text \<open>
  The files are read three times: for the check, for the load and for the times that are remembered.
\<close>

definition cr_get :: "'c files \<Rightarrow> 'c files \<Rightarrow> 'c files \<Rightarrow> certEntry \<Rightarrow> 'c certResolver \<Rightarrow> nat option \<times> 'c certResolver" where
  "cr_get fs0 fs1 fs2 e r =
     (let cached = cr_cache r (fst e); cm = fs_mtime fs0 (fst e); km = fs_mtime fs0 (snd e) in
      case cached of
        Some l \<Rightarrow>
          if \<not> cr_reload r \<or> cm = ld_certMtime l \<and> km = ld_keyMtime l \<and> cm \<noteq> 0 then (Some (ld_cert l), r)
          else (case fs_load fs1 e of
                  None \<Rightarrow> (Some (ld_cert l), r)
                | Some c \<Rightarrow> (Some (cr_next r), r\<lparr>cr_cache := (cr_cache r)(fst e \<mapsto>
                    \<lparr>ld_cert = cr_next r, ld_certMtime = fs_mtime fs2 (fst e), ld_keyMtime = fs_mtime fs2 (snd e)\<rparr>),
                    cr_content := (cr_content r)(cr_next r := c), cr_staple := (cr_staple r)(cr_next r := None), cr_next := cr_next r + 1\<rparr>))
      | None \<Rightarrow>
          (case fs_load fs1 e of
             None \<Rightarrow> (None, r)
           | Some c \<Rightarrow> (Some (cr_next r), r\<lparr>cr_cache := (cr_cache r)(fst e \<mapsto>
               \<lparr>ld_cert = cr_next r, ld_certMtime = fs_mtime fs2 (fst e), ld_keyMtime = fs_mtime fs2 (snd e)\<rparr>),
               cr_content := (cr_content r)(cr_next r := c), cr_staple := (cr_staple r)(cr_next r := None), cr_next := cr_next r + 1\<rparr>)))"

text \<open>The parser gives the DNS names and the common name of a leaf.\<close>

definition leafDNSNames :: "('c \<Rightarrow> (string list \<times> string) option) \<Rightarrow> 'c \<Rightarrow> string list" where
  "leafDNSNames leaf c = (case leaf c of None \<Rightarrow> [] | Some (names, cn) \<Rightarrow> if names = [] \<and> cn \<noteq> [] then [cn] else names)"

definition hostMatches :: "string \<Rightarrow> string \<Rightarrow> bool" where
  "hostMatches serverName candidate =
     (let sn = ToLower (TrimSuffix serverName ''.''); cand = ToLower (TrimSuffix candidate ''.'') in
      if cand = sn then True
      else if HasPrefix cand ''*.''
           then let suffix = drop 1 cand in
                HasSuffix sn suffix \<and> (let host = take (length sn - length suffix) sn in host \<noteq> [] \<and> CHR ''.'' \<notin> set host)
           else False)"

fun sni_scan :: "('c \<Rightarrow> (string list \<times> string) option) \<Rightarrow> 'c files \<Rightarrow> string \<Rightarrow> certEntry list \<Rightarrow> 'c certResolver \<Rightarrow> nat option \<times> 'c certResolver" where
  "sni_scan leaf fs sn [] r = (None, r)"
| "sni_scan leaf fs sn (e # es) r =
     (case cr_get fs fs fs e r of
        (None, r1) \<Rightarrow> sni_scan leaf fs sn es r1
      | (Some p, r1) \<Rightarrow> if list_ex (hostMatches sn) (leafDNSNames leaf (cr_content r1 p)) then (Some p, r1) else sni_scan leaf fs sn es r1)"

definition getCertificate ::
  "('c \<Rightarrow> (string list \<times> string) option) \<Rightarrow> 'c files \<Rightarrow> string \<Rightarrow> 'c certResolver \<Rightarrow> nat option \<times> 'c certResolver" where
  "getCertificate leaf fs serverName r =
     (case cr_entries r of
        [] \<Rightarrow> (None, r)
      | e # _ \<Rightarrow>
          let (hit, r1) = (if serverName \<noteq> [] then sni_scan leaf fs serverName (cr_entries r) r else (None, r)) in
          case hit of Some p \<Rightarrow> (Some p, r1) | None \<Rightarrow> cr_get fs fs fs e r1)"

section \<open>The configuration of the listener\<close>

datatype clientAuth = NoClientCert | RequestClientCert | RequireAndVerifyClientCert

record tls_settings =
  ts_MinVersion :: nat
  ts_CipherSuites :: "nat list"
  ts_ClientAuth :: clientAuth
  ts_ClientCAs :: "string option"

fun load_all :: "'c files \<Rightarrow> certEntry list \<Rightarrow> 'c certResolver \<Rightarrow> nat list option \<times> 'c certResolver" where
  "load_all fs [] r = (Some [], r)"
| "load_all fs (e # es) r =
     (case cr_get fs fs fs e r of
        (None, r1) \<Rightarrow> (None, r1)
      | (Some p, r1) \<Rightarrow> (case load_all fs es r1 of (None, r2) \<Rightarrow> (None, r2) | (Some ps, r2) \<Rightarrow> (Some (p # ps), r2)))"

text \<open>The pool of a CA file is given by its PEM text, none when it does not hold a certificate.\<close>

definition static_TLS ::
  "(string \<rightharpoonup> nat) \<Rightarrow> (string \<Rightarrow> string option) \<Rightarrow> 'c files \<Rightarrow> string \<Rightarrow> string list \<Rightarrow> string \<Rightarrow> string \<Rightarrow> 'c certResolver \<Rightarrow>
   (tls_settings \<times> nat list \<times> 'c certResolver) option" where
  "static_TLS suites loadCAPool fs minVersion cipherNames auth caFile r =
     (case load_all fs (cr_entries r) r of
        (None, _) \<Rightarrow> None
      | (Some certs, r1) \<Rightarrow>
          case cipherSuiteIDs suites cipherNames of
            None \<Rightarrow> None
          | Some ids \<Rightarrow>
              let tc = (\<lambda>a cas. \<lparr>ts_MinVersion = minVersionFor minVersion, ts_CipherSuites = ids, ts_ClientAuth = a, ts_ClientCAs = cas\<rparr>);
                  withCA = (\<lambda>a. if caFile \<noteq> [] then map_option (\<lambda>pool. (tc a (Some pool), certs, r1)) (loadCAPool caFile)
                                else if a = RequireAndVerifyClientCert then None else Some (tc a None, certs, r1))
              in if auth = ''require_and_verify'' then withCA RequireAndVerifyClientCert
                 else if auth = ''request'' then withCA RequestClientCert
                 else if auth = ''none'' \<or> auth = [] then Some (tc NoClientCert None, certs, r1) else None)"

text \<open>
  The keypairs besides the primary one and the reload switch are the fields of the section that the
  validation does not read.  The settings of an ACME manager are a parameter; it has no resolver.
\<close>

definition ServerTLSConfigWithCerts ::
  "(acmeConfig \<Rightarrow> tls_settings option) \<Rightarrow> (string \<rightharpoonup> nat) \<Rightarrow> (string \<Rightarrow> string option) \<Rightarrow> 'c files \<Rightarrow> (nat \<Rightarrow> 'c) \<Rightarrow>
   certEntry list \<Rightarrow> bool \<Rightarrow> tlsConfig \<Rightarrow> (tls_settings \<times> nat list \<times> 'c certResolver option) option" where
  "ServerTLSConfigWithCerts acme suites loadCAPool fs content certificates reload cfg =
     (if acm_Enabled (tls_ACME cfg) then map_option (\<lambda>tc. (tc, [], None)) (acme (tls_ACME cfg))
      else if tls_CertFile cfg = [] \<or> tls_KeyFile cfg = [] then None
      else if list_ex (\<lambda>c. fst c = [] \<or> snd c = []) certificates then None
      else map_option (\<lambda>(tc, certs, r). (tc, certs, Some r))
             (static_TLS suites loadCAPool fs (tls_MinVersion cfg) (tls_CipherSuites cfg) (tls_ClientAuth cfg) (tls_ClientCAFile cfg)
                (newCertResolver ((tls_CertFile cfg, tls_KeyFile cfg) # certificates) reload content)))"

section \<open>OCSP stapling\<close>

text \<open>An answer of the responder: the response, whether its status is good and its next update.\<close>

record ocsp_response =
  oc_der :: string
  oc_good :: bool
  oc_NextUpdate :: "time option"

definition refreshTarget :: "ocsp_response option \<Rightarrow> nat \<Rightarrow> 'c certResolver \<Rightarrow> bool \<times> 'c certResolver" where
  "refreshTarget fetched p r =
     (case fetched of
        None \<Rightarrow> (False, r)
      | Some resp \<Rightarrow> if oc_good resp then (True, r\<lparr>cr_staple := (cr_staple r)(p \<mapsto> oc_der resp)\<rparr>) else (False, r))"

fun RefreshOnce :: "(nat \<Rightarrow> ocsp_response option) \<Rightarrow> nat list \<Rightarrow> 'c certResolver \<Rightarrow> bool \<times> 'c certResolver" where
  "RefreshOnce fetch [] r = (True, r)"
| "RefreshOnce fetch (p # ps) r =
     (let (ok, r1) = refreshTarget (fetch p) p r; (ok', r2) = RefreshOnce fetch ps r1 in (ok \<and> ok', r2))"

definition refresh_floor :: "duration \<Rightarrow> duration" where
  "refresh_floor minRefresh = (if minRefresh \<le> 0 then Minute else minRefresh)"

definition nextRefresh :: "duration \<Rightarrow> time \<Rightarrow> ocsp_response option \<Rightarrow> duration" where
  "nextRefresh minRefresh now parsed =
     (let flr = refresh_floor minRefresh in
      case parsed of
        None \<Rightarrow> flr
      | Some resp \<Rightarrow>
          case oc_NextUpdate resp of
            None \<Rightarrow> flr
          | Some nu \<Rightarrow>
              let remaining = time_Sub nu now in
              if remaining \<le> 0 then flr else let d = remaining sdiv 2 in if d < flr then flr else d)"

section \<open>Names\<close>

text \<open>A certificate name covers a host when they are equal, or by a wildcard for one label.\<close>

definition covers :: "string \<Rightarrow> string \<Rightarrow> bool" where
  "covers cand host \<longleftrightarrow> cand = host \<or> (\<exists>label rest. label \<noteq> [] \<and> CHR ''.'' \<notin> set label \<and> cand = ''*.'' @ rest \<and> host = label @ ''.'' @ rest)"

definition norm_name :: "string \<Rightarrow> string" where
  "norm_name s = ToLower (TrimSuffix s ''.'')"

lemma HasPrefix_append: "HasPrefix s p \<longleftrightarrow> (\<exists>t. s = p @ t)"
  by (metis HasPrefix_def append_eq_conv_conj append_take_drop_id)

lemma HasSuffix_append: "HasSuffix s p \<longleftrightarrow> (\<exists>t. s = t @ p)"
  unfolding HasSuffix_def HasPrefix_append by (metis rev_append rev_rev_ident)

lemma hostMatches_covers: "hostMatches sn cand \<longleftrightarrow> covers (norm_name cand) (norm_name sn)"
proof -
  have one: "HasPrefix c ''*.'' \<and> HasSuffix h (drop 1 c) \<and> take (length h - length (drop 1 c)) h \<noteq> [] \<and>
      CHR ''.'' \<notin> set (take (length h - length (drop 1 c)) h) \<longleftrightarrow>
    (\<exists>label rest. label \<noteq> [] \<and> CHR ''.'' \<notin> set label \<and> c = ''*.'' @ rest \<and> h = label @ ''.'' @ rest)" for c h
    by (auto simp: HasPrefix_append HasSuffix_append)
  show ?thesis unfolding covers_def one[symmetric] by (auto simp: hostMatches_def norm_name_def Let_def)
qed

section \<open>Which certificate a client gets\<close>

text \<open>
  What a handshake serves for an entry: what is cached, unless files are watched and their times differ
  from those remembered (or the certificate file is gone) and they hold a keypair that can be read.
\<close>

definition held :: "'c certResolver \<Rightarrow> certEntry \<Rightarrow> 'c option" where
  "held r e = map_option (\<lambda>l. cr_content r (ld_cert l)) (cr_cache r (fst e))"

definition watched_change :: "'c files \<Rightarrow> 'c certResolver \<Rightarrow> certEntry \<Rightarrow> bool" where
  "watched_change fs r e \<longleftrightarrow> cr_reload r \<and> (case cr_cache r (fst e) of None \<Rightarrow> True | Some l \<Rightarrow>
     \<not> (fs_mtime fs (fst e) = ld_certMtime l \<and> fs_mtime fs (snd e) = ld_keyMtime l \<and> fs_mtime fs (fst e) \<noteq> 0))"

definition serving :: "'c files \<Rightarrow> 'c certResolver \<Rightarrow> certEntry \<Rightarrow> 'c option" where
  "serving fs r e = (if watched_change fs r e \<and> fs_load fs e \<noteq> None then fs_load fs e else held r e)"

definition name_covered :: "('c \<Rightarrow> (string list \<times> string) option) \<Rightarrow> string \<Rightarrow> 'c option \<Rightarrow> bool" where
  "name_covered leaf sn c \<longleftrightarrow> (\<exists>x. c = Some x \<and> (\<exists>name\<in>set (leafDNSNames leaf x). covers (norm_name name) (norm_name sn)))"

text \<open>Every entry is cached, and the cached certificates have been allocated.\<close>

definition ptr_ok :: "'c certResolver \<Rightarrow> bool" where
  "ptr_ok r \<longleftrightarrow> (\<forall>k l. cr_cache r k = Some l \<longrightarrow> ld_cert l < cr_next r)"

definition loaded :: "'c certResolver \<Rightarrow> bool" where
  "loaded r \<longleftrightarrow> ptr_ok r \<and> distinct (map fst (cr_entries r)) \<and> (\<forall>e\<in>set (cr_entries r). cr_cache r (fst e) \<noteq> None)"

definition stable :: "'c files \<Rightarrow> 'c certResolver \<Rightarrow> 'c certResolver \<Rightarrow> bool" where
  "stable fs r r' \<longleftrightarrow> loaded r' \<and> cr_entries r' = cr_entries r \<and> cr_reload r' = cr_reload r \<and>
     (\<forall>e\<in>set (cr_entries r). serving fs r' e = serving fs r e) \<and> (\<not> cr_reload r \<longrightarrow> r' = r)"

lemma same_entry: "loaded r \<Longrightarrow> e \<in> set (cr_entries r) \<Longrightarrow> x \<in> set (cr_entries r) \<Longrightarrow> fst x = fst e \<Longrightarrow> x = e"
  by (auto simp: loaded_def distinct_map dest: inj_onD)

lemma cr_get_frame:
  assumes "ptr_ok r" "cr_get fs0 fs1 fs2 e r = (p, r')"
  shows "ptr_ok r'" "cr_entries r' = cr_entries r" "cr_reload r' = cr_reload r" "dom (cr_cache r) \<subseteq> dom (cr_cache r')"
    and "p \<noteq> None \<Longrightarrow> cr_cache r' (fst e) \<noteq> None" "k \<noteq> fst e \<Longrightarrow> cr_cache r' k = cr_cache r k"
  using assms by (auto simp: cr_get_def ptr_ok_def Let_def less_Suc_eq split: option.splits if_splits)

lemma cr_get_content:
  assumes "ptr_ok r" "cr_get fs0 fs1 fs2 e r = (p, r')" "cr_cache r k = Some l"
  shows "cr_content r' (ld_cert l) = cr_content r (ld_cert l)"
proof -
  have "ld_cert l \<noteq> cr_next r" using assms(1,3) unfolding ptr_ok_def by (metis less_irrefl)
  then show ?thesis using assms(2) by (auto simp: cr_get_def Let_def split: option.splits if_splits)
qed

lemma cr_get_held:
  assumes "ptr_ok r" "cr_get fs0 fs1 fs2 e r = (p, r')" "fst x \<noteq> fst e"
  shows "held r' x = held r x" "watched_change fs r' x = watched_change fs r x"
proof -
  have c: "cr_cache r' (fst x) = cr_cache r (fst x)" by (rule cr_get_frame(6)[OF assms])
  show "held r' x = held r x" using cr_get_content[OF assms(1,2)] by (simp add: held_def c cong: map_option_cong)
  show "watched_change fs r' x = watched_change fs r x" using cr_get_frame(3)[OF assms(1,2)] by (simp add: watched_change_def c)
qed

lemma cr_get_serving:
  assumes "cr_cache r (fst e) \<noteq> None" "cr_get fs fs fs e r = (p, r')"
  shows "\<exists>q. p = Some q \<and> Some (cr_content r' q) = serving fs r e" "serving fs r' e = serving fs r e"
    and "\<not> cr_reload r \<Longrightarrow> r' = r"
proof -
  obtain l where l: "cr_cache r (fst e) = Some l" using assms(1) by blast
  have "(\<exists>q. p = Some q \<and> Some (cr_content r' q) = serving fs r e) \<and> serving fs r' e = serving fs r e \<and> (\<not> cr_reload r \<longrightarrow> r' = r)"
  proof (cases "watched_change fs r e \<and> fs_load fs e \<noteq> None")
    case True
    then obtain c where c: "fs_load fs e = Some c" by blast
    have r': "p = Some (cr_next r)" "cr_content r' = (cr_content r)(cr_next r := c)"
      "map_option ld_cert (cr_cache r' (fst e)) = Some (cr_next r)" and w: "cr_reload r"
      using True assms(2) l c by (auto simp: cr_get_def watched_change_def Let_def split: if_splits)
    then have "held r' e = Some c" by (auto simp: held_def)
    then show ?thesis using True r' w by (auto simp: serving_def c)
  next
    case False
    then have "p = Some (ld_cert l)" "r' = r"
      using assms(2) l by (auto simp: cr_get_def watched_change_def Let_def split: if_splits)
    then show ?thesis using False l by (auto simp: serving_def held_def)
  qed
  then show "\<exists>q. p = Some q \<and> Some (cr_content r' q) = serving fs r e" "serving fs r' e = serving fs r e"
    "\<not> cr_reload r \<Longrightarrow> r' = r" by blast+
qed

lemma cr_get_stable:
  assumes "loaded r" "e \<in> set (cr_entries r)" "cr_get fs fs fs e r = (p, r')"
  shows "stable fs r r'"
proof -
  have ok: "ptr_ok r" and c: "cr_cache r (fst e) \<noteq> None" using assms by (auto simp: loaded_def)
  note f = cr_get_frame[OF ok assms(3)] and g = cr_get_serving[OF c assms(3)]
  have l: "loaded r'" using assms(1) f(1,2) subsetD[OF f(4)] by (fastforce simp: loaded_def)
  have "serving fs r' x = serving fs r x" if "x \<in> set (cr_entries r)" for x
  proof (cases "fst x = fst e")
    case True
    then show ?thesis using same_entry[OF assms(1,2) that] g(2) by simp
  next
    case False
    show ?thesis unfolding serving_def cr_get_held[OF ok assms(3) False] ..
  qed
  then show ?thesis using l f(2,3) g(3) by (simp add: stable_def)
qed

lemma stable_trans: "stable fs r r1 \<Longrightarrow> stable fs r1 r2 \<Longrightarrow> stable fs r r2"
  by (auto simp: stable_def)

lemma covers_leaf: "list_ex (hostMatches sn) (leafDNSNames leaf x) = name_covered leaf sn (Some x)"
  by (simp add: list_ex_iff name_covered_def hostMatches_covers)

lemma sni_scan_serving:
  assumes "loaded r" "set es \<subseteq> set (cr_entries r)" "sni_scan leaf fs sn es r = (p, r')"
  shows "stable fs r r' \<and> (case find (\<lambda>e. name_covered leaf sn (serving fs r e)) es of
    None \<Rightarrow> p = None | Some e \<Rightarrow> \<exists>q. p = Some q \<and> Some (cr_content r' q) = serving fs r e)"
  using assms
proof (induction es arbitrary: r)
  case (Cons e es)
  obtain o1 r1 where g: "cr_get fs fs fs e r = (o1, r1)" by fastforce
  have st: "stable fs r r1" using cr_get_stable[OF Cons.prems(1) _ g] Cons.prems(2) by simp
  have "cr_cache r (fst e) \<noteq> None" using Cons.prems by (auto simp: loaded_def)
  from cr_get_serving(1)[OF this g] obtain q where q: "o1 = Some q" "Some (cr_content r1 q) = serving fs r e" by blast
  show ?case
  proof (cases "name_covered leaf sn (serving fs r e)")
    case True
    then show ?thesis using Cons.prems(3) st q by (auto simp: g covers_leaf)
  next
    case False
    have eq: "serving fs r1 x = serving fs r x" if "x \<in> set es" for x using st that Cons.prems(2) by (auto simp: stable_def)
    have "find (\<lambda>e. name_covered leaf sn (serving fs r1 e)) es = find (\<lambda>e. name_covered leaf sn (serving fs r e)) es"
      using eq by (intro find_cong) auto
    moreover have "stable fs r1 r' \<and> (case find (\<lambda>e. name_covered leaf sn (serving fs r1 e)) es of
        None \<Rightarrow> p = None | Some e \<Rightarrow> \<exists>q. p = Some q \<and> Some (cr_content r' q) = serving fs r1 e)"
      using Cons.prems(2,3) st False q by (intro Cons.IH) (auto simp: g covers_leaf stable_def)
    ultimately show ?thesis using False st stable_trans[OF st] eq
      by (auto split: option.splits dest: find_SomeD)
  qed
qed (simp add: stable_def)

definition sni_choice :: "('c \<Rightarrow> (string list \<times> string) option) \<Rightarrow> 'c files \<Rightarrow> string \<Rightarrow> 'c certResolver \<Rightarrow> certEntry" where
  "sni_choice leaf fs sn r = (case find (\<lambda>e. name_covered leaf sn (serving fs r e)) (if sn = [] then [] else cr_entries r) of
     Some e \<Rightarrow> e | None \<Rightarrow> hd (cr_entries r))"

lemma getCertificate_serving:
  assumes "loaded r" "cr_entries r \<noteq> []" "getCertificate leaf fs sn r = (p, r')"
  shows "stable fs r r' \<and> (\<exists>q. p = Some q \<and> Some (cr_content r' q) = serving fs r (sni_choice leaf fs sn r))"
proof -
  obtain e es where es: "cr_entries r = e # es" using assms(2) by (cases "cr_entries r") auto
  obtain o1 r1 where s: "(if sn \<noteq> [] then sni_scan leaf fs sn (cr_entries r) r else (None, r)) = (o1, r1)" by fastforce
  have a: "stable fs r r1 \<and> (case find (\<lambda>e. name_covered leaf sn (serving fs r e)) (if sn = [] then [] else cr_entries r) of
      None \<Rightarrow> o1 = None | Some e \<Rightarrow> \<exists>q. o1 = Some q \<and> Some (cr_content r1 q) = serving fs r e)"
    using s sni_scan_serving[OF assms(1) subset_refl, of leaf fs sn o1 r1] assms(1) by (auto simp: stable_def split: if_splits)
  have g: "getCertificate leaf fs sn r = (case o1 of Some p \<Rightarrow> (Some p, r1) | None \<Rightarrow> cr_get fs fs fs e r1)"
    using s by (simp add: getCertificate_def es split: if_splits)
  show ?thesis
  proof (cases o1)
    case None
    have l: "loaded r1" "e \<in> set (cr_entries r1)" "serving fs r1 e = serving fs r e" using a es by (auto simp: stable_def)
    have r': "cr_get fs fs fs e r1 = (p, r')" using g None assms(3) by simp
    have "cr_cache r1 (fst e) \<noteq> None" using l by (auto simp: loaded_def)
    then show ?thesis using cr_get_serving(1)[OF _ r'] cr_get_stable[OF l(1,2) r'] a None l(3) stable_trans[of fs r r1 r']
      by (auto simp: sni_choice_def es split: option.splits)
  next
    case (Some q)
    then show ?thesis using g a assms(3) by (cases "sn = []") (auto simp: sni_choice_def split: option.splits)
  qed
qed

text \<open>The start loads every keypair.\<close>

lemma load_all_loads:
  assumes "load_all fs es r = (Some ps, r')" "ptr_ok r" "distinct (map fst es)" "\<forall>e\<in>set es. cr_cache r (fst e) = None"
  shows "ptr_ok r' \<and> cr_entries r' = cr_entries r \<and> cr_reload r' = cr_reload r \<and>
    (\<forall>e\<in>set es. held r' e = fs_load fs e \<and> cr_cache r' (fst e) \<noteq> None) \<and> (\<forall>x. fst x \<notin> fst ` set es \<longrightarrow> held r' x = held r x)"
  using assms
proof (induction es arbitrary: r ps)
  case (Cons e es)
  obtain q r1 qs where g: "cr_get fs fs fs e r = (Some q, r1)" and l: "load_all fs es r1 = (Some qs, r')"
    using Cons.prems(1) by (auto split: prod.splits option.splits)
  note f = cr_get_frame[OF Cons.prems(2) g] and h = cr_get_held(1)[OF Cons.prems(2) g]
  have e: "held r1 e = fs_load fs e" using g Cons.prems(4) by (auto simp: cr_get_def held_def Let_def split: option.splits)
  have "cr_cache r1 (fst x) = None" if "x \<in> set es" for x using imageI[OF that, of fst] that Cons.prems(3,4) f(6)[of "fst x"] by (metis distinct.simps(2) list.set_map list.simps(9) list.set_intros(2))
  from Cons.IH[OF l f(1)] this Cons.prems(3)
  have ih: "ptr_ok r'" "cr_entries r' = cr_entries r1" "cr_reload r' = cr_reload r1"
    "\<forall>x\<in>set es. held r' x = fs_load fs x \<and> cr_cache r' (fst x) \<noteq> None" "\<And>x. fst x \<notin> fst ` set es \<Longrightarrow> held r' x = held r1 x" by auto
  have "held r' e = fs_load fs e" using ih(5)[of e] e Cons.prems(3) by simp
  moreover have "held r1 e \<noteq> None" using f(5) by (simp add: held_def)
  ultimately have "cr_cache r' (fst e) \<noteq> None" using e by (cases "cr_cache r' (fst e)") (auto simp: held_def)
  then show ?case using ih f(2,3) h \<open>held r' e = fs_load fs e\<close> by auto
qed simp

lemma start_loads:
  assumes "ServerTLSConfigWithCerts acme suites loadCAPool fs content certificates reload cfg = Some (tc, certs, Some r)"
    and "distinct (tls_CertFile cfg # map fst certificates)"
  shows "loaded r \<and> cr_entries r = (tls_CertFile cfg, tls_KeyFile cfg) # certificates \<and> cr_reload r = reload \<and>
    (\<forall>e\<in>set (cr_entries r). held r e = fs_load fs e)"
proof -
  let ?es = "(tls_CertFile cfg, tls_KeyFile cfg) # certificates"
  let ?r = "newCertResolver ?es reload content"
  obtain tc' ps where t: "static_TLS suites loadCAPool fs (tls_MinVersion cfg) (tls_CipherSuites cfg) (tls_ClientAuth cfg) (tls_ClientCAFile cfg) ?r = Some (tc', ps, r)"
    using assms(1) by (auto simp: ServerTLSConfigWithCerts_def split: if_splits)
  have n: "cr_entries ?r = ?es" "cr_reload ?r = reload" "ptr_ok ?r" "cr_cache ?r = Map.empty"
    by (simp_all add: newCertResolver_def ptr_ok_def)
  obtain qs where "load_all fs ?es ?r = (Some qs, r)"
    using t unfolding static_TLS_def n(1) Let_def by (auto simp del: load_all.simps split: prod.splits option.splits if_splits)
  from load_all_loads[OF this n(3)] assms(2) n show ?thesis by (auto simp: loaded_def)
qed

text \<open>
  C33. The certificate is the one for the name.  From a start with distinct certificate files, after any
  handshakes, a handshake succeeds and is given the certificate of the first
  entry that has a name covering the server name asked for, by equality or by a wildcard for exactly one label and
  whatever the case and a final dot, and that of the primary entry when there is none or no server was named.  The
  certificate of an entry is the one loaded last, or, with the watch of the files on and their times changed, the one
  they hold now if it can be read; with the watch off it is the one read at the start.
\<close>

theorem sni_selection:
  assumes "ServerTLSConfigWithCerts acme suites loadCAPool fs0 content certificates reload cfg = Some (tc, certs, Some r0)"
    and "distinct (tls_CertFile cfg # map fst certificates)"
    and "r = fold (\<lambda>(fs', sn') r. snd (getCertificate leaf fs' sn' r)) past r0"
    and "primary = (tls_CertFile cfg, tls_KeyFile cfg)"
    and "chosen = (case find (\<lambda>e. name_covered leaf sn (serving fs r e)) (if sn = [] then [] else primary # certificates) of
      Some e \<Rightarrow> e | None \<Rightarrow> primary)"
  shows "\<exists>p r'. getCertificate leaf fs sn r = (Some p, r') \<and> Some (cr_content r' p) = serving fs r chosen \<and>
    (\<not> reload \<longrightarrow> serving fs r chosen = fs_load fs0 chosen)"
proof -
  note st = start_loads[OF assms(1,2)]
  have keep: "loaded q \<and> cr_entries q = cr_entries r0 \<and> cr_reload q = reload \<and> (\<not> reload \<longrightarrow> q = r0) \<Longrightarrow>
    loaded (snd (getCertificate leaf fs' sn' q)) \<and> cr_entries (snd (getCertificate leaf fs' sn' q)) = cr_entries r0 \<and>
    cr_reload (snd (getCertificate leaf fs' sn' q)) = reload \<and> (\<not> reload \<longrightarrow> snd (getCertificate leaf fs' sn' q) = r0)" for q fs' sn'
    using getCertificate_serving[of q leaf fs' sn'] st by (cases "getCertificate leaf fs' sn' q") (auto simp: stable_def)
  have "loaded q \<and> cr_entries q = cr_entries r0 \<and> cr_reload q = reload \<and> (\<not> reload \<longrightarrow> q = r0) \<Longrightarrow>
    q' = fold (\<lambda>(fs', sn') r. snd (getCertificate leaf fs' sn' r)) hs q \<Longrightarrow>
    loaded q' \<and> cr_entries q' = cr_entries r0 \<and> cr_reload q' = reload \<and> (\<not> reload \<longrightarrow> q' = r0)" for q q' hs
    by (induction hs arbitrary: q) (auto simp: keep simp del: imp_conjL)
  from this[OF _ assms(3)] st have r: "loaded r" "cr_entries r = primary # certificates" "\<not> reload \<Longrightarrow> r = r0" "cr_reload r = reload"
    by (auto simp: assms(4))
  have ch: "chosen = sni_choice leaf fs sn r" unfolding sni_choice_def r(2) assms(5) list.sel(1) ..
  have "chosen \<in> set (cr_entries r)" by (auto simp: assms(5) r(2) split: option.splits if_splits dest: find_SomeD)
  then have "\<not> reload \<longrightarrow> serving fs r chosen = fs_load fs0 chosen"
    using st r by (auto simp: serving_def watched_change_def)
  then show ?thesis using getCertificate_serving[OF r(1), of leaf fs sn] r(2) by (cases "getCertificate leaf fs sn r") (auto simp: ch)
qed

section \<open>Rotation\<close>

text \<open>Without a concurrent change, a changed keypair is served by the next handshake.\<close>

lemma rotation_seen:
  assumes "cr_reload r" "cr_cache r (fst e) = Some l" "fs_mtime fs (fst e) \<noteq> ld_certMtime l" "fs_load fs e = Some c" "cr_get fs fs fs e r = (p, r')"
  shows "\<exists>q. p = Some q \<and> cr_content r' q = c \<and> cr_cache r' (fst e) = Some \<lparr>ld_cert = q, ld_certMtime = fs_mtime fs (fst e), ld_keyMtime = fs_mtime fs (snd e)\<rparr>"
  using assms by (auto simp: cr_get_def Let_def)

text \<open>
  A rotation during a load is missed for good: when the files are replaced after a keypair has been read and before
  their times are, the old keypair is remembered with the new times, and every later handshake gets it although the
  files hold another one.
\<close>

lemma stale_certificate:
  assumes "cr_reload r" "cr_cache r (fst e) = None \<or> (\<exists>l. cr_cache r (fst e) = Some l \<and> fs_mtime fs0 (fst e) \<noteq> ld_certMtime l)"
    and "fs_load fs1 e = Some c" "fs_load fs2 e = Some c'" "fs_mtime fs2 (fst e) \<noteq> 0" "cr_get fs0 fs1 fs2 e r = (Some p, r1)"
  shows "cr_content r1 p = c \<and> ((\<lambda>x. cr_get fs2 fs2 fs2 e (snd x)) ^^ k) (Some p, r1) = (Some p, r1)"
proof -
  have r1: "r1 = r\<lparr>cr_cache := (cr_cache r)(fst e \<mapsto> \<lparr>ld_cert = cr_next r, ld_certMtime = fs_mtime fs2 (fst e), ld_keyMtime = fs_mtime fs2 (snd e)\<rparr>),
      cr_content := (cr_content r)(cr_next r := c), cr_staple := (cr_staple r)(cr_next r := None), cr_next := cr_next r + 1\<rparr>" "p = cr_next r"
    using assms(1,2,3,6) by (auto simp: cr_get_def Let_def split: option.splits)
  then have "cr_get fs2 fs2 fs2 e r1 = (Some p, r1)" using assms(5) by (simp add: cr_get_def)
  then have "((\<lambda>x. cr_get fs2 fs2 fs2 e (snd x)) ^^ k) (Some p, r1) = (Some p, r1)" by (induction k) simp_all
  then show ?thesis using r1 by simp
qed

text \<open>A reloaded keypair has no staple, whatever the stapler installed on the one before.\<close>

lemma reload_loses_staple:
  assumes "cr_reload r" "cr_cache r (fst e) = Some l" "fs_mtime fs (fst e) \<noteq> ld_certMtime l" "fs_load fs e = Some c" "cr_get fs fs fs e r = (Some p, r')"
  shows "cr_staple r' p = None"
  using assms by (auto simp: cr_get_def Let_def)

section \<open>Client certificates and staples\<close>

text \<open>A listener with static certificates that requires client certificates has roots to verify them with.\<close>

lemma mtls_has_roots:
  assumes "ServerTLSConfigWithCerts acme suites loadCAPool fs content certificates reload cfg = Some (tc, certs, Some r)"
    and "tls_ClientAuth cfg = ''require_and_verify''"
  shows "ts_ClientAuth tc = RequireAndVerifyClientCert \<and> ts_ClientCAs tc = loadCAPool (tls_ClientCAFile cfg) \<and> ts_ClientCAs tc \<noteq> None"
  using assms by (auto simp: ServerTLSConfigWithCerts_def static_TLS_def Let_def split: prod.splits option.splits if_splits)

text \<open>A keypair is loaded when it can be read, whatever is cached.\<close>

lemma load_all_total: "(\<forall>e \<in> set es. fs_load fs e \<noteq> None) \<Longrightarrow> \<exists>ps r'. load_all fs es r = (Some ps, r') \<and> length ps = length es"
proof (induction es arbitrary: r)
  case (Cons e es)
  have "fst (cr_get fs fs fs e r) \<noteq> None"
    using Cons.prems by (auto simp: cr_get_def Let_def split: option.splits)
  then obtain p r1 where g: "cr_get fs fs fs e r = (Some p, r1)" by (cases "cr_get fs fs fs e r") auto
  obtain ps r2 where l: "load_all fs es r1 = (Some ps, r2)" "length ps = length es" using Cons by fastforce
  show ?case by (simp add: g l)
qed simp

lemma cipherSuiteIDs_total: "set names \<subseteq> dom suites \<Longrightarrow> \<exists>ids. cipherSuiteIDs suites names = Some ids"
  by (induction names) (auto split: option.splits)

text \<open>
  A section that passed the validation starts a listener when its files can be read: every name of a
  cipher suite that the validation admits is one the listener knows, and the value of
  \<open>client_auth\<close> one it handles.  Only the presence of the primary pair is not validated here.
\<close>

lemma validated_TLS_starts:
  assumes "validateTLS url cfg = None" "\<not> acm_Enabled (tls_ACME cfg)" "tls_CertFile cfg \<noteq> []" "tls_KeyFile cfg \<noteq> []"
    and "list_all (\<lambda>c. fst c \<noteq> [] \<and> snd c \<noteq> []) certificates"
    and "\<forall>e \<in> set ((tls_CertFile cfg, tls_KeyFile cfg) # certificates). fs_load fs e \<noteq> None"
    and "set knownCipherSuites \<subseteq> dom suites" "loadCAPool (tls_ClientCAFile cfg) \<noteq> None"
  shows "\<exists>tc certs r. ServerTLSConfigWithCerts acme suites loadCAPool fs content certificates reload cfg = Some (tc, certs, Some r)
    \<and> length certs = Suc (length certificates)"
proof -
  let ?r = "newCertResolver ((tls_CertFile cfg, tls_KeyFile cfg) # certificates) reload content"
  have v: "tls_ClientAuth cfg \<in> set validClientAuth" "set (tls_CipherSuites cfg) \<subseteq> set knownCipherSuites"
    "\<not> (tls_ClientAuth cfg = ''require_and_verify'' \<and> tls_ClientCAFile cfg = [])"
    using assms(1) by (auto simp: validateTLS_def each_const)
  obtain ids where i: "cipherSuiteIDs suites (tls_CipherSuites cfg) = Some ids"
    using cipherSuiteIDs_total [of "tls_CipherSuites cfg" suites] v(2) assms(7) by blast
  obtain ps r' where l: "load_all fs (cr_entries ?r) ?r = (Some ps, r')" "length ps = Suc (length certificates)"
    using load_all_total [of "cr_entries ?r" fs ?r] assms(6) by (auto simp: newCertResolver_def)
  obtain pool where p: "loadCAPool (tls_ClientCAFile cfg) = Some pool" using assms(8) by blast
  have "\<not> list_ex (\<lambda>c. fst c = [] \<or> snd c = []) certificates" using assms(5) by (auto simp: list_ex_iff list_all_iff)
  then show ?thesis
    using assms(2-4) v(1,3) l i p by (auto simp: ServerTLSConfigWithCerts_def static_TLS_def validClientAuth_def Let_def)
qed

lemma RefreshOnce_other: "p \<notin> set ps \<Longrightarrow> cr_staple (snd (RefreshOnce fetch ps r)) p = cr_staple r p"
proof (induction ps arbitrary: r)
  case (Cons q ps)
  obtain ok r1 where t: "refreshTarget (fetch q) q r = (ok, r1)" by fastforce
  then have "cr_staple r1 p = cr_staple r p" using Cons.prems by (auto simp: refreshTarget_def split: option.splits if_splits)
  then show ?case using Cons by (simp add: t split: prod.splits) (metis snd_conv)
qed simp

text \<open>
  A failing responder does not keep the others from being stapled, and only a good response is installed.
\<close>

lemma RefreshOnce_each:
  "distinct ps \<Longrightarrow> p \<in> set ps \<Longrightarrow> cr_staple (snd (RefreshOnce fetch ps r)) p =
    (case fetch p of Some resp \<Rightarrow> if oc_good resp then Some (oc_der resp) else cr_staple r p | None \<Rightarrow> cr_staple r p)"
proof (induction ps arbitrary: r)
  case (Cons q ps)
  obtain ok r1 where t: "refreshTarget (fetch q) q r = (ok, r1)" by fastforce
  have s: "cr_staple (snd (RefreshOnce fetch (q # ps) r)) = cr_staple (snd (RefreshOnce fetch ps r1))" by (simp add: t split: prod.splits)
  show ?case
  proof (cases "p = q")
    case True
    then show ?thesis using Cons.prems t RefreshOnce_other[of q ps fetch r1] unfolding s by (auto simp: refreshTarget_def split: option.splits if_splits)
  next
    case False
    then have "cr_staple r1 p = cr_staple r p" using t by (auto simp: refreshTarget_def split: option.splits if_splits)
    then show ?thesis using False Cons unfolding s by (simp split: option.splits)
  qed
qed simp

text \<open>A staple is fetched again in the first half of what is left of it, unless that is under the minimum.\<close>

lemma nextRefresh_bounds:
  assumes "oc_NextUpdate resp = Some nu" "time_Sub nu now > 0"
  shows "refresh_floor m \<le> nextRefresh m now (Some resp) \<and>
    (refresh_floor m \<le> time_Sub nu now sdiv 2 \<longrightarrow> 2 * nextRefresh m now (Some resp) \<le> time_Sub nu now)"
  using assms by (auto simp: nextRefresh_def Let_def signed_divide_int_def)

section \<open>Examples\<close>

definition demo_files :: "int \<Rightarrow> string \<Rightarrow> string files" where
  "demo_files t c = \<lparr>fs_mtime = (\<lambda>_. t), fs_load = (\<lambda>_. Some c)\<rparr>"

text \<open>A listener with two keypairs whose files are watched: the second is replaced by one for another domain.\<close>

definition sni_cfg :: tlsConfig where
  "sni_cfg = \<lparr>tls_Enabled = True, tls_CertFile = ''a.pem'', tls_KeyFile = ''a.key'', tls_MinVersion = [], tls_CipherSuites = [],
     tls_ClientAuth = [], tls_ClientCAFile = [], tls_ACME = \<lparr>acm_Enabled = False, acm_Domains = [], acm_CacheDir = [],
     acm_DirectoryURL = [], acm_HTTPChallengePort = 0\<rparr>\<rparr>"

definition two_files :: "int \<Rightarrow> string \<Rightarrow> string files" where
  "two_files t c = \<lparr>fs_mtime = (\<lambda>_. t), fs_load = (\<lambda>e. if fst e = ''a.pem'' then Some ''a.org'' else Some c)\<rparr>"

theorem sni_selection_witness:
  "\<exists>tc certs r0 p r'. ServerTLSConfigWithCerts (\<lambda>_. None) Map.empty (\<lambda>_. None) (two_files 1 ''b.org'') (\<lambda>_. []) [(''b.pem'', ''b.key'')] True sni_cfg =
       Some (tc, certs, Some r0) \<and>
     getCertificate (\<lambda>c. Some ([c], [])) (two_files 2 ''*.c.org'') ''www.c.org'' r0 = (Some p, r') \<and> cr_content r' p = ''*.c.org''"
proof -
  let ?leaf = "\<lambda>c. Some ([c], [])" and ?e = "(''a.pem'', ''a.key'')" and ?f = "(''b.pem'', ''b.key'')" and ?fs = "two_files 2 ''*.c.org''"
  let ?start = "ServerTLSConfigWithCerts (\<lambda>_. None) Map.empty (\<lambda>_. None) (two_files 1 ''b.org'') (\<lambda>_. []) [?f] True sni_cfg"
  have "\<exists>tc certs r0. ?start = Some (tc, certs, Some r0) \<and> cr_reload r0 \<and>
      cr_cache r0 = [''a.pem'' \<mapsto> \<lparr>ld_cert = 0, ld_certMtime = 1, ld_keyMtime = 1\<rparr>, ''b.pem'' \<mapsto> \<lparr>ld_cert = 1, ld_certMtime = 1, ld_keyMtime = 1\<rparr>]"
    by (simp add: ServerTLSConfigWithCerts_def static_TLS_def sni_cfg_def newCertResolver_def cr_get_def two_files_def Let_def)
  then obtain tc certs r0 where r0: "?start = Some (tc, certs, Some r0)" "cr_reload r0"
    "cr_cache r0 = [''a.pem'' \<mapsto> \<lparr>ld_cert = 0, ld_certMtime = 1, ld_keyMtime = 1\<rparr>, ''b.pem'' \<mapsto> \<lparr>ld_cert = 1, ld_certMtime = 1, ld_keyMtime = 1\<rparr>]" by blast
  have sv: "serving ?fs r0 ?e = Some ''a.org''" "serving ?fs r0 ?f = Some ''*.c.org''"
    by (simp_all add: serving_def watched_change_def r0(2,3) two_files_def)
  have n: "norm_name ''www.c.org'' = ''www.c.org''" "norm_name ''a.org'' = ''a.org''" "norm_name ''*.c.org'' = ''*.c.org''"
    by (simp_all add: norm_name_def TrimSuffix_def HasSuffix_def HasPrefix_def ToLower_def lower_char_def Let_def)
  have "covers ''*.c.org'' ''www.c.org''" unfolding covers_def by (rule disjI2, rule exI[of _ "''www''"], rule exI[of _ "''c.org''"]) simp
  then have "\<not> name_covered ?leaf ''www.c.org'' (serving ?fs r0 ?e)" "name_covered ?leaf ''www.c.org'' (serving ?fs r0 ?f)"
    by (simp_all add: name_covered_def leafDNSNames_def sv n) (simp add: covers_def)
  then have ch: "?f = (case find (\<lambda>e. name_covered ?leaf ''www.c.org'' (serving ?fs r0 e)) (if ''www.c.org'' = [] then [] else [?e, ?f]) of
      Some e \<Rightarrow> e | None \<Rightarrow> ?e)" by simp
  have c: "tls_CertFile sni_cfg = ''a.pem''" "tls_KeyFile sni_cfg = ''a.key''" by (simp_all add: sni_cfg_def)
  have d: "distinct (tls_CertFile sni_cfg # map fst [?f])" and p: "?e = (tls_CertFile sni_cfg, tls_KeyFile sni_cfg)" by (simp_all add: c)
  have "r0 = fold (\<lambda>(fs', sn') r. snd (getCertificate ?leaf fs' sn' r)) [] r0" by simp
  from sni_selection[OF r0(1) d this p ch] show ?thesis using r0(1) sv(2) by auto
qed

lemma stale_certificate_witness:
  "let r = newCertResolver [(''a.pem'', ''a.key'')] True (\<lambda>_. []);
       (p, r1) = cr_get (demo_files 1 ''old'') (demo_files 1 ''old'') (demo_files 2 ''new'') (''a.pem'', ''a.key'') r
   in map_option (cr_content r1) (fst (((\<lambda>x. cr_get (demo_files 2 ''new'') (demo_files 2 ''new'') (demo_files 2 ''new'') (''a.pem'', ''a.key'') (snd x)) ^^ 5) (p, r1))) =
      Some ''old''"
proof -
  let ?r = "newCertResolver [(''a.pem'', ''a.key'')] True (\<lambda>_. []) :: string certResolver"
  let ?e = "(''a.pem'', ''a.key'')"
  obtain p r1 where g: "cr_get (demo_files 1 ''old'') (demo_files 1 ''old'') (demo_files 2 ''new'') ?e ?r = (Some p, r1)"
    by (simp add: cr_get_def newCertResolver_def demo_files_def)
  from stale_certificate[OF _ _ _ _ _ g, of "''old''" "''new''" 5] show ?thesis
    unfolding Let_def g by (simp add: newCertResolver_def demo_files_def)
qed

end
