(* ===== verification/Metrics.thy ===== *)
theory Metrics
  imports Float64 GoTime GoStrings "HOL-Library.AList"
begin

text \<open>
  \<open>internal/metrics\<close>: sharded counters, the latency histogram, the windows of recent latencies, and label values of the
  text exposition.  The shard a call picks is an argument.
\<close>

section \<open>Sharded counters\<close>

type_synonym int64 = "64 word"
type_synonym shardedCounter = "int64 list"

definition NewShardedCounter :: "int \<Rightarrow> shardedCounter" where
  "NewShardedCounter procs = replicate (nat (if procs < 1 then 1 else procs)) 0"

definition sc_Add :: "nat \<Rightarrow> int64 \<Rightarrow> shardedCounter \<Rightarrow> shardedCounter" where
  "sc_Add rnd delta c = (let idx = rnd mod length c in c[idx := c ! idx + delta])"

definition sc_Load :: "shardedCounter \<Rightarrow> int64" where
  "sc_Load c = fold (\<lambda>n total. total + n) c 0"

section \<open>Recording\<close>

definition latencyBucketBounds :: "f64 list" where
  "latencyBucketBounds = map round64 [5 / 1000, 10 / 1000, 25 / 1000, 50 / 1000, 100 / 1000, 250 / 1000, 500 / 1000, 1, 5 / 2, 5, 10]"

record backendMetrics =
  bm_Requests :: int64
  bm_Errors :: int64
  bm_Latencies :: "duration list"

record metrics =
  mt_ResponseTimes :: "duration list"
  mt_maxResponseTimes :: nat
  mt_histBuckets :: "int64 list"
  mt_histCount :: shardedCounter
  mt_histSumNanos :: shardedCounter
  mt_classes :: "int64 \<times> int64 \<times> int64 \<times> int64"
  mt_BackendRequests :: "(string \<times> backendMetrics) list"
  mt_canaryRequests :: int64
  mt_canaryErrors :: int64

definition NewMetrics :: "int \<Rightarrow> metrics" where
  "NewMetrics procs =
     \<lparr>mt_ResponseTimes = [], mt_maxResponseTimes = 1000, mt_histBuckets = replicate 11 0, mt_histCount = NewShardedCounter procs,
      mt_histSumNanos = NewShardedCounter procs, mt_classes = (0, 0, 0, 0), mt_BackendRequests = [], mt_canaryRequests = 0, mt_canaryErrors = 0\<rparr>"

text \<open>A window: append, and drop the first when there are too many.\<close>

definition push_window :: "nat \<Rightarrow> 'a \<Rightarrow> 'a list \<Rightarrow> 'a list" where
  "push_window maxn x xs = (let ys = xs @ [x] in if length ys > maxn then tl ys else ys)"

fun hist_add :: "f64 list \<Rightarrow> f64 \<Rightarrow> int64 list \<Rightarrow> int64 list" where
  "hist_add (ub # ubs) secs (n # ns) = (if secs \<le> ub then (n + 1) # ns else n # hist_add ubs secs ns)"
| "hist_add _ _ ns = ns"

definition Seconds :: "duration \<Rightarrow> f64" where
  "Seconds d = f64_add (f64_of_int (d sdiv Second)) (f64_div (f64_of_int (d smod Second)) 1000000000)"

definition RecordResponseTime :: "nat \<Rightarrow> nat \<Rightarrow> duration \<Rightarrow> metrics \<Rightarrow> metrics" where
  "RecordResponseTime i j d m =
     m\<lparr>mt_ResponseTimes := push_window (mt_maxResponseTimes m) d (mt_ResponseTimes m),
       mt_histCount := sc_Add i 1 (mt_histCount m), mt_histSumNanos := sc_Add j (word_of_int d) (mt_histSumNanos m),
       mt_histBuckets := hist_add latencyBucketBounds (Seconds d) (mt_histBuckets m)\<rparr>"

definition IncrStatusClass :: "int \<Rightarrow> metrics \<Rightarrow> metrics" where
  "IncrStatusClass code m =
     (let (c2, c3, c4, c5) = mt_classes m in
      m\<lparr>mt_classes := (if 200 \<le> code \<and> code < 300 then (c2 + 1, c3, c4, c5) else if 300 \<le> code \<and> code < 400 then (c2, c3 + 1, c4, c5)
        else if 400 \<le> code \<and> code < 500 then (c2, c3, c4 + 1, c5) else if 500 \<le> code \<and> code < 600 then (c2, c3, c4, c5 + 1)
        else (c2, c3, c4, c5))\<rparr>)"

definition RecordBackendRequest :: "string \<Rightarrow> metrics \<Rightarrow> metrics" where
  "RecordBackendRequest url m =
     (let bm = (case map_of (mt_BackendRequests m) url of Some b \<Rightarrow> b | None \<Rightarrow> \<lparr>bm_Requests = 0, bm_Errors = 0, bm_Latencies = []\<rparr>)
      in m\<lparr>mt_BackendRequests := AList.update url (bm\<lparr>bm_Requests := bm_Requests bm + 1\<rparr>) (mt_BackendRequests m)\<rparr>)"

definition RecordBackendError :: "string \<Rightarrow> metrics \<Rightarrow> metrics" where
  "RecordBackendError url m =
     (case map_of (mt_BackendRequests m) url of
        None \<Rightarrow> m
      | Some bm \<Rightarrow> m\<lparr>mt_BackendRequests := AList.update url (bm\<lparr>bm_Errors := bm_Errors bm + 1\<rparr>) (mt_BackendRequests m)\<rparr>)"

definition RecordBackendLatency :: "string \<Rightarrow> duration \<Rightarrow> metrics \<Rightarrow> metrics" where
  "RecordBackendLatency url d m =
     (case map_of (mt_BackendRequests m) url of
        None \<Rightarrow> m
      | Some bm \<Rightarrow> m\<lparr>mt_BackendRequests := AList.update url (bm\<lparr>bm_Latencies := push_window 100 d (bm_Latencies bm)\<rparr>) (mt_BackendRequests m)\<rparr>)"

definition CanarySnapshot :: "metrics \<Rightarrow> (int64 \<times> int64) \<times> metrics" where
  "CanarySnapshot m = ((mt_canaryRequests m, mt_canaryErrors m), m\<lparr>mt_canaryRequests := 0, mt_canaryErrors := 0\<rparr>)"

definition GetAvgResponseTime :: "metrics \<Rightarrow> duration" where
  "GetAvgResponseTime m =
     (if mt_ResponseTimes m = [] then 0
      else fold (\<lambda>rt total. wrap64 (total + rt)) (mt_ResponseTimes m) 0 sdiv int (length (mt_ResponseTimes m)))"

section \<open>Exposition\<close>

text \<open>The cumulative counts of the histogram.\<close>

fun cumulate :: "int64 \<Rightarrow> int64 list \<Rightarrow> int64 list" where
  "cumulate acc [] = []"
| "cumulate acc (n # ns) = (acc + n) # cumulate (acc + n) ns"

definition ReplaceAll :: "char \<Rightarrow> string \<Rightarrow> string \<Rightarrow> string" where
  "ReplaceAll c rep s = concat (map (\<lambda>x. if x = c then rep else [x]) s)"

definition escapeLabelValue :: "string \<Rightarrow> string" where
  "escapeLabelValue v =
     ReplaceAll (CHR 0x0A) [CHR 0x5C, CHR ''n''] (ReplaceAll (CHR 0x22) [CHR 0x5C, CHR 0x22] (ReplaceAll (CHR 0x5C) [CHR 0x5C, CHR 0x5C] v))"

section \<open>Counters lose nothing\<close>

lemma sc_Load_sum: "sc_Load c = sum_list c"
proof -
  have "fold (\<lambda>n total. total + n) c t = t + sum_list c" for t by (induction c arbitrary: t) (simp_all add: add.assoc)
  then show ?thesis by (simp add: sc_Load_def)
qed

lemma sum_list_update64: "i < length c \<Longrightarrow> sum_list (c[i := c ! i + d]) = sum_list c + (d :: int64)"
  by (induction c arbitrary: i) (auto simp: less_Suc_eq_0_disj algebra_simps split: nat.splits)

lemma sc_Add_sum: "c \<noteq> [] \<Longrightarrow> sum_list (sc_Add i d c) = sum_list c + d \<and> sc_Add i d c \<noteq> []"
  by (simp add: sc_Add_def Let_def sum_list_update64)

lemma sc_run: "c \<noteq> [] \<Longrightarrow> sum_list (fold (\<lambda>(i, d). sc_Add i d) ops c) = sum_list c + sum_list (map snd ops)"
proof (induction ops arbitrary: c)
  case (Cons op ops)
  obtain i d where op: "op = (i, d)" by (cases op)
  then show ?case using Cons.IH[of "sc_Add i d c"] sc_Add_sum[OF Cons.prems, of i d] by (simp add: add.assoc)
qed simp

lemma NewShardedCounter_nonempty [simp]: "NewShardedCounter procs \<noteq> []" "sum_list (NewShardedCounter procs) = 0"
  by (simp_all add: NewShardedCounter_def sum_list_replicate)

text \<open>
  Whatever shards the calls pick, a counter holds the sum of what was added, in 64 bits.
\<close>

lemma sharded_counter_exact: "sc_Load (fold (\<lambda>(i, d). sc_Add i d) ops (NewShardedCounter procs)) = sum_list (map snd ops)"
  by (simp add: sc_Load_sum sc_run)

section \<open>The histogram counts what is below each bound\<close>

lemma cumulate_shift: "cumulate (acc + 1) ns = map (\<lambda>c. c + 1) (cumulate acc ns)"
  by (induction ns arbitrary: acc) (simp_all, metis add.assoc add.commute)

lemma cumulate_length [simp]: "length (cumulate acc ns) = length ns"
  by (induction ns arbitrary: acc) simp_all

lemma hist_add_length [simp]: "length (hist_add ubs s ns) = length ns"
  by (induction ubs s ns rule: hist_add.induct) simp_all

lemma hist_add_cumulate:
  "sorted ubs \<Longrightarrow> length ns = length ubs \<Longrightarrow> i < length ubs \<Longrightarrow>
    cumulate acc (hist_add ubs s ns) ! i = cumulate acc ns ! i + (if s \<le> ubs ! i then 1 else 0)"
proof (induction ubs s ns arbitrary: acc i rule: hist_add.induct)
  case (1 ub ubs s n ns)
  show ?case
  proof (cases "s \<le> ub")
    case True
    have "s \<le> (ub # ubs) ! i" using True "1.prems" by (cases i) (auto simp: order_trans)
    moreover have "cumulate acc ((n + 1) # ns) ! i = cumulate acc (n # ns) ! i + 1"
      using cumulate_shift[of "acc + n" ns] "1.prems" by (cases i) (simp_all add: add.assoc)
    ultimately show ?thesis using True by simp
  next
    case False
    then show ?thesis using 1 by (cases i) simp_all
  qed
qed simp_all

lemma hist_run:
  "sorted ubs \<Longrightarrow> length ns = length ubs \<Longrightarrow> i < length ubs \<Longrightarrow>
    cumulate 0 (fold (hist_add ubs) ss ns) ! i = cumulate 0 ns ! i + of_nat (length (filter (\<lambda>s. s \<le> ubs ! i) ss))"
proof (induction ss arbitrary: ns)
  case (Cons s ss)
  then show ?case using Cons.IH[of "hist_add ubs s ns"] hist_add_cumulate[of ubs ns i 0 s] by simp
qed simp

lemma cumulate_zero: "i < n \<Longrightarrow> cumulate 0 (replicate n 0) ! i = 0"
  by (induction n arbitrary: i) (auto simp: less_Suc_eq_0_disj)

lemma sorted_round64: "sorted xs \<Longrightarrow> sorted (map round64 xs)"
  by (induction xs) (auto intro: round64_mono)

lemma bounds_sorted: "sorted latencyBucketBounds" "length latencyBucketBounds = 11"
  unfolding latencyBucketBounds_def by (rule sorted_round64) simp_all

definition record_all :: "(nat \<times> nat \<times> duration) list \<Rightarrow> metrics \<Rightarrow> metrics" where
  "record_all obs m = fold (\<lambda>(i, j, d). RecordResponseTime i j d) obs m"

lemma record_all_sel:
  "mt_histBuckets (record_all obs m) = fold (hist_add latencyBucketBounds) (map (\<lambda>(i, j, d). Seconds d) obs) (mt_histBuckets m)"
  "mt_histCount (record_all obs m) = fold (\<lambda>(i, d). sc_Add i d) (map (\<lambda>(i, j, d). (i, 1)) obs) (mt_histCount m)"
  "mt_histSumNanos (record_all obs m) = fold (\<lambda>(i, d). sc_Add i d) (map (\<lambda>(i, j, d). (j, word_of_int d)) obs) (mt_histSumNanos m)"
  "mt_maxResponseTimes (record_all obs m) = mt_maxResponseTimes m"
  by (induction obs arbitrary: m) (auto simp: record_all_def RecordResponseTime_def)

text \<open>
  C34. The exposed histogram is exact: after any observations, whatever shards they were counted in, the cumulative count
  of a bucket is the number of observations of at most its bound, the count of the last one is the number of all,
  and the sum is their sum, all in 64 bits.
\<close>

theorem histogram_exact:
  assumes "i < 11" and m_def: "m = record_all obs (NewMetrics procs)"
  shows "cumulate 0 (mt_histBuckets m) ! i = of_nat (length (filter (\<lambda>(_, _, d). Seconds d \<le> latencyBucketBounds ! i) obs)) \<and>
    sc_Load (mt_histCount m) = of_nat (length obs) \<and> sc_Load (mt_histSumNanos m) = word_of_int (sum_list (map (\<lambda>(_, _, d). d) obs))"
proof -
  have "length (filter (\<lambda>s. s \<le> latencyBucketBounds ! i) (map (\<lambda>(_, _, d). Seconds d) obs)) =
      length (filter (\<lambda>(_, _, d). Seconds d \<le> latencyBucketBounds ! i) obs)" by (simp add: filter_map o_def split_def)
  then have "cumulate 0 (mt_histBuckets m) ! i = of_nat (length (filter (\<lambda>(_, _, d). Seconds d \<le> latencyBucketBounds ! i) obs))"
    using hist_run[OF bounds_sorted(1), of "replicate 11 0" i "map (\<lambda>(i, j, d). Seconds d) obs"] assms(1)
    by (simp add: m_def record_all_sel NewMetrics_def bounds_sorted cumulate_zero)
  moreover have "sum_list (map snd (map (\<lambda>(i, j, d). (i, 1 :: int64)) obs)) = of_nat (length obs)" by (induction obs) auto
  moreover have "sum_list (map snd (map (\<lambda>(i, j, d). (j, word_of_int d :: int64)) obs)) = word_of_int (sum_list (map (\<lambda>(_, _, d). d) obs))"
    by (induction obs) auto
  ultimately show ?thesis unfolding m_def record_all_sel NewMetrics_def by (simp add: sharded_counter_exact del: map_map)
qed

theorem histogram_exact_witness:
  "cumulate 0 (mt_histBuckets (record_all [(0, 1, 3 * Second), (5, 0, 2)] (NewMetrics 4))) ! 9 =
     of_nat (length (filter (\<lambda>(_, _, d). Seconds d \<le> latencyBucketBounds ! 9) [(0 :: nat, 1 :: nat, 3 * Second), (5, 0, 2)]))"
  using histogram_exact[of 9 _ "[(0, 1, 3 * Second), (5, 0, 2)]" 4, OF _ refl] by simp

section \<open>Windows keep the latest observations\<close>

lemma push_window_last:
  "xs = drop (length all - k) all \<Longrightarrow> 0 < k \<Longrightarrow> push_window k x xs = drop (length (all @ [x]) - k) (all @ [x])"
  by (cases "length all < k") (auto simp: push_window_def Let_def Suc_diff_le drop_Suc tl_append split: list.splits, metis list.sel(3) tl_drop)

section \<open>Labels\<close>

text \<open>A reader of the exposition format: a label value up to its closing quote.\<close>

fun read_label :: "string \<Rightarrow> (string \<times> string) option" where
  "read_label [] = None"
| "read_label (c # cs) =
     (if c = CHR 0x22 then Some ([], cs)
      else if c = CHR 0x0A then None
      else if c = CHR 0x5C then
        (case cs of
           [] \<Rightarrow> None
         | e # es \<Rightarrow> map_option (\<lambda>(v, rest). ((if e = CHR ''n'' then CHR 0x0A else e) # v, rest)) (read_label es))
      else map_option (\<lambda>(v, rest). (c # v, rest)) (read_label cs))"

lemma escape_Cons:
  "escapeLabelValue (c # v) = (if c = CHR 0x5C then [CHR 0x5C, CHR 0x5C] else if c = CHR 0x22 then [CHR 0x5C, CHR 0x22]
     else if c = CHR 0x0A then [CHR 0x5C, CHR ''n''] else [c]) @ escapeLabelValue v"
  by (simp add: escapeLabelValue_def ReplaceAll_def)

text \<open>
  A label value survives the exposition: whatever bytes the URL of a backend has, a reader of the format gets it
  back from the escaped text and stops at the closing quote.
\<close>

lemma label_roundtrip: "read_label (escapeLabelValue v @ CHR 0x22 # rest) = Some (v, rest)"
proof (induction v)
  case Nil
  then show ?case by (simp add: escapeLabelValue_def ReplaceAll_def)
next
  case (Cons c v)
  then show ?case by (simp add: escape_Cons)
qed

end
