(* ===== verification/TcpProxy.thy ===== *)
theory TcpProxy
  imports Stack HealthCheck
begin

text \<open>
  \<open>internal/tcpproxy/tcpproxy.go\<close>: the layer 4 proxy as a transition relation over its connections.  A step is one
  operation of a handler or of \<open>Stop\<close>; dials and ends of streams are choices of the environment.
\<close>

section \<open>Addresses\<close>

definition defaultPort :: "string \<Rightarrow> string" where
  "defaultPort scheme = (if scheme \<in> {''http'', ''ws''} then ''80'' else if scheme \<in> {''https'', ''wss''} then ''443'' else [])"

text \<open>A URL parsed into scheme, host with port, host name and port.\<close>

definition l4_hostPort :: "(string \<Rightarrow> (string \<times> string \<times> string \<times> string) option) \<Rightarrow> string \<Rightarrow> string option" where
  "l4_hostPort urlParse raw =
     (if raw = [] then None
      else case urlParse raw of
             None \<Rightarrow> Some raw
           | Some (scheme, host, name, port) \<Rightarrow>
               if host = [] then Some raw
               else if port \<noteq> [] then Some host
               else if defaultPort scheme = [] then None else Some (JoinHostPort name (defaultPort scheme)))"

section \<open>Connections\<close>

datatype l4_conn = Client nat | Upstream nat

datatype l4_phase = Absent | Dialling bid | Dialled bid | ClientTracked bid | Copying bid | Finished

record l4 =
  l4_phase :: "nat \<Rightarrow> l4_phase"
  l4_open :: "l4_conn set"
  l4_conns :: "l4_conn set"
  l4_closing :: "l4_conn set"
  l4_closed :: bool
  l4_heap :: lb_heap

definition l4_NewProxy :: "lb_heap \<Rightarrow> l4" where
  "l4_NewProxy s = \<lparr>l4_phase = (\<lambda>_. Absent), l4_open = {}, l4_conns = {}, l4_closing = {}, l4_closed = False, l4_heap = s\<rparr>"

definition l4_go :: "nat \<Rightarrow> l4_phase \<Rightarrow> l4 \<Rightarrow> l4" where
  "l4_go c ph p = p\<lparr>l4_phase := (l4_phase p)(c := ph)\<rparr>"

definition track :: "l4_conn \<Rightarrow> l4 \<Rightarrow> l4" where
  "track x p = (if l4_closed p then p\<lparr>l4_open := l4_open p - {x}\<rparr> else p\<lparr>l4_conns := insert x (l4_conns p)\<rparr>)"

text \<open>The deferred calls of a handler that selected a backend.\<close>

definition l4_leave :: "nat \<Rightarrow> bid \<Rightarrow> l4 \<Rightarrow> l4" where
  "l4_leave c b p = l4_go c Finished (p\<lparr>l4_open := l4_open p - {Client c, Upstream c}, l4_conns := l4_conns p - {Client c, Upstream c},
     l4_heap := DecrConn b (l4_heap p)\<rparr>)"

inductive l4_step :: "lb_heap balancer \<Rightarrow> (string \<Rightarrow> (string \<times> string \<times> string \<times> string) option) \<Rightarrow> l4 \<Rightarrow> l4 \<Rightarrow> bool" for B urlParse where
  refuse: "l4_phase p c = Absent \<Longrightarrow> m_Next B (l4_heap p) = (Inl e, s) \<Longrightarrow>
    l4_step B urlParse p (l4_go c Finished (p\<lparr>l4_heap := s\<rparr>))"
| accept: "l4_phase p c = Absent \<Longrightarrow> m_Next B (l4_heap p) = (Inr b, s) \<Longrightarrow>
    l4_step B urlParse p (l4_go c (Dialling b) (p\<lparr>l4_heap := s, l4_open := insert (Client c) (l4_open p)\<rparr>))"
| no_addr: "l4_phase p c = Dialling b \<Longrightarrow> l4_hostPort urlParse (be_URL (h_be (l4_heap p) b)) = None \<Longrightarrow> l4_step B urlParse p (l4_leave c b p)"
| no_dial: "l4_phase p c = Dialling b \<Longrightarrow> l4_hostPort urlParse (be_URL (h_be (l4_heap p) b)) = Some addr \<Longrightarrow> l4_step B urlParse p (l4_leave c b p)"
| dial: "l4_phase p c = Dialling b \<Longrightarrow> l4_hostPort urlParse (be_URL (h_be (l4_heap p) b)) = Some addr \<Longrightarrow>
    l4_step B urlParse p (l4_go c (Dialled b) (p\<lparr>l4_open := insert (Upstream c) (l4_open p)\<rparr>))"
| track_client: "l4_phase p c = Dialled b \<Longrightarrow> l4_step B urlParse p (l4_go c (ClientTracked b) (track (Client c) p))"
| track_upstream: "l4_phase p c = ClientTracked b \<Longrightarrow> l4_step B urlParse p (l4_go c (Copying b) (track (Upstream c) p))"
| copied: "l4_phase p c = Copying b \<Longrightarrow> l4_step B urlParse p (l4_leave c b p)"
| stop: "\<not> l4_closed p \<Longrightarrow> l4_step B urlParse p (p\<lparr>l4_closed := True, l4_closing := l4_conns p\<rparr>)"
| close_one: "x \<in> l4_closing p \<Longrightarrow> l4_step B urlParse p (p\<lparr>l4_closing := l4_closing p - {x}, l4_open := l4_open p - {x}\<rparr>)"

inductive l4_reaches :: "lb_heap balancer \<Rightarrow> (string \<Rightarrow> (string \<times> string \<times> string \<times> string) option) \<Rightarrow> l4 \<Rightarrow> l4 \<Rightarrow> bool" for B urlParse p0 where
  start: "l4_reaches B urlParse p0 p0"
| more: "l4_reaches B urlParse p0 p \<Longrightarrow> l4_step B urlParse p p' \<Longrightarrow> l4_reaches B urlParse p0 p'"

section \<open>Slots and shutdown\<close>

fun holds :: "l4_phase \<Rightarrow> bid option" where
  "holds (Dialling b) = Some b"
| "holds (Dialled b) = Some b"
| "holds (ClientTracked b) = Some b"
| "holds (Copying b) = Some b"
| "holds _ = None"

definition holders :: "(nat \<Rightarrow> l4_phase) \<Rightarrow> bid \<Rightarrow> nat set" where
  "holders ph b = {c. holds (ph c) = Some b}"

definition slots :: "(lb_heap \<Rightarrow> bool) \<Rightarrow> lb_heap \<Rightarrow> lb_heap \<Rightarrow> (nat \<Rightarrow> l4_phase) \<Rightarrow> bool" where
  "slots hinv s0 s ph \<longleftrightarrow> hinv s \<and> (\<forall>b. finite (holders ph b) \<and> conns s b = conns s0 b + of_nat (card (holders ph b)))"

lemma holders_upd: "holders (ph(c := v)) b = (if holds v = Some b then insert c (holders ph b) else holders ph b - {c})"
  by (auto simp: holders_def)

lemma slots_same: "slots hinv s0 s ph \<Longrightarrow> holds v = holds (ph c) \<Longrightarrow> hinv s' \<Longrightarrow> conns s' = conns s \<Longrightarrow> slots hinv s0 s' (ph(c := v))"
proof -
  assume a: "slots hinv s0 s ph" "holds v = holds (ph c)" "hinv s'" "conns s' = conns s"
  have "holders (ph(c := v)) b = holders ph b" for b using a(2) by (auto simp: holders_def)
  then show ?thesis using a by (simp add: slots_def)
qed

lemma slots_take:
  assumes "slots hinv s0 s ph" "holds (ph c) = None" "holds v = Some b" "hinv s'" "conns s' = (conns s)(b := conns s b + 1)"
  shows "slots hinv s0 s' (ph(c := v))"
proof -
  have "c \<notin> holders ph x" for x using assms(2) by (simp add: holders_def)
  then show ?thesis using assms by (simp add: slots_def holders_upd)
qed

lemma slots_release:
  assumes "slots hinv s0 s ph" "holds (ph c) = Some b" "holds v = None" "hinv s'" "conns s' = (conns s)(b := conns s b - 1)"
  shows "slots hinv s0 s' (ph(c := v))"
proof -
  have f: "finite (holders ph x)" "conns s x = conns s0 x + of_nat (card (holders ph x))" for x using assms(1) by (auto simp: slots_def)
  have c: "c \<in> holders ph x \<longleftrightarrow> x = b" for x using assms(2) by (auto simp: holders_def)
  have "of_nat (card (holders ph b)) = (of_nat (card (holders ph b - {c})) + 1 :: int32)"
    using card.remove[OF f(1)[of b], of c] c by simp
  then show ?thesis using assms(3-5) f c by (simp add: slots_def holders_upd)
qed

context balancer_contract
begin

lemma l4_DecrConn: "hinv s \<Longrightarrow> hinv (DecrConn b s)"
  using inv_frame[of s "DecrConn b s"] inv_wf[of s] by (simp add: DecrConn_wf config_frame_DecrConn)

lemma l4_step_slots:
  assumes "l4_step B urlParse p p'" "slots hinv s0 (l4_heap p) (l4_phase p)"
  shows "slots hinv s0 (l4_heap p') (l4_phase p')"
  using assms
proof (cases rule: l4_step.cases)
  case (refuse c e s)
  have "picks_ok hinv (l4_heap p) (set (m_All B (l4_heap p))) (Inl e, s)"
    using Next_ok[of "l4_heap p"] assms(2) refuse by (simp add: slots_def)
  then show ?thesis using slots_same[OF assms(2), of Finished c s] refuse by (simp add: l4_go_def picks_ok_def)
next
  case (accept c b s)
  have "picks_ok hinv (l4_heap p) (set (m_All B (l4_heap p))) (Inr b, s)"
    using Next_ok[of "l4_heap p"] assms(2) accept by (simp add: slots_def)
  then show ?thesis using slots_take[OF assms(2), of c "Dialling b" b s] accept by (simp add: l4_go_def picks_ok_def)
qed (use assms(2) slots_release[OF assms(2), where s' = "DecrConn _ (l4_heap p)"] slots_same[OF assms(2), where s' = "l4_heap p"] l4_DecrConn
      in \<open>auto simp: l4_leave_def l4_go_def track_def slots_def[of hinv s0 "l4_heap p" "l4_phase p"] frame_simps\<close>)

end

text \<open>An open connection that \<open>Stop\<close> will close, or has been told to.\<close>

definition watched :: "l4 \<Rightarrow> l4_conn \<Rightarrow> bool" where
  "watched p x \<longleftrightarrow> (x \<in> l4_open p \<longrightarrow> (if l4_closed p then x \<in> l4_closing p else x \<in> l4_conns p))"

definition sockets :: "l4 \<Rightarrow> bool" where
  "sockets p \<longleftrightarrow>
     (\<forall>c b. l4_phase p c = ClientTracked b \<longrightarrow> watched p (Client c)) \<and>
     (\<forall>c b. l4_phase p c = Copying b \<longrightarrow> watched p (Client c) \<and> watched p (Upstream c)) \<and>
     (\<forall>c. l4_phase p c \<in> {Absent, Finished} \<longrightarrow> Client c \<notin> l4_open p \<and> Upstream c \<notin> l4_open p)"

lemma l4_step_sockets: "l4_step B urlParse p p' \<Longrightarrow> sockets p \<Longrightarrow> sockets p'"
  by (cases rule: l4_step.cases, assumption)
    (auto simp: sockets_def watched_def l4_leave_def l4_go_def track_def split: if_splits)

lemma l4_reaches_inv:
  assumes "l4_reaches B urlParse (l4_NewProxy s0) p" "balancer_contract B hinv" "hinv s0"
  shows "slots hinv s0 (l4_heap p) (l4_phase p) \<and> sockets p"
  using assms(1)
proof (induction)
  case start
  then show ?case using assms(3) by (simp add: slots_def holders_def l4_NewProxy_def sockets_def)
next
  case (more p p')
  then show ?case using balancer_contract.l4_step_slots[OF assms(2)] l4_step_sockets by blast
qed

text \<open>
  C13. The layer 4 proxy leaks nothing and can be stopped: over every balancer the configuration can build and however its
  handlers and \<open>Stop\<close> are interleaved, a backend has one connection counted for each handler that selected it and is
  not finished; once \<open>Stop\<close> has closed what it saw, no handler copies between open connections, so that
  all of them end, and a finished handler leaves no connection open.
\<close>

theorem l4_drains:
  assumes "B = fst (setupBalancer mexp a lb backends h0)" "stack_inv a lb s0" "l4_reaches B urlParse (l4_NewProxy s0) p"
  shows "conns (l4_heap p) b = conns s0 b + of_nat (card (holders (l4_phase p) b)) \<and>
    (l4_closed p \<and> l4_closing p = {} \<longrightarrow> (\<forall>c b. l4_phase p c = Copying b \<longrightarrow> Client c \<notin> l4_open p \<and> Upstream c \<notin> l4_open p)) \<and>
    (\<forall>c. l4_phase p c = Finished \<longrightarrow> Client c \<notin> l4_open p \<and> Upstream c \<notin> l4_open p)"
proof -
  have bc: "balancer_contract B (stack_inv a lb)"
    unfolding assms(1) setupBalancer_fst by (rule compose_contract[OF base_of_passive])
  show ?thesis using l4_reaches_inv[OF assms(3) bc assms(2)] by (auto simp: slots_def sockets_def watched_def)
qed

theorem l4_drains_witness:
  "let B = fst (setupBalancer id 0 demo_lb [duo_cfg 0, duo_cfg 1] duo); p = (l4_NewProxy duo)\<lparr>l4_closed := True, l4_closing := {}\<rparr>
   in l4_reaches B (\<lambda>_. None) (l4_NewProxy duo) p \<and> conns (l4_heap p) 1 = conns duo 1 + of_nat (card (holders (l4_phase p) 1))"
proof -
  let ?B = "fst (setupBalancer id 0 demo_lb [duo_cfg 0, duo_cfg 1] duo)"
  let ?p = "(l4_NewProxy duo)\<lparr>l4_closed := True, l4_closing := {}\<rparr>"
  have "l4_step ?B (\<lambda>_. None) (l4_NewProxy duo) ?p" using l4_step.stop[of "l4_NewProxy duo" ?B "\<lambda>_. None"] by (simp add: l4_NewProxy_def)
  then have r: "l4_reaches ?B (\<lambda>_. None) (l4_NewProxy duo) ?p" by (rule l4_reaches.more[OF l4_reaches.start])
  have "stack_inv 0 demo_lb duo" using duo_wf by (simp add: stack_inv_def demo_lb_def)
  from l4_drains[OF refl this r, of 1] show ?thesis using r unfolding Let_def by blast
qed

end
