(* ===== verification/Observe.thy ===== *)
theory Observe
  imports Gzip GoTime "HOL-Library.Word"
begin

text \<open>
  \<open>internal/middleware/hardening.go\<close> and \<open>observability.go\<close>: recovery from panics, the limit on bodies, request
  identifiers and the access log.  A handler returns the calls it made on its response writer, the panic it
  ended with, if any, and the state behind it.  A request comes with its body, which is what can be
  read and whether reading ends in an error, and with the identifier in its context.
\<close>

record ctx =
  cx_r :: request
  cx_Body :: "(string \<times> bool) option"
  cx_RequestID :: "string option"

datatype panic = ErrAbortHandler | OtherPanic

type_synonym 's call_handler = "ctx \<Rightarrow> 's \<Rightarrow> writer_call list \<times> panic option \<times> 's"

section \<open>Hardening\<close>

definition Recover :: "'s call_handler \<Rightarrow> 's call_handler" where
  "Recover h c s =
     (case h c s of
        (calls, Some OtherPanic, s1) \<Rightarrow> (calls @ [CWriteHeader 500], None, s1)
      | res \<Rightarrow> res)"

text \<open>\<open>http.Error\<close> as the calls it makes.\<close>

definition Error_calls :: "string \<Rightarrow> int \<Rightarrow> writer_call list" where
  "Error_calls msg code =
     [CHeader (hdr_Del ''Content-Length''), CHeader (hdr_Set ''Content-Type'' ''text/plain; charset=utf-8''),
      CHeader (hdr_Set ''X-Content-Type-Options'' ''nosniff''), CWriteHeader code, CWrite (msg @ [CHR 0x0A])]"

definition MaxBytesReader :: "string \<times> bool \<Rightarrow> int \<Rightarrow> string \<times> bool" where
  "MaxBytesReader body limit =
     (if int (length (fst body)) > limit then (take (nat limit) (fst body), True) else body)"

definition MaxBytes :: "int \<Rightarrow> 's call_handler \<Rightarrow> 's call_handler" where
  "MaxBytes limit h c s =
     (case cx_Body c of
        Some body \<Rightarrow>
          if limit > 0
          then if r_ContentLength (cx_r c) > limit then (Error_calls ''Request Entity Too Large'' 413, None, s)
               else h (c\<lparr>cx_Body := Some (MaxBytesReader body limit)\<rparr>) s
          else h c s
      | None \<Rightarrow> h c s)"

section \<open>Request identifiers\<close>

definition DefaultRequestIDHeader :: string where
  "DefaultRequestIDHeader = ''X-Request-ID''"

definition RequestIDFromContext :: "ctx \<Rightarrow> string" where
  "RequestIDFromContext c = (case cx_RequestID c of Some i \<Rightarrow> i | None \<Rightarrow> [])"

definition hex_digit :: "nat \<Rightarrow> char" where
  "hex_digit n = char_of (if n < 10 then 48 + n else 87 + n)"

definition hex_EncodeToString :: "string \<Rightarrow> string" where
  "hex_EncodeToString bs = concat (map (\<lambda>b. [hex_digit (of_char b div 16), hex_digit (of_char b mod 16)]) bs)"

text \<open>The random bytes, none when the source fails, and the formatted time.\<close>

definition newRequestID :: "string option \<Rightarrow> string \<Rightarrow> string" where
  "newRequestID random now =
     (case random of None \<Rightarrow> ''ffffffff'' @ hex_EncodeToString now | Some bs \<Rightarrow> hex_EncodeToString bs)"

definition RequestID :: "string \<Rightarrow> string \<Rightarrow> 's call_handler \<Rightarrow> 's call_handler" where
  "RequestID name fresh h c s =
     (let headerName = (if name = [] then DefaultRequestIDHeader else name);
          given = hdr_Get (r_Header (cx_r c)) headerName;
          rid = (if given = [] then fresh else given);
          r = (if given = [] then (cx_r c)\<lparr>r_Header := hdr_Set headerName rid (r_Header (cx_r c))\<rparr> else cx_r c);
          (calls, p, s1) = h (c\<lparr>cx_r := r, cx_RequestID := Some rid\<rparr>) s
      in (CHeader (hdr_Set headerName rid) # calls, p, s1))"

section \<open>The access log\<close>

record captureResponseWriter =
  crw_status :: int
  crw_bytes :: int
  crw_wroteHeader :: bool

definition crw_WriteHeader :: "int \<Rightarrow> captureResponseWriter \<Rightarrow> captureResponseWriter" where
  "crw_WriteHeader code c = (if crw_wroteHeader c then c else c\<lparr>crw_status := code, crw_wroteHeader := True\<rparr>)"

text \<open>The count is the one the writer behind it returns.\<close>

definition crw_Write :: "int \<Rightarrow> captureResponseWriter \<Rightarrow> captureResponseWriter" where
  "crw_Write n c = c\<lparr>crw_wroteHeader := True, crw_bytes := crw_bytes c + n\<rparr>"

text \<open>Every call is recorded and forwarded to the writer.\<close>

fun crw_call :: "writer_call \<Rightarrow> captureResponseWriter \<times> writer \<Rightarrow> captureResponseWriter \<times> writer" where
  "crw_call (CWriteHeader code) (c, w) = (crw_WriteHeader code c, WriteHeader code w)"
| "crw_call (CWrite bs) (c, w) = (crw_Write (Write_n bs w) c, Write bs w)"
| "crw_call CFlush (c, w) = (c, w_Flush w)"
| "crw_call (CHeader f) (c, w) = (c, w\<lparr>w_Header := f (w_Header w)\<rparr>)"

record access_line =
  al_method :: string
  al_path :: string
  al_status :: int
  al_duration_ms :: int
  al_bytes :: int
  al_client_ip :: string
  al_request_id :: string

record access_log =
  lg_counter :: "64 word"
  lg_lines :: "access_line list"

definition sampled :: "int \<Rightarrow> access_log \<Rightarrow> bool \<times> access_log" where
  "sampled sampleN l =
     (if sampleN > 1
      then let n = lg_counter l + 1 in ((n - 1) mod word_of_int sampleN = 0, l\<lparr>lg_counter := n\<rparr>)
      else (True, l))"

text \<open>
  The clock readings before and after the request and the writer the layer wraps, of which only what has been sent matters
  to the line; a panic passes through.
\<close>

definition AccessLog :: "int \<Rightarrow> time \<times> time \<Rightarrow> writer \<Rightarrow> 's call_handler \<Rightarrow> ('s \<times> access_log) call_handler" where
  "AccessLog sampleN clock w h c sl =
     (case h c (fst sl) of
        (calls, Some p, s1) \<Rightarrow> (calls, Some p, s1, snd sl)
      | (calls, None, s1) \<Rightarrow>
          let cw = fst (fold crw_call calls (\<lparr>crw_status = 200, crw_bytes = 0, crw_wroteHeader = False\<rparr>, w));
              (log, l1) = sampled sampleN (snd sl);
              line = \<lparr>al_method = r_Method (cx_r c), al_path = r_Path (cx_r c), al_status = crw_status cw,
                      al_duration_ms = (snd clock - fst clock) div Millisecond, al_bytes = crw_bytes cw,
                      al_client_ip = r_RemoteAddr (cx_r c), al_request_id = RequestIDFromContext c\<rparr>
          in (calls, None, s1, if log then l1\<lparr>lg_lines := lg_lines l1 @ [line]\<rparr> else l1))"

text \<open>The outer layers of the server, as \<open>setupHTTPServer\<close> nests them.\<close>

definition outer_layers :: "string \<Rightarrow> time \<times> time \<Rightarrow> writer \<Rightarrow> 's call_handler \<Rightarrow> ('s \<times> access_log) call_handler" where
  "outer_layers fresh clock w h = Recover (RequestID DefaultRequestIDHeader fresh (AccessLog 1 clock w h))"

section \<open>What the layers do\<close>

fun informational :: "writer_call \<Rightarrow> bool" where
  "informational (CWriteHeader code) \<longleftrightarrow> 100 \<le> code \<and> code \<le> 199 \<and> code \<noteq> 101"
| "informational _ \<longleftrightarrow> False"

fun flush_first :: "writer_call list \<Rightarrow> bool" where
  "flush_first (CFlush # cs) \<longleftrightarrow> True"
| "flush_first (CHeader f # cs) \<longleftrightarrow> flush_first cs"
| "flush_first _ \<longleftrightarrow> False"

definition accepted_body :: "writer \<Rightarrow> string" where
  "accepted_body w = (if bodyAllowedForStatus (seen_status w) then w_body w else [])"

lemma crw_forwards: "snd (fold crw_call calls (c, w)) = fold plain_call calls w"
proof (induction calls arbitrary: c w)
  case (Cons x calls)
  then show ?case by (cases x) simp_all
qed simp

lemma capture_after:
  assumes "crw_wroteHeader c" "w_sent w = Some (crw_status c, hd')" "crw_bytes c = int (length (accepted_body w))"
  shows "crw_status (fst (fold crw_call calls (c, w))) = seen_status (fold plain_call calls w)
    \<and> crw_bytes (fst (fold crw_call calls (c, w))) = int (length (accepted_body (fold plain_call calls w)))"
  using assms
proof (induction calls arbitrary: c w)
  case (Cons x calls)
  obtain c1 w1 where x: "crw_call x (c, w) = (c1, w1)" by fastforce
  have w1: "w1 = plain_call x w" using x by (cases x) auto
  have "crw_wroteHeader c1 \<and> w_sent w1 = Some (crw_status c1, hd') \<and> crw_bytes c1 = int (length (accepted_body w1))"
    using Cons.prems x by (cases x) (auto simp: crw_WriteHeader_def crw_Write_def WriteHeader_def Write_def w_Flush_def
        Write_n_def accepted_body_def seen_status_def Let_def split: if_splits)
  then show ?case using Cons.IH [of c1 w1] by (simp add: x w1)
qed (simp add: seen_status_def)

lemma capture_exact:
  assumes "\<not> crw_wroteHeader c" "crw_status c = 200" "crw_bytes c = 0" "w_sent w = None" "w_body w = []"
    and "\<not> list_ex informational calls" "\<not> flush_first calls"
  shows "crw_status (fst (fold crw_call calls (c, w))) = seen_status (fold plain_call calls w)
    \<and> crw_bytes (fst (fold crw_call calls (c, w))) = int (length (accepted_body (fold plain_call calls w)))"
  using assms
proof (induction calls arbitrary: c w)
  case (Cons x calls)
  show ?case
  proof (cases x)
    case (CWriteHeader code)
    then show ?thesis
      using Cons.prems capture_after [of "crw_WriteHeader code c" "WriteHeader code w" "w_Header w" calls]
      by (auto simp: crw_WriteHeader_def WriteHeader_def accepted_body_def)
  next
    case (CWrite bs)
    then show ?thesis
      using Cons.prems capture_after [of "crw_Write (Write_n bs w) c" "Write bs w" "w_Header w" calls]
      by (auto simp: crw_Write_def Write_n_def Write_def WriteHeader_def accepted_body_def seen_status_def Let_def)
  next
    case CFlush
    then show ?thesis using Cons.prems by simp
  next
    case (CHeader f)
    then show ?thesis using Cons.prems Cons.IH [of c "w\<lparr>w_Header := f (w_Header w)\<rparr>"] by simp
  qed
qed (simp add: seen_status_def accepted_body_def)

lemma same_sent:
  assumes "map_option fst (w_sent w) = map_option fst (w_sent w')" "w_body w = w_body w'"
  shows "seen_status (fold plain_call calls w) = seen_status (fold plain_call calls w') \<and>
    w_body (fold plain_call calls w) = w_body (fold plain_call calls w')"
  using assms
proof (induction calls arbitrary: w w')
  case Nil
  then show ?case by (auto simp: seen_status_def split: option.splits)
next
  case (Cons x calls)
  have "map_option fst (w_sent (plain_call x w)) = map_option fst (w_sent (plain_call x w')) \<and> w_body (plain_call x w) = w_body (plain_call x w')"
    using Cons.prems by (cases x; cases "w_sent w"; cases "w_sent w'") (auto simp: WriteHeader_def Write_def w_Flush_def Let_def)
  then show ?case using Cons.IH[of "plain_call x w" "plain_call x w'"] by simp
qed

text \<open>A header field that no call changes is sent as it was.\<close>

fun keeps_field :: "string \<Rightarrow> writer_call \<Rightarrow> bool" where
  "keeps_field n (CHeader f) \<longleftrightarrow> (\<forall>h. hdr_Get (f h) n = hdr_Get h n)"
| "keeps_field n _ \<longleftrightarrow> True"

lemma field_kept:
  assumes "list_all (keeps_field n) calls" "hdr_Get (w_Header w) n = v" "\<And>code h. w_sent w = Some (code, h) \<Longrightarrow> hdr_Get h n = v"
  shows "hdr_Get (final_header (fold plain_call calls w)) n = v"
  using assms
proof (induction calls arbitrary: w)
  case Nil
  then show ?case by (auto simp: final_header_def split: option.splits)
next
  case (Cons x calls)
  have "hdr_Get (w_Header (plain_call x w)) n = v \<and> (\<forall>code h. w_sent (plain_call x w) = Some (code, h) \<longrightarrow> hdr_Get h n = v)"
    using Cons.prems by (cases x) (auto simp: WriteHeader_def Write_def w_Flush_def Let_def)
  then show ?case using Cons.IH [of "plain_call x w"] Cons.prems(1) by simp
qed

text \<open>
  A 103 before the final answer, or a flush before an error status, leaves a line with a status the
  client did not get.
\<close>

lemma access_log_wrong_status:
  "seen_status (fold plain_call [CWriteHeader 103, CWriteHeader 200] new_writer) = 200"
  "crw_status (fst (fold crw_call [CWriteHeader 103, CWriteHeader 200] (\<lparr>crw_status = 200, crw_bytes = 0, crw_wroteHeader = False\<rparr>, new_writer))) = 103"
  "seen_status (fold plain_call [CFlush, CWriteHeader 500] new_writer) = 200"
  "crw_status (fst (fold crw_call [CFlush, CWriteHeader 500] (\<lparr>crw_status = 200, crw_bytes = 0, crw_wroteHeader = False\<rparr>, new_writer))) = 500"
  by (simp_all add: seen_status_def new_writer_def WriteHeader_def w_Flush_def crw_WriteHeader_def)

text \<open>Of the first \<open>k\<close> requests every \<open>sampleN\<close>-th is logged, starting with the first.\<close>

lemma sampled_nth:
  assumes "lg_counter l = of_nat i" "i < 2 ^ 63" "1 < sampleN" "sampleN < 2 ^ 63"
  shows "fst (sampled sampleN l) \<longleftrightarrow> int i mod sampleN = 0" "lg_counter (snd (sampled sampleN l)) = of_nat (Suc i)"
proof -
  have i: "uint (of_nat i :: 64 word) = int i" using assms(2) by (simp add: uint_nat unat_of_nat)
  have n: "uint (word_of_int sampleN :: 64 word) = sampleN" using assms(3,4) by (simp add: uint_word_of_int)
  have "(of_nat i :: 64 word) mod word_of_int sampleN = 0 \<longleftrightarrow> uint ((of_nat i :: 64 word) mod word_of_int sampleN) = 0"
    by (simp only: word_uint_eq_iff uint_0_eq)
  then have "(of_nat i :: 64 word) mod word_of_int sampleN = 0 \<longleftrightarrow> int i mod sampleN = 0"
    by (simp only: uint_mod_distrib i n)
  then show "fst (sampled sampleN l) \<longleftrightarrow> int i mod sampleN = 0" using assms(1,3) by (simp add: sampled_def Let_def)
  show "lg_counter (snd (sampled sampleN l)) = of_nat (Suc i)" using assms(1,3) by (simp add: sampled_def Let_def add.commute)
qed

text \<open>No handler reads more than the limit, and a longer declared length never reaches it.\<close>

lemma body_limited:
  assumes "limit > 0" "cx_Body c = Some body"
    and "\<And>c' s. (\<forall>b. cx_Body c' = Some b \<longrightarrow> int (length (fst b)) \<le> limit) \<Longrightarrow> h c' s = h' c' s"
  shows "MaxBytes limit h c s = MaxBytes limit h' c s"
  using assms(1,2) assms(3) [of "c\<lparr>cx_Body := Some (MaxBytesReader body limit)\<rparr>" s] by (auto simp: MaxBytes_def MaxBytesReader_def)

lemma body_rejected:
  "limit > 0 \<Longrightarrow> cx_Body c = Some body \<Longrightarrow> limit < r_ContentLength (cx_r c) \<Longrightarrow>
    snd (MaxBytes limit h c s) = (None, s) \<and> seen_status (fold plain_call (fst (MaxBytes limit h c s)) new_writer) = 413"
  by (simp add: MaxBytes_def Error_calls_def seen_status_def new_writer_def WriteHeader_def Write_def Let_def)

lemma hex_length: "length (hex_EncodeToString bs) = 2 * length bs"
  by (induction bs) (simp_all add: hex_EncodeToString_def)

lemma newRequestID_nonempty: "random \<noteq> Some [] \<Longrightarrow> newRequestID random now \<noteq> []"
  using hex_length by (auto simp: newRequestID_def split: option.splits) (metis length_0_conv mult_eq_0_iff zero_neq_numeral)

lemma hdr_Get_Set_same: "hdr_Get (hdr_Set n v h) n = v"
  by (simp add: hdr_Get_def hdr_Values_def hdr_Set_def update_conv')

definition request_id :: "string \<Rightarrow> ctx \<Rightarrow> string" where
  "request_id fresh c =
     (let given = hdr_Get (r_Header (cx_r c)) DefaultRequestIDHeader in if given = [] then fresh else given)"

definition forwarded :: "string \<Rightarrow> ctx \<Rightarrow> ctx" where
  "forwarded fresh c = c
     \<lparr>cx_r := (if hdr_Get (r_Header (cx_r c)) DefaultRequestIDHeader = []
               then (cx_r c)\<lparr>r_Header := hdr_Set DefaultRequestIDHeader fresh (r_Header (cx_r c))\<rparr> else cx_r c),
      cx_RequestID := Some (request_id fresh c)\<rparr>"

lemma RequestID_forwarded:
  "RequestID DefaultRequestIDHeader fresh h c s =
     (case h (forwarded fresh c) s of (calls, p, s1) \<Rightarrow> (CHeader (hdr_Set DefaultRequestIDHeader (request_id fresh c)) # calls, p, s1))"
  by (simp add: RequestID_def forwarded_def request_id_def Let_def DefaultRequestIDHeader_def split: prod.splits)

text \<open>
  C35. A request through the outer layers whose handler does not panic leaves exactly one line in the access log.  The
  line has the identifier the handler found in its context and in the request it forwards, and the response is sent with it,
  if the handler does not change that header.  It has the status the client sees, and its count of bytes is that of the body the
  client receives, provided that the handler
  sends no informational status and does not flush before its status; for a \<open>HEAD\<close> request the count is that of the bytes
  the handler wrote, which the client does not receive.
\<close>

theorem access_line_exact:
  assumes "h (forwarded fresh c) s = (calls, None, s1)" and "\<not> list_ex informational calls" "\<not> flush_first calls"
    and "list_all (keeps_field DefaultRequestIDHeader) calls"
    and "outer_layers fresh clock w h c (s, l) = (out, p, s2, l2)" "w_sent w = None" "w_body w = []"
  shows "p = None \<and> s2 = s1 \<and> (\<exists>line. lg_lines l2 = lg_lines l @ [line]
    \<and> al_status line = seen_status (fold plain_call out w)
    \<and> al_bytes line = int (length (wire_body (if r_Method (cx_r c) = ''HEAD'' then ''GET'' else r_Method (cx_r c)) (fold plain_call out w)))
    \<and> cx_RequestID (forwarded fresh c) = Some (al_request_id line)
    \<and> hdr_Get (r_Header (cx_r (forwarded fresh c))) DefaultRequestIDHeader = al_request_id line
    \<and> hdr_Get (final_header (fold plain_call out w)) DefaultRequestIDHeader = al_request_id line)"
proof -
  let ?w = "plain_call (CHeader (hdr_Set DefaultRequestIDHeader (request_id fresh c))) w"
  let ?c = "\<lparr>crw_status = 200, crw_bytes = 0, crw_wroteHeader = False\<rparr>"
  let ?cw = "fst (fold crw_call calls (?c, w))"
  have out: "out = CHeader (hdr_Set DefaultRequestIDHeader (request_id fresh c)) # calls" "p = None" "s2 = s1"
    and line: "lg_lines l2 = lg_lines l @ [\<lparr>al_method = r_Method (cx_r (forwarded fresh c)), al_path = r_Path (cx_r (forwarded fresh c)),
      al_status = crw_status ?cw, al_duration_ms = (snd clock - fst clock) div Millisecond,
      al_bytes = crw_bytes ?cw, al_client_ip = r_RemoteAddr (cx_r (forwarded fresh c)),
      al_request_id = RequestIDFromContext (forwarded fresh c)\<rparr>]"
    using assms(1,5) by (auto simp: outer_layers_def Recover_def RequestID_forwarded AccessLog_def sampled_def Let_def)
  have rid: "RequestIDFromContext (forwarded fresh c) = request_id fresh c" "cx_RequestID (forwarded fresh c) = Some (request_id fresh c)"
    "hdr_Get (r_Header (cx_r (forwarded fresh c))) DefaultRequestIDHeader = request_id fresh c"
    by (simp_all add: RequestIDFromContext_def forwarded_def request_id_def Let_def hdr_Get_Set_same)
  have cap: "crw_status ?cw = seen_status (fold plain_call calls ?w)" "crw_bytes ?cw = int (length (accepted_body (fold plain_call calls ?w)))"
    using capture_exact [of ?c w calls] assms(2,3,6,7) same_sent [of w ?w calls] by (simp_all add: accepted_body_def)
  have "hdr_Get (final_header (fold plain_call calls ?w)) DefaultRequestIDHeader = request_id fresh c"
    using assms(6) by (intro field_kept[OF assms(4)]) (simp_all add: hdr_Get_Set_same)
  then show ?thesis using out line rid cap by (simp add: wire_body_def accepted_body_def)
qed

definition demo_ctx :: ctx where
  "demo_ctx = \<lparr>cx_r = \<lparr>r_Method = ''GET'', r_Host = ''h'', r_URLHost = [], r_Path = ''/'', r_RawQuery = [], r_RequestURI = ''/'', r_Header = [],
     r_RemoteAddr = ''1.2.3.4:5'', r_ContentLength = 0, r_TLS = False\<rparr>, cx_Body = None, cx_RequestID = None\<rparr>"

theorem access_line_exact_witness:
  "\<exists>out l2 line. outer_layers ''ab'' (0, 5000000) new_writer (\<lambda>c s. ([CWriteHeader 404, CWrite ''gone''], None, s)) demo_ctx ((), \<lparr>lg_counter = 0, lg_lines = []\<rparr>)
     = (out, None, (), l2) \<and> lg_lines l2 = [line] \<and> al_status line = seen_status (fold plain_call out new_writer)
     \<and> al_bytes line = int (length (wire_body ''GET'' (fold plain_call out new_writer)))
     \<and> hdr_Get (final_header (fold plain_call out new_writer)) ''X-Request-ID'' = al_request_id line"
proof -
  let ?h = "\<lambda>c s. ([CWriteHeader 404, CWrite ''gone''], None, s :: unit)"
  obtain out p s2 l2 where o: "outer_layers ''ab'' (0, 5000000) new_writer ?h demo_ctx ((), \<lparr>lg_counter = 0, lg_lines = []\<rparr>) = (out, p, s2, l2)"
    by (metis prod_cases4)
  show ?thesis
    using access_line_exact [of ?h "''ab''" demo_ctx "()" "[CWriteHeader 404, CWrite ''gone'']" "()", OF _ _ _ _ o] o
    by (auto simp: new_writer_def demo_ctx_def DefaultRequestIDHeader_def)
qed

text \<open>A panic is answered with 500 if nothing was sent, and leaves no line in the access log.\<close>

lemma panic_unlogged:
  assumes "h (forwarded fresh c) s = (calls, Some OtherPanic, s1)"
  shows "outer_layers fresh clock w h c (s, l) =
    (CHeader (hdr_Set DefaultRequestIDHeader (request_id fresh c)) # calls @ [CWriteHeader 500], None, s1, l)"
  using assms by (simp add: outer_layers_def Recover_def RequestID_forwarded AccessLog_def)

lemma Recover_status:
  assumes "h c s = (calls, Some OtherPanic, s1)" "w_sent (fold plain_call calls w) = None"
  shows "seen_status (fold plain_call (fst (Recover h c s)) w) = 500"
  using assms by (simp add: Recover_def seen_status_def WriteHeader_def)

end
