(* ===== verification/Spec2Isabelle.thy ===== *)
theory Spec2Isabelle
  imports HealthCache Fairness Stack CircuitWindow RedisSync Limiter Routing Canary NetUtil Discovery HealthCheck Cache
    Access ProxyDemo ConfigDemo Admission Jwt Transforms Reload Admin Gzip Oidc TlsUtil Metrics TcpProxy Observe
begin

text \<open>
  A verification of the reverse proxy and load balancer under \<open>src/\<close>.

  \<^bold>\<open>The program.\<close>  A request enters the HTTP server (\<open>internal/server\<close>), passes the middleware
  (\<open>internal/middleware\<close>: client address, rate limit, access control, cache and others), is matched
  to a balancer group (\<open>internal/routing\<close>), and is forwarded by the proxy (\<open>internal/proxy\<close>) to
  the backend a balancer selects (\<open>internal/balancer\<close>), guarded by a circuit breaker per backend
  (\<open>internal/circuit\<close>).  Health checks (\<open>internal/health\<close>), outlier detection, the breaker and
  service discovery (\<open>internal/discovery\<close>) change which backends are eligible; the canary
  promoter (\<open>internal/canary\<close>) changes a traffic split; rate limits and circuit state can be
  shared between replicas through Redis.

  \<^bold>\<open>Conventions.\<close>  Go pointers are addresses (natural numbers) into explicit heaps; an interface
  is a record of closures, and a wrapper a function from such records to such records.  \<open>int32\<close>
  and \<open>uint32\<close> are words; \<open>int\<close> is \<open>int\<close>, with \<open>wrap64\<close> where a product can leave the range;
  \<open>float64\<close> is a rational with rounding to nearest even (\<open>Float64\<close>).  A clock or a random source
  is the stream of its readings.  Errors and panics are values.  A map a loop ranges over is an
  association list, and the theorems hold for every order of its entries.  Calls of one object
  are steps of a sequence (they hold its lock), except for the healthy-list cache, whose
  interleavings are modelled, and hedged requests, whose schedules are.  No fuel is used: every
  loop is a recursion that terminates, but for the failover loop, a partial function that is
  shown to return.

  \<^bold>\<open>Theories.\<close>
  \<^item> \<open>Prelude\<close>, \<open>GoTime\<close>, \<open>Float64\<close>, \<open>GoStrings\<close>, \<open>Http\<close>: the parts of the language and of its
    library the sources use; monotonicity and error of rounding, the round trip of decimal
    numbers, canonical header names.
  \<^item> \<open>Backend\<close>, \<open>LbHeap\<close> (\<open>balancer.go\<close>): backends, \<open>BaseBalancer\<close>, the heap of all balancer state.
    \<open>HealthCache\<close>: the cached healthy list under every interleaving of its readers and writers.
  \<^item> \<open>Contract\<close>: what the \<open>Balancer\<close> interface promises, as the locales \<open>balancer_contract\<close>,
    \<open>passive_balancer\<close>, \<open>live_balancer\<close> and \<open>live_keyed\<close>.  \<open>Algorithms\<close> (\<open>roundrobin.go\<close>,
    \<open>weighted.go\<close>, \<open>swrr.go\<close>, \<open>weightedrandom.go\<close>, \<open>p2c.go\<close>, \<open>leastconn.go\<close>,
    \<open>weightedleastconn.go\<close>, \<open>ewma.go\<close>, \<open>iphash.go\<close>) and \<open>ConsistentHash\<close> (\<open>consistenthash.go\<close>)
    interpret them.  \<open>Fairness\<close>: which backends each algorithm selects and how often.
  \<^item> \<open>Wrappers\<close> (\<open>wrappers.go\<close>): priority tiers, zones, slow start, outlier detection, each shown
    to keep the contract.  \<open>Stack\<close> (\<open>registry.go\<close>, \<open>setupBalancer\<close> of \<open>server.go\<close>): every stack
    the configuration can ask for meets the contract and makes progress.
  \<^item> \<open>Circuit\<close>, \<open>CircuitWindow\<close> (\<open>breaker.go\<close>): the breaker, its refinement of a three-state
    machine, the limit on probes, what the rolling window counts.  \<open>RedisSync\<close>
    (\<open>redis_sync.go\<close>): sharing open circuits between replicas.
  \<^item> \<open>Limiter\<close> (\<open>limiter.go\<close>, \<open>store.go\<close>, \<open>redis_store.go\<close>): GCRA, the composed rate limiter and
    the shared stores; the rate enforced, the exact burst and retry time, bounded memory, and
    how the stores relate to the local limiter, with the clock of the Redis server apart from the callers'.
  \<^item> \<open>Routing\<close> (\<open>routing.go\<close>), \<open>Canary\<close> (\<open>autopromote.go\<close>), \<open>NetUtil\<close> (\<open>netutil.go\<close>),
    \<open>Discovery\<close> (\<open>discovery.go\<close>, \<open>kubernetes.go\<close>): first-match routing, bounded promotion and
    rollback, client addresses that cannot be spoofed, convergence of the discovered backends
    through the locale \<open>membership\<close>.
  \<^item> \<open>HealthCheck\<close> (\<open>health.go\<close>, \<open>grpc_health_server.go\<close>): probes and their rise and fall thresholds.
    \<open>Cache\<close> (\<open>middleware/cache.go\<close>): the response cache, its bound, and who is served what.
  \<^item> \<open>Handlers\<close>: response writers and handlers; the bytes handed to a writer and those a client receives.  \<open>Access\<close> (\<open>middleware/security.go\<close>,
    \<open>middleware/middleware.go\<close>): security headers, CORS, the access control list, API keys and rate
    limiting, with the exact policy of the list and of the rules.
  \<^item> \<open>Proxy\<close>, \<open>Sticky\<close>, \<open>Failover\<close>, \<open>Hedge\<close> (\<open>proxy.go\<close>): selection and session affinity, retries and
    failover over the breaker and the balancer, hedged requests as schedules of events, and the
    entry point.  The locale \<open>observed_balancer\<close> is what the proxy asks of a balancer; every
    configured stack interprets it.  A response that breaks off makes the reverse proxy of the library
    panic: the panic is part of an exchange, unwinds a sequential request, and in a hedged attempt ends
    the process.  The loops end, no connection slot leaks, and requests
    that must not be applied twice are not replayed.  \<open>ProxyDemo\<close>: a concrete proxy, and how hedging
    locks out a backend whose circuit is half-open.
  \<^item> \<open>Secrets\<close> (\<open>secrets.go\<close>) and \<open>Config\<close> (\<open>config.go\<close>): expansion of environment variables, defaults,
    overrides of the environment and validation.  A loaded configuration is in the ranges stated there;
    the number of attempts is not checked, with a consequence that is shown.  \<open>ConfigDemo\<close>: a
    configuration that loads.
  \<^item> \<open>Admission\<close> (\<open>admission.go\<close>): the limit on requests in flight as a transition relation over
    concurrent requests, its bounds, and the requests its queue counter turns away too early.
    \<open>Jwt\<close> (\<open>security.go\<close>): bearer tokens and the cached key set; what an accepted token has, and that
    the throttle of the key set is bypassed.  \<open>Transforms\<close> (\<open>transforms.go\<close>): header and path edits and
    fault injection.
  \<^item> \<open>Reload\<close> (\<open>reloadConfig\<close>, \<open>applyBackendChanges\<close> of \<open>server.go\<close>): a reload over the loader, the
    balancers, the router, the limiter, the breaker and the proxy.  The locale \<open>topology\<close> extends
    \<open>membership\<close> by what changing weights and members leaves alone; every configured balancer
    interprets it.  The default group converges to the file, the backends of discovery are lost
    for good, and changes of match rules are not seen.  \<open>Admin\<close> (the admin listener of
    \<open>server.go\<close>): every endpoint behind the token, what an unauthorised request can change, how the
    health checker undoes a drain, and weights beyond 31 bits.
  \<^item> \<open>Gzip\<close> (\<open>gzip.go\<close>): the compressing writer over any sequence of calls; the client reads what
    the handler wrote, unless it flushed first or set an encoding.  \<open>Oidc\<close> (\<open>oidc_introspect.go\<close>): the cache of
    introspection answers, what an accepted token had, and how long past its expiry it passes.
  \<^item> \<open>TlsUtil\<close> (\<open>tlsutil.go\<close>): the certificate a server name selects from the start on and through reloads
    from disk, the rotation a reload misses, client authentication and staples; a validated section starts a listener.  \<open>Metrics\<close> (\<open>metrics.go\<close>, \<open>shard.go\<close>):
    sharded counters and the histogram are exact, labels survive escaping.  \<open>TcpProxy\<close>
    (\<open>tcpproxy.go\<close>): the layer 4 proxy as a transition relation; no slot leaks and \<open>Stop\<close> closes
    every connection that is copied.
  \<^item> \<open>Observe\<close> (\<open>hardening.go\<close>, \<open>observability.go\<close>): recovery, the limit on bodies, request identifiers
    and the access log, nested as in \<open>setupHTTPServer\<close>; what a log line says, and when its status is wrong.

  \<^bold>\<open>Parameters.\<close>  \<open>math.Exp\<close> in the latency decay; \<open>golang.org/x/time/rate\<close>; the Redis client (its
  scripts are definitions); SHA-256 of a URL; DNS lookups; decoded Kubernetes responses and file
  reads; the exchanges of a health probe and of a proxied request; the parsers of HTTP dates and of
  URLs; the cryptography and decoders of tokens; the compressor of \<open>compress/gzip\<close>, of which it is assumed
  that the output of any writes and flushes, once closed, decompresses to what was written; the
  answers of the introspection endpoint; the query parser and the JSON encoder of the admin API.

  \<^bold>\<open>Not modelled.\<close>  The transport of bytes: the HTTP, TCP, TLS and QUIC servers and clients,
  reverse proxying of bodies and WebSockets, logging, tracing and the text around the metrics.
  Parsing of certificates, the OCSP exchange, ACME and secret providers are libraries and services.
  Decoding of the configuration file is done by a library.  The wiring and the shutdown of the
  server, mirroring and basic authentication are sequences of calls on those libraries.  Goroutines and tickers appear as the sequences of steps they perform.
\<close>

end
